(* ===== verification/Prelude.thy ===== *)
theory Prelude
  imports Complex_Main "HOL-Library.Sublist"
begin

text \<open>
  Shared vocabulary of the development: Python values as HOL values (text, JSON, dictionaries),
  the standard-library functions the source uses on them, and the list lemmas several
  components share.

  Conventions.  A Python \<open>str\<close> is a \<open>string\<close> (a char list); a literal of the source that is
  not ASCII is written as its UTF-8 bytes.  A \<open>dict\<close> whose insertion order matters is an
  association list with distinct keys; Python \<open>int\<close> is \<open>int\<close>, a Python \<open>float\<close> is the exact
  rational it stands for.  A fallible computation returns \<open>error + value\<close>.
\<close>

named_theorems wf_intros \<open>introduction rules for the well-formedness invariants\<close>
named_theorems py_simps \<open>evaluation of the Python helpers\<close>

section \<open>Errors\<close>

text \<open>
  A Python exception: \<open>Cancelled\<close> is \<open>asyncio.CancelledError\<close>, which is not an \<open>Exception\<close> and
  is therefore not caught by \<open>except Exception\<close>; every other exception carries its type name
  and its \<open>str()\<close>.
\<close>

datatype exn = Cancelled | Exn (exn_type: string) (exn_message: string)

fun exn_str :: "exn \<Rightarrow> string" where
  "exn_str Cancelled = ''''"
| "exn_str (Exn t m) = m"

fun is_exception :: "exn \<Rightarrow> bool" where
  "is_exception Cancelled = False"
| "is_exception (Exn t m) = True"

section \<open>Dictionaries in insertion order\<close>

type_synonym ('k, 'v) dict = "('k \<times> 'v) list"

text \<open>\<open>d[k] = v\<close>: an existing key keeps its position, a new one goes to the end.\<close>

fun dict_set :: "('k, 'v) dict \<Rightarrow> 'k \<Rightarrow> 'v \<Rightarrow> ('k, 'v) dict" where
  "dict_set [] k v = [(k, v)]"
| "dict_set ((k', v') # d) k v = (if k' = k then (k, v) # d else (k', v') # dict_set d k v)"

abbreviation dict_keys :: "('k, 'v) dict \<Rightarrow> 'k list" where
  "dict_keys d \<equiv> map fst d"

definition dict_setdefault :: "('k, 'v) dict \<Rightarrow> 'k \<Rightarrow> 'v \<Rightarrow> ('k, 'v) dict" where
  "dict_setdefault d k v = (if k \<in> set (dict_keys d) then d else dict_set d k v)"

definition dict_of :: "('k \<times> 'v) list \<Rightarrow> ('k, 'v) dict" where
  "dict_of kvs = foldl (\<lambda>d (k, v). dict_set d k v) [] kvs"

lemma map_of_dict_set [simp]: "map_of (dict_set d k v) = (map_of d)(k \<mapsto> v)"
  by (induction d k v rule: dict_set.induct) (auto simp: fun_eq_iff)

lemma keys_dict_set: "dict_keys (dict_set d k v) = (if k \<in> set (dict_keys d) then dict_keys d else dict_keys d @ [k])"
  by (induction d k v rule: dict_set.induct) auto

lemma set_keys_dict_set [simp]: "fst ` set (dict_set d k v) = insert k (fst ` set d)"
  by (induction d k v rule: dict_set.induct) auto

lemma distinct_keys_dict_set [wf_intros]:
  "distinct (dict_keys d) \<Longrightarrow> distinct (dict_keys (dict_set d k v))"
  unfolding keys_dict_set by auto

lemma set_keys_setdefault [simp]: "fst ` set (dict_setdefault d k v) = insert k (fst ` set d)"
  by (auto simp: dict_setdefault_def)

lemma distinct_keys_setdefault [wf_intros]:
  "distinct (dict_keys d) \<Longrightarrow> distinct (dict_keys (dict_setdefault d k v))"
  by (simp add: dict_setdefault_def distinct_keys_dict_set)

lemma distinct_foldl_dict_set:
  "distinct (dict_keys d) \<Longrightarrow> distinct (dict_keys (foldl (\<lambda>d (k, v). dict_set d k v) d kvs))"
  by (induction kvs arbitrary: d) (auto simp: distinct_keys_dict_set split: prod.splits)

lemma distinct_dict_of [wf_intros, simp]: "distinct (dict_keys (dict_of kvs))"
  unfolding dict_of_def by (rule distinct_foldl_dict_set) simp

lemma set_keys_foldl_dict_set:
  "fst ` set (foldl (\<lambda>d (k, v). dict_set d k v) d kvs) = fst ` set d \<union> fst ` set kvs"
  by (induction kvs arbitrary: d) (simp_all add: case_prod_beta)

lemma set_keys_dict_of [simp]: "fst ` set (dict_of kvs) = fst ` set kvs"
  by (simp add: dict_of_def set_keys_foldl_dict_set)

lemma dict_set_new: "k \<notin> fst ` set d \<Longrightarrow> dict_set d k v = d @ [(k, v)]"
  by (induction d k v rule: dict_set.induct) auto

lemma foldl_dict_set_new:
  "distinct (map fst kvs) \<Longrightarrow> fst ` set kvs \<inter> fst ` set d = {} \<Longrightarrow>
   foldl (\<lambda>d (k, v). dict_set d k v) d kvs = d @ kvs"
proof (induction kvs arbitrary: d)
  case (Cons kv kvs)
  then have "dict_set d (fst kv) (snd kv) = d @ [kv]" using dict_set_new[of "fst kv" d "snd kv"] by auto
  with Cons show ?case by (auto simp: case_prod_beta)
qed simp

lemma dict_of_id: "distinct (map fst kvs) \<Longrightarrow> dict_of kvs = kvs"
  unfolding dict_of_def by (subst foldl_dict_set_new) simp_all

section \<open>Text\<close>

text \<open>Decimal digits, as \<open>str(n)\<close>.\<close>

fun show_nat :: "nat \<Rightarrow> string" where
  "show_nat n = (if n < 10 then [char_of (48 + n)] else show_nat (n div 10) @ [char_of (48 + n mod 10)])"

declare show_nat.simps [simp del]

definition show_int :: "int \<Rightarrow> string" where
  "show_int i = (if i < 0 then CHR ''-'' # show_nat (nat (- i)) else show_nat (nat i))"

lemma show_nat_nonempty [simp]: "show_nat n \<noteq> []"
  by (subst show_nat.simps) simp

fun py_join :: "string \<Rightarrow> string list \<Rightarrow> string" where
  "py_join sep [] = []"
| "py_join sep [x] = x"
| "py_join sep (x # y # xs) = x @ sep @ py_join sep (y # xs)"

abbreviation newline :: string where
  "newline \<equiv> [CHR 10]"

definition is_space :: "char \<Rightarrow> bool" where
  "is_space c \<longleftrightarrow> of_char c \<in> {9, 10, 11, 12, 13, 28, 29, 30, 31, 32 :: nat}"

definition py_lstrip :: "string \<Rightarrow> string" where
  "py_lstrip s = dropWhile is_space s"

definition py_strip :: "string \<Rightarrow> string" where
  "py_strip s = rev (dropWhile is_space (rev (py_lstrip s)))"

definition is_digit :: "char \<Rightarrow> bool" where
  "is_digit c \<longleftrightarrow> 48 \<le> (of_char c :: nat) \<and> (of_char c :: nat) \<le> 57"

definition is_upper :: "char \<Rightarrow> bool" where
  "is_upper c \<longleftrightarrow> 65 \<le> (of_char c :: nat) \<and> (of_char c :: nat) \<le> 90"

definition is_lower :: "char \<Rightarrow> bool" where
  "is_lower c \<longleftrightarrow> 97 \<le> (of_char c :: nat) \<and> (of_char c :: nat) \<le> 122"

definition is_alnum :: "char \<Rightarrow> bool" where
  "is_alnum c \<longleftrightarrow> is_digit c \<or> is_upper c \<or> is_lower c"

definition lower_char :: "char \<Rightarrow> char" where
  "lower_char c = (if is_upper c then char_of ((of_char c :: nat) + 32) else c)"

definition upper_char :: "char \<Rightarrow> char" where
  "upper_char c = (if is_lower c then char_of ((of_char c :: nat) - 32) else c)"

abbreviation py_lower :: "string \<Rightarrow> string" where
  "py_lower s \<equiv> map lower_char s"

abbreviation py_upper :: "string \<Rightarrow> string" where
  "py_upper s \<equiv> map upper_char s"

text \<open>\<open>sub in s\<close> on strings.\<close>

definition py_contains :: "string \<Rightarrow> string \<Rightarrow> bool" where
  "py_contains s sub \<longleftrightarrow> sublist sub s"

text \<open>\<open>s.split()\<close>: maximal runs of non-space characters.\<close>

fun py_split_aux :: "string \<Rightarrow> string \<Rightarrow> string list" where
  "py_split_aux acc [] = (if acc = [] then [] else [rev acc])"
| "py_split_aux acc (c # cs) =
     (if is_space c then (if acc = [] then py_split_aux [] cs else rev acc # py_split_aux [] cs)
      else py_split_aux (c # acc) cs)"

definition py_split :: "string \<Rightarrow> string list" where
  "py_split s = py_split_aux [] s"

lemma py_split_word: "w \<in> set (py_split s) \<Longrightarrow> \<forall>c \<in> set w. \<not> is_space c"
proof -
  have "\<forall>c \<in> set acc. \<not> is_space c \<Longrightarrow> w \<in> set (py_split_aux acc s) \<Longrightarrow> \<forall>c \<in> set w. \<not> is_space c" for acc
  proof (induction s arbitrary: acc)
    case (Cons c s)
    show ?case
    proof (cases "is_space c")
      case True
      with Cons.prems Cons.IH[of "[]"] show ?thesis by (cases "acc = []") auto
    next
      case False
      with Cons.prems Cons.IH[of "c # acc"] show ?thesis by simp
    qed
  qed (simp split: if_splits)
  from this[of "[]"] show "w \<in> set (py_split s) \<Longrightarrow> ?thesis" by (simp add: py_split_def)
qed

lemma py_strip_no_space [simp]: "py_strip s = [] \<longleftrightarrow> (\<forall>c \<in> set s. is_space c)"
proof -
  have "py_strip s = [] \<longleftrightarrow> (\<forall>c \<in> set (dropWhile is_space s). is_space c)"
    by (simp add: py_strip_def py_lstrip_def)
  also have "\<dots> \<longleftrightarrow> (\<forall>c \<in> set s. is_space c)"
    by (induction s) auto
  finally show ?thesis .
qed

text \<open>Reading in text mode turns every line end into a newline.\<close>

fun universal_newlines :: "string \<Rightarrow> string" where
  "universal_newlines [] = []"
| "universal_newlines [c] = [if c = CHR 13 then CHR 10 else c]"
| "universal_newlines (c # d # cs) =
     (if c = CHR 13 then (if d = CHR 10 then CHR 10 # universal_newlines cs else CHR 10 # universal_newlines (d # cs))
      else c # universal_newlines (d # cs))"

lemma universal_newlines_no_return [simp]: "CHR 13 \<notin> set (universal_newlines s)"
  by (induction s rule: universal_newlines.induct) auto

lemma universal_newlines_id: "CHR 13 \<notin> set s \<Longrightarrow> universal_newlines s = s"
  by (induction s rule: universal_newlines.induct) auto

text \<open>\<open>repr\<close> of a string: quotes, backslashes and the control characters escaped.\<close>

definition py_repr_char :: "char \<Rightarrow> char \<Rightarrow> string" where
  "py_repr_char q c =
     (if c = q then [CHR 92, c] else if c = CHR 92 then [CHR 92, CHR 92]
      else if c = CHR 10 then [CHR 92, CHR ''n''] else if c = CHR 13 then [CHR 92, CHR ''r'']
      else if c = CHR 9 then [CHR 92, CHR ''t''] else [c])"

definition py_repr :: "string \<Rightarrow> string" where
  "py_repr s = (let q = (if CHR 39 \<in> set s \<and> CHR 34 \<notin> set s then CHR 34 else CHR 39)
     in [q] @ concat (map (py_repr_char q) s) @ [q])"

text \<open>\<open>repr\<close> of a list of strings.\<close>

definition repr_list :: "string list \<Rightarrow> string" where
  "repr_list xs = ''['' @ py_join '', '' (map py_repr xs) @ '']''"

section \<open>JSON\<close>

text \<open>
  A JSON value as \<open>json.loads\<close> builds it.  A float keeps the text \<open>repr\<close> prints for it; an
  object is a dictionary in insertion order.
\<close>

datatype json = JNull | JBool bool | JInt int | JFloat string | JStr string
  | JList "json list" | JObj "(string \<times> json) list"

type_synonym args = "(string, json) dict"

text \<open>\<open>bool(value)\<close> of a JSON value.\<close>

fun json_truthy :: "json \<Rightarrow> bool" where
  "json_truthy JNull = False"
| "json_truthy (JBool b) = b"
| "json_truthy (JInt i) = (i \<noteq> 0)"
| "json_truthy (JFloat r) = (r \<noteq> ''0.0'' \<and> r \<noteq> ''-0.0'')"
| "json_truthy (JStr s) = (s \<noteq> '''')"
| "json_truthy (JList xs) = (xs \<noteq> [])"
| "json_truthy (JObj kvs) = (kvs \<noteq> [])"

definition json_escape_char :: "char \<Rightarrow> string" where
  "json_escape_char c =
     (if c = CHR 34 then [CHR 92, CHR 34] else if c = CHR 92 then [CHR 92, CHR 92]
      else if c = CHR 10 then [CHR 92, CHR ''n''] else if c = CHR 13 then [CHR 92, CHR ''r'']
      else if c = CHR 9 then [CHR 92, CHR ''t''] else [c])"

definition json_string :: "string \<Rightarrow> string" where
  "json_string s = [CHR 34] @ concat (map json_escape_char s) @ [CHR 34]"

text \<open>\<open>json.dumps\<close> with its default separators.\<close>

fun json_dumps :: "json \<Rightarrow> string" where
  "json_dumps JNull = ''null''"
| "json_dumps (JBool b) = (if b then ''true'' else ''false'')"
| "json_dumps (JInt i) = show_int i"
| "json_dumps (JFloat r) = r"
| "json_dumps (JStr s) = json_string s"
| "json_dumps (JList js) = ''['' @ py_join '', '' (map json_dumps js) @ '']''"
| "json_dumps (JObj kvs) =
     ''{'' @ py_join '', '' (map (\<lambda>(k, v). json_string k @ '': '' @ json_dumps v) kvs) @ ''}''"

text \<open>\<open>repr\<close> of a value, as \<open>f"{a}"\<close> prints a list or a dictionary.\<close>

fun py_repr_json :: "json \<Rightarrow> string" where
  "py_repr_json JNull = ''None''"
| "py_repr_json (JBool b) = (if b then ''True'' else ''False'')"
| "py_repr_json (JInt i) = show_int i"
| "py_repr_json (JFloat r) = r"
| "py_repr_json (JStr s) = py_repr s"
| "py_repr_json (JList js) = ''['' @ py_join '', '' (map py_repr_json js) @ '']''"
| "py_repr_json (JObj kvs) =
     ''{'' @ py_join '', '' (map (\<lambda>(k, v). py_repr k @ '': '' @ py_repr_json v) kvs) @ ''}''"

text \<open>The code-point order of Python's string comparison, and the key sort of \<open>sort_keys=True\<close>.\<close>

fun str_le :: "string \<Rightarrow> string \<Rightarrow> bool" where
  "str_le [] t = True"
| "str_le (c # s) [] = False"
| "str_le (c # s) (d # t) =
     ((of_char c :: nat) < of_char d \<or> (c = d \<and> str_le s t))"

fun insert_key :: "string \<times> 'v \<Rightarrow> (string \<times> 'v) list \<Rightarrow> (string \<times> 'v) list" where
  "insert_key x [] = [x]"
| "insert_key x (y # ys) = (if str_le (fst x) (fst y) then x # y # ys else y # insert_key x ys)"

fun sort_keys :: "(string \<times> 'v) list \<Rightarrow> (string \<times> 'v) list" where
  "sort_keys [] = []"
| "sort_keys (x # xs) = insert_key x (sort_keys xs)"

fun json_sorted :: "json \<Rightarrow> json" where
  "json_sorted (JList js) = JList (map json_sorted js)"
| "json_sorted (JObj kvs) = JObj (sort_keys (map (\<lambda>(k, v). (k, json_sorted v)) kvs))"
| "json_sorted j = j"

definition dumps_sorted :: "args \<Rightarrow> string" where
  "dumps_sorted a = json_dumps (json_sorted (JObj a))"

fun insert_str :: "string \<Rightarrow> string list \<Rightarrow> string list" where
  "insert_str x [] = [x]"
| "insert_str x (y # ys) = (if str_le x y then x # y # ys else y # insert_str x ys)"

fun sort_strs :: "string list \<Rightarrow> string list" where
  "sort_strs [] = []"
| "sort_strs (x # xs) = insert_str x (sort_strs xs)"

lemma set_insert_str [simp]: "set (insert_str x xs) = insert x (set xs)"
  by (induction xs) auto

lemma set_sort_strs [simp]: "set (sort_strs xs) = set xs"
  by (induction xs) auto

lemma length_sort_strs [simp]: "length (sort_strs xs) = length xs"
proof -
  have ins: "length (insert_str x ys) = Suc (length ys)" for x ys
    by (induction ys) auto
  show ?thesis by (induction xs) (auto simp: ins)
qed

section \<open>Rounding\<close>

text \<open>\<open>round(x, n)\<close> on an exact rational: to the nearest multiple of \<open>10 ^ -n\<close>, ties to even.\<close>

definition round_half_even :: "rat \<Rightarrow> int" where
  "round_half_even x = (let f = \<lfloor>x\<rfloor>; d = x - of_int f in
     if d < 1/2 then f else if d > 1/2 then f + 1 else if even f then f else f + 1)"

definition round_dec :: "nat \<Rightarrow> rat \<Rightarrow> rat" where
  "round_dec n x = of_int (round_half_even (x * 10 ^ n)) / 10 ^ n"

lemma round_half_even_int [simp]: "round_half_even (of_int i) = i"
  by (simp add: round_half_even_def Let_def)

lemma round_half_even_bounds: "of_int (round_half_even x) \<le> x + 1/2" "x - 1/2 \<le> of_int (round_half_even x)"
  using of_int_floor_le[of x] floor_correct[of x] by (auto simp: round_half_even_def Let_def) linarith+

lemma round_half_even_mono: "x \<le> y \<Longrightarrow> round_half_even x \<le> round_half_even y"
proof -
  assume xy: "x \<le> y"
  show ?thesis
  proof (cases "\<lfloor>x\<rfloor> = \<lfloor>y\<rfloor>")
    case True
    with xy show ?thesis by (auto simp: round_half_even_def Let_def)
  next
    case False
    with floor_mono[OF xy] have "\<lfloor>x\<rfloor> + 1 \<le> \<lfloor>y\<rfloor>" by linarith
    moreover have "round_half_even x \<le> \<lfloor>x\<rfloor> + 1" "\<lfloor>y\<rfloor> \<le> round_half_even y"
      by (auto simp: round_half_even_def Let_def)
    ultimately show ?thesis by linarith
  qed
qed

lemma round_dec_mono: "x \<le> y \<Longrightarrow> round_dec n x \<le> round_dec n y"
  by (simp add: round_dec_def divide_right_mono round_half_even_mono mult_right_mono)

lemma round_dec_int [simp]: "round_dec n (of_int i) = of_int i"
proof -
  have "of_int i * 10 ^ n = (of_int (i * 10 ^ n) :: rat)" by simp
  then show ?thesis unfolding round_dec_def by (metis round_half_even_int nonzero_mult_div_cancel_right of_int_power of_int_mult of_int_numeral power_not_zero zero_neq_numeral)
qed

lemma round_dec_01 [simp]: "round_dec n 0 = 0" "round_dec n 1 = 1"
  using round_dec_int[of n 0] round_dec_int[of n 1] by simp_all

lemma round_dec_unit: "0 \<le> x \<Longrightarrow> x \<le> 1 \<Longrightarrow> 0 \<le> round_dec n x \<and> round_dec n x \<le> 1"
  using round_dec_mono[of 0 x n] round_dec_mono[of x 1 n] by simp

section \<open>Lists\<close>

text \<open>\<open>xs[-n:]\<close> for \<open>n \<ge> 1\<close>.\<close>

definition last_n :: "nat \<Rightarrow> 'a list \<Rightarrow> 'a list" where
  "last_n n xs = drop (length xs - n) xs"

lemma length_last_n [simp]: "length (last_n n xs) = min n (length xs)"
  by (simp add: last_n_def)

lemma last_n_all [simp]: "length xs \<le> n \<Longrightarrow> last_n n xs = xs"
  by (simp add: last_n_def)

lemma suffix_last_n: "suffix (last_n n xs) xs"
  by (simp add: last_n_def suffix_drop)

lemma set_last_n: "set (last_n n xs) \<subseteq> set xs"
  by (simp add: last_n_def set_drop_subset)

lemma last_n_append_single: "n \<ge> 1 \<Longrightarrow> last_n n (xs @ [x]) = last_n (n - 1) xs @ [x]"
  by (cases n) (auto simp: last_n_def Suc_diff_le not_le)

text \<open>\<open>enumerate(xs)\<close> is \<open>List.enumerate\<close>; the index list of the loop \<open>for i in range(n)\<close> is \<open>[0..<n]\<close>.\<close>

lemma filter_length_eq_iff: "length (filter P xs) = length xs \<longleftrightarrow> (\<forall>x \<in> set xs. P x)"
proof (induction xs)
  case Nil
  show ?case by simp
next
  case (Cons x xs)
  have "length (filter P xs) \<le> length xs" by simp
  then have "length (filter P xs) \<noteq> Suc (length xs)" by linarith
  with Cons show ?case by auto
qed

text \<open>How a count moves when one element is replaced.\<close>

lemma length_filter_update:
  "i < length xs \<Longrightarrow>
   length (filter P (xs[i := t])) + (if P (xs ! i) then 1 else 0) = length (filter P xs) + (if P t then 1 else 0)"
proof (induction xs arbitrary: i)
  case (Cons x xs)
  show ?case
  proof (cases i)
    case (Suc j)
    with Cons show ?thesis by fastforce
  qed (use Cons.prems in simp)
qed simp

lemma find_SomeD: "find P xs = Some x \<Longrightarrow> x \<in> set xs \<and> P x"
  by (induction xs) (auto split: if_splits)

lemma distinct_map_filter_pred: "distinct (map f xs) \<Longrightarrow> distinct (map f (filter P xs))"
  by (induction xs) auto

text \<open>First-wins de-duplication: the loop \<open>if key in seen: continue; seen.add(key); out.append(it)\<close>.\<close>

fun dedup_first :: "('a \<Rightarrow> 'k) \<Rightarrow> 'k set \<Rightarrow> 'a list \<Rightarrow> 'a list" where
  "dedup_first key seen [] = []"
| "dedup_first key seen (x # xs) =
     (if key x \<in> seen then dedup_first key seen xs
      else x # dedup_first key (insert (key x) seen) xs)"

lemma dedup_first_append:
  "dedup_first key seen (xs @ ys) =
     dedup_first key seen xs @ dedup_first key (seen \<union> key ` set xs) ys"
  by (induction xs arbitrary: seen) (auto simp: insert_absorb)

lemma set_dedup_first_keys: "key ` set (dedup_first key seen xs) = key ` set xs - seen"
  by (induction xs arbitrary: seen) auto

lemma set_dedup_first: "set (dedup_first key seen xs) \<subseteq> set xs"
proof (induction xs arbitrary: seen)
  case (Cons x xs)
  show ?case using Cons[of seen] Cons[of "insert (key x) seen"] by auto
qed simp

lemma distinct_dedup_first: "distinct (map key (dedup_first key seen xs))"
proof (induction xs arbitrary: seen)
  case Nil
  show ?case by simp
next
  case (Cons x xs)
  have "key x \<notin> key ` set (dedup_first key (insert (key x) seen) xs)"
    by (simp add: set_dedup_first_keys)
  with Cons show ?case by auto
qed

lemma dedup_first_idem:
  "dedup_first key seen (dedup_first key seen' xs) = dedup_first key (seen \<union> seen') xs"
proof (induction xs arbitrary: seen seen')
  case Nil
  show ?case by simp
next
  case (Cons x xs)
  show ?case
  proof (cases "key x \<in> seen'")
    case True
    then show ?thesis using Cons by simp
  next
    case False
    then show ?thesis
      using Cons[of seen "insert (key x) seen'"] Cons[of "insert (key x) seen" "insert (key x) seen'"]
      by (auto simp: insert_absorb)
  qed
qed

text \<open>
  De-duplicating chunk by chunk and again over the concatenation is de-duplicating once: the fact
  under the scatter-gather extraction.
\<close>

lemma dedup_first_concat:
  "dedup_first key seen (concat (map (dedup_first key {}) xss)) = dedup_first key seen (concat xss)"
proof (induction xss arbitrary: seen)
  case Nil
  show ?case by simp
next
  case (Cons xs xss)
  then show ?case
    by (simp add: dedup_first_append dedup_first_idem set_dedup_first_keys)
qed

text \<open>\<open>max(xs, key=f)\<close> and \<open>min(xs, key=f)\<close>: the first of the extreme elements.\<close>

definition py_max :: "('a \<Rightarrow> 'b::linorder) \<Rightarrow> 'a list \<Rightarrow> 'a option" where
  "py_max f xs = (case xs of [] \<Rightarrow> None | x # ys \<Rightarrow> Some (foldl (\<lambda>b y. if f b < f y then y else b) x ys))"

definition py_min :: "('a \<Rightarrow> 'b::linorder) \<Rightarrow> 'a list \<Rightarrow> 'a option" where
  "py_min f xs = (case xs of [] \<Rightarrow> None | x # ys \<Rightarrow> Some (foldl (\<lambda>b y. if f y < f b then y else b) x ys))"

lemma py_max_fold:
  fixes f :: "'a \<Rightarrow> 'b::linorder"
  shows "foldl (\<lambda>b y. if f b < f y then y else b) x ys \<in> set (x # ys) \<and>
    (\<forall>z \<in> set (x # ys). f z \<le> f (foldl (\<lambda>b y. if f b < f y then y else b) x ys))"
proof (induction ys arbitrary: x)
  case (Cons y ys)
  show ?case using Cons[of x] Cons[of y] by auto
qed simp

lemma py_min_fold:
  fixes f :: "'a \<Rightarrow> 'b::linorder"
  shows "foldl (\<lambda>b y. if f y < f b then y else b) x ys \<in> set (x # ys) \<and>
    (\<forall>z \<in> set (x # ys). f (foldl (\<lambda>b y. if f y < f b then y else b) x ys) \<le> f z)"
proof (induction ys arbitrary: x)
  case (Cons y ys)
  show ?case using Cons[of x] Cons[of y] by auto
qed simp

lemma py_max_None [simp]: "py_max f xs = None \<longleftrightarrow> xs = []" "py_max f [] = None"
  by (cases xs) (auto simp: py_max_def)

lemma py_min_None [simp]: "py_min f xs = None \<longleftrightarrow> xs = []" "py_min f [] = None"
  by (cases xs) (auto simp: py_min_def)

lemma py_max_Some: "py_max f xs = Some x \<Longrightarrow> x \<in> set xs \<and> (\<forall>y \<in> set xs. f y \<le> f x)"
proof (cases xs)
  case (Cons a ys)
  assume "py_max f xs = Some x"
  with Cons have "x = foldl (\<lambda>b y. if f b < f y then y else b) a ys" by (simp add: py_max_def)
  with py_max_fold[of f a ys] show ?thesis by (simp add: Cons)
qed simp

lemma py_min_Some: "py_min f xs = Some x \<Longrightarrow> x \<in> set xs \<and> (\<forall>y \<in> set xs. f x \<le> f y)"
proof (cases xs)
  case (Cons a ys)
  assume "py_min f xs = Some x"
  with Cons have "x = foldl (\<lambda>b y. if f y < f b then y else b) a ys" by (simp add: py_min_def)
  with py_min_fold[of f a ys] show ?thesis by (simp add: Cons)
qed simp

end
