(* ===== verification/Retry.thy ===== *)
theory Retry
  imports Prelude
begin

text \<open>
  The retry policy of \<open>src/src/harness/providers/retry.py\<close>.  The retried function, the event
  loop's clock, the random jitter and the sleep are operations on a world \<open>'w\<close>.
\<close>

record retry_policy =
  max_attempts :: int
  base_delay :: rat
  max_delay :: rat
  max_total_seconds :: rat
  retryable_statuses :: "int list"

definition default_retry_policy :: retry_policy where
  "default_retry_policy = \<lparr>max_attempts = 5, base_delay = 1, max_delay = 30,
     max_total_seconds = 120, retryable_statuses = [429, 500, 502, 503, 504]\<rparr>"

text \<open>What the policy reads of an exception.\<close>

record api_exn =
  ae_exn :: exn
  ae_status_code :: "int option"
  ae_connection :: bool \<comment> \<open>a \<open>ConnectionError\<close> or \<open>TimeoutError\<close>\<close>
  ae_retry_after :: "rat option"

datatype retry_error = RetryBudgetExceeded string | Reraised api_exn

record 'w retry_world =
  rw_time :: "'w \<Rightarrow> rat"
  rw_jitter :: "'w \<Rightarrow> rat \<times> 'w" \<comment> \<open>\<open>random.uniform(0, base_delay)\<close>\<close>
  rw_sleep :: "rat \<Rightarrow> 'w \<Rightarrow> 'w"

definition retryable :: "retry_policy \<Rightarrow> api_exn \<Rightarrow> bool" where
  "retryable p e = (case ae_status_code e of
     None \<Rightarrow> ae_connection e
   | Some s \<Rightarrow> s \<in> set (retryable_statuses p))"

definition retry_delay :: "retry_policy \<Rightarrow> nat \<Rightarrow> api_exn \<Rightarrow> rat \<Rightarrow> rat" where
  "retry_delay p attempt e jitter = (case ae_retry_after e of
     Some r \<Rightarrow> r
   | None \<Rightarrow> min (base_delay p * 2 ^ attempt + jitter) (max_delay p))"

text \<open>
  One pass of the loop body per attempt.  The jitter is drawn only when there is no
  \<open>retry_after\<close>.
\<close>

fun retry_loop :: "retry_policy \<Rightarrow> 'w retry_world \<Rightarrow> ('w \<Rightarrow> (api_exn + 'a) \<times> 'w) \<Rightarrow> rat \<Rightarrow>
    nat list \<Rightarrow> 'w \<Rightarrow> (retry_error + 'a) \<times> 'w" where
  "retry_loop p rw fn start [] w = (Inl (RetryBudgetExceeded
     (''exhausted '' @ show_int (max_attempts p) @ '' attempts'')), w)"
| "retry_loop p rw fn start (attempt # rest) w =
     (case fn w of
        (Inr v, w) \<Rightarrow> (Inr v, w)
      | (Inl e, w) \<Rightarrow>
          if is_exception (ae_exn e) \<and> retryable p e then
            if rw_time rw w - start \<ge> max_total_seconds p
            then (Inl (RetryBudgetExceeded ''retry budget exceeded''), w)
            else if ae_retry_after e \<noteq> None
              then retry_loop p rw fn start rest (rw_sleep rw (retry_delay p attempt e 0) w)
            else (let (j, w) = rw_jitter rw w in
              retry_loop p rw fn start rest (rw_sleep rw (retry_delay p attempt e j) w))
          else (Inl (Reraised e), w))"

definition retry_run :: "retry_policy \<Rightarrow> 'w retry_world \<Rightarrow> ('w \<Rightarrow> (api_exn + 'a) \<times> 'w) \<Rightarrow> 'w \<Rightarrow>
    (retry_error + 'a) \<times> 'w" where
  "retry_run p rw fn w = retry_loop p rw fn (rw_time rw w) [0..<nat (max_attempts p)] w"

text \<open>The calls of \<open>fn\<close> are bounded, for any count of them the world keeps.\<close>

lemma retry_loop_calls:
  assumes fn: "\<And>w r w'. fn w = (r, w') \<Longrightarrow> calls w' = Suc (calls w)"
    and sl: "\<And>d w. calls (rw_sleep rw d w) = calls w"
    and ji: "\<And>w j w'. rw_jitter rw w = (j, w') \<Longrightarrow> calls w' = calls w"
  shows "retry_loop p rw fn start as w = (r, w') \<Longrightarrow> calls w' \<le> calls w + length as"
proof (induction as arbitrary: w r w')
  case Nil
  then show ?case by simp
next
  case (Cons a as)
  obtain o1 w1 where f: "fn w = (o1, w1)" by fastforce
  note c1 = fn[OF f]
  show ?case
  proof (cases o1)
    case (Inr v)
    with Cons.prems f c1 show ?thesis by simp
  next
    case (Inl e)
    obtain j w2 where j: "rw_jitter rw w1 = (j, w2)" by fastforce
    have "retry_loop p rw fn start as w3 = (r, w') \<Longrightarrow> calls w3 = calls w1 \<Longrightarrow>
        calls w' \<le> calls w + length (a # as)" for w3
      using Cons.IH[of w3 r w'] c1 by simp
    with Cons.prems f Inl c1 j ji[OF j] sl show ?thesis
      by (auto split: if_splits)
  qed
qed

text \<open>Every failure before the budgets run out is retryable: any other is raised at once.\<close>

lemma retry_loop_not_retryable:
  "fn w = (Inl e, w') \<Longrightarrow> \<not> retryable p e \<Longrightarrow>
   retry_loop p rw fn start (a # as) w = (Inl (Reraised e), w')"
  by simp

lemma retry_loop_first_success:
  "fn w = (Inr v, w') \<Longrightarrow> retry_loop p rw fn start (a # as) w = (Inr v, w')"
  by simp

lemma retry_delay_capped:
  "ae_retry_after e = None \<Longrightarrow> retry_delay p a e j \<le> max_delay p"
  by (simp add: retry_delay_def)

section \<open>Properties of the policy\<close>

text \<open>
  The wrapped call is made at most \<open>max_attempts\<close> times, however it fails, and an exception
  that is not retryable is re-raised after the first call.  \<open>calls\<close> is any count of the calls
  that sleeping and drawing the jitter leave alone.
\<close>

theorem retry_attempts_bounded:
  assumes "\<forall>w. calls (snd (fn w)) = Suc (calls w)" and "\<forall>d w. calls (rw_sleep rw d w) = calls w"
    and "\<forall>w. calls (snd (rw_jitter rw w)) = calls w"
  shows "calls (snd (retry_run p rw fn w)) \<le> calls w + nat (max_attempts p)"
  using retry_loop_calls[of fn calls rw p "rw_time rw w" "[0..<nat (max_attempts p)]" w]
  by (metis assms diff_zero length_upt prod.collapse retry_run_def snd_conv)

theorem retry_attempts_bounded_witness:
  "snd (retry_run default_retry_policy \<lparr>rw_time = (\<lambda>w. 0), rw_jitter = (\<lambda>w. (0, w)), rw_sleep = (\<lambda>d w. w)\<rparr>
     (\<lambda>w. (Inl \<lparr>ae_exn = Exn ''E'' '''', ae_status_code = Some 429, ae_connection = False, ae_retry_after = None\<rparr> :: api_exn + nat, Suc w)) 0) \<le> 5"
  using retry_attempts_bounded[of "\<lambda>w. w" "\<lambda>w. (Inl \<lparr>ae_exn = Exn ''E'' '''', ae_status_code = Some 429,
      ae_connection = False, ae_retry_after = None\<rparr> :: api_exn + nat, Suc w)"
    "\<lparr>rw_time = (\<lambda>w. 0), rw_jitter = (\<lambda>w. (0, w)), rw_sleep = (\<lambda>d w. w)\<rparr>" default_retry_policy 0]
  by (simp add: default_retry_policy_def)

end
