(* ===== verification/Messages.thy ===== *)
theory Messages
  imports Prelude
begin

text \<open>
  The transcript data model of \<open>src/src/harness/messages.py\<close>: content blocks, messages and the
  transcript, with the constructors the loop uses, and the pairing invariant every transcript
  sent to a provider has to satisfy: a tool result answers a tool call of the assistant turn its
  run of results follows.

  Not modelled: the fields \<open>created_at\<close> and \<open>id\<close> of a message (a clock reading and a random
  identifier no operation of the harness reads) and the \<open>kind\<close> tags, which the datatype's
  constructors are.
\<close>

section \<open>Blocks, messages, transcripts\<close>

datatype role = RoleUser | RoleAssistant | RoleSystem

datatype block =
    TextBlock (block_text: string)
  | ToolCall (call_id: string) (call_name: string) (call_args: args)
  | ToolResult (result_call_id: string) (result_content: string) (result_is_error: bool)
  | ReasoningBlock string args

definition malformed_args_key :: string where
  "malformed_args_key = ''__malformed_json__''"

record message =
  msg_role :: role
  msg_blocks :: "block list"

record transcript =
  t_messages :: "message list"
  t_system :: "string option"

definition user_text :: "string \<Rightarrow> message" where
  "user_text s = \<lparr>msg_role = RoleUser, msg_blocks = [TextBlock s]\<rparr>"

definition assistant_text :: "string \<Rightarrow> block option \<Rightarrow> message" where
  "assistant_text s reasoning = \<lparr>msg_role = RoleAssistant,
     msg_blocks = (case reasoning of None \<Rightarrow> [] | Some r \<Rightarrow> [r]) @ [TextBlock s]\<rparr>"

definition assistant_tool_call :: "block \<Rightarrow> block option \<Rightarrow> message" where
  "assistant_tool_call call reasoning = \<lparr>msg_role = RoleAssistant,
     msg_blocks = (case reasoning of None \<Rightarrow> [] | Some r \<Rightarrow> [r]) @ [call]\<rparr>"

definition tool_result_message :: "block \<Rightarrow> message" where
  "tool_result_message r = \<lparr>msg_role = RoleUser, msg_blocks = [r]\<rparr>"

definition t_append :: "message \<Rightarrow> transcript \<Rightarrow> transcript" where
  "t_append m t = t\<lparr>t_messages := t_messages t @ [m]\<rparr>"

definition t_extend :: "message list \<Rightarrow> transcript \<Rightarrow> transcript" where
  "t_extend ms t = t\<lparr>t_messages := t_messages t @ ms\<rparr>"

definition t_last :: "transcript \<Rightarrow> message option" where
  "t_last t = (if t_messages t = [] then None else Some (last (t_messages t)))"

definition t_len :: "transcript \<Rightarrow> nat" where
  "t_len t = length (t_messages t)"

lemma t_messages_append [simp]: "t_messages (t_append m t) = t_messages t @ [m]"
  by (simp add: t_append_def)

lemma t_system_append [simp]: "t_system (t_append m t) = t_system t"
  by (simp add: t_append_def)

section \<open>Tool calls and their results\<close>

fun is_tool_result :: "block \<Rightarrow> bool" where
  "is_tool_result (ToolResult i c e) = True"
| "is_tool_result b = False"

fun is_tool_call :: "block \<Rightarrow> bool" where
  "is_tool_call (ToolCall i n a) = True"
| "is_tool_call b = False"

fun is_reasoning :: "block \<Rightarrow> bool" where
  "is_reasoning (ReasoningBlock t m) = True"
| "is_reasoning b = False"

definition has_tool_result :: "message \<Rightarrow> bool" where
  "has_tool_result m = list_ex is_tool_result (msg_blocks m)"

definition calls_in :: "message \<Rightarrow> string set" where
  "calls_in m = call_id ` set (filter is_tool_call (msg_blocks m))"

definition results_in :: "message \<Rightarrow> string set" where
  "results_in m = result_call_id ` set (filter is_tool_result (msg_blocks m))"

definition all_calls :: "message list \<Rightarrow> string set" where
  "all_calls ms = (\<Union>m \<in> set ms. calls_in m)"

definition all_results :: "message list \<Rightarrow> string set" where
  "all_results ms = (\<Union>m \<in> set ms. results_in m)"

text \<open>No result whose call is missing: what both provider APIs require.\<close>

definition orphan_free :: "message list \<Rightarrow> bool" where
  "orphan_free ms \<longleftrightarrow> all_results ms \<subseteq> all_calls ms"

text \<open>
  The stronger invariant the loop maintains: \<open>available\<close> holds the calls a run of tool results
  may still answer, that is, the calls of the message before the run and of the run itself.
\<close>

definition avail_next :: "string set \<Rightarrow> message \<Rightarrow> string set" where
  "avail_next av m = calls_in m \<union> (if has_tool_result m then av else {})"

fun paired_from :: "string set \<Rightarrow> message list \<Rightarrow> bool" where
  "paired_from av [] = True"
| "paired_from av (m # ms) \<longleftrightarrow> results_in m \<subseteq> av \<and> paired_from (avail_next av m) ms"

abbreviation paired :: "message list \<Rightarrow> bool" where
  "paired \<equiv> paired_from {}"

definition avail_after :: "string set \<Rightarrow> message list \<Rightarrow> string set" where
  "avail_after av ms = foldl avail_next av ms"

lemma avail_after_simps [simp]:
  "avail_after av [] = av"
  "avail_after av (m # ms) = avail_after (avail_next av m) ms"
  "avail_after av (ms @ ms') = avail_after (avail_after av ms) ms'"
  by (simp_all add: avail_after_def)

lemma no_results_if_none [simp]: "\<not> has_tool_result m \<Longrightarrow> results_in m = {}"
  by (auto simp: has_tool_result_def results_in_def list_ex_iff filter_empty_conv)

lemma avail_next_mono: "av \<subseteq> av' \<Longrightarrow> avail_next av m \<subseteq> avail_next av' m"
  by (auto simp: avail_next_def)

lemma paired_from_mono: "paired_from av ms \<Longrightarrow> av \<subseteq> av' \<Longrightarrow> paired_from av' ms"
proof (induction ms arbitrary: av av')
  case (Cons m ms)
  then show ?case using avail_next_mono[OF Cons.prems(2), of m] by auto
qed simp

lemma paired_from_append:
  "paired_from av (ms @ ms') \<longleftrightarrow> paired_from av ms \<and> paired_from (avail_after av ms) ms'"
  by (induction ms arbitrary: av) auto

lemma paired_from_cut:
  assumes "paired_from av (m # ms)" and "\<not> has_tool_result m"
  shows "paired_from av' (m # ms)"
  using assms paired_from_mono[of "calls_in m" ms "calls_in m"]
  by (simp add: avail_next_def)

lemma paired_from_results: "paired_from av ms \<Longrightarrow> all_results ms \<subseteq> av \<union> all_calls ms"
proof (induction ms arbitrary: av)
  case Nil
  then show ?case by (simp add: all_results_def)
next
  case (Cons m ms)
  from Cons.prems have r: "results_in m \<subseteq> av" and ih: "all_results ms \<subseteq> avail_next av m \<union> all_calls ms"
    using Cons.IH by auto
  have "avail_next av m \<subseteq> av \<union> calls_in m" by (auto simp: avail_next_def)
  with r ih show ?case by (auto simp: all_results_def all_calls_def)
qed

lemma paired_orphan_free: "paired ms \<Longrightarrow> orphan_free ms"
  using paired_from_results[of "{}" ms] by (simp add: orphan_free_def)

lemma text_message_blocks [simp]:
  "has_tool_result (user_text s) = False" "calls_in (user_text s) = {}"
  "results_in (user_text s) = {}"
  "has_tool_result (tool_result_message (ToolResult i c e))"
  "results_in (tool_result_message (ToolResult i c e)) = {i}"
  "calls_in (tool_result_message (ToolResult i c e)) = {}"
  by (simp_all add: user_text_def tool_result_message_def has_tool_result_def calls_in_def
      results_in_def)

lemma paired_append_user_text [wf_intros]:
  "paired ms \<Longrightarrow> paired (ms @ [user_text s])"
  by (simp add: paired_from_append)

lemma assistant_text_no_result [simp]:
  "results_in (assistant_text s None) = {}" "has_tool_result (assistant_text s None) = False"
  by (simp_all add: assistant_text_def results_in_def has_tool_result_def)

end
