(* ===== verification/Providers.thy ===== *)
theory Providers
  imports Messages
begin

text \<open>
  The provider side of \<open>src/src/harness/providers/\<close>: stream events (\<open>events.py\<close>), the response
  record and \<open>accumulate\<close> (\<open>base.py\<close>), the assistant message built from a response
  (\<open>messages.py\<close>, \<open>Message.from_assistant_response\<close>), and the retry policy (\<open>retry.py\<close>).

  \<open>json.loads\<close> is the parameter \<open>loads\<close> of \<open>accumulate\<close>: \<open>None\<close> where it raises
  \<open>JSONDecodeError\<close>.  The vendor SDKs that produce the events are not modelled.
\<close>

section \<open>Responses and events\<close>

record tool_call_ref =
  ref_id :: string
  ref_name :: string
  ref_args :: json

record provider_response =
  pr_text :: "string option"
  pr_tool_calls :: "tool_call_ref list"
  pr_reasoning_text :: "string option"
  pr_reasoning_metadata :: args
  pr_input_tokens :: int
  pr_output_tokens :: int
  pr_reasoning_tokens :: int
  pr_cache_read :: int
  pr_cache_creation :: int

definition pr_is_tool_call :: "provider_response \<Rightarrow> bool" where
  "pr_is_tool_call r \<longleftrightarrow> pr_tool_calls r \<noteq> []"

definition pr_is_final :: "provider_response \<Rightarrow> bool" where
  "pr_is_final r \<longleftrightarrow> pr_text r \<noteq> None \<and> pr_tool_calls r = []"

definition pr_tool_call_id :: "provider_response \<Rightarrow> string option" where
  "pr_tool_call_id r = (case pr_tool_calls r of [] \<Rightarrow> None | c # _ \<Rightarrow> Some (ref_id c))"

definition pr_tool_name :: "provider_response \<Rightarrow> string option" where
  "pr_tool_name r = (case pr_tool_calls r of [] \<Rightarrow> None | c # _ \<Rightarrow> Some (ref_name c))"

definition pr_tool_args :: "provider_response \<Rightarrow> json option" where
  "pr_tool_args r = (case pr_tool_calls r of [] \<Rightarrow> None | c # _ \<Rightarrow> Some (ref_args c))"

datatype stream_event =
    TextDelta string
  | ReasoningDelta string
  | ToolCallStart string string
  | ToolCallDelta string string
  | Completed int int int int int args

section \<open>Accumulating a stream\<close>

text \<open>
  The locals of the loop.  \<open>acc_entries\<close> is the dictionary \<open>tool_entries\<close>, each entry its name and
  argument buffer; an absent tool id is the empty string, as the events carry it.
\<close>

record acc =
  acc_text :: "string list"
  acc_reasoning :: "string list"
  acc_entries :: "(string, string \<times> string) dict"
  acc_order :: "string list"
  acc_last_opened :: "string option"
  acc_orphans :: nat
  acc_usage :: "int \<times> int \<times> int \<times> int \<times> int"
  acc_metadata :: args

definition acc_init :: acc where
  "acc_init = \<lparr>acc_text = [], acc_reasoning = [], acc_entries = [], acc_order = [],
     acc_last_opened = None, acc_orphans = 0, acc_usage = (0, 0, 0, 0, 0), acc_metadata = []\<rparr>"

definition orphan_id :: "nat \<Rightarrow> string" where
  "orphan_id n = ''_orphan_'' @ show_nat n"

definition entry_of :: "acc \<Rightarrow> string \<Rightarrow> string \<times> string" where
  "entry_of a i = (case map_of (acc_entries a) i of None \<Rightarrow> ('''', '''') | Some e \<Rightarrow> e)"

definition acc_start :: "acc \<Rightarrow> string \<Rightarrow> string \<Rightarrow> acc" where
  "acc_start a i n =
     (let entry_id = (if i = '''' then orphan_id (acc_orphans a) else i);
          a = a\<lparr>acc_orphans := (if i = '''' then Suc (acc_orphans a) else acc_orphans a)\<rparr>;
          a = (if entry_id \<notin> set (dict_keys (acc_entries a))
               then a\<lparr>acc_entries := dict_set (acc_entries a) entry_id (n, ''''),
                      acc_order := acc_order a @ [entry_id]\<rparr>
               else a\<lparr>acc_entries := dict_set (acc_entries a) entry_id (n, snd (entry_of a entry_id))\<rparr>)
      in a\<lparr>acc_last_opened := Some entry_id\<rparr>)"

definition acc_delta :: "acc \<Rightarrow> string \<Rightarrow> string \<Rightarrow> acc" where
  "acc_delta a i frag =
     (let target = (if i \<noteq> '''' then Some i else acc_last_opened a);
          a' = (if target = None then a\<lparr>acc_orphans := Suc (acc_orphans a)\<rparr> else a);
          target_id = (case target of None \<Rightarrow> orphan_id (acc_orphans a) | Some t \<Rightarrow> t);
          a'' = (if target_id \<notin> set (dict_keys (acc_entries a'))
                 then a'\<lparr>acc_entries := dict_set (acc_entries a') target_id ('''', ''''),
                         acc_order := acc_order a' @ [target_id],
                         acc_last_opened := Some target_id\<rparr>
                 else a')
      in a''\<lparr>acc_entries := dict_set (acc_entries a'') target_id
              (fst (entry_of a'' target_id), snd (entry_of a'' target_id) @ frag)\<rparr>)"

fun acc_event :: "acc \<Rightarrow> stream_event \<Rightarrow> acc" where
  "acc_event a (TextDelta t) = a\<lparr>acc_text := acc_text a @ [t]\<rparr>"
| "acc_event a (ReasoningDelta t) = a\<lparr>acc_reasoning := acc_reasoning a @ [t]\<rparr>"
| "acc_event a (ToolCallStart i n) = acc_start a i n"
| "acc_event a (ToolCallDelta i frag) = acc_delta a i frag"
| "acc_event a (Completed it ot rt crt cct rmeta) =
     a\<lparr>acc_usage := (it, ot, rt, crt, cct), acc_metadata := rmeta\<rparr>"

definition acc_run :: "stream_event list \<Rightarrow> acc" where
  "acc_run evs = foldl acc_event acc_init evs"

definition parse_args :: "(string \<Rightarrow> json option) \<Rightarrow> string \<Rightarrow> json" where
  "parse_args loads buf =
     (if buf = '''' then JObj []
      else case loads buf of Some j \<Rightarrow> j | None \<Rightarrow> JObj [(malformed_args_key, JStr buf)])"

definition finish_calls :: "(string \<Rightarrow> json option) \<Rightarrow> acc \<Rightarrow> tool_call_ref list" where
  "finish_calls loads a = map (\<lambda>tid. \<lparr>ref_id = tid, ref_name = fst (entry_of a tid),
     ref_args = parse_args loads (snd (entry_of a tid))\<rparr>) (acc_order a)"

definition accumulate :: "(string \<Rightarrow> json option) \<Rightarrow> stream_event list \<Rightarrow> provider_response" where
  "accumulate loads evs =
     (let a = acc_run evs; calls = finish_calls loads a; (it, ot, rt, crt, cct) = acc_usage a in
      \<lparr>pr_text = (if calls \<noteq> [] then None else Some (concat (acc_text a))),
       pr_tool_calls = calls,
       pr_reasoning_text = (if acc_reasoning a \<noteq> [] then Some (concat (acc_reasoning a)) else None),
       pr_reasoning_metadata = acc_metadata a,
       pr_input_tokens = it, pr_output_tokens = ot, pr_reasoning_tokens = rt,
       pr_cache_read = crt, pr_cache_creation = cct\<rparr>)"

section \<open>The invariant of the accumulator\<close>

text \<open>
  \<open>acc_order\<close> lists exactly the ids of \<open>tool_entries\<close>, once each, in the dictionary's own order;
  an opened id is always an entry.
\<close>

definition acc_inv :: "acc \<Rightarrow> bool" where
  "acc_inv a \<longleftrightarrow> acc_order a = dict_keys (acc_entries a) \<and> distinct (acc_order a) \<and>
     (\<forall>i. acc_last_opened a = Some i \<longrightarrow> i \<in> set (acc_order a))"

lemma acc_inv_init [wf_intros]: "acc_inv acc_init"
  by (simp add: acc_inv_def acc_init_def)

lemma acc_inv_start [wf_intros]: "acc_inv a \<Longrightarrow> acc_inv (acc_start a i n)"
  by (auto simp: acc_inv_def acc_start_def Let_def keys_dict_set)

lemma acc_inv_delta [wf_intros]: "acc_inv a \<Longrightarrow> acc_inv (acc_delta a i frag)"
  by (auto simp: acc_inv_def acc_delta_def Let_def keys_dict_set split: option.splits)

lemma acc_inv_event [wf_intros]: "acc_inv a \<Longrightarrow> acc_inv (acc_event a e)"
proof (cases e)
  case (ToolCallStart i n)
  then show "acc_inv a \<Longrightarrow> ?thesis" by (simp add: acc_inv_start)
next
  case (ToolCallDelta i f)
  then show "acc_inv a \<Longrightarrow> ?thesis" by (simp add: acc_inv_delta)
qed (auto simp: acc_inv_def)

lemma acc_inv_foldl: "acc_inv a \<Longrightarrow> acc_inv (foldl acc_event a evs)"
  by (induction evs arbitrary: a) (auto intro: wf_intros)

lemma acc_inv_run [wf_intros, simp]: "acc_inv (acc_run evs)"
  unfolding acc_run_def by (rule acc_inv_foldl) (rule acc_inv_init)

section \<open>Nothing is dropped\<close>

text \<open>What the stream says: its text deltas and its argument fragments, in order.\<close>

definition event_texts :: "stream_event list \<Rightarrow> string list" where
  "event_texts evs = concat (map (\<lambda>e. case e of TextDelta t \<Rightarrow> [t] | _ \<Rightarrow> []) evs)"

definition event_fragment_chars :: "stream_event list \<Rightarrow> nat" where
  "event_fragment_chars evs = sum_list (map (\<lambda>e. case e of ToolCallDelta i f \<Rightarrow> length f | _ \<Rightarrow> 0) evs)"

definition buffer_chars :: "acc \<Rightarrow> nat" where
  "buffer_chars a = sum_list (map (\<lambda>(i, n, buf). length buf) (acc_entries a))"

lemma acc_text_start [simp]: "acc_text (acc_start a i n) = acc_text a"
  by (simp add: acc_start_def Let_def)

lemma acc_text_delta [simp]: "acc_text (acc_delta a i f) = acc_text a"
  by (simp add: acc_delta_def Let_def)

lemma acc_text_run: "acc_text (acc_run evs) = event_texts evs"
proof -
  have "acc_text (foldl acc_event a evs) = acc_text a @ event_texts evs" for a
    by (induction evs arbitrary: a) (auto simp: event_texts_def split: stream_event.split)
  then show ?thesis by (simp add: acc_run_def acc_init_def)
qed

lemma sum_dict_set_new:
  "k \<notin> set (dict_keys d) \<Longrightarrow>
   sum_list (map (\<lambda>(i, n, b). length b) (dict_set d k (m, c))) = sum_list (map (\<lambda>(i, n, b). length b) d) + length c"
  by (induction d k "(m, c)" rule: dict_set.induct) auto

lemma sum_dict_set_old:
  "distinct (dict_keys d) \<Longrightarrow> map_of d k = Some (m', c') \<Longrightarrow>
   sum_list (map (\<lambda>(i, n, b). length b) (dict_set d k (m, c))) + length c' =
     sum_list (map (\<lambda>(i, n, b). length b) d) + length c"
proof (induction d k "(m, c)" rule: dict_set.induct)
  case (2 k' v' d k)
  then show ?case by (cases v') auto
qed simp

lemma entry_of_present:
  "i \<in> set (dict_keys (acc_entries a)) \<Longrightarrow> map_of (acc_entries a) i = Some (entry_of a i)"
  by (cases "map_of (acc_entries a) i") (auto simp: entry_of_def map_of_eq_None_iff)

lemma acc_inv_distinct: "acc_inv a \<Longrightarrow> distinct (dict_keys (acc_entries a))"
  unfolding acc_inv_def by metis

lemma buffer_chars_start: "acc_inv a \<Longrightarrow> buffer_chars (acc_start a i n) = buffer_chars a"
proof -
  assume inv: "acc_inv a"
  define e where "e = (if i = '''' then orphan_id (acc_orphans a) else i)"
  have en: "entry_of (a\<lparr>acc_orphans := x\<rparr>) e = entry_of a e" for x
    by (simp add: entry_of_def)
  show ?thesis
  proof (cases "e \<in> set (dict_keys (acc_entries a))")
    case True
    have "sum_list (map (\<lambda>(i, n, b). length b) (dict_set (acc_entries a) e (n, snd (entry_of a e))))
      = buffer_chars a"
      using sum_dict_set_old[of "acc_entries a" e "fst (entry_of a e)" "snd (entry_of a e)" n "snd (entry_of a e)"]
        acc_inv_distinct[OF inv] entry_of_present[OF True] by (simp add: buffer_chars_def)
    with True show ?thesis
      by (simp add: acc_start_def Let_def e_def[symmetric] buffer_chars_def en)
  next
    case False
    with sum_dict_set_new[OF False, of n "''''"] show ?thesis
      by (simp add: acc_start_def Let_def e_def[symmetric] buffer_chars_def)
  qed
qed

lemma buffer_chars_append:
  assumes "distinct (dict_keys (acc_entries a))" and "i \<in> set (dict_keys (acc_entries a))"
  shows "buffer_chars (a\<lparr>acc_entries := dict_set (acc_entries a) i
           (fst (entry_of a i), snd (entry_of a i) @ frag)\<rparr>) = buffer_chars a + length frag"
  using sum_dict_set_old[OF assms(1), of i "fst (entry_of a i)" "snd (entry_of a i)" "fst (entry_of a i)"
      "snd (entry_of a i) @ frag"] entry_of_present[OF assms(2)]
  by (simp add: buffer_chars_def)

text \<open>The state of \<open>acc_delta\<close> once its target is an entry, before the fragment is appended.\<close>

definition acc_delta_open :: "acc \<Rightarrow> string \<Rightarrow> acc \<times> string" where
  "acc_delta_open a i =
     (let target = (if i \<noteq> '''' then Some i else acc_last_opened a);
          a' = (if target = None then a\<lparr>acc_orphans := Suc (acc_orphans a)\<rparr> else a);
          target_id = (case target of None \<Rightarrow> orphan_id (acc_orphans a) | Some t \<Rightarrow> t)
      in (if target_id \<notin> set (dict_keys (acc_entries a'))
          then a'\<lparr>acc_entries := dict_set (acc_entries a') target_id ('''', ''''),
                  acc_order := acc_order a' @ [target_id],
                  acc_last_opened := Some target_id\<rparr>
          else a', target_id))"

lemma acc_delta_alt:
  "acc_delta a i frag = (let (a', t) = acc_delta_open a i in a'\<lparr>acc_entries := dict_set (acc_entries a') t
     (fst (entry_of a' t), snd (entry_of a' t) @ frag)\<rparr>)"
  by (simp add: acc_delta_def acc_delta_open_def Let_def)

lemma acc_delta_open_props:
  assumes "acc_inv a" and "acc_delta_open a i = (a', t)"
  shows "acc_inv a'" "t \<in> set (dict_keys (acc_entries a'))" "buffer_chars a' = buffer_chars a"
proof -
  have d: "distinct (dict_keys (acc_entries a))" by (rule acc_inv_distinct[OF assms(1)])
  show "acc_inv a'" using assms
    by (auto simp: acc_inv_def acc_delta_open_def Let_def keys_dict_set split: option.splits if_splits)
  show "t \<in> set (dict_keys (acc_entries a'))" using assms(2)
    by (auto simp: acc_delta_open_def Let_def split: option.splits if_splits)
  show "buffer_chars a' = buffer_chars a" using assms(2) sum_dict_set_new[of _ "acc_entries a" "''''" "''''"]
    by (auto simp: acc_delta_open_def Let_def buffer_chars_def split: option.splits if_splits)
qed

lemma buffer_chars_delta:
  assumes "acc_inv a"
  shows "buffer_chars (acc_delta a i frag) = buffer_chars a + length frag"
proof -
  obtain a' t where o: "acc_delta_open a i = (a', t)" by fastforce
  note p = acc_delta_open_props[OF assms o]
  show ?thesis
    using buffer_chars_append[OF acc_inv_distinct[OF p(1)] p(2)] p(3)
    by (simp add: acc_delta_alt o)
qed

lemma buffer_chars_event:
  "acc_inv a \<Longrightarrow> buffer_chars (acc_event a e) = buffer_chars a + event_fragment_chars [e]"
  by (cases e) (auto simp: event_fragment_chars_def buffer_chars_start buffer_chars_delta,
      auto simp: buffer_chars_def)

lemma buffer_chars_run: "buffer_chars (acc_run evs) = event_fragment_chars evs"
proof -
  have "acc_inv a \<Longrightarrow> buffer_chars (foldl acc_event a evs) = buffer_chars a + event_fragment_chars evs" for a
  proof (induction evs arbitrary: a)
    case (Cons e evs)
    then show ?case
      using Cons.IH[OF acc_inv_event[OF Cons.prems, of e]] buffer_chars_event[OF Cons.prems, of e]
      by (simp add: event_fragment_chars_def)
  qed (simp add: event_fragment_chars_def)
  from this[OF acc_inv_init] show ?thesis
    by (simp add: acc_run_def acc_init_def buffer_chars_def)
qed

section \<open>The assistant message of a response\<close>

text \<open>
  \<open>dict(call.args)\<close> on what \<open>json.loads\<close> returned: an object is copied; an empty list or an
  empty string gives \<open>{}\<close>; any other list or string is an iterable of would-be key/value pairs,
  read off one by one; a number, a boolean or \<open>null\<close> is not iterable.  Pairs whose key is
  not a string are refused here (Python would accept a number as key and fail at \<open>**args\<close>).
\<close>

fun dict_pair :: "json \<Rightarrow> (string \<times> json) option" where
  "dict_pair (JList [JStr k, v]) = Some (k, v)"
| "dict_pair (JStr [k, v]) = Some ([k], JStr [v])"
| "dict_pair (JObj [(k, _), (v, _)]) = Some (k, JStr v)"
| "dict_pair _ = None"

fun dict_pairs :: "json list \<Rightarrow> (string \<times> json) list option" where
  "dict_pairs [] = Some []"
| "dict_pairs (j # js) = (case dict_pair j of None \<Rightarrow> None
     | Some p \<Rightarrow> map_option ((#) p) (dict_pairs js))"

fun py_dict :: "json \<Rightarrow> exn + args" where
  "py_dict (JObj kvs) = Inr kvs"
| "py_dict (JList js) = (case dict_pairs js of
     Some kvs \<Rightarrow> Inr (dict_of kvs)
   | None \<Rightarrow> Inl (Exn ''TypeError'' ''cannot convert dictionary update sequence''))"
| "py_dict (JStr s) = (if s = '''' then Inr []
     else Inl (Exn ''ValueError'' ''dictionary update sequence element #0 has length 1; 2 is required''))"
| "py_dict JNull = Inl (Exn ''TypeError'' (CHR 39 # ''NoneType'' @ CHR 39 # '' object is not iterable''))"
| "py_dict (JBool b) = Inl (Exn ''TypeError'' (CHR 39 # ''bool'' @ CHR 39 # '' object is not iterable''))"
| "py_dict (JInt i) = Inl (Exn ''TypeError'' (CHR 39 # ''int'' @ CHR 39 # '' object is not iterable''))"
| "py_dict (JFloat r) = Inl (Exn ''TypeError'' (CHR 39 # ''float'' @ CHR 39 # '' object is not iterable''))"

fun call_blocks :: "tool_call_ref list \<Rightarrow> exn + block list" where
  "call_blocks [] = Inr []"
| "call_blocks (c # cs) = (case py_dict (ref_args c) of Inl e \<Rightarrow> Inl e
     | Inr a \<Rightarrow> (case call_blocks cs of Inl e \<Rightarrow> Inl e
        | Inr bs \<Rightarrow> Inr (ToolCall (ref_id c) (ref_name c) a # bs)))"

definition reasoning_block :: "provider_response \<Rightarrow> block option" where
  "reasoning_block r =
     (if pr_reasoning_text r \<notin> {None, Some ''''} \<or> pr_reasoning_metadata r \<noteq> []
      then Some (ReasoningBlock (case pr_reasoning_text r of None \<Rightarrow> '''' | Some t \<Rightarrow> t)
             (foldl (\<lambda>d (k, v). dict_set d k v) [(''provider_tokens'', JInt (pr_reasoning_tokens r))]
                (pr_reasoning_metadata r)))
      else None)"

definition from_assistant_response :: "provider_response \<Rightarrow> exn + message" where
  "from_assistant_response r =
     (let pre = (case reasoning_block r of None \<Rightarrow> [] | Some b \<Rightarrow> [b]) in
      if pr_tool_calls r \<noteq> []
      then (case call_blocks (pr_tool_calls r) of Inl e \<Rightarrow> Inl e
            | Inr bs \<Rightarrow> Inr \<lparr>msg_role = RoleAssistant, msg_blocks = pre @ bs\<rparr>)
      else Inr \<lparr>msg_role = RoleAssistant,
             msg_blocks = pre @ [TextBlock (case pr_text r of None \<Rightarrow> '''' | Some t \<Rightarrow> t)]\<rparr>)"

lemma reasoning_block_cases:
  "reasoning_block r = None \<or> (\<exists>t m. reasoning_block r = Some (ReasoningBlock t m))"
  by (auto simp: reasoning_block_def)

lemma call_blocks_calls:
  "call_blocks cs = Inr bs \<Longrightarrow>
     filter is_tool_call bs = bs \<and> filter is_tool_result bs = [] \<and> map call_id bs = map ref_id cs"
  by (induction cs arbitrary: bs) (auto split: sum.splits)

lemma from_assistant_response_no_results:
  "from_assistant_response r = Inr m \<Longrightarrow> \<not> has_tool_result m"
  using reasoning_block_cases[of r] call_blocks_calls[of "pr_tool_calls r"]
  by (auto simp: from_assistant_response_def Let_def has_tool_result_def list_ex_iff filter_empty_conv
      split: if_splits sum.splits)

lemma from_assistant_response_calls:
  "from_assistant_response r = Inr m \<Longrightarrow> calls_in m = set (map ref_id (pr_tool_calls r))"
proof -
  assume m: "from_assistant_response r = Inr m"
  show ?thesis
  proof (cases "pr_tool_calls r = []")
    case True
    with m reasoning_block_cases[of r] show ?thesis
      by (auto simp: from_assistant_response_def Let_def calls_in_def)
  next
    case False
    with m obtain bs where bs: "call_blocks (pr_tool_calls r) = Inr bs"
      and mb: "msg_blocks m = (case reasoning_block r of None \<Rightarrow> [] | Some b \<Rightarrow> [b]) @ bs"
      by (auto simp: from_assistant_response_def Let_def split: sum.splits)
    have "calls_in m = call_id ` set bs"
      using reasoning_block_cases[of r] call_blocks_calls[OF bs] by (auto simp: calls_in_def mb)
    also have "\<dots> = set (map call_id bs)" by simp
    also have "map call_id bs = map ref_id (pr_tool_calls r)" using call_blocks_calls[OF bs] by simp
    finally show ?thesis .
  qed
qed

lemma from_assistant_response_role:
  "from_assistant_response r = Inr m \<Longrightarrow> msg_role m = RoleAssistant"
  by (auto simp: from_assistant_response_def Let_def split: if_splits sum.splits)

section \<open>Properties of accumulation\<close>

text \<open>
  Accumulating a stream loses nothing and mixes nothing up: the text is the concatenation of
  the text deltas (absent exactly when there is a tool call), the calls have distinct ids in the
  order they were opened, every argument fragment lands in exactly one call's buffer, and each
  call's arguments are that buffer parsed.
\<close>

theorem accumulate_faithful:
  "pr_text (accumulate loads evs) =
     (if pr_tool_calls (accumulate loads evs) = [] then Some (concat (event_texts evs)) else None) \<and>
   distinct (map ref_id (pr_tool_calls (accumulate loads evs))) \<and>
   map ref_id (pr_tool_calls (accumulate loads evs)) = dict_keys (acc_entries (acc_run evs)) \<and>
   map ref_args (pr_tool_calls (accumulate loads evs)) =
     map (\<lambda>(i, n, buf). parse_args loads buf) (acc_entries (acc_run evs)) \<and>
   sum_list (map (\<lambda>(i, n, buf). length buf) (acc_entries (acc_run evs))) = event_fragment_chars evs"
proof -
  let ?a = "acc_run evs"
  have inv: "acc_order ?a = dict_keys (acc_entries ?a)" "distinct (dict_keys (acc_entries ?a))"
    using acc_inv_run[of evs] acc_inv_distinct[OF acc_inv_run, of evs] unfolding acc_inv_def by blast+
  have calls: "pr_tool_calls (accumulate loads evs) = finish_calls loads ?a"
    by (simp add: accumulate_def Let_def split: prod.split)
  have ids: "map ref_id (finish_calls loads ?a) = acc_order ?a" by (simp add: finish_calls_def comp_def)
  have "entry_of ?a i = (n, buf)" if "(i, n, buf) \<in> set (acc_entries ?a)" for i n buf
    using that inv(2) by (simp add: entry_of_def)
  then have args: "map ref_args (finish_calls loads ?a) = map (\<lambda>(i, n, buf). parse_args loads buf) (acc_entries ?a)"
    by (auto simp: finish_calls_def inv(1))
  have "pr_text (accumulate loads evs) = (if finish_calls loads ?a = [] then Some (concat (event_texts evs)) else None)"
    by (simp add: accumulate_def Let_def acc_text_run split: prod.split)
  then show ?thesis
    using inv ids args buffer_chars_run[of evs] by (simp add: calls buffer_chars_def)
qed

end
