(* ===== verification/Accountant.thy ===== *)
theory Accountant
  imports Messages
begin

text \<open>
  Context accounting of \<open>src/src/harness/context/accountant.py\<close>: the token budget, the snapshot
  of a transcript against it, and the green/yellow/red state.  The tokenizer (\<open>tiktoken\<close>) is the
  parameter \<open>tok\<close>, the number of tokens of a text.  Ratios are exact rationals.
\<close>

datatype component = CSystem | CTools | CHistory | CRetrieved | CHeadroom

record context_budget =
  window_size :: int
  headroom :: int
  yellow_threshold :: rat
  red_threshold :: rat

definition default_budget :: context_budget where
  "default_budget = \<lparr>window_size = 200000, headroom = 4096, yellow_threshold = 3/5, red_threshold = 4/5\<rparr>"

definition usable :: "context_budget \<Rightarrow> int" where
  "usable b = window_size b - headroom b"

record context_snapshot =
  snap_totals :: "(component, int) dict"
  snap_budget :: context_budget
  snap_real_input :: "int option"

definition total_used :: "context_snapshot \<Rightarrow> int" where
  "total_used s = max (sum_list (map snd (filter (\<lambda>(k, v). k \<noteq> CHeadroom) (snap_totals s))))
     (case snap_real_input s of None \<Rightarrow> 0 | Some r \<Rightarrow> r)"

definition utilization :: "context_snapshot \<Rightarrow> rat" where
  "utilization s = of_int (total_used s) / of_int (max (usable (snap_budget s)) 1)"

datatype ctx_state = Green | Yellow | Red

definition ctx_state_of :: "context_snapshot \<Rightarrow> ctx_state" where
  "ctx_state_of s =
     (if utilization s \<ge> red_threshold (snap_budget s) then Red
      else if utilization s \<ge> yellow_threshold (snap_budget s) then Yellow else Green)"

fun count_block :: "(string \<Rightarrow> nat) \<Rightarrow> block \<Rightarrow> int" where
  "count_block tok (TextBlock t) = int (tok t)"
| "count_block tok (ToolCall i n a) = int (tok n) + int (tok (json_dumps (JObj a))) + 6"
| "count_block tok (ToolResult i c e) = int (tok c) + 4"
| "count_block tok (ReasoningBlock t m) = int (tok t)"

definition count_message :: "(string \<Rightarrow> nat) \<Rightarrow> message \<Rightarrow> int" where
  "count_message tok m = 4 + sum_list (map (count_block tok) (msg_blocks m))"

definition snapshot :: "(string \<Rightarrow> nat) \<Rightarrow> context_budget \<Rightarrow> transcript \<Rightarrow> json list \<Rightarrow> string list \<Rightarrow>
    int option \<Rightarrow> context_snapshot" where
  "snapshot tok b t tools retrieved last_real =
     \<lparr>snap_totals =
        [(CSystem, int (tok (case t_system t of None \<Rightarrow> '''' | Some s \<Rightarrow> s))),
         (CTools, sum_list (map (\<lambda>j. int (tok (json_dumps j))) tools)),
         (CHistory, sum_list (map (count_message tok) (t_messages t))),
         (CRetrieved, sum_list (map (\<lambda>r. int (tok r)) retrieved)),
         (CHeadroom, headroom b)],
      snap_budget = b, snap_real_input = last_real\<rparr>"

lemma count_block_nonneg: "0 \<le> count_block tok b"
  by (cases b) auto

lemma count_message_nonneg: "0 \<le> count_message tok m"
  unfolding count_message_def
  by (rule add_nonneg_nonneg) (auto intro!: sum_list_nonneg simp: count_block_nonneg)

definition estimate :: "context_snapshot \<Rightarrow> int" where
  "estimate s = sum_list (map snd (filter (\<lambda>(k, v). k \<noteq> CHeadroom) (snap_totals s)))"

lemma total_used_estimate:
  "total_used s = max (estimate s) (case snap_real_input s of None \<Rightarrow> 0 | Some r \<Rightarrow> r)"
  by (simp add: total_used_def estimate_def)

lemma estimate_nonneg: "0 \<le> estimate (snapshot tok b t tools retrieved r)"
proof -
  have "0 \<le> sum_list (map (count_message tok) (t_messages t))"
    by (rule sum_list_nonneg) (auto simp: count_message_nonneg)
  moreover have "0 \<le> sum_list (map (\<lambda>j. int (tok (json_dumps j))) tools)"
    by (rule sum_list_nonneg) auto
  moreover have "0 \<le> sum_list (map (\<lambda>r. int (tok r)) retrieved)"
    by (rule sum_list_nonneg) auto
  ultimately show ?thesis by (simp add: estimate_def snapshot_def)
qed

text \<open>The provider-reported count is a floor: it can only raise the measured usage.\<close>

lemma total_used_floor:
  "total_used (snapshot tok b t tools retrieved None) \<le> total_used (snapshot tok b t tools retrieved r)"
proof -
  have "estimate (snapshot tok b t tools retrieved r) = estimate (snapshot tok b t tools retrieved None)"
    by (simp add: estimate_def snapshot_def)
  moreover have "snap_real_input (snapshot tok b t tools retrieved None) = None"
    by (simp add: snapshot_def)
  ultimately show ?thesis
    using estimate_nonneg[of tok b t tools retrieved None] by (simp add: total_used_estimate)
qed

lemma real_input_le_total:
  "r \<le> total_used (snapshot tok b t tools retrieved (Some r))"
  by (simp add: total_used_def snapshot_def)

lemma utilization_mono:
  "total_used s \<le> total_used s' \<Longrightarrow> snap_budget s = snap_budget s' \<Longrightarrow> utilization s \<le> utilization s'"
  by (simp add: utilization_def divide_right_mono)

lemma red_with_floor:
  assumes "ctx_state_of (snapshot tok b t tools ret None) = Red"
  shows "ctx_state_of (snapshot tok b t tools ret r) = Red"
proof -
  have "utilization (snapshot tok b t tools ret None) \<le> utilization (snapshot tok b t tools ret r)"
    by (rule utilization_mono[OF total_used_floor]) (simp add: snapshot_def)
  with assms show ?thesis
    by (auto simp: ctx_state_of_def snapshot_def split: if_splits)
qed

end
