(* ===== verification/Masking.thy ===== *)
theory Masking
  imports Messages
begin

text \<open>
  \<open>src/src/harness/context/masking.py\<close>: masking of older tool results and the repair that drops
  orphaned results before a send.  The encoder is the parameter \<open>tok\<close>.
\<close>

section \<open>Masking older results\<close>

definition mask_text :: "string \<Rightarrow> nat \<Rightarrow> string" where
  "mask_text i tokens = ''[tool_result elided; call_id='' @ i @ ''; original_tokens='' @ show_nat tokens @ '']''"

definition elided_prefix :: string where
  "elided_prefix = ''[tool_result elided''"

text \<open>The \<open>(mi, bi, block)\<close> triples of the nested enumeration.\<close>

definition block_positions :: "nat \<Rightarrow> message \<Rightarrow> (nat \<times> nat \<times> block) list" where
  "block_positions mi m = map (\<lambda>(bi, b). (mi, bi, b))
     (filter (\<lambda>(bi, b). is_tool_result b) (List.enumerate 0 (msg_blocks m)))"

definition result_positions :: "message list \<Rightarrow> (nat \<times> nat \<times> block) list" where
  "result_positions ms = concat (map (\<lambda>(mi, m). block_positions mi m) (List.enumerate 0 ms))"

definition set_block :: "message list \<Rightarrow> nat \<Rightarrow> nat \<Rightarrow> block \<Rightarrow> message list" where
  "set_block ms mi bi b = ms[mi := (ms ! mi)\<lparr>msg_blocks := (msg_blocks (ms ! mi))[bi := b]\<rparr>]"

fun mask_loop :: "(string \<Rightarrow> nat) \<Rightarrow> (nat \<times> nat \<times> block) list \<Rightarrow> message list \<times> int \<Rightarrow> message list \<times> int" where
  "mask_loop tok [] (ms, freed) = (ms, freed)"
| "mask_loop tok ((mi, bi, b) # rest) (ms, freed) =
     (if prefix elided_prefix (result_content b) then mask_loop tok rest (ms, freed)
      else let tokens = tok (result_content b);
               new_content = mask_text (result_call_id b) tokens;
               nb = ToolResult (result_call_id b) new_content (result_is_error b)
           in mask_loop tok rest (set_block ms mi bi nb, freed + int tokens - int (tok new_content)))"

text \<open>\<open>results[:-keep_recent]\<close>, which is empty for \<open>keep_recent = 0\<close>.\<close>

definition slice_to :: "int \<Rightarrow> 'a list \<Rightarrow> 'a list" where
  "slice_to i xs = (if i < 0 then take (length xs - nat (- i)) xs else take (nat i) xs)"

definition mask_older_results :: "(string \<Rightarrow> nat) \<Rightarrow> int \<Rightarrow> transcript \<Rightarrow> int \<times> transcript" where
  "mask_older_results tok keep_recent t =
     (let results = result_positions (t_messages t) in
      if int (length results) \<le> keep_recent then (0, t)
      else let (ms, freed) = mask_loop tok (slice_to (- keep_recent) results) (t_messages t, 0)
           in (freed, t\<lparr>t_messages := ms\<rparr>))"

text \<open>Every tool result of the transcript in order, and what masking does to one of them.\<close>

definition flat_results :: "message list \<Rightarrow> block list" where
  "flat_results ms = concat (map (\<lambda>m. filter is_tool_result (msg_blocks m)) ms)"

definition mask_block :: "(string \<Rightarrow> nat) \<Rightarrow> block \<Rightarrow> block" where
  "mask_block tok b =
     (if prefix elided_prefix (result_content b) then b
      else ToolResult (result_call_id b) (mask_text (result_call_id b) (tok (result_content b)))
             (result_is_error b))"

text \<open>What masking cannot change: roles, the kind and order of blocks, call ids, error flags, texts.\<close>

fun skel_block :: "block \<Rightarrow> block" where
  "skel_block (ToolResult i c e) = ToolResult i '''' e"
| "skel_block b = b"

definition skel :: "message \<Rightarrow> message" where
  "skel m = m\<lparr>msg_blocks := map skel_block (msg_blocks m)\<rparr>"

lemma skel_block_simps [simp]:
  "is_tool_result (skel_block b) = is_tool_result b"
  "is_tool_call (skel_block b) = is_tool_call b"
  "is_tool_call b \<Longrightarrow> skel_block b = b"
  "result_call_id (skel_block b) = result_call_id b"
  by (cases b, auto)+

lemma skel_results: "results_in (skel m) = results_in m"
  by (simp add: results_in_def skel_def filter_map o_def image_image)

lemma skel_calls: "calls_in (skel m) = calls_in m"
proof -
  have "map skel_block (filter is_tool_call (msg_blocks m)) = filter is_tool_call (msg_blocks m)"
    by (rule map_idI) simp
  then show ?thesis
    by (simp add: calls_in_def skel_def filter_map o_def del: set_map set_filter)
qed

lemma skel_has_result: "has_tool_result (skel m) = has_tool_result m"
  by (simp add: has_tool_result_def skel_def list_ex_iff)

lemma paired_skel: "map skel ms = map skel ms' \<Longrightarrow> paired_from av ms = paired_from av ms'"
proof (induction ms arbitrary: ms' av)
  case (Cons m ms)
  then obtain m' ms'' where ms': "ms' = m' # ms''" and e: "skel m = skel m'" and
    r: "map skel ms = map skel ms''"
    by (cases ms') auto
  have "calls_in m = calls_in m'" by (metis e skel_calls)
  moreover have "has_tool_result m = has_tool_result m'" by (metis e skel_has_result)
  moreover have "results_in m = results_in m'" by (metis e skel_results)
  ultimately show ?case by (simp add: ms' avail_next_def Cons.IH[OF r])
qed simp

lemma skel_set_block:
  assumes "mi < length ms" and "bi < length (msg_blocks (ms ! mi))"
    and "skel_block b = skel_block (msg_blocks (ms ! mi) ! bi)"
  shows "map skel (set_block ms mi bi b) = map skel ms"
proof -
  have "skel ((ms ! mi)\<lparr>msg_blocks := (msg_blocks (ms ! mi))[bi := b]\<rparr>) = skel (ms ! mi)"
  proof -
    have "map skel_block ((msg_blocks (ms ! mi))[bi := b]) = map skel_block (msg_blocks (ms ! mi))"
      using assms(3) by (metis list_update_id map_update)
    then show ?thesis by (simp add: skel_def)
  qed
  then show ?thesis
    using assms(1) by (simp add: set_block_def map_update list_update_same_conv)
qed

text \<open>Updating the block at the \<open>n\<close>-th position updates the \<open>n\<close>-th position and nothing else.\<close>

abbreviation result_indices :: "nat \<Rightarrow> block list \<Rightarrow> (nat \<times> block) list" where
  "result_indices j bs \<equiv> filter (\<lambda>(i, b). is_tool_result b) (List.enumerate j bs)"

lemma result_indices_nth:
  "n < length (result_indices j bs) \<Longrightarrow> result_indices j bs ! n = (i, b) \<Longrightarrow>
   j \<le> i \<and> i < j + length bs \<and> bs ! (i - j) = b \<and> is_tool_result b"
proof -
  assume n: "n < length (result_indices j bs)" and e: "result_indices j bs ! n = (i, b)"
  then have "(i, b) \<in> set (result_indices j bs)" by (metis nth_mem)
  then show ?thesis by (auto simp: in_set_enumerate_eq)
qed

lemma result_indices_update:
  "n < length (result_indices j bs) \<Longrightarrow> result_indices j bs ! n = (i, b) \<Longrightarrow> is_tool_result nb \<Longrightarrow>
   result_indices j (bs[i - j := nb]) = (result_indices j bs)[n := (i, nb)]"
proof (induction bs arbitrary: j n)
  case Nil
  then show ?case by simp
next
  case (Cons c bs)
  have later: "Suc j \<le> i" if "k < length (result_indices (Suc j) bs)" "result_indices (Suc j) bs ! k = (i, b)" for k
    using result_indices_nth[OF that] by simp
  show ?case
  proof (cases "is_tool_result c")
    case True
    show ?thesis
    proof (cases n)
      case 0
      with True Cons.prems show ?thesis by simp
    next
      case (Suc k)
      with True Cons.prems have k: "k < length (result_indices (Suc j) bs)" "result_indices (Suc j) bs ! k = (i, b)"
        by auto
      with later have "i - j = Suc (i - Suc j)" by fastforce
      with True Suc Cons.IH[OF k Cons.prems(3)] show ?thesis by simp
    qed
  next
    case False
    with Cons.prems have k: "n < length (result_indices (Suc j) bs)" "result_indices (Suc j) bs ! n = (i, b)"
      by auto
    with later have "i - j = Suc (i - Suc j)" by fastforce
    with False Cons.IH[OF k Cons.prems(3)] show ?thesis by simp
  qed
qed

abbreviation positions_from :: "nat \<Rightarrow> message list \<Rightarrow> (nat \<times> nat \<times> block) list" where
  "positions_from k ms \<equiv> concat (map (\<lambda>(mi, m). block_positions mi m) (List.enumerate k ms))"

lemma positions_from_nth:
  "n < length (positions_from k ms) \<Longrightarrow> positions_from k ms ! n = (mi, bi, b) \<Longrightarrow>
   k \<le> mi \<and> mi < k + length ms \<and> bi < length (msg_blocks (ms ! (mi - k))) \<and>
   msg_blocks (ms ! (mi - k)) ! bi = b \<and> is_tool_result b"
proof -
  assume n: "n < length (positions_from k ms)" and e: "positions_from k ms ! n = (mi, bi, b)"
  then have "(mi, bi, b) \<in> set (positions_from k ms)" by (metis nth_mem)
  then show ?thesis by (auto simp: block_positions_def in_set_enumerate_eq)
qed

lemma positions_from_update:
  "n < length (positions_from k ms) \<Longrightarrow> positions_from k ms ! n = (mi, bi, b) \<Longrightarrow> is_tool_result nb \<Longrightarrow>
   positions_from k (set_block ms (mi - k) bi nb) = (positions_from k ms)[n := (mi, bi, nb)]"
proof (induction ms arbitrary: k n)
  case Nil
  then show ?case by simp
next
  case (Cons m ms)
  let ?p = "block_positions k m"
  show ?case
  proof (cases "n < length ?p")
    case True
    then have n: "n < length (result_indices 0 (msg_blocks m))" by (simp add: block_positions_def)
    with True Cons.prems(2) have "mi = k" and r: "result_indices 0 (msg_blocks m) ! n = (bi, b)"
      by (auto simp: nth_append block_positions_def split: prod.splits)
    from result_indices_update[OF n r Cons.prems(3)] True \<open>mi = k\<close> show ?thesis
      by (simp add: set_block_def block_positions_def list_update_append map_update)
  next
    case False
    let ?n = "n - length ?p"
    from False Cons.prems have n: "?n < length (positions_from (Suc k) ms)" "positions_from (Suc k) ms ! ?n = (mi, bi, b)"
      by (auto simp: nth_append)
    from positions_from_nth[OF n] have mi: "mi - k = Suc (mi - Suc k)" by auto
    from Cons.IH[OF n Cons.prems(3)] False mi show ?thesis
      by (simp add: set_block_def list_update_append)
  qed
qed

lemma result_positions_update:
  assumes "n < length (result_positions ms)" and "result_positions ms ! n = (mi, bi, b)"
  shows "mi < length ms" "bi < length (msg_blocks (ms ! mi))" "msg_blocks (ms ! mi) ! bi = b" "is_tool_result b"
    and "is_tool_result nb \<Longrightarrow> result_positions (set_block ms mi bi nb) = (result_positions ms)[n := (mi, bi, nb)]"
  using assms positions_from_nth[of n 0 ms mi bi b] positions_from_update[of n 0 ms mi bi b nb]
  by (auto simp: result_positions_def)

lemma flat_results_positions: "flat_results ms = map (\<lambda>(mi, bi, b). b) (result_positions ms)"
proof -
  have b: "map (\<lambda>(mi, bi, b). b) (block_positions k m) = filter is_tool_result (msg_blocks m)" for k m
  proof -
    have "map snd (result_indices j bs) = filter is_tool_result bs" for j bs
      by (induction bs arbitrary: j) auto
    then show ?thesis by (simp add: block_positions_def o_def case_prod_beta)
  qed
  have "map (\<lambda>(mi, bi, b). b) (positions_from k ms) = flat_results ms" for k
    by (induction ms arbitrary: k) (simp_all add: flat_results_def b)
  then show ?thesis by (simp add: result_positions_def)
qed

lemma mask_loop_spec:
  assumes "rest = drop n (take m (result_positions ms))" and "n \<le> m" and "m \<le> length (result_positions ms)"
    and "mask_loop tok rest (ms, freed) = (ms', freed')"
  shows "map skel ms' = map skel ms" and
    "flat_results ms' = take n (flat_results ms) @ map (mask_block tok) (drop n (take m (flat_results ms)))
       @ drop m (flat_results ms)"
proof -
  have "map skel ms' = map skel ms \<and>
    flat_results ms' = take n (flat_results ms) @ map (mask_block tok) (drop n (take m (flat_results ms)))
       @ drop m (flat_results ms)"
    using assms
  proof (induction rest arbitrary: n ms freed)
    case Nil
    then have "n = m" by (simp add: le_antisym)
    with Nil.prems(4) show ?case by simp
  next
    case (Cons p rest)
    obtain mi bi b where p: "p = (mi, bi, b)" by (cases p) auto
    let ?P = "result_positions ms"
    from Cons.prems(1) have nm: "n < m"
      by (metis Cons.prems(2) drop_all le_neq_implies_less length_take list.distinct(1) min.cobounded2)
    with Cons.prems(3) have n: "n < length ?P" by simp
    have "drop n (take m ?P) = ?P ! n # drop (Suc n) (take m ?P)"
      using Cons_nth_drop_Suc[of n "take m ?P"] nm n by simp
    with Cons.prems(1) p have pn: "?P ! n = (mi, bi, b)" and rest: "rest = drop (Suc n) (take m ?P)"
      by auto
    note u = result_positions_update[OF n pn]
    have fn: "flat_results ms ! n = b" "length (flat_results ms) = length ?P"
      using n pn by (simp_all add: flat_results_positions)
    have split: "drop n (take m (flat_results ms)) = b # drop (Suc n) (take m (flat_results ms))"
      using Cons_nth_drop_Suc[of n "take m (flat_results ms)"] nm n fn by simp
    have tk: "take (Suc n) (flat_results ms) = take n (flat_results ms) @ [b]"
      using n fn by (simp add: take_Suc_conv_app_nth)
    show ?case
    proof (cases "prefix elided_prefix (result_content b)")
      case True
      with Cons.prems(4) p have l: "mask_loop tok rest (ms, freed) = (ms', freed')" by simp
      from Cons.IH[OF rest _ Cons.prems(3) l] nm have
        "map skel ms' = map skel ms \<and> flat_results ms' = take (Suc n) (flat_results ms) @
          map (mask_block tok) (drop (Suc n) (take m (flat_results ms))) @ drop m (flat_results ms)"
        by simp
      moreover have "mask_block tok b = b" using True by (simp add: mask_block_def)
      ultimately show ?thesis by (simp add: split tk)
    next
      case False
      let ?nb = "mask_block tok b"
      have nb: "?nb = ToolResult (result_call_id b)
          (mask_text (result_call_id b) (tok (result_content b))) (result_is_error b)"
        using False by (simp add: mask_block_def)
      let ?ms = "set_block ms mi bi ?nb"
      have pos: "result_positions ?ms = ?P[n := (mi, bi, ?nb)]" by (rule u(5)) (simp add: nb)
      have flat: "flat_results ?ms = (flat_results ms)[n := ?nb]"
        by (simp add: flat_results_positions pos map_update)
      have sk: "map skel ?ms = map skel ms"
      proof (rule skel_set_block[OF u(1,2)])
        show "skel_block ?nb = skel_block (msg_blocks (ms ! mi) ! bi)"
          unfolding nb using u(3,4) by (cases b) auto
      qed
      have rest': "rest = drop (Suc n) (take m (result_positions ?ms))"
        using rest nm by (simp add: pos take_update_swap)
      have len: "m \<le> length (result_positions ?ms)" using Cons.prems(3) by (simp add: pos)
      from Cons.prems(4) p False obtain freed'' where
        l: "mask_loop tok rest (?ms, freed'') = (ms', freed')"
        by (auto simp: Let_def nb)
      have "Suc n \<le> m" using nm by simp
      from Cons.IH[OF rest' this len l] sk have
        "map skel ms' = map skel ms \<and> flat_results ms' = take (Suc n) (flat_results ?ms) @
          map (mask_block tok) (drop (Suc n) (take m (flat_results ?ms))) @ drop m (flat_results ?ms)"
        by simp
      moreover have "take (Suc n) (flat_results ?ms) = take n (flat_results ms) @ [?nb]"
        using n fn(2) by (simp add: flat take_Suc_conv_app_nth)
      moreover have "drop (Suc n) (take m (flat_results ?ms)) = drop (Suc n) (take m (flat_results ms))"
        using nm by (simp add: flat take_update_swap)
      moreover have "drop m (flat_results ?ms) = drop m (flat_results ms)"
        using nm by (simp add: flat)
      ultimately show ?thesis by (simp add: split)
    qed
  qed
  then show "map skel ms' = map skel ms"
    and "flat_results ms' = take n (flat_results ms) @ map (mask_block tok) (drop n (take m (flat_results ms)))
       @ drop m (flat_results ms)" by simp_all
qed

lemma mask_older_results_spec:
  assumes "mask_older_results tok k t = (freed, t')" and "0 < k"
  shows "map skel (t_messages t') = map skel (t_messages t)"
    and "flat_results (t_messages t') =
      (let rs = flat_results (t_messages t); n = length rs - nat k in map (mask_block tok) (take n rs) @ drop n rs)"
    and "t_system t' = t_system t"
proof -
  let ?ms = "t_messages t"
  let ?P = "result_positions ?ms"
  have len: "length (flat_results ?ms) = length ?P" by (simp add: flat_results_positions)
  have "map skel (t_messages t') = map skel ?ms \<and> flat_results (t_messages t') =
      (let rs = flat_results ?ms; n = length rs - nat k in map (mask_block tok) (take n rs) @ drop n rs) \<and>
      t_system t' = t_system t"
  proof (cases "int (length ?P) \<le> k")
    case True
    with assms len show ?thesis by (simp add: mask_older_results_def Let_def)
  next
    case False
    let ?m = "length ?P - nat k"
    have sl: "slice_to (- k) ?P = drop 0 (take ?m ?P)" using assms(2) by (simp add: slice_to_def)
    obtain ms' where l: "mask_loop tok (drop 0 (take ?m ?P)) (?ms, 0) = (ms', freed)" and t': "t' = t\<lparr>t_messages := ms'\<rparr>"
      using assms(1) False sl by (auto simp: mask_older_results_def Let_def split: prod.splits)
    have "map skel ms' = map skel ?ms" "flat_results ms' = take 0 (flat_results ?ms) @
        map (mask_block tok) (drop 0 (take ?m (flat_results ?ms))) @ drop ?m (flat_results ?ms)"
      by (rule mask_loop_spec[OF refl _ _ l]; simp)+
    then show ?thesis by (simp add: t' len Let_def)
  qed
  then show "map skel (t_messages t') = map skel ?ms"
    and "flat_results (t_messages t') =
      (let rs = flat_results ?ms; n = length rs - nat k in map (mask_block tok) (take n rs) @ drop n rs)"
    and "t_system t' = t_system t" by simp_all
qed

text \<open>For any \<open>keep_recent\<close> the skeleton is kept, so pairing is.\<close>

lemma mask_loop_skel:
  assumes "rest = drop n (take m (result_positions ms))" and "n \<le> m" and "m \<le> length (result_positions ms)"
    and "mask_loop tok rest (ms, freed) = (ms', freed')"
  shows "map skel ms' = map skel ms"
  by (rule mask_loop_spec(1)[OF assms])

lemma slice_to_take: "\<exists>m \<le> length xs. slice_to i xs = drop 0 (take m xs)"
proof (cases "i < 0")
  case True
  then show ?thesis by (intro exI[of _ "length xs - nat (- i)"]) (simp add: slice_to_def)
next
  case False
  then show ?thesis
    by (intro exI[of _ "min (nat i) (length xs)"]) (simp add: slice_to_def take_all_iff min_def)
qed

lemma mask_older_results_skel:
  assumes "mask_older_results tok k t = (freed, t')"
  shows "map skel (t_messages t') = map skel (t_messages t)" "t_system t' = t_system t"
proof -
  have "map skel (t_messages t') = map skel (t_messages t) \<and> t_system t' = t_system t"
  proof (cases "int (length (result_positions (t_messages t))) \<le> k")
    case True
    with assms show ?thesis by (simp add: mask_older_results_def Let_def)
  next
    case False
    obtain m where m: "m \<le> length (result_positions (t_messages t))"
      "slice_to (- k) (result_positions (t_messages t)) = drop 0 (take m (result_positions (t_messages t)))"
      using slice_to_take by blast
    from False assms m(2) obtain ms' where
      l: "mask_loop tok (drop 0 (take m (result_positions (t_messages t)))) (t_messages t, 0) = (ms', freed)"
      and t': "t' = t\<lparr>t_messages := ms'\<rparr>"
      by (auto simp: mask_older_results_def Let_def split: prod.splits)
    from mask_loop_skel[OF refl _ m(1) l] show ?thesis by (simp add: t')
  qed
  then show "map skel (t_messages t') = map skel (t_messages t)" "t_system t' = t_system t" by simp_all
qed

lemma mask_older_results_paired [wf_intros]:
  "mask_older_results tok k t = (freed, t') \<Longrightarrow> paired (t_messages t) \<Longrightarrow> paired (t_messages t')"
  using paired_skel[OF mask_older_results_skel(1)] by blast

section \<open>Dropping orphans\<close>

definition drop_orphans_message :: "string set \<Rightarrow> message \<Rightarrow> message" where
  "drop_orphans_message ids m = m\<lparr>msg_blocks :=
     filter (\<lambda>b. \<not> (is_tool_result b \<and> result_call_id b \<notin> ids)) (msg_blocks m)\<rparr>"

definition drop_orphan_tool_results :: "transcript \<Rightarrow> nat \<times> transcript" where
  "drop_orphan_tool_results t =
     (let ids = all_calls (t_messages t);
          dropped = sum_list (map (\<lambda>m. length (msg_blocks m) -
            length (msg_blocks (drop_orphans_message ids m))) (t_messages t));
          kept = filter (\<lambda>m. msg_blocks m \<noteq> []) (map (drop_orphans_message ids) (t_messages t))
      in (dropped, if dropped \<noteq> 0 then t\<lparr>t_messages := kept\<rparr> else t))"

lemma drop_orphans_message_calls [simp]: "calls_in (drop_orphans_message ids m) = calls_in m"
proof -
  have "filter is_tool_call (filter (\<lambda>b. \<not> (is_tool_result b \<and> result_call_id b \<notin> ids)) bs) = filter is_tool_call bs" for bs
  proof (induction bs)
    case (Cons b bs)
    then show ?case by (cases b) auto
  qed simp
  then show ?thesis by (simp add: calls_in_def drop_orphans_message_def)
qed

lemma drop_orphans_message_results:
  "results_in (drop_orphans_message ids m) = results_in m \<inter> ids"
  by (auto simp: results_in_def drop_orphans_message_def)

lemma drop_orphans_message_same:
  "results_in m \<subseteq> ids \<Longrightarrow> drop_orphans_message ids m = m"
proof -
  assume "results_in m \<subseteq> ids"
  then have "filter (\<lambda>b. \<not> (is_tool_result b \<and> result_call_id b \<notin> ids)) (msg_blocks m) = msg_blocks m"
    by (auto simp: results_in_def filter_id_conv)
  then show ?thesis by (simp add: drop_orphans_message_def)
qed

lemma drop_orphan_none:
  "orphan_free (t_messages t) \<Longrightarrow> drop_orphan_tool_results t = (0, t)"
proof -
  assume of: "orphan_free (t_messages t)"
  have "drop_orphans_message (all_calls (t_messages t)) m = m" if "m \<in> set (t_messages t)" for m
  proof (rule drop_orphans_message_same)
    show "results_in m \<subseteq> all_calls (t_messages t)"
      using of that by (auto simp: orphan_free_def all_results_def)
  qed
  then have "sum_list (map (\<lambda>m. length (msg_blocks m) -
      length (msg_blocks (drop_orphans_message (all_calls (t_messages t)) m))) (t_messages t)) = 0" (is "?d = 0")
    by (simp add: sum_list_eq_0_iff)
  then show ?thesis unfolding drop_orphan_tool_results_def Let_def by (simp only: simp_thms if_False)
qed

lemma snd_drop_orphan:
  "snd (drop_orphan_tool_results t) = (if fst (drop_orphan_tool_results t) \<noteq> 0
     then t\<lparr>t_messages := filter (\<lambda>m. msg_blocks m \<noteq> [])
       (map (drop_orphans_message (all_calls (t_messages t))) (t_messages t))\<rparr> else t)"
  unfolding drop_orphan_tool_results_def Let_def by (simp only: fst_conv snd_conv)

lemma drop_orphan_zero_iff:
  "fst (drop_orphan_tool_results t) = 0 \<longleftrightarrow> orphan_free (t_messages t)"
proof
  assume "fst (drop_orphan_tool_results t) = 0"
  then have z: "length (msg_blocks m) \<le> length (msg_blocks (drop_orphans_message (all_calls (t_messages t)) m))"
    if "m \<in> set (t_messages t)" for m
    using that by (simp add: drop_orphan_tool_results_def Let_def sum_list_eq_0_iff)
  show "orphan_free (t_messages t)"
    unfolding orphan_free_def all_results_def
  proof (rule UN_least)
    fix m assume m: "m \<in> set (t_messages t)"
    have "length (filter P (msg_blocks m)) \<le> length (msg_blocks m)" for P by simp
    with z[OF m] have "filter (\<lambda>b. \<not> (is_tool_result b \<and> result_call_id b \<notin> all_calls (t_messages t))) (msg_blocks m) = msg_blocks m"
      by (metis (no_types, lifting) drop_orphans_message_def filter_length_eq_iff filter_True le_antisym message.select_convs(2) message.surjective message.update_convs(2))
    then show "results_in m \<subseteq> all_calls (t_messages t)"
      by (auto simp: results_in_def filter_id_conv)
  qed
next
  assume "orphan_free (t_messages t)"
  then show "fst (drop_orphan_tool_results t) = 0" by (simp add: drop_orphan_none)
qed

lemma calls_in_empty_blocks: "msg_blocks m = [] \<Longrightarrow> calls_in m = {}"
  by (simp add: calls_in_def)

lemma drop_orphan_result_free:
  "orphan_free (t_messages (snd (drop_orphan_tool_results t)))"
proof (cases "fst (drop_orphan_tool_results t) = 0")
  case True
  then show ?thesis using drop_orphan_zero_iff drop_orphan_none by (metis snd_conv)
next
  case False
  let ?ids = "all_calls (t_messages t)"
  have ms: "t_messages (snd (drop_orphan_tool_results t)) =
      filter (\<lambda>m. msg_blocks m \<noteq> []) (map (drop_orphans_message ?ids) (t_messages t))" (is "_ = ?kept")
    using False by (simp only: snd_drop_orphan) simp
  have "all_results ?kept \<subseteq> ?ids"
    by (auto simp: all_results_def drop_orphans_message_results)
  moreover have "?ids \<subseteq> all_calls ?kept"
  proof
    fix i assume "i \<in> ?ids"
    then obtain m where m: "m \<in> set (t_messages t)" "i \<in> calls_in m" by (auto simp: all_calls_def)
    then have c: "i \<in> calls_in (drop_orphans_message ?ids m)" by simp
    then have "msg_blocks (drop_orphans_message ?ids m) \<noteq> []" using calls_in_empty_blocks by blast
    with m c show "i \<in> all_calls ?kept" by (auto simp: all_calls_def)
  qed
  ultimately show ?thesis by (simp add: ms orphan_free_def)
qed

section \<open>Properties of masking and repair\<close>

text \<open>
  Masking with a positive \<open>keep_recent\<close> rewrites the contents of all but the last
  \<open>keep_recent\<close> tool results, in place: the messages, their blocks, the call ids and the recent
  results are what they were.
\<close>

theorem mask_keeps_recent_results:
  assumes "0 < k"
  shows "map skel (t_messages (snd (mask_older_results tok k t))) = map skel (t_messages t) \<and>
    flat_results (t_messages (snd (mask_older_results tok k t))) =
      map (mask_block tok) (take (length (flat_results (t_messages t)) - nat k) (flat_results (t_messages t))) @
      drop (length (flat_results (t_messages t)) - nat k) (flat_results (t_messages t))"
  using mask_older_results_spec[OF prod.collapse[symmetric] assms, of tok t] by (simp add: Let_def)

theorem mask_keeps_recent_results_witness:
  "flat_results (t_messages (snd (mask_older_results length 1 \<lparr>t_messages =
      [tool_result_message (ToolResult ''a'' ''x'' False), tool_result_message (ToolResult ''b'' ''y'' False)],
      t_system = None\<rparr>))) =
     [ToolResult ''a'' ''[tool_result elided; call_id=a; original_tokens=1]'' False, ToolResult ''b'' ''y'' False]"
proof -
  let ?t = "\<lparr>t_messages = [tool_result_message (ToolResult ''a'' ''x'' False),
      tool_result_message (ToolResult ''b'' ''y'' False)], t_system = None\<rparr>"
  have "map (mask_block length) (take (length (flat_results (t_messages ?t)) - nat 1) (flat_results (t_messages ?t))) @
      drop (length (flat_results (t_messages ?t)) - nat 1) (flat_results (t_messages ?t)) =
     [ToolResult ''a'' ''[tool_result elided; call_id=a; original_tokens=1]'' False, ToolResult ''b'' ''y'' False]"
    by code_simp
  with mask_keeps_recent_results[of 1 length ?t] show ?thesis by simp
qed

text \<open>
  The repair before a send leaves no tool result without its call, drops no call, and is
  the identity exactly when there was nothing to repair.
\<close>

theorem repair_leaves_no_orphan:
  "orphan_free (t_messages (snd (drop_orphan_tool_results t))) \<and>
   all_calls (t_messages (snd (drop_orphan_tool_results t))) = all_calls (t_messages t) \<and>
   (fst (drop_orphan_tool_results t) = 0 \<longleftrightarrow> orphan_free (t_messages t)) \<and>
   (snd (drop_orphan_tool_results t) = t \<longleftrightarrow> orphan_free (t_messages t))"
proof -
  have "all_calls (filter (\<lambda>m. msg_blocks m \<noteq> []) (map (drop_orphans_message ids) ms)) = all_calls ms" for ids ms
    by (induction ms) (auto simp: all_calls_def dest: calls_in_empty_blocks)
  then have c: "all_calls (t_messages (snd (drop_orphan_tool_results t))) = all_calls (t_messages t)"
    by (simp only: snd_drop_orphan split: if_split) simp
  have "snd (drop_orphan_tool_results t) = t \<longleftrightarrow> orphan_free (t_messages t)"
    using drop_orphan_none[of t] drop_orphan_result_free[of t] by (metis snd_conv)
  with c drop_orphan_result_free[of t] drop_orphan_zero_iff[of t] show ?thesis by blast
qed

end
