(* ===== verification/Compaction.thy ===== *)
theory Compaction
  imports Accountant Masking Providers
begin

text \<open>
  Compaction of a transcript: the summarizer of \<open>src/src/harness/context/summarizer.py\<close> and the
  two-step compactor of \<open>src/src/harness/context/compactor.py\<close>.  The provider's \<open>acomplete\<close> is
  the parameter \<open>acomplete\<close> on a world \<open>'w\<close>; an exception of it propagates.
\<close>

section \<open>Summarizing a prefix\<close>

abbreviation em_dash :: string where
  "em_dash \<equiv> [CHR 0xE2, CHR 0x80, CHR 0x94]"

abbreviation right_arrow :: string where
  "right_arrow \<equiv> [CHR 0xE2, CHR 0x86, CHR 0x92]"

definition summarizer_system :: string where
  "summarizer_system = concat (map (\<lambda>l. l @ newline) [
     ''You are a conversation summarizer for an AI agent session.'',
     '''',
     ''Your job is to condense the provided conversation into a brief summary that'',
     ''preserves:'',
     ''- Key facts discovered (files read, values computed, decisions made).'',
     ''- Open questions and in-progress subtasks.'',
     ''- Which tools have been called and what they returned, in sequence.'',
     ''- Any user-expressed preferences or constraints.'',
     '''',
     ''DO NOT:'',
     ''- Invent information not present in the transcript.'',
     ''- Omit tool calls '' @ em_dash @ '' list each tool call with a one-line outcome.'',
     ''- Exceed 1000 words.'',
     '''',
     ''Return plain prose. The summary replaces the original turns in the agent'' @ [CHR 39] @ ''s'',
     ''memory, so it must be accurate and complete.''])"

record summarization_result =
  sr_summary_text :: string
  sr_turns_replaced :: nat
  sr_input_tokens :: int
  sr_output_tokens :: int

fun show_role :: "role \<Rightarrow> string" where
  "show_role RoleUser = ''user''"
| "show_role RoleAssistant = ''assistant''"
| "show_role RoleSystem = ''system''"

fun render_block :: "role \<Rightarrow> block \<Rightarrow> string list" where
  "render_block r (TextBlock t) = [''['' @ show_role r @ ''] '' @ t]"
| "render_block r (ToolCall i n a) =
     [''[assistant'' @ right_arrow @ ''tool] '' @ n @ ''('' @ py_repr_json (JObj a) @ '')'']"
| "render_block r (ToolResult i c err) =
     [(if err then ''[tool'' @ right_arrow @ ''error]'' else ''[tool'' @ right_arrow @ ''result]'') @ '' '' @ c]"
| "render_block r (ReasoningBlock t m) = []"

definition render_prefix :: "message list \<Rightarrow> string" where
  "render_prefix ms = py_join newline
     (concat (map (\<lambda>m. concat (map (render_block (msg_role m)) (msg_blocks m))) ms))"

text \<open>
  The \<open>while\<close> that retreats the cut past a run of tool results; reading a message past the end
  raises.
\<close>

definition index_error :: exn where
  "index_error = Exn ''IndexError'' ''list index out of range''"

fun retreat_cut :: "message list \<Rightarrow> nat \<Rightarrow> exn + nat" where
  "retreat_cut ms p =
     (if p > 1 then
        (if p < length ms then
           (if has_tool_result (ms ! p) then retreat_cut ms (p - 1) else Inr p)
         else Inl index_error)
      else Inr p)"

declare retreat_cut.simps [simp del]

definition summary_message :: "nat \<Rightarrow> string \<Rightarrow> message" where
  "summary_message n text = user_text (''[session summary '' @ em_dash @ '' '' @ show_nat n @ '' turns replaced]''
     @ newline @ text)"

definition summarize_prefix :: "(transcript \<Rightarrow> 'w \<Rightarrow> (exn + provider_response) \<times> 'w) \<Rightarrow> int \<Rightarrow>
    transcript \<Rightarrow> 'w \<Rightarrow> (exn + summarization_result option) \<times> transcript \<times> 'w" where
  "summarize_prefix acomplete keep t w =
     (let ms = t_messages t; n = length ms in
      if int n \<le> keep + 1 then (Inr None, t, w)
      else if ms = [] then (Inl index_error, t, w)
      else case retreat_cut ms (nat (int n - keep)) of
        Inl e \<Rightarrow> (Inl e, t, w)
      | Inr p \<Rightarrow>
          (let prefix_ms = drop 1 (take p ms) in
           if prefix_ms = [] then (Inr None, t, w)
           else let sub = t_append (user_text (''Summarize this conversation.'' @ newline @ newline @
                              render_prefix prefix_ms)) \<lparr>t_messages = [], t_system = Some summarizer_system\<rparr>
                in (case acomplete sub w of
                      (Inl e, w) \<Rightarrow> (Inl e, t, w)
                    | (Inr r, w) \<Rightarrow>
                        (let text = (case pr_text r of None \<Rightarrow> ''(empty summary)''
                              | Some x \<Rightarrow> if x = '''' then ''(empty summary)'' else x);
                             m = summary_message (length prefix_ms) text
                         in (Inr (Some \<lparr>sr_summary_text = text, sr_turns_replaced = length prefix_ms,
                               sr_input_tokens = pr_input_tokens r, sr_output_tokens = pr_output_tokens r\<rparr>),
                             t\<lparr>t_messages := take 1 ms @ [m] @ drop p ms\<rparr>, w)))))"

lemma retreat_cut_total:
  "p < length ms \<Longrightarrow> \<exists>q. retreat_cut ms p = Inr q \<and> q \<le> p"
proof (induction p rule: less_induct)
  case (less p)
  show ?case
  proof (cases "p > 1 \<and> has_tool_result (ms ! p)")
    case True
    then have "p - 1 < p" "p - 1 < length ms" using less.prems by auto
    then obtain q where "retreat_cut ms (p - 1) = Inr q" "q \<le> p - 1"
      using less.IH by blast
    with True less.prems show ?thesis
      by (subst retreat_cut.simps) auto
  next
    case False
    with less.prems show ?thesis by (subst retreat_cut.simps) auto
  qed
qed

lemma retreat_cut_result:
  "retreat_cut ms p = Inr q \<Longrightarrow>
     q \<le> p \<and> (q \<le> 1 \<or> (q < length ms \<and> \<not> has_tool_result (ms ! q)))"
proof (induction p rule: less_induct)
  case (less p)
  show ?case
  proof (cases "p > 1 \<and> p < length ms \<and> has_tool_result (ms ! p)")
    case True
    with less.prems have "retreat_cut ms (p - 1) = Inr q"
      by (subst (asm) retreat_cut.simps) simp
    with less.IH[of "p - 1"] True show ?thesis by auto
  next
    case False
    with less.prems show ?thesis
      by (subst (asm) retreat_cut.simps) (auto split: if_splits)
  qed
qed

text \<open>What a successful summary did to the transcript.\<close>

lemma summarize_prefix_some:
  assumes "summarize_prefix acomplete keep t w = (Inr (Some sr), t', w')"
  obtains p m where "1 < p" "p < length (t_messages t)" "\<not> has_tool_result (t_messages t ! p)"
    "t_messages t' = take 1 (t_messages t) @ [m] @ drop p (t_messages t)"
    "m = summary_message (p - 1) (sr_summary_text sr)" "sr_turns_replaced sr = p - 1"
    "int p \<le> int (length (t_messages t)) - keep" "t_system t' = t_system t"
proof -
  let ?ms = "t_messages t"
  from assms obtain p where r: "retreat_cut ?ms (nat (int (length ?ms) - keep)) = Inr p"
    and ne: "drop 1 (take p ?ms) \<noteq> []" and len: "\<not> int (length ?ms) \<le> keep + 1"
    and t': "t_messages t' = take 1 ?ms @ [summary_message (length (drop 1 (take p ?ms))) (sr_summary_text sr)]
        @ drop p ?ms" and sr: "sr_turns_replaced sr = length (drop 1 (take p ?ms))"
    and sys: "t_system t' = t_system t"
    by (auto simp: summarize_prefix_def Let_def split: if_splits sum.splits prod.splits)
  from ne have p1: "1 < p" by (metis drop_eq_Nil length_take min.coboundedI2 not_le_imp_less)
  from retreat_cut_result[OF r] p1 have p: "p < length ?ms" "\<not> has_tool_result (?ms ! p)"
    "p \<le> nat (int (length ?ms) - keep)" by auto
  from p(1) have pl: "length (drop 1 (take p ?ms)) = p - 1" by simp
  show thesis
    by (rule that[OF p1 p(1) p(2) t'[unfolded pl] refl sr[unfolded pl] _ sys])
      (use p1 p(3) in linarith)
qed

lemma summarize_prefix_none:
  "summarize_prefix acomplete keep t w = (Inr None, t', w') \<Longrightarrow> t' = t \<and> w' = w"
  by (auto simp: summarize_prefix_def Let_def split: if_splits sum.splits prod.splits)

lemma summarize_prefix_err:
  "summarize_prefix acomplete keep t w = (Inl e, t', w') \<Longrightarrow> t' = t"
  by (auto simp: summarize_prefix_def Let_def split: if_splits sum.splits prod.splits)

lemma summary_message_props [simp]:
  "has_tool_result (summary_message n s) = False" "calls_in (summary_message n s) = {}"
  "results_in (summary_message n s) = {}"
  by (simp_all add: summary_message_def)

text \<open>A cut at a message without results leaves what is behind it paired, whatever was available.\<close>

lemma paired_cut:
  assumes "paired ms" and "p < length ms" and "\<not> has_tool_result (ms ! p)"
  shows "paired_from av (drop p ms)"
proof -
  have d: "drop p ms = ms ! p # drop (Suc p) ms" using assms(2) by (simp add: Cons_nth_drop_Suc)
  have "paired_from (avail_after {} (take p ms)) (drop p ms)"
    using assms(1) paired_from_append[of "{}" "take p ms" "drop p ms"] by simp
  then show ?thesis unfolding d by (rule paired_from_cut[OF _ assms(3)])
qed

text \<open>The cut never separates a result from its call.\<close>

lemma summarize_prefix_paired [wf_intros]:
  assumes "summarize_prefix acomplete keep t w = (r, t', w')" and "paired (t_messages t)"
  shows "paired (t_messages t')"
proof (cases r)
  case (Inl e)
  with assms summarize_prefix_err show ?thesis by metis
next
  case (Inr o1)
  show ?thesis
  proof (cases o1)
    case None
    with Inr assms summarize_prefix_none show ?thesis by metis
  next
    case (Some sr)
    let ?ms = "t_messages t"
    from assms(1)[unfolded Inr Some] obtain p m where p: "1 < p" "p < length ?ms" "\<not> has_tool_result (?ms ! p)"
      and t': "t_messages t' = take 1 ?ms @ [m] @ drop p ?ms"
      and m: "m = summary_message (p - 1) (sr_summary_text sr)"
      by (rule summarize_prefix_some)
    have "paired (take 1 ?ms)" using assms(2) paired_from_append[of "{}" "take 1 ?ms" "drop 1 ?ms"] by simp
    moreover have "paired_from av (drop p ?ms)" for av by (rule paired_cut[OF assms(2) p(2,3)])
    ultimately show ?thesis
      unfolding t' by (simp add: paired_from_append m)
  qed
qed

section \<open>The compactor\<close>

record compaction_result =
  cr_masking_tokens_freed :: int
  cr_turns_replaced :: nat
  cr_summarization_tokens :: int
  cr_final_state :: ctx_state

record compactor =
  cmp_budget :: context_budget
  cmp_keep_recent_results :: int
  cmp_keep_recent_turns :: int

definition default_compactor :: "context_budget \<Rightarrow> compactor" where
  "default_compactor b = \<lparr>cmp_budget = b, cmp_keep_recent_results = 3, cmp_keep_recent_turns = 6\<rparr>"

definition compact_if_needed :: "(string \<Rightarrow> nat) \<Rightarrow> (transcript \<Rightarrow> 'w \<Rightarrow> (exn + provider_response) \<times> 'w) \<Rightarrow>
    compactor \<Rightarrow> transcript \<Rightarrow> json list \<Rightarrow> 'w \<Rightarrow> (exn + compaction_result) \<times> transcript \<times> 'w" where
  "compact_if_needed tok acomplete c t tools w =
     (let st = (\<lambda>t. ctx_state_of (snapshot tok (cmp_budget c) t tools [] None));
          res = \<lparr>cr_masking_tokens_freed = 0, cr_turns_replaced = 0, cr_summarization_tokens = 0,
                 cr_final_state = st t\<rparr> in
      if st t \<noteq> Red then (Inr res, t, w)
      else let (freed, t) = mask_older_results tok (cmp_keep_recent_results c) t;
               res = res\<lparr>cr_masking_tokens_freed := freed, cr_final_state := st t\<rparr> in
        if st t \<noteq> Red then (Inr res, t, w)
        else case summarize_prefix acomplete (cmp_keep_recent_turns c) t w of
            (Inl e, t, w) \<Rightarrow> (Inl e, t, w)
          | (Inr summary, t, w) \<Rightarrow>
              (let res = (case summary of None \<Rightarrow> res
                   | Some s \<Rightarrow> res\<lparr>cr_turns_replaced := sr_turns_replaced s,
                                   cr_summarization_tokens := sr_output_tokens s\<rparr>)
               in (Inr (res\<lparr>cr_final_state := st t\<rparr>), t, w)))"

lemma compact_if_needed_paired [wf_intros]:
  assumes "compact_if_needed tok acomplete c t tools w = (r, t', w')" and "paired (t_messages t)"
  shows "paired (t_messages t')"
proof -
  obtain freed t1 where m: "mask_older_results tok (cmp_keep_recent_results c) t = (freed, t1)" by fastforce
  obtain r2 t2 w2 where s: "summarize_prefix acomplete (cmp_keep_recent_turns c) t1 w = (r2, t2, w2)"
    using prod_cases3 by blast
  from m assms(2) have p1: "paired (t_messages t1)" by (rule mask_older_results_paired)
  from s p1 have p2: "paired (t_messages t2)" by (rule summarize_prefix_paired)
  show ?thesis
    using assms p1 p2
    by (auto simp: compact_if_needed_def Let_def m s split: if_splits sum.splits)
qed

lemma compact_if_needed_not_red:
  "ctx_state_of (snapshot tok (cmp_budget c) t tools [] None) \<noteq> Red \<Longrightarrow>
   compact_if_needed tok acomplete c t tools w =
     (Inr \<lparr>cr_masking_tokens_freed = 0, cr_turns_replaced = 0, cr_summarization_tokens = 0,
        cr_final_state = ctx_state_of (snapshot tok (cmp_budget c) t tools [] None)\<rparr>, t, w)"
  by (simp add: compact_if_needed_def)

section \<open>Properties of summarization\<close>

text \<open>The replaced messages are paired when the first one calls nothing.\<close>

lemma paired_behind_callless:
  assumes "paired ms" and "calls_in (hd ms) = {}"
  shows "paired (drop 1 (take p ms))"
proof (cases ms)
  case (Cons m ms')
  with assms have "paired ms'" by (auto simp: avail_next_def split: if_splits)
  with Cons paired_from_append[of "{}" "take (p - 1) ms'" "drop (p - 1) ms'"] show ?thesis
    by (cases p) simp_all
qed simp

text \<open>
  C12.  A summary of a paired transcript replaces exactly the messages between the first and a cut
  \<open>p\<close>: the first message and at least the last \<open>keep\<close> ones are kept as they are, and the summary
  says how many messages it replaced.  The cut keeps calls and results together: every result
  behind it answers a call behind it, the new transcript is paired, and when the first message
  makes no tool call, every result replaced answers a call that is replaced too.
\<close>

theorem summary_keeps_ends:
  assumes "summarize_prefix acomplete keep t w = (Inr (Some sr), t', w')" and "paired (t_messages t)"
  shows "\<exists>p. 1 < p \<and> int p \<le> int (length (t_messages t)) - keep \<and> p < length (t_messages t) \<and>
    \<not> has_tool_result (t_messages t ! p) \<and> sr_turns_replaced sr = p - 1 \<and>
    t_messages t' = take 1 (t_messages t) @ [summary_message (p - 1) (sr_summary_text sr)] @ drop p (t_messages t) \<and>
    paired (drop p (t_messages t)) \<and> orphan_free (drop p (t_messages t)) \<and> paired (t_messages t') \<and>
    (calls_in (hd (t_messages t)) = {} \<longrightarrow> paired (drop 1 (take p (t_messages t))) \<and>
       orphan_free (drop 1 (take p (t_messages t))))"
proof -
  from assms(1) obtain p m where p: "1 < p" "p < length (t_messages t)" "\<not> has_tool_result (t_messages t ! p)"
    "t_messages t' = take 1 (t_messages t) @ [m] @ drop p (t_messages t)"
    "m = summary_message (p - 1) (sr_summary_text sr)" "sr_turns_replaced sr = p - 1"
    "int p \<le> int (length (t_messages t)) - keep" by (rule summarize_prefix_some)
  have tail: "paired (drop p (t_messages t))" by (rule paired_cut[OF assms(2) p(2,3)])
  have new: "paired (t_messages t')" by (rule summarize_prefix_paired[OF assms])
  from p tail new paired_orphan_free[OF tail] paired_behind_callless[OF assms(2), of p] paired_orphan_free show ?thesis
    by (intro exI[of _ p]) simp
qed

text \<open>With a tool call where the cut would fall: it retreats in front of the call.\<close>

theorem summary_keeps_ends_witness:
  "t_messages (fst (snd (summarize_prefix (\<lambda>t w. (Inr (accumulate (\<lambda>s. None) [TextDelta ''sum'']), Suc w)) 2
      \<lparr>t_messages = [user_text ''a'', user_text ''b'', assistant_tool_call (ToolCall ''1'' ''f'' []) None,
         tool_result_message (ToolResult ''1'' ''r'' False), user_text ''d''], t_system = None\<rparr> 0))) =
   [user_text ''a'', summary_message 1 ''sum'', assistant_tool_call (ToolCall ''1'' ''f'' []) None,
      tool_result_message (ToolResult ''1'' ''r'' False), user_text ''d'']"
proof -
  let ?t = "\<lparr>t_messages = [user_text ''a'', user_text ''b'', assistant_tool_call (ToolCall ''1'' ''f'' []) None,
         tool_result_message (ToolResult ''1'' ''r'' False), user_text ''d''], t_system = None\<rparr>"
  let ?o = "summarize_prefix (\<lambda>t w. (Inr (accumulate (\<lambda>s. None) [TextDelta ''sum'']), Suc w)) 2 ?t (0::nat)"
  have v: "case fst ?o of Inr (Some sr) \<Rightarrow> sr_turns_replaced sr = 1 \<and> sr_summary_text sr = ''sum'' | _ \<Rightarrow> False"
    by code_simp
  then obtain sr where r: "fst ?o = Inr (Some sr)" by (auto split: sum.splits option.splits)
  obtain t' w' where o': "?o = (Inr (Some sr), t', w')" using r by (cases ?o) auto
  from v r have sr: "sr_turns_replaced sr = 1" "sr_summary_text sr = ''sum''" by simp_all
  have "paired (t_messages ?t)" by code_simp
  from summary_keeps_ends[OF o' this] obtain p where p: "1 < p" "sr_turns_replaced sr = p - 1"
    "t_messages t' = take 1 (t_messages ?t) @ [summary_message (p - 1) (sr_summary_text sr)] @ drop p (t_messages ?t)"
    by blast
  from p(1,2) sr(1) have "p = 2" by simp
  with p(3) sr(2) show ?thesis by (simp add: o')
qed

end
