(* ===== verification/Registry.thy ===== *)
theory Registry
  imports Permissions
begin

text \<open>
  The tool registry of \<open>src/src/harness/tools/registry.py\<close> with the schema validation of
  \<open>tools/validation.py\<close>: construction, dispatch with its guards in order, loop detection over
  the run-scoped call history.

  Parameters (record \<open>tool_env\<close>): the jsonschema validator's errors, difflib's closest match and
  the random nonce of the fence.
\<close>

record 'w tool_env =
  te_iter_errors :: "args \<Rightarrow> json \<Rightarrow> (string \<times> string list) list" \<comment> \<open>message, absolute path\<close>
  te_close_match :: "string \<Rightarrow> string list \<Rightarrow> string option"
  te_nonce :: "'w \<Rightarrow> string \<times> 'w"

record 'w registry =
  rg_tools :: "(string, 'w tool) dict"
  rg_history :: "(string \<times> string) list"
  rg_pm :: "'w permission_manager option"
  rg_write_gate :: bool

definition max_repeat_calls :: nat where
  "max_repeat_calls = 3"

definition history_cap :: nat where
  "history_cap = 100"

definition registry_add :: "'w tool \<Rightarrow> 'w registry \<Rightarrow> exn + 'w registry" where
  "registry_add t rg =
     (if tool_name t \<in> set (dict_keys (rg_tools rg))
      then Inl (Exn ''ValueError'' (''duplicate tool name: '' @ tool_name t))
      else Inr (rg\<lparr>rg_tools := dict_set (rg_tools rg) (tool_name t) t\<rparr>))"

fun registry_add_all :: "'w tool list \<Rightarrow> 'w registry \<Rightarrow> exn + 'w registry" where
  "registry_add_all [] rg = Inr rg"
| "registry_add_all (t # ts) rg =
     (case registry_add t rg of Inl e \<Rightarrow> Inl e | Inr rg \<Rightarrow> registry_add_all ts rg)"

definition make_registry :: "'w tool list \<Rightarrow> 'w permission_manager option \<Rightarrow> (string \<times> string) list \<Rightarrow> bool \<Rightarrow>
    exn + 'w registry" where
  "make_registry ts pm hist gate =
     registry_add_all ts \<lparr>rg_tools = [], rg_history = hist, rg_pm = pm, rg_write_gate = gate\<rparr>"

definition registry_schemas :: "'w registry \<Rightarrow> json list" where
  "registry_schemas rg = map (\<lambda>(n, t). schema_for_provider t) (rg_tools rg)"

definition validation_errors :: "'w tool_env \<Rightarrow> args \<Rightarrow> json \<Rightarrow> string list" where
  "validation_errors ev a sch = map (\<lambda>(msg, path). (''args'' @ concat (map (\<lambda>p. ''.'' @ p) path)) @ '': '' @ msg)
     (te_iter_errors ev a sch)"

definition unknown_tool :: "'w tool_env \<Rightarrow> 'w registry \<Rightarrow> string \<Rightarrow> string \<Rightarrow> block" where
  "unknown_tool ev rg name cid =
     (let names = dict_keys (rg_tools rg);
          suggestion = (case te_close_match ev name names of None \<Rightarrow> ''''
            | Some c \<Rightarrow> '' Did you mean '' @ py_repr c @ ''?'')
      in ToolResult cid (''unknown tool: '' @ py_repr name @ ''.'' @ suggestion @ '' Available: ['' @
           py_join '', '' (map py_repr (sort_strs names)) @ '']'') True)"

abbreviation ellipsis :: string where
  "ellipsis \<equiv> [CHR 0xE2, CHR 0x80, CHR 0xA6]"

text \<open>
  The raw buffer is a string unless the model itself sent the reserved key: then a value without a
  length raises, a short list or object is shown as it is, and a long one cannot be cut (a list
  concatenated with a text, an object subscripted with a slice).
\<close>

fun malformed_preview :: "json \<Rightarrow> exn + string" where
  "malformed_preview (JStr s) = Inr (py_repr (if length s \<le> 200 then s else take 200 s @ ellipsis))"
| "malformed_preview (JList js) = (if length js \<le> 200 then Inr (py_repr_json (JList js))
     else Inl (Exn ''TypeError'' (''can only concatenate list (not '' @ [CHR 34] @ ''str'' @ [CHR 34] @ '') to list'')))"
| "malformed_preview (JObj kvs) = (if length kvs \<le> 200 then Inr (py_repr_json (JObj kvs))
     else Inl (Exn ''KeyError'' ''slice(None, 200, None)''))"
| "malformed_preview JNull = Inl (Exn ''TypeError'' (''object of type '' @ [CHR 39] @ ''NoneType'' @ [CHR 39] @ '' has no len()''))"
| "malformed_preview (JBool b) = Inl (Exn ''TypeError'' (''object of type '' @ [CHR 39] @ ''bool'' @ [CHR 39] @ '' has no len()''))"
| "malformed_preview (JInt i) = Inl (Exn ''TypeError'' (''object of type '' @ [CHR 39] @ ''int'' @ [CHR 39] @ '' has no len()''))"
| "malformed_preview (JFloat r) = Inl (Exn ''TypeError'' (''object of type '' @ [CHR 39] @ ''float'' @ [CHR 39] @ '' has no len()''))"

definition malformed_args :: "string \<Rightarrow> json \<Rightarrow> string \<Rightarrow> exn + block" where
  "malformed_args name raw cid =
     (case malformed_preview raw of
        Inl e \<Rightarrow> Inl e
      | Inr preview \<Rightarrow> Inr (ToolResult cid (name @ '': arguments were not valid JSON and could not be parsed. '' @
           ''Re-issue the call with a single well-formed JSON object. '' @
           ''Received: '' @ preview) True))"

definition validation_failure :: "string \<Rightarrow> string list \<Rightarrow> string \<Rightarrow> block" where
  "validation_failure name errors cid =
     ToolResult cid (name @ '': invalid arguments. '' @ py_join ''; '' errors) True"

definition call_key :: "string \<Rightarrow> args \<Rightarrow> string \<times> string" where
  "call_key name a = (name, dumps_sorted a)"

definition record_call :: "string \<Rightarrow> args \<Rightarrow> (string \<times> string) list \<Rightarrow> (string \<times> string) list" where
  "record_call name a hist =
     (let h = hist @ [call_key name a] in if length h > history_cap then last_n history_cap h else h)"

definition loop_repeats :: "string \<Rightarrow> args \<Rightarrow> (string \<times> string) list \<Rightarrow> nat" where
  "loop_repeats name a hist = length (filter (\<lambda>k. k = call_key name a) (last_n max_repeat_calls hist))"

definition check_loop :: "string \<Rightarrow> args \<Rightarrow> string \<Rightarrow> (string \<times> string) list \<Rightarrow> block option" where
  "check_loop name a cid hist =
     (if loop_repeats name a hist \<ge> max_repeat_calls
      then Some (ToolResult cid (''tool-call loop detected: '' @ name @ '' called with identical '' @
             ''arguments '' @ show_nat max_repeat_calls @ '' times in a row. '' @
             ''Try a different approach or different arguments, or '' @
             ''stop and return your current best answer.'') True)
      else None)"

text \<open>Which calls take the shared write gate: all that are not provably pure reads.\<close>

definition read_only :: "'w tool \<Rightarrow> bool" where
  "read_only t \<longleftrightarrow> tool_effects t \<noteq> {} \<and> tool_effects t \<subseteq> {SRead}"

definition takes_gate :: "'w registry \<Rightarrow> 'w tool \<Rightarrow> bool" where
  "takes_gate rg t \<longleftrightarrow> rg_write_gate rg \<and> \<not> read_only t"

definition invoke_tool :: "'w tool_env \<Rightarrow> 'w tool \<Rightarrow> args \<Rightarrow> 'w \<Rightarrow> (exn + string) \<times> 'w" where
  "invoke_tool ev t a w =
     (case tool_arun t of
        Some f \<Rightarrow> (case f a w of
            (Inl e, w) \<Rightarrow> (Inl e, w)
          | (Inr s, w) \<Rightarrow> (let (s, w) = wrap_if_untrusted (te_nonce ev) t s w in (Inr s, w)))
      | None \<Rightarrow> (case tool_run t of
          Some f \<Rightarrow> (case f a w of
              (Inl e, w) \<Rightarrow> (Inl e, w)
            | (Inr s, w) \<Rightarrow> (let (s, w) = wrap_if_untrusted (te_nonce ev) t s w in (Inr s, w)))
        | None \<Rightarrow> (Inl (Exn ''RuntimeError'' (''tool '' @ py_repr (tool_name t) @ '' has no implementation'')), w)))"

definition permission_step :: "'w registry \<Rightarrow> 'w tool \<Rightarrow> args \<Rightarrow> 'w \<Rightarrow>
    (exn + string option) \<times> 'w registry \<times> 'w" where
  "permission_step rg t a w =
     (case rg_pm rg of
        None \<Rightarrow> (Inr None, rg, w)
      | Some pm \<Rightarrow> (case pm_check pm t a w of
          (r, pm, w) \<Rightarrow> ((case r of Inl e \<Rightarrow> Inl e
             | Inr oc \<Rightarrow> Inr (if po_decision oc = Deny then Some (po_reason oc) else None)),
             rg\<lparr>rg_pm := Some pm\<rparr>, w)))"

definition run_call :: "'w tool_env \<Rightarrow> 'w registry \<Rightarrow> 'w tool \<Rightarrow> string \<Rightarrow> args \<Rightarrow> string \<Rightarrow> 'w \<Rightarrow>
    (exn + block) \<times> 'w registry \<times> 'w" where
  "run_call ev rg t name a cid w =
     (case invoke_tool ev t a w of
        (Inr content, w) \<Rightarrow> (Inr (ToolResult cid content False), rg, w)
      | (Inl e, w) \<Rightarrow>
          if is_exception e
          then (let (s, w) = wrap_if_untrusted (te_nonce ev) t (exn_str e) w in
            (Inr (ToolResult cid (name @ '' raised '' @ exn_type e @ '': '' @ s) True), rg, w))
          else (Inl e, rg, w))"

abbreviation denied_dash :: string where
  "denied_dash \<equiv> [CHR 0xE2, CHR 0x80, CHR 0x94]"

definition dispatch :: "'w tool_env \<Rightarrow> 'w registry \<Rightarrow> string \<Rightarrow> args \<Rightarrow> string \<Rightarrow> 'w \<Rightarrow>
    (exn + block) \<times> 'w registry \<times> 'w" where
  "dispatch ev rg name a cid w =
     (case map_of (rg_tools rg) name of
        None \<Rightarrow> (Inr (unknown_tool ev rg name cid), rg, w)
      | Some t \<Rightarrow>
         (case map_of a malformed_args_key of
            Some raw \<Rightarrow> (malformed_args name raw cid, rg, w)
          | None \<Rightarrow>
             (let errors = validation_errors ev a (tool_schema t) in
              if errors \<noteq> [] then (Inr (validation_failure name errors cid), rg, w)
              else (case permission_step rg t a w of
                  (Inl e, rg, w) \<Rightarrow> (Inl e, rg, w)
                | (Inr (Some reason), rg, w) \<Rightarrow>
                    (Inr (ToolResult cid (name @ '': permission denied '' @ denied_dash @ '' '' @ reason) True), rg, w)
                | (Inr None, rg, w) \<Rightarrow>
                    (let rg = rg\<lparr>rg_history := record_call name a (rg_history rg)\<rparr> in
                     case check_loop name a cid (rg_history rg) of
                       Some b \<Rightarrow> (Inr b, rg, w)
                     | None \<Rightarrow> run_call ev rg t name a cid w)))))"

section \<open>Loop detection\<close>

lemma last_n_record: "n \<le> history_cap \<Longrightarrow> 1 \<le> n \<Longrightarrow>
   last_n n (record_call name a h) = last_n (n - 1) h @ [call_key name a]"
proof -
  assume n: "n \<le> history_cap" "1 \<le> n"
  have "last_n n (last_n history_cap xs) = last_n n xs" if "history_cap < length xs" for xs :: "(string \<times> string) list"
    using n that by (simp add: last_n_def drop_drop)
  then have "last_n n (record_call name a h) = last_n n (h @ [call_key name a])"
    by (simp add: record_call_def Let_def)
  with n show ?thesis by (simp add: last_n_append_single)
qed

lemma length_record_call: "length h \<le> history_cap \<Longrightarrow> length (record_call name a h) \<le> history_cap"
  by (simp add: record_call_def Let_def history_cap_def)

lemma check_loop_record_iff:
  "check_loop name a cid (record_call name a h) \<noteq> None \<longleftrightarrow>
     last_n 2 h = [call_key name a, call_key name a]"
proof -
  let ?k = "call_key name a"
  have "loop_repeats name a (record_call name a h) = Suc (length (filter (\<lambda>k. k = ?k) (last_n 2 h)))"
    using last_n_record[of 3 name a h] by (simp add: loop_repeats_def max_repeat_calls_def history_cap_def)
  moreover have "length (filter (\<lambda>k. k = ?k) (last_n 2 h)) \<ge> 2 \<longleftrightarrow> last_n 2 h = [?k, ?k]"
  proof
    assume two: "length (filter (\<lambda>k. k = ?k) (last_n 2 h)) \<ge> 2"
    have "length (last_n 2 h) \<le> 2" by simp
    moreover have "length (filter (\<lambda>k. k = ?k) (last_n 2 h)) \<le> length (last_n 2 h)" by (rule length_filter_le)
    ultimately have l: "length (filter (\<lambda>k. k = ?k) (last_n 2 h)) = length (last_n 2 h)" "length (last_n 2 h) = 2"
      using two by linarith+
    have "\<forall>x \<in> set (last_n 2 h). x = ?k" by (rule iffD1[OF filter_length_eq_iff l(1)])
    with l(2) show "last_n 2 h = [?k, ?k]"
      using replicate_eqI[of "last_n 2 h" 2 ?k] by (simp add: numeral_2_eq_2)
  qed simp
  ultimately show ?thesis by (simp add: check_loop_def max_repeat_calls_def)
qed

section \<open>Facts about dispatch\<close>

lemma permission_step_frame:
  "permission_step rg t a w = (r, rg', w') \<Longrightarrow>
     rg_tools rg' = rg_tools rg \<and> rg_history rg' = rg_history rg \<and> rg_write_gate rg' = rg_write_gate rg"
  by (auto simp: permission_step_def split: option.splits prod.splits)

lemma run_call_frame:
  "run_call ev rg t name a cid w = (r, rg', w') \<Longrightarrow>
     rg' = rg \<and> (\<forall>b. r = Inr b \<longrightarrow> (\<exists>c e. b = ToolResult cid c e))"
  by (auto simp: run_call_def Let_def split: sum.splits prod.splits if_splits)

lemma malformed_args_result:
  "malformed_args name raw cid = Inr b \<Longrightarrow> \<exists>c. b = ToolResult cid c True"
  by (auto simp: malformed_args_def split: sum.splits)

text \<open>The outcomes of \<open>dispatch\<close>, one per guard.\<close>

lemma dispatch_cases:
  assumes "dispatch ev rg name a cid w = (r, rg', w')"
  obtains (unknown) "map_of (rg_tools rg) name = None" "r = Inr (unknown_tool ev rg name cid)" "rg' = rg" "w' = w"
  | (malformed) raw where "map_of a malformed_args_key = Some raw" "r = malformed_args name raw cid" "rg' = rg" "w' = w"
  | (invalid) t where "map_of (rg_tools rg) name = Some t" "validation_errors ev a (tool_schema t) \<noteq> []"
      "r = Inr (validation_failure name (validation_errors ev a (tool_schema t)) cid)" "rg' = rg" "w' = w"
  | (prompt_failed) t e where "map_of (rg_tools rg) name = Some t" "permission_step rg t a w = (Inl e, rg', w')" "r = Inl e"
  | (denied) t reason where "map_of (rg_tools rg) name = Some t" "permission_step rg t a w = (Inr (Some reason), rg', w')"
      "r = Inr (ToolResult cid (name @ '': permission denied '' @ denied_dash @ '' '' @ reason) True)"
  | (looping) t rg1 b where "map_of (rg_tools rg) name = Some t" "permission_step rg t a w = (Inr None, rg1, w')"
      "check_loop name a cid (record_call name a (rg_history rg)) = Some b" "r = Inr b"
      "rg' = rg1\<lparr>rg_history := record_call name a (rg_history rg)\<rparr>"
  | (invoked) t rg1 w1 where "map_of (rg_tools rg) name = Some t" "map_of a malformed_args_key = None"
      "validation_errors ev a (tool_schema t) = []" "permission_step rg t a w = (Inr None, rg1, w1)"
      "check_loop name a cid (record_call name a (rg_history rg)) = None"
      "run_call ev (rg1\<lparr>rg_history := record_call name a (rg_history rg)\<rparr>) t name a cid w1 = (r, rg', w')"
proof -
  show thesis
  proof (cases "map_of (rg_tools rg) name")
    case None
    have "r = Inr (unknown_tool ev rg name cid) \<and> rg' = rg \<and> w' = w"
      using assms by (auto simp: dispatch_def None)
    with None show thesis using unknown by blast
  next
    case (Some t)
    show thesis
    proof (cases "map_of a malformed_args_key")
      case (Some raw)
      with assms \<open>map_of (rg_tools rg) name = Some t\<close>
      have "r = malformed_args name raw cid \<and> rg' = rg \<and> w' = w" by (simp add: dispatch_def)
      with Some show thesis by (intro malformed) auto
    next
      case None
      note d = assms[unfolded dispatch_def \<open>map_of (rg_tools rg) name = Some t\<close> None option.case Let_def]
      show thesis
      proof (cases "validation_errors ev a (tool_schema t) = []")
        case False
        with d have "r = Inr (validation_failure name (validation_errors ev a (tool_schema t)) cid) \<and> rg' = rg \<and> w' = w"
          by simp
        then show thesis by (intro invalid[OF Some False]) auto
      next
        case True
        obtain r1 rg1 w1 where p: "permission_step rg t a w = (r1, rg1, w1)" using prod_cases3 by blast
        from permission_step_frame[OF p] have h: "rg_history rg1 = rg_history rg" by simp
        show thesis
        proof (cases r1)
          case (Inl e)
          with d True p have "r = Inl e \<and> rg' = rg1 \<and> w' = w1" by simp
          then show thesis using p Inl by (intro prompt_failed[OF Some]) auto
        next
          case (Inr o1)
          show thesis
          proof (cases o1)
            case (Some reason)
            with d True p Inr have
              "r = Inr (ToolResult cid (name @ '': permission denied '' @ denied_dash @ '' '' @ reason) True) \<and> rg' = rg1 \<and> w' = w1"
              by simp
            then show thesis using p Inr Some by (intro denied[OF \<open>map_of (rg_tools rg) name = Some t\<close>]) auto
          next
            case ok: None
            show thesis
            proof (cases "check_loop name a cid (record_call name a (rg_history rg))")
              case None
              with d True p Inr ok h have
                "run_call ev (rg1\<lparr>rg_history := record_call name a (rg_history rg)\<rparr>) t name a cid w1 = (r, rg', w')"
                by simp
              then show thesis using p Inr ok
                by (intro invoked[OF \<open>map_of (rg_tools rg) name = Some t\<close> \<open>map_of a malformed_args_key = None\<close> True _ None]) auto
            next
              case (Some b)
              with d True p Inr ok h have
                "r = Inr b \<and> rg' = rg1\<lparr>rg_history := record_call name a (rg_history rg)\<rparr> \<and> w' = w1"
                by simp
              then show thesis using p Inr ok Some
                by (intro looping[OF \<open>map_of (rg_tools rg) name = Some t\<close>]) auto
            qed
          qed
        qed
      qed
    qed
  qed
qed

lemma dispatch_result_id:
  assumes "dispatch ev rg name a cid w = (Inr b, rg', w')"
  shows "\<exists>c e. b = ToolResult cid c e"
  using assms
proof (cases rule: dispatch_cases)
  case (malformed raw)
  then show ?thesis using malformed_args_result by metis
next
  case (looping t rg1 b')
  then show ?thesis by (auto simp: check_loop_def split: if_splits)
next
  case (invoked t rg1 w1)
  then show ?thesis using run_call_frame by metis
qed (auto simp: unknown_tool_def Let_def validation_failure_def)

lemma dispatch_frame:
  assumes "dispatch ev rg name a cid w = (r, rg', w')"
  shows "rg_tools rg' = rg_tools rg"
    and "rg_history rg' = rg_history rg \<or> rg_history rg' = record_call name a (rg_history rg)"
  using assms by (cases rule: dispatch_cases; auto dest!: permission_step_frame run_call_frame)+

lemma dispatch_history_bounded:
  "dispatch ev rg name a cid w = (r, rg', w') \<Longrightarrow> length (rg_history rg) \<le> history_cap \<Longrightarrow>
   length (rg_history rg') \<le> history_cap"
  using dispatch_frame(2)[of ev rg name a cid w r rg' w'] length_record_call by metis

lemma registry_add_all_tools:
  "registry_add_all ts rg = Inr rg' \<Longrightarrow>
     set (dict_keys (rg_tools rg')) = set (dict_keys (rg_tools rg)) \<union> tool_name ` set ts \<and>
     rg_history rg' = rg_history rg \<and> rg_pm rg' = rg_pm rg \<and> rg_write_gate rg' = rg_write_gate rg \<and>
     (\<forall>n t. map_of (rg_tools rg') n = Some t \<longrightarrow> map_of (rg_tools rg) n = Some t \<or> (t \<in> set ts \<and> tool_name t = n))"
proof (induction ts arbitrary: rg)
  case (Cons t ts)
  from Cons.prems obtain rg1 where a: "registry_add t rg = Inr rg1" and b: "registry_add_all ts rg1 = Inr rg'"
    by (auto split: sum.splits)
  from a have "rg1 = rg\<lparr>rg_tools := dict_set (rg_tools rg) (tool_name t) t\<rparr>"
    by (auto simp: registry_add_def split: if_splits)
  with Cons.IH[OF b] show ?case by (auto split: if_splits)
qed simp

lemma make_registry_tools:
  assumes "make_registry ts pm h g = Inr rg"
  shows "set (dict_keys (rg_tools rg)) = tool_name ` set ts" "rg_history rg = h" "rg_pm rg = pm" "rg_write_gate rg = g"
    and "map_of (rg_tools rg) n = Some t \<Longrightarrow> t \<in> set ts \<and> tool_name t = n"
  using registry_add_all_tools[OF assms[unfolded make_registry_def]] by auto

lemma make_registry_empty: "make_registry [] pm h g = Inr \<lparr>rg_tools = [], rg_history = h, rg_pm = pm, rg_write_gate = g\<rparr>"
  by (simp add: make_registry_def)

lemma make_registry_ok:
  "distinct (map tool_name ts) \<Longrightarrow> \<exists>rg. make_registry ts pm h g = Inr rg"
proof -
  have "distinct (map tool_name ts) \<Longrightarrow> set (map tool_name ts) \<inter> set (dict_keys (rg_tools rg)) = {} \<Longrightarrow>
    \<exists>rg'. registry_add_all ts rg = Inr rg'" for rg
  proof (induction ts arbitrary: rg)
    case (Cons t ts)
    have "registry_add t rg = Inr (rg\<lparr>rg_tools := dict_set (rg_tools rg) (tool_name t) t\<rparr>)"
      using Cons.prems by (auto simp: registry_add_def)
    moreover have "\<exists>rg'. registry_add_all ts (rg\<lparr>rg_tools := dict_set (rg_tools rg) (tool_name t) t\<rparr>) = Inr rg'"
      using Cons.prems by (intro Cons.IH) auto
    ultimately show ?case by simp
  qed simp
  then show "distinct (map tool_name ts) \<Longrightarrow> ?thesis" by (simp add: make_registry_def)
qed

section \<open>Properties of dispatch\<close>

text \<open>
  C5.  Dispatch fails closed.  In a registry without a human to ask, a call that changes the
  world named a registered tool, carried parsed arguments that satisfy its schema, was allowed
  by the policy (or approved earlier in the session) and was not the third identical call in a
  row.
\<close>

theorem dispatch_effect_is_guarded:
  assumes "dispatch ev rg name a cid w = (r, rg', w')" and "w' \<noteq> w"
    and "\<forall>pm. rg_pm rg = Some pm \<longrightarrow> pm_human_prompt pm = None"
  shows "\<exists>t. map_of (rg_tools rg) name = Some t \<and> map_of a malformed_args_key = None \<and>
    validation_errors ev a (tool_schema t) = [] \<and>
    last_n 2 (rg_history rg) \<noteq> [call_key name a, call_key name a] \<and>
    (\<forall>pm. rg_pm rg = Some pm \<longrightarrow> cache_key (tool_name t) a \<in> pm_approvals pm \<or>
       (\<exists>oc. pm_policy pm (request_of t a) = Inr oc \<and> po_decision oc = Allow))"
proof -
  have quiet: "w1 = w" if "permission_step rg t a w = (x, rg1, w1)" for t x rg1 w1
  proof (cases "rg_pm rg")
    case None
    with that show ?thesis by (simp add: permission_step_def)
  next
    case (Some pm)
    obtain r2 pm2 w2 where c: "pm_check pm t a w = (r2, pm2, w2)" using prod_cases3 by blast
    with pm_check_headless(2)[OF _ c] assms(3) Some that show ?thesis by (simp add: permission_step_def)
  qed
  from assms(1) show ?thesis
  proof (cases rule: dispatch_cases)
    case (invoked t rg1 w1)
    have "cache_key (tool_name t) a \<in> pm_approvals pm \<or>
       (\<exists>oc. pm_policy pm (request_of t a) = Inr oc \<and> po_decision oc = Allow)" if pm: "rg_pm rg = Some pm" for pm
    proof -
      obtain r2 pm2 w2 where c: "pm_check pm t a w = (r2, pm2, w2)" using prod_cases3 by blast
      have h: "pm_human_prompt pm = None" using assms(3) pm by simp
      from invoked(4) pm c obtain oc where "r2 = Inr oc" "po_decision oc \<noteq> Deny"
        by (cases r2) (auto simp: permission_step_def split: if_splits)
      with pm_check_headless(3,4)[OF h c] show ?thesis by (cases "po_decision oc") auto
    qed
    with invoked check_loop_record_iff[of name a cid "rg_history rg"] show ?thesis by auto
  qed (use assms(2) quiet in auto)
qed

definition guarded_tool :: "nat tool" where
  "guarded_tool = \<lparr>tool_name = ''f'', tool_description = '''', tool_schema = JNull,
     tool_run = Some (\<lambda>a w. (Inr ''ok'', Suc w)), tool_arun = None, tool_effects = {SMutate}\<rparr>"

definition guarded_registry :: "nat registry" where
  "guarded_registry = \<lparr>rg_tools = [(''f'', guarded_tool)], rg_history = [],
     rg_pm = Some \<lparr>pm_policy = takeoff_policy {''f''}, pm_human_prompt = None, pm_approvals = {}\<rparr>,
     rg_write_gate = False\<rparr>"

definition guarded_env :: "nat tool_env" where
  "guarded_env = \<lparr>te_iter_errors = (\<lambda>a s. []), te_close_match = (\<lambda>n ns. None), te_nonce = (\<lambda>w. (''n'', w))\<rparr>"

theorem dispatch_effect_is_guarded_witness:
  "snd (snd (dispatch guarded_env guarded_registry ''f'' [] ''c'' 0)) = 1 \<and>
   (\<exists>oc. takeoff_policy {''f''} (request_of guarded_tool []) = Inr oc \<and> po_decision oc = Allow)"
proof -
  have e: "snd (snd (dispatch guarded_env guarded_registry ''f'' [] ''c'' 0)) = 1" by code_simp
  obtain r rg' w' where d: "dispatch guarded_env guarded_registry ''f'' [] ''c'' 0 = (r, rg', w')"
    using prod_cases3 by blast
  from e d have w: "w' \<noteq> 0" by simp
  have h: "\<forall>pm. rg_pm guarded_registry = Some pm \<longrightarrow> pm_human_prompt pm = None"
    by (simp add: guarded_registry_def)
  from dispatch_effect_is_guarded[OF d w h] e show ?thesis by (auto simp: guarded_registry_def)
qed

text \<open>
  Loop detection trips exactly on the third identical call in a row: the check made after
  recording a call refuses it iff the two calls recorded before it had the same name and the same
  arguments up to key order.
\<close>

theorem loop_detected_iff_third_in_a_row:
  "check_loop name a cid (record_call name a h) \<noteq> None \<longleftrightarrow>
     last_n 2 h = [(name, dumps_sorted a), (name, dumps_sorted a)]"
  using check_loop_record_iff[of name a cid h] by (simp add: call_key_def)

end
