(* ===== verification/Selector.thy ===== *)
theory Selector
  imports Messages Permissions
begin

text \<open>
  The tool catalog of \<open>src/src/harness/tools/selector.py\<close>: which tools a turn exposes.

  The BM25 index is third-party: \<open>scores corpus query\<close> is the list \<open>get_scores\<close> returns, one
  score per tool.  \<open>must_include\<close> is a Python set; the model takes the list of its elements in
  iteration order.  \<open>_tokenize\<close> is modelled for ASCII text.
\<close>

section \<open>Tokens\<close>

definition word_char :: "char \<Rightarrow> bool" where
  "word_char c \<longleftrightarrow> is_alnum c \<or> c = CHR ''_''"

fun words_aux :: "string \<Rightarrow> string \<Rightarrow> string list" where
  "words_aux acc [] = (if acc = [] then [] else [rev acc])"
| "words_aux acc (c # cs) =
     (if word_char c then words_aux (c # acc) cs
      else if acc = [] then words_aux [] cs else rev acc # words_aux [] cs)"

definition tokenize :: "string \<Rightarrow> string list" where
  "tokenize s = words_aux [] (py_lower s)"

section \<open>The catalog\<close>

type_synonym scorer = "string list list \<Rightarrow> string list \<Rightarrow> rat list"

type_synonym 'w catalog = "'w tool list"

definition catalog_tokenized :: "'w catalog \<Rightarrow> string list list" where
  "catalog_tokenized c = map (\<lambda>t. tokenize (tool_name t @ '' '' @ tool_description t)) c"

definition by_name :: "'w catalog \<Rightarrow> (string, 'w tool) dict" where
  "by_name c = dict_of (map (\<lambda>t. (tool_name t, t)) c)"

definition catalog_get :: "'w catalog \<Rightarrow> string \<Rightarrow> 'w tool option" where
  "catalog_get c n = map_of (by_name c) n"

definition all_names :: "'w catalog \<Rightarrow> string list" where
  "all_names c = dict_keys (by_name c)"

definition pinned :: "'w catalog \<Rightarrow> string list \<Rightarrow> 'w tool list" where
  "pinned c must = List.map_filter (catalog_get c) must"

text \<open>The loop over the ranking: stops when no slot is left, skips seen names and scores not above 0.\<close>

fun pick_loop :: "'w catalog \<Rightarrow> (nat \<times> rat) list \<Rightarrow> nat \<Rightarrow> string set \<Rightarrow> 'w tool list \<Rightarrow> 'w tool list" where
  "pick_loop c [] slots seen picks = picks"
| "pick_loop c ((i, score) # ranked) slots seen picks =
     (if slots = 0 then picks
      else if tool_name (c ! i) \<in> seen \<or> score \<le> 0 then pick_loop c ranked slots seen picks
      else pick_loop c ranked (slots - 1) (insert (tool_name (c ! i)) seen) (picks @ [c ! i]))"

definition ranking :: "rat list \<Rightarrow> (nat \<times> rat) list" where
  "ranking ss = sort_key (\<lambda>x. - snd x) (enumerate 0 ss)"

definition select :: "scorer \<Rightarrow> 'w catalog \<Rightarrow> string \<Rightarrow> nat \<Rightarrow> string list \<Rightarrow> 'w tool list" where
  "select scores c query k must =
     (let pin = pinned c must in
      if c = [] then pin
      else pick_loop c (ranking (scores (catalog_tokenized c) (tokenize query)))
             (k - length pin) (tool_name ` set pin) pin)"

definition for_turn :: "scorer \<Rightarrow> 'w catalog \<Rightarrow> string \<Rightarrow> nat \<Rightarrow> string list \<Rightarrow> 'w tool list" where
  "for_turn scores c query k must = (if length c \<le> k then c else select scores c query k must)"

section \<open>The query of a turn\<close>

fun first_parts :: "block \<Rightarrow> string list" where
  "first_parts (TextBlock t) = [t]"
| "first_parts b = []"

fun recent_parts :: "block \<Rightarrow> string list" where
  "recent_parts (TextBlock t) = [take 500 t]"
| "recent_parts (ToolCall i n a) =
     [n @ '' ['' @ py_join '', '' (map py_repr (dict_keys a)) @ '']'']"
| "recent_parts b = []"

definition query_from_transcript :: "transcript \<Rightarrow> string" where
  "query_from_transcript t = py_join '' ''
     ((case t_messages t of [] \<Rightarrow> [] | m # _ \<Rightarrow> concat (map first_parts (msg_blocks m))) @
      concat (map (\<lambda>m. concat (map recent_parts (msg_blocks m)))
        (filter (\<lambda>m. msg_role m = RoleAssistant) (last_n 6 (t_messages t)))))"

section \<open>What a selection contains\<close>

lemma foldl_dict_set_values:
  "map_of (foldl (\<lambda>d (k, v). dict_set d k v) d kvs) n = Some v \<Longrightarrow>
     (n, v) \<in> set kvs \<or> map_of d n = Some v"
proof (induction kvs arbitrary: d)
  case (Cons kv kvs)
  obtain k0 v0 where kv: "kv = (k0, v0)" by force
  from Cons.prems Cons.IH[of "dict_set d k0 v0"] show ?case
    by (auto simp: kv split: if_splits)
qed simp

lemma catalog_get_in: "catalog_get c n = Some t \<Longrightarrow> t \<in> set c \<and> tool_name t = n"
  using foldl_dict_set_values[of "[]" "map (\<lambda>t. (tool_name t, t)) c" n t]
  by (auto simp: catalog_get_def by_name_def dict_of_def)

lemma catalog_get_none: "catalog_get c n = None \<longleftrightarrow> n \<notin> tool_name ` set c"
  by (simp add: catalog_get_def by_name_def map_of_eq_None_iff image_image)

lemma pinned_names: "map tool_name (pinned c must) = filter (\<lambda>n. n \<in> tool_name ` set c) must"
proof (induction must)
  case (Cons n must)
  then show ?case
  proof (cases "catalog_get c n")
    case None
    then have "n \<notin> tool_name ` set c" by (simp add: catalog_get_none)
    with None Cons show ?thesis by (simp add: pinned_def map_filter_simps)
  next
    case (Some t)
    then have "tool_name t = n" "t \<in> set c" by (simp_all add: catalog_get_in)
    with Some Cons show ?thesis by (auto simp: pinned_def map_filter_simps)
  qed
qed (simp add: pinned_def map_filter_simps)

lemma pinned_in: "set (pinned c must) \<subseteq> set c"
  by (auto simp: pinned_def List.map_filter_def catalog_get_in)

lemma pick_loop_extends:
  obtains more where "pick_loop c ranked slots seen picks = picks @ more" "length more \<le> slots"
    "set more \<subseteq> {c ! i |i s. (i, s) \<in> set ranked \<and> 0 < s}"
    "distinct (map tool_name more)" "tool_name ` set more \<inter> seen = {}"
proof -
  have "\<exists>more. pick_loop c ranked slots seen picks = picks @ more \<and> length more \<le> slots \<and>
      set more \<subseteq> {c ! i |i s. (i, s) \<in> set ranked \<and> 0 < s} \<and>
      distinct (map tool_name more) \<and> tool_name ` set more \<inter> seen = {}"
  proof (induction c ranked slots seen picks rule: pick_loop.induct)
    case (2 c i score ranked slots seen picks)
    consider "slots = 0" | "slots \<noteq> 0" "tool_name (c ! i) \<in> seen \<or> score \<le> 0"
      | "slots \<noteq> 0" "\<not> (tool_name (c ! i) \<in> seen \<or> score \<le> 0)" by blast
    then show ?case
    proof cases
      case 1
      then show ?thesis by simp
    next
      case 2
      from "2.IH"(1)[OF 2] obtain more where m:
        "pick_loop c ranked slots seen picks = picks @ more"
        "length more \<le> slots" "set more \<subseteq> {c ! i |i s. (i, s) \<in> set ranked \<and> 0 < s}"
        "distinct (map tool_name more)" "tool_name ` set more \<inter> seen = {}" by blast
      have "pick_loop c ((i, score) # ranked) slots seen picks = picks @ more" using 2 m(1) by simp
      moreover have "set more \<subseteq> {c ! j |j s. (j, s) \<in> set ((i, score) # ranked) \<and> 0 < s}"
        using m(3) by (rule order_trans) auto
      ultimately show ?thesis using m(2,4,5) by blast
    next
      case 3
      from "2.IH"(2)[OF 3] obtain more where m:
        "pick_loop c ranked (slots - 1) (insert (tool_name (c ! i)) seen) (picks @ [c ! i]) = (picks @ [c ! i]) @ more"
        "length more \<le> slots - 1" "set more \<subseteq> {c ! i |i s. (i, s) \<in> set ranked \<and> 0 < s}"
        "distinct (map tool_name more)" "tool_name ` set more \<inter> insert (tool_name (c ! i)) seen = {}" by blast
      from 3 have "0 < score" by simp
      have "pick_loop c ((i, score) # ranked) slots seen picks = picks @ (c ! i # more)"
        using 3 m(1) by simp
      moreover have "length (c ! i # more) \<le> slots" using m(2) 3 by simp
      moreover have "set (c ! i # more) \<subseteq> {c ! j |j s. (j, s) \<in> set ((i, score) # ranked) \<and> 0 < s}"
      proof -
        have "c ! i \<in> {c ! j |j s. (j, s) \<in> set ((i, score) # ranked) \<and> 0 < s}"
          using \<open>0 < score\<close> by auto
        moreover have "set more \<subseteq> {c ! j |j s. (j, s) \<in> set ((i, score) # ranked) \<and> 0 < s}"
          using m(3) by (rule order_trans) auto
        ultimately show ?thesis by simp
      qed
      moreover have "distinct (map tool_name (c ! i # more))" "tool_name ` set (c ! i # more) \<inter> seen = {}"
        using m(4,5) 3 by auto
      ultimately show ?thesis by blast
    qed
  qed simp
  with that show thesis by blast
qed

lemma pick_loop_maximal:
  assumes "length (pick_loop c ranked slots seen picks) < slots + length picks"
    and "(i, s) \<in> set ranked" and "0 < s" and "tool_name ` set picks = seen"
  shows "tool_name (c ! i) \<in> tool_name ` set (pick_loop c ranked slots seen picks)"
  using assms
proof (induction c ranked slots seen picks rule: pick_loop.induct)
  case (2 c j score ranked slots seen picks)
  have keep: "set picks \<subseteq> set (pick_loop c ranked sl se picks)" for ranked sl se picks
    by (rule pick_loop_extends[of c ranked sl se picks]) auto
  show ?case
  proof (cases "slots = 0")
    case True
    with 2 show ?thesis by simp
  next
    case slots: False
    show ?thesis
    proof (cases "tool_name (c ! j) \<in> seen \<or> score \<le> 0")
      case True
      with "2.IH"(1)[OF slots True] "2.prems" slots keep[of picks ranked slots seen] show ?thesis by auto
    next
      case False
      with "2.IH"(2)[OF slots False] "2.prems" slots
        keep[of "picks @ [c ! j]" ranked "slots - 1" "insert (tool_name (c ! j)) seen"]
      show ?thesis by auto
    qed
  qed
qed simp

lemma set_ranking [simp]: "set (ranking ss) = set (enumerate 0 ss)"
  by (simp add: ranking_def)

lemma ranking_index: "(i, s) \<in> set (ranking ss) \<longleftrightarrow> i < length ss \<and> ss ! i = s"
  by (auto simp: in_set_enumerate_eq)

text \<open>
  A selection starts with the pinned tools, adds at most \<open>k - #pinned\<close> tools of the catalog
  with a positive score, and repeats no name.
\<close>

lemma select_spec:
  assumes len: "\<And>corpus q. length (scores corpus q) = length corpus" and "distinct must"
  obtains more where "select scores c query k must = pinned c must @ more"
    "length more \<le> k - length (pinned c must)" "set more \<subseteq> set c"
    "distinct (map tool_name (select scores c query k must))"
proof (cases "c = []")
  case True
  have "distinct (map tool_name (pinned c must))" unfolding pinned_names using assms(2) by simp
  with True that[of "[]"] show thesis by (simp add: select_def)
next
  case False
  define ss where "ss = scores (catalog_tokenized c) (tokenize query)"
  have l: "length ss = length c" by (simp add: ss_def len catalog_tokenized_def)
  obtain more where m: "pick_loop c (ranking ss) (k - length (pinned c must)) (tool_name ` set (pinned c must)) (pinned c must)
      = pinned c must @ more" "length more \<le> k - length (pinned c must)"
      "set more \<subseteq> {c ! i |i s. (i, s) \<in> set (ranking ss) \<and> 0 < s}"
      "distinct (map tool_name more)" "tool_name ` set more \<inter> tool_name ` set (pinned c must) = {}"
    by (rule pick_loop_extends)
  have "set more \<subseteq> set c" using m(3) by (auto simp: ranking_index l simp del: set_ranking)
  moreover have "distinct (map tool_name (pinned c must))" unfolding pinned_names using assms(2) by simp
  ultimately show thesis
    using that[of more] m False by (auto simp: select_def Let_def ss_def)
qed

lemma for_turn_subset:
  assumes "\<And>corpus q. length (scores corpus q) = length corpus" and "distinct must"
  shows "set (for_turn scores c query k must) \<subseteq> set c"
proof -
  obtain more where "select scores c query k must = pinned c must @ more" "set more \<subseteq> set c"
    by (rule select_spec[where scores = scores and c = c and query = query and k = k, OF assms])
  with pinned_in[of c must] show ?thesis by (simp add: for_turn_def)
qed

lemma for_turn_distinct:
  assumes "\<And>corpus q. length (scores corpus q) = length corpus" and "distinct must"
    and "distinct (map tool_name c)"
  shows "distinct (map tool_name (for_turn scores c query k must))"
proof -
  have "distinct (map tool_name (select scores c query k must))"
    by (rule select_spec[where scores = scores and c = c and query = query and k = k, OF assms(1,2)])
  with assms(3) show ?thesis by (simp add: for_turn_def)
qed

text \<open>With a slot to spare, every tool the index finds relevant is there under its name.\<close>

lemma select_complete:
  assumes "c \<noteq> []" and "length (select scores c query k must) < k" and "length (pinned c must) \<le> k"
    and "i < length (scores (catalog_tokenized c) (tokenize query))"
    and "0 < scores (catalog_tokenized c) (tokenize query) ! i"
  shows "tool_name (c ! i) \<in> tool_name ` set (select scores c query k must)"
proof -
  have "(i, scores (catalog_tokenized c) (tokenize query) ! i)
      \<in> set (ranking (scores (catalog_tokenized c) (tokenize query)))"
    using assms(4) by (simp add: ranking_index del: set_ranking)
  from pick_loop_maximal[OF _ this assms(5) refl, of c "k - length (pinned c must)" "pinned c must"] assms
  show ?thesis by (simp add: select_def Let_def)
qed

section \<open>Properties of the selection\<close>

text \<open>
  C14.  The tools of a turn come from the catalog, have distinct names, contain every pinned tool
  of the catalog and stay within the budget \<open>k\<close> (or the pinned tools, if they alone exceed it),
  for any scores the index returns.
\<close>

theorem turn_tools_within_budget:
  assumes "\<forall>corpus q. length (scores corpus q) = length corpus"
    and "distinct must" and "distinct (map tool_name c)"
  shows "set (for_turn scores c query k must) \<subseteq> set c \<and>
    distinct (map tool_name (for_turn scores c query k must)) \<and>
    tool_name ` set c \<inter> set must \<subseteq> tool_name ` set (for_turn scores c query k must) \<and>
    length (for_turn scores c query k must) \<le> max k (length (pinned c must))"
proof (cases "length c \<le> k")
  case True
  with assms(3) show ?thesis by (auto simp: for_turn_def)
next
  case False
  from assms(1) have "\<And>corpus q. length (scores corpus q) = length corpus" by blast
  from select_spec[where scores = scores and c = c and query = query and k = k, OF this assms(2)] obtain more where
    m: "select scores c query k must = pinned c must @ more" "length more \<le> k - length (pinned c must)"
       "set more \<subseteq> set c" "distinct (map tool_name (select scores c query k must))" by metis
  have "tool_name ` set (pinned c must) = set (map tool_name (pinned c must))" by simp
  also have "\<dots> = set must \<inter> tool_name ` set c" by (subst pinned_names) auto
  finally have "tool_name ` set c \<inter> set must \<subseteq> tool_name ` set (pinned c must)" by auto
  with m False pinned_in[of c must] show ?thesis by (auto simp: for_turn_def)
qed

theorem turn_tools_within_budget_witness:
  "length (for_turn (\<lambda>corpus q. map (\<lambda>_. 1) corpus) (map (\<lambda>n. \<lparr>tool_name = n, tool_description = '''',
      tool_schema = JNull, tool_run = None, tool_arun = None, tool_effects = {}\<rparr> :: nat tool) [''a'', ''b'', ''c'']) ''q'' 2 [''c'']) \<le> 2"
proof -
  let ?c = "map (\<lambda>n. \<lparr>tool_name = n, tool_description = '''',
      tool_schema = JNull, tool_run = None, tool_arun = None, tool_effects = {}\<rparr>) [''a'', ''b'', ''c''] :: nat tool list"
  have "length (pinned ?c [''c'']) = 1" by code_simp
  moreover have "distinct (map tool_name ?c)" by simp
  ultimately show ?thesis
    using turn_tools_within_budget[of "\<lambda>corpus q. map (\<lambda>_. 1) corpus" "[''c'']" ?c "''q''" 2] by simp
qed

end
