(* ===== verification/Plans.thy ===== *)
theory Plans
  imports Prelude
begin

text \<open>
  Plans of \<open>src/src/harness/plans/\<close>: the data model of \<open>model.py\<close> and the four plan tools of
  \<open>tools.py\<close> on the holder of the mutable plan.  A plan's \<open>created_at\<close> and \<open>id\<close> are not modelled
  (nothing reads them).

  The invariant is the one the completion gate of the agent loop relies on: a step is \<open>done\<close> and
  a postcondition is \<open>satisfied\<close> only with a non-empty evidence text, whatever sequence of tool
  calls the model makes.
\<close>

section \<open>The data model\<close>

datatype step_status = Pending | InProgress | Done | Blocked

record plan_step =
  st_id :: string
  st_description :: string
  st_status :: step_status
  st_evidence :: "string option"
  st_notes :: string

record postcondition =
  pc_description :: string
  pc_satisfied :: bool
  pc_evidence :: "string option"

record plan =
  plan_objective :: string
  plan_steps :: "plan_step list"
  plan_postconditions :: "postcondition list"

fun status_value :: "step_status \<Rightarrow> string" where
  "status_value Pending = ''pending''"
| "status_value InProgress = ''in_progress''"
| "status_value Done = ''done''"
| "status_value Blocked = ''blocked''"

text \<open>\<open>StepStatus(status)\<close>; \<open>None\<close> is the \<open>ValueError\<close>.\<close>

definition parse_status :: "string \<Rightarrow> step_status option" where
  "parse_status s = find (\<lambda>st. status_value st = s) [Pending, InProgress, Done, Blocked]"

definition is_terminal :: "plan_step \<Rightarrow> bool" where
  "is_terminal s \<longleftrightarrow> st_status s \<in> {Done, Blocked}"

definition all_steps_terminal :: "plan \<Rightarrow> bool" where
  "all_steps_terminal p \<longleftrightarrow> list_all is_terminal (plan_steps p)"

definition all_postconditions_satisfied :: "plan \<Rightarrow> bool" where
  "all_postconditions_satisfied p \<longleftrightarrow> list_all pc_satisfied (plan_postconditions p)"

definition is_ready_to_finalize :: "plan \<Rightarrow> bool" where
  "is_ready_to_finalize p \<longleftrightarrow> all_steps_terminal p \<and> all_postconditions_satisfied p"

fun status_mark :: "step_status \<Rightarrow> string" where
  "status_mark Pending = ''[ ]''"
| "status_mark InProgress = ''[.]''"
| "status_mark Done = ''[x]''"
| "status_mark Blocked = ''[!]''"

text \<open>\<open>if s.evidence\<close>: absent and empty are both false.\<close>

definition evidence_lines :: "string option \<Rightarrow> string list" where
  "evidence_lines e = (case e of None \<Rightarrow> [] | Some t \<Rightarrow> if t = '''' then [] else [''     evidence: '' @ t])"

definition render_step :: "nat \<Rightarrow> plan_step \<Rightarrow> string list" where
  "render_step i s =
     [show_nat i @ ''. '' @ status_mark (st_status s) @ '' '' @ st_description s] @
     evidence_lines (st_evidence s) @
     (if st_notes s = '''' then [] else [''     notes: '' @ st_notes s])"

definition render_postcondition :: "nat \<Rightarrow> postcondition \<Rightarrow> string list" where
  "render_postcondition i pc =
     [show_nat i @ ''. '' @ (if pc_satisfied pc then ''[x]'' else ''[ ]'') @ '' '' @ pc_description pc] @
     evidence_lines (pc_evidence pc)"

definition to_render :: "plan \<Rightarrow> string" where
  "to_render p = py_join newline
     ([''# Plan: '' @ plan_objective p @ newline, ''## Steps''] @
      concat (map (\<lambda>(i, s). render_step i s) (enumerate 1 (plan_steps p))) @
      [newline @ ''## Postconditions''] @
      concat (map (\<lambda>(i, pc). render_postcondition i pc) (enumerate 1 (plan_postconditions p))))"

section \<open>The plan tools\<close>

type_synonym plan_holder = "plan option"

definition holder_require :: "plan_holder \<Rightarrow> exn + plan" where
  "holder_require h = (case h of None \<Rightarrow> Inl (Exn ''RuntimeError'' ''no active plan'') | Some p \<Rightarrow> Inr p)"

definition new_step :: "nat \<times> string \<Rightarrow> plan_step" where
  "new_step x = \<lparr>st_id = ''s'' @ show_nat (fst x), st_description = snd x, st_status = Pending,
     st_evidence = None, st_notes = ''''\<rparr>"

definition new_postcondition :: "string \<Rightarrow> postcondition" where
  "new_postcondition d = \<lparr>pc_description = d, pc_satisfied = False, pc_evidence = None\<rparr>"

definition plan_create :: "string \<Rightarrow> string list \<Rightarrow> string list \<Rightarrow> plan_holder \<Rightarrow> string \<times> plan_holder" where
  "plan_create objective steps pcs h =
     (''plan created with '' @ show_nat (length steps) @ '' steps and '' @
        show_nat (length pcs) @ '' postconditions'',
      Some \<lparr>plan_objective = objective, plan_steps = map new_step (enumerate 0 steps),
            plan_postconditions = map new_postcondition pcs\<rparr>)"

definition plan_show :: "plan_holder \<Rightarrow> exn + string" where
  "plan_show h = (case holder_require h of Inl e \<Rightarrow> Inl e | Inr p \<Rightarrow> Inr (to_render p))"

definition out_of_range :: "string \<Rightarrow> int \<Rightarrow> nat \<Rightarrow> string" where
  "out_of_range what n len = what @ '' '' @ show_int n @ '' out of range (1..'' @ show_nat len @ '')''"

abbreviation arrow :: string where
  "arrow \<equiv> [CHR 0xE2, CHR 0x86, CHR 0x92]"

definition step_update :: "int \<Rightarrow> string \<Rightarrow> string \<Rightarrow> string \<Rightarrow> plan_holder \<Rightarrow> (exn + string) \<times> plan_holder" where
  "step_update n status evidence notes h =
     (case holder_require h of
        Inl e \<Rightarrow> (Inl e, h)
      | Inr p \<Rightarrow>
          if n < 1 \<or> n > int (length (plan_steps p))
          then (Inr (out_of_range ''step_number'' n (length (plan_steps p))), h)
          else (case parse_status status of
              None \<Rightarrow> (Inr (''invalid status '' @ py_repr status @ ''; use pending/in_progress/done/blocked''), h)
            | Some st \<Rightarrow>
                if st = Done \<and> evidence = ''''
                then (Inr (''error: marking a step 'done' requires evidence. Describe '' @
                        ''what proved the step complete (e.g., 'wrote file and '' @
                        ''read it back; content matches').''), h)
                else (let i = nat (n - 1); s = plan_steps p ! i in
                  (Inr (''step '' @ show_int n @ '' '' @ arrow @ '' '' @ status),
                   Some (p\<lparr>plan_steps := (plan_steps p)[i :=
                     \<lparr>st_id = st_id s, st_description = st_description s, st_status = st,
                      st_evidence = (if evidence = '''' then None else Some evidence),
                      st_notes = notes\<rparr>]\<rparr>)))))"

definition postcondition_verify :: "int \<Rightarrow> string \<Rightarrow> plan_holder \<Rightarrow> (exn + string) \<times> plan_holder" where
  "postcondition_verify n evidence h =
     (case holder_require h of
        Inl e \<Rightarrow> (Inl e, h)
      | Inr p \<Rightarrow>
          if n < 1 \<or> n > int (length (plan_postconditions p))
          then (Inr (out_of_range ''postcondition_number'' n (length (plan_postconditions p))), h)
          else if evidence = '''' then (Inr ''error: evidence is required to verify a postcondition'', h)
          else (let i = nat (n - 1); pc = plan_postconditions p ! i in
            (Inr (''postcondition '' @ show_int n @ '' verified''),
             Some (p\<lparr>plan_postconditions := (plan_postconditions p)[i :=
               \<lparr>pc_description = pc_description pc, pc_satisfied = True, pc_evidence = Some evidence\<rparr>]\<rparr>))))"

section \<open>Runs of plan tools\<close>

datatype plan_op = OpCreate string "string list" "string list" | OpShow
  | OpStep int string string string | OpVerify int string

fun plan_apply :: "plan_op \<Rightarrow> plan_holder \<Rightarrow> (exn + string) \<times> plan_holder" where
  "plan_apply (OpCreate ob ss ps) h = map_prod Inr id (plan_create ob ss ps h)"
| "plan_apply OpShow h = (plan_show h, h)"
| "plan_apply (OpStep n st ev nt) h = step_update n st ev nt h"
| "plan_apply (OpVerify n ev) h = postcondition_verify n ev h"

definition plan_run :: "plan_op list \<Rightarrow> plan_holder \<Rightarrow> plan_holder" where
  "plan_run ops h = foldl (\<lambda>h op. snd (plan_apply op h)) h ops"

section \<open>The evidence invariant\<close>

definition step_ok :: "plan_step \<Rightarrow> bool" where
  "step_ok s \<longleftrightarrow> (st_status s = Done \<longrightarrow> (\<exists>e. st_evidence s = Some e \<and> e \<noteq> ''''))"

definition pc_ok :: "postcondition \<Rightarrow> bool" where
  "pc_ok pc \<longleftrightarrow> (pc_satisfied pc \<longrightarrow> (\<exists>e. pc_evidence pc = Some e \<and> e \<noteq> ''''))"

definition plan_ok :: "plan \<Rightarrow> bool" where
  "plan_ok p \<longleftrightarrow> list_all step_ok (plan_steps p) \<and> list_all pc_ok (plan_postconditions p)"

definition holder_ok :: "plan_holder \<Rightarrow> bool" where
  "holder_ok h \<longleftrightarrow> (\<forall>p. h = Some p \<longrightarrow> plan_ok p)"

lemma list_all_update: "list_all P xs \<Longrightarrow> P x \<Longrightarrow> list_all P (xs[i := x])"
  using set_update_subset_insert[of xs i x] by (auto simp: list_all_iff)

lemma plan_create_ok [wf_intros]: "holder_ok (snd (plan_create ob ss ps h))"
  by (auto simp: holder_ok_def plan_create_def plan_ok_def list_all_iff step_ok_def pc_ok_def
      new_step_def new_postcondition_def)

lemma step_update_ok [wf_intros]: "holder_ok h \<Longrightarrow> holder_ok (snd (step_update n st ev nt h))"
  by (auto simp: holder_ok_def step_update_def holder_require_def plan_ok_def Let_def step_ok_def
      split: option.splits if_splits intro!: list_all_update)

lemma postcondition_verify_ok [wf_intros]: "holder_ok h \<Longrightarrow> holder_ok (snd (postcondition_verify n ev h))"
  by (auto simp: holder_ok_def postcondition_verify_def holder_require_def plan_ok_def Let_def pc_ok_def
      split: option.splits if_splits intro!: list_all_update)

lemma plan_apply_ok [wf_intros]: "holder_ok h \<Longrightarrow> holder_ok (snd (plan_apply op h))"
  by (cases op) (auto intro: wf_intros)

lemma plan_run_ok: "holder_ok h \<Longrightarrow> holder_ok (plan_run ops h)"
  unfolding plan_run_def by (induction ops arbitrary: h) (auto intro: wf_intros)

lemma holder_ok_none [simp]: "holder_ok None"
  by (simp add: holder_ok_def)

lemma plan_ok_empty_run: "plan_run ops None = Some p \<Longrightarrow> plan_ok p"
  using plan_run_ok[of None ops] by (simp add: holder_ok_def)

text \<open>A plan ready to finalize carries evidence for every step that is done and every postcondition.\<close>

lemma ready_evidence:
  assumes "plan_ok p" and "is_ready_to_finalize p"
  shows "\<forall>s \<in> set (plan_steps p). st_status s = Blocked \<or>
           (st_status s = Done \<and> (\<exists>e. st_evidence s = Some e \<and> e \<noteq> ''''))"
    and "\<forall>pc \<in> set (plan_postconditions p). pc_satisfied pc \<and> (\<exists>e. pc_evidence pc = Some e \<and> e \<noteq> '''')"
  using assms by (auto simp: plan_ok_def is_ready_to_finalize_def all_steps_terminal_def
      all_postconditions_satisfied_def list_all_iff step_ok_def pc_ok_def is_terminal_def)

text \<open>Updates touch one item: the others, the objective and the lengths are kept.\<close>

lemma step_update_frame:
  assumes "h = Some p" and "snd (step_update n st ev nt h) = Some p'"
  shows "plan_objective p' = plan_objective p" "plan_postconditions p' = plan_postconditions p"
    and "length (plan_steps p') = length (plan_steps p)"
    and "i \<noteq> nat (n - 1) \<Longrightarrow> plan_steps p' ! i = plan_steps p ! i"
  using assms by (auto simp: step_update_def holder_require_def Let_def nth_list_update split: option.splits if_splits)

lemma parse_status_value [simp]: "parse_status (status_value st) = Some st"
  by (cases st) (simp_all add: parse_status_def)

lemma parse_status_some: "parse_status s = Some st \<Longrightarrow> status_value st = s"
  by (auto simp: parse_status_def split: if_splits)

section \<open>Properties of the plan tools\<close>

text \<open>
  C11.  Whatever sequence of plan tools the model calls, a plan that reads as ready to finalize
  has evidence for all of it: every step is blocked or done with a non-empty evidence, every
  postcondition verified with one.
\<close>

theorem ready_plan_has_evidence:
  assumes "plan_run ops None = Some p" and "is_ready_to_finalize p"
  shows "list_all (\<lambda>s. st_status s = Blocked \<or> (st_status s = Done \<and> (\<exists>e. st_evidence s = Some e \<and> e \<noteq> '''')))
      (plan_steps p) \<and>
    list_all (\<lambda>pc. pc_satisfied pc \<and> (\<exists>e. pc_evidence pc = Some e \<and> e \<noteq> '''')) (plan_postconditions p)"
  using ready_evidence[OF plan_ok_empty_run[OF assms(1)] assms(2)] by (auto simp: list_all_iff)

theorem ready_plan_has_evidence_witness:
  "case plan_run [OpCreate ''o'' [''a''] [''b''], OpStep 1 ''done'' ''seen'' '''', OpVerify 1 ''checked''] None of
     Some p \<Rightarrow> map st_evidence (plan_steps p) = [Some ''seen''] \<and>
       list_all (\<lambda>pc. pc_satisfied pc \<and> (\<exists>e. pc_evidence pc = Some e \<and> e \<noteq> '''')) (plan_postconditions p)
   | None \<Rightarrow> False"
proof -
  let ?h = "plan_run [OpCreate ''o'' [''a''] [''b''], OpStep 1 ''done'' ''seen'' '''', OpVerify 1 ''checked''] None"
  have v: "case ?h of Some p \<Rightarrow> is_ready_to_finalize p \<and> map st_evidence (plan_steps p) = [Some ''seen''] | None \<Rightarrow> False"
    by code_simp
  then obtain p where p: "?h = Some p" by (auto split: option.splits)
  with v have r: "is_ready_to_finalize p" by simp
  from ready_plan_has_evidence[OF p r] v p show ?thesis by simp
qed

end
