(* ===== verification/AgentLoop.thy ===== *)
theory AgentLoop
  imports Providers Compaction Registry Selector Plans
begin

text \<open>
  The agent loop of \<open>src/src/harness/agent.py\<close>: one turn, the bounded loop over turns with its
  completion gate, and the tool-stripped grace turn after the last one.

  \<open>run_state\<close> holds the loop's locals and the objects it mutates by reference (transcript,
  permission manager, call history), and the world the tools act on.  The parameters
  (\<open>agent_env\<close>) are the provider stream, the clock, tiktoken, the BM25 index and the tool
  environment; the plan holder is a part of the world, which the plan tools mutate, read through
  \<open>ac_plan\<close>.  The observer callbacks and logging are not modelled.
\<close>

section \<open>State and parameters\<close>

text \<open>What iterating a provider stream does: it ends, or it raises after some events.\<close>

datatype stream_outcome = StreamDone "stream_event list" | StreamFailed exn "stream_event list"

record 'w agent_env =
  ae_stream :: "transcript \<Rightarrow> json list \<Rightarrow> 'w \<Rightarrow> stream_outcome \<times> 'w"
  ae_acomplete :: "transcript \<Rightarrow> 'w \<Rightarrow> (exn + provider_response) \<times> 'w"
  ae_loads :: "string \<Rightarrow> json option"
  ae_now :: "'w \<Rightarrow> rat \<times> 'w"
  ae_tok :: "string \<Rightarrow> nat"
  ae_scores :: scorer
  ae_tools :: "'w tool_env"

record 'w agent_config =
  ac_catalog :: "'w catalog"
  ac_pinned :: "string list"
  ac_tools_per_turn :: nat
  ac_budget :: context_budget
  ac_compactor :: compactor
  ac_write_gate :: bool
  ac_plan :: "('w \<Rightarrow> plan_holder) option"

record 'w run_state =
  rs_transcript :: transcript
  rs_tokens :: int
  rs_last_input :: "int option"
  rs_history :: "(string \<times> string) list"
  rs_nudges :: nat
  rs_pm :: "'w permission_manager option"
  rs_world :: 'w

datatype stop_reason = StopCompleted | StopMaxIterations | StopDeadline | StopEmpty | StopIncompletePlan

record run_result =
  rr_summary :: string
  rr_tokens_used :: int
  rr_iterations_used :: nat
  rr_transcript :: transcript
  rr_stop_reason :: stop_reason

definition max_completion_nudges :: nat where
  "max_completion_nudges = 2"

definition default_max_iterations :: nat where
  "default_max_iterations = 20"

definition grace_nudge :: string where
  "grace_nudge = ''You have reached your step budget and cannot call any more tools. '' @
    ''Using only the information already gathered above, give your best final '' @
    ''answer now. If you could not fully complete the task, say so plainly and '' @
    ''report what you did determine '' @ em_dash @ '' do not fabricate.''"

definition exhausted_marker :: string where
  "exhausted_marker = ''[stopped: reached max_iterations without a final answer]''"

definition empty_marker :: string where
  "empty_marker = ''[stopped: model returned an empty final response]''"

definition deadline_marker :: string where
  "deadline_marker = ''[stopped: wall-clock deadline reached]''"

definition interrupted_suffix :: string where
  "interrupted_suffix = '' [interrupted]''"

section \<open>Helpers\<close>

text \<open>\<open>x or default\<close> on an optional string.\<close>

definition text_or :: "string option \<Rightarrow> string \<Rightarrow> string" where
  "text_or x d = (case x of None \<Rightarrow> d | Some t \<Rightarrow> if t = '''' then d else t)"

fun last_text_block :: "block list \<Rightarrow> string option" where
  "last_text_block [] = None"
| "last_text_block (TextBlock t # bs) = Some t"
| "last_text_block (b # bs) = last_text_block bs"

fun last_text_message :: "message list \<Rightarrow> string option" where
  "last_text_message [] = None"
| "last_text_message (m # ms) =
     (if msg_role m \<noteq> RoleAssistant then last_text_message ms
      else case last_text_block (rev (msg_blocks m)) of
        Some t \<Rightarrow> Some t
      | None \<Rightarrow> last_text_message ms)"

definition last_assistant_text :: "transcript \<Rightarrow> string option" where
  "last_assistant_text t = last_text_message (rev (t_messages t))"

definition unsatisfied_note :: "plan \<Rightarrow> string" where
  "unsatisfied_note p = py_join newline
     ([''[stopped: plan not verified complete]''] @
      map (\<lambda>s. ''  - step not done: '' @ st_description s) (filter (\<lambda>s. \<not> is_terminal s) (plan_steps p)) @
      map (\<lambda>pc. ''  - postcondition not verified: '' @ pc_description pc)
        (filter (\<lambda>pc. \<not> pc_satisfied pc) (plan_postconditions p)))"

definition completion_nudge :: "plan \<Rightarrow> string" where
  "completion_nudge p =
     ''You indicated you are finished, but the active plan is not yet complete:'' @ newline @ newline @
     to_render p @ newline @ newline @
     ''Before finishing you must either:'' @ newline @
     ''  - finish each remaining step and mark it 'done' (with evidence), or '' @
     ''mark it 'blocked' if it genuinely cannot be completed; and'' @ newline @
     ''  - verify each remaining postcondition (with concrete evidence).'' @ newline @
     ''Do the outstanding work now, or update the plan to reflect reality. '' @
     ''Do not claim completion while items remain open.''"

section \<open>One provider turn\<close>

fun partial_texts :: "stream_event list \<Rightarrow> string list" where
  "partial_texts [] = []"
| "partial_texts (TextDelta t # es) = t # partial_texts es"
| "partial_texts (e # es) = partial_texts es"

text \<open>Result or exception, the partial text seen, the transcript (orphans dropped) and the world.\<close>

definition one_turn :: "'w agent_env \<Rightarrow> json list \<Rightarrow> transcript \<Rightarrow> 'w \<Rightarrow>
    (exn + provider_response) \<times> string list \<times> transcript \<times> 'w" where
  "one_turn ev schemas t w =
     (let t = snd (drop_orphan_tool_results t) in
      case ae_stream ev t schemas w of
        (StreamDone evs, w) \<Rightarrow> (Inr (accumulate (ae_loads ev) evs), partial_texts evs, t, w)
      | (StreamFailed e evs, w) \<Rightarrow> (Inl e, partial_texts evs, t, w))"

text \<open>The \<open>except asyncio.CancelledError\<close> branch.\<close>

definition flush_partial :: "exn \<Rightarrow> string list \<Rightarrow> transcript \<Rightarrow> transcript" where
  "flush_partial e partial t =
     (if e = Cancelled \<and> partial \<noteq> []
      then t_append (assistant_text (concat partial @ interrupted_suffix) None) t else t)"

text \<open>The tool calls of a turn, in arrival order, one result message per call.\<close>

fun dispatch_calls :: "'w agent_env \<Rightarrow> tool_call_ref list \<Rightarrow> 'w registry \<Rightarrow> transcript \<Rightarrow> 'w \<Rightarrow>
    exn option \<times> 'w registry \<times> transcript \<times> 'w" where
  "dispatch_calls ev [] rg t w = (None, rg, t, w)"
| "dispatch_calls ev (c # cs) rg t w =
     (case py_dict (ref_args c) of
        Inl e \<Rightarrow> (Some e, rg, t, w)
      | Inr a \<Rightarrow>
         (case dispatch (ae_tools ev) rg (ref_name c) a (ref_id c) w of
            (Inl e, rg, w) \<Rightarrow> (Some e, rg, t, w)
          | (Inr b, rg, w) \<Rightarrow> dispatch_calls ev cs rg (t_append (tool_result_message b) t) w))"

section \<open>One iteration of the loop\<close>

datatype 'w turn_outcome = Continue (outcome_state: "'w run_state")
  | Return run_result (outcome_state: "'w run_state")
  | Raise exn (outcome_state: "'w run_state")

definition stop_with :: "string \<Rightarrow> nat \<Rightarrow> stop_reason \<Rightarrow> 'w run_state \<Rightarrow> 'w turn_outcome" where
  "stop_with summary n reason s = Return \<lparr>rr_summary = summary, rr_tokens_used = rs_tokens s,
     rr_iterations_used = n, rr_transcript = rs_transcript s, rr_stop_reason = reason\<rparr> s"

text \<open>The registry of this turn, and the compaction the snapshot may ask for.\<close>

definition turn_prepare :: "'w agent_config \<Rightarrow> 'w agent_env \<Rightarrow> 'w run_state \<Rightarrow>
    (exn + 'w registry) \<times> 'w run_state" where
  "turn_prepare cfg ev s =
     (let t = rs_transcript s;
          selected = for_turn (ae_scores ev) (ac_catalog cfg) (query_from_transcript t)
                       (ac_tools_per_turn cfg) (ac_pinned cfg) in
      case make_registry selected (rs_pm s) (rs_history s) (ac_write_gate cfg) of
        Inl e \<Rightarrow> (Inl e, s)
      | Inr rg \<Rightarrow>
          if ctx_state_of (snapshot (ae_tok ev) (ac_budget cfg) t (registry_schemas rg) [] (rs_last_input s)) = Red
          then (case compact_if_needed (ae_tok ev) (ae_acomplete ev) (ac_compactor cfg) t
                       (registry_schemas rg) (rs_world s) of
              (Inl e, t, w) \<Rightarrow> (Inl e, s\<lparr>rs_transcript := t, rs_world := w\<rparr>)
            | (Inr _, t, w) \<Rightarrow> (Inr rg, s\<lparr>rs_transcript := t, rs_world := w\<rparr>))
          else (Inr rg, s))"

text \<open>A turn that ends without tool calls: the completion gate, then the blank check.\<close>

definition open_plan :: "'w agent_config \<Rightarrow> 'w \<Rightarrow> plan option" where
  "open_plan cfg w =
     (case ac_plan cfg of None \<Rightarrow> None
      | Some holder \<Rightarrow> (case holder w of None \<Rightarrow> None
          | Some p \<Rightarrow> if is_ready_to_finalize p then None else Some p))"

definition blank :: "string \<Rightarrow> bool" where
  "blank s \<longleftrightarrow> py_strip s = ''''"

definition turn_final :: "'w agent_config \<Rightarrow> nat \<Rightarrow> provider_response \<Rightarrow> 'w run_state \<Rightarrow> 'w turn_outcome" where
  "turn_final cfg i r s =
     (let text = text_or (pr_text r) '''' in
      case open_plan cfg (rs_world s) of
        Some p \<Rightarrow>
          if rs_nudges s < max_completion_nudges
          then Continue (s\<lparr>rs_nudges := Suc (rs_nudges s),
                 rs_transcript := t_append (user_text (completion_nudge p)) (rs_transcript s)\<rparr>)
          else stop_with (py_strip text @ newline @ newline @ unsatisfied_note p) (Suc i) StopIncompletePlan s
      | None \<Rightarrow>
          if blank text then stop_with empty_marker (Suc i) StopEmpty s
          else stop_with text (Suc i) StopCompleted s)"

definition turn_respond :: "'w agent_config \<Rightarrow> 'w agent_env \<Rightarrow> nat \<Rightarrow> 'w registry \<Rightarrow> provider_response \<Rightarrow>
    'w run_state \<Rightarrow> 'w turn_outcome" where
  "turn_respond cfg ev i rg r s =
     (let s = s\<lparr>rs_tokens := rs_tokens s + pr_input_tokens r + pr_output_tokens r,
                rs_last_input := Some (pr_input_tokens r + pr_cache_read r + pr_cache_creation r)\<rparr> in
      case from_assistant_response r of
        Inl e \<Rightarrow> Raise e s
      | Inr m \<Rightarrow>
          (let s = s\<lparr>rs_transcript := t_append m (rs_transcript s)\<rparr> in
           if pr_is_final r then turn_final cfg i r s
           else (case dispatch_calls ev (pr_tool_calls r) rg (rs_transcript s) (rs_world s) of
               (err, rg, t, w) \<Rightarrow>
                 (let s = s\<lparr>rs_transcript := t, rs_world := w, rs_history := rg_history rg, rs_pm := rg_pm rg\<rparr> in
                  case err of None \<Rightarrow> Continue s | Some e \<Rightarrow> Raise e s))))"

definition past_deadline :: "'w agent_env \<Rightarrow> rat option \<Rightarrow> 'w \<Rightarrow> bool \<times> 'w" where
  "past_deadline ev deadline w =
     (case deadline of None \<Rightarrow> (False, w)
      | Some d \<Rightarrow> (case ae_now ev w of (now, w) \<Rightarrow> (now > d, w)))"

definition agent_turn :: "'w agent_config \<Rightarrow> 'w agent_env \<Rightarrow> rat option \<Rightarrow> nat \<Rightarrow> 'w run_state \<Rightarrow> 'w turn_outcome" where
  "agent_turn cfg ev deadline i s =
     (case past_deadline ev deadline (rs_world s) of (late, w) \<Rightarrow>
       (let s = s\<lparr>rs_world := w\<rparr> in
        if late
        then stop_with (text_or (last_assistant_text (rs_transcript s)) deadline_marker) i StopDeadline s
        else case turn_prepare cfg ev s of
          (Inl e, s) \<Rightarrow> Raise e s
        | (Inr rg, s) \<Rightarrow>
            (case one_turn ev (registry_schemas rg) (rs_transcript s) (rs_world s) of
               (Inl e, partial, t, w) \<Rightarrow> Raise e (s\<lparr>rs_transcript := flush_partial e partial t, rs_world := w\<rparr>)
             | (Inr r, partial, t, w) \<Rightarrow>
                 turn_respond cfg ev i rg r (s\<lparr>rs_transcript := t, rs_world := w\<rparr>))))"

section \<open>The loop\<close>

definition grace_turn :: "'w agent_env \<Rightarrow> nat \<Rightarrow> 'w run_state \<Rightarrow> 'w turn_outcome" where
  "grace_turn ev n s =
     (let t = t_append (user_text grace_nudge) (rs_transcript s) in
      case one_turn ev [] t (rs_world s) of
        (Inl e, partial, t, w) \<Rightarrow>
          if is_exception e
          then stop_with (text_or (last_assistant_text t) exhausted_marker) n StopMaxIterations
                 (s\<lparr>rs_transcript := t, rs_world := w\<rparr>)
          else Raise e (s\<lparr>rs_transcript := flush_partial e partial t, rs_world := w\<rparr>)
      | (Inr r, partial, t, w) \<Rightarrow>
          (let s = s\<lparr>rs_transcript := t, rs_world := w,
                     rs_tokens := rs_tokens s + pr_input_tokens r + pr_output_tokens r\<rparr> in
           case from_assistant_response r of
             Inl e \<Rightarrow> stop_with (text_or (last_assistant_text t) exhausted_marker) n StopMaxIterations s
           | Inr m \<Rightarrow> stop_with (text_or (pr_text r) exhausted_marker) n StopMaxIterations
                 (s\<lparr>rs_transcript := t_append m t\<rparr>)))"

fun agent_loop :: "'w agent_config \<Rightarrow> 'w agent_env \<Rightarrow> rat option \<Rightarrow> nat \<Rightarrow> nat list \<Rightarrow> 'w run_state \<Rightarrow> 'w turn_outcome" where
  "agent_loop cfg ev deadline n [] s = grace_turn ev n s"
| "agent_loop cfg ev deadline n (i # is) s =
     (case agent_turn cfg ev deadline i s of
        Continue s \<Rightarrow> agent_loop cfg ev deadline n is s
      | Return r s \<Rightarrow> Return r s
      | Raise e s \<Rightarrow> Raise e s)"

definition initial_state :: "string \<Rightarrow> transcript option \<Rightarrow> string option \<Rightarrow> 'w permission_manager option \<Rightarrow> 'w \<Rightarrow> 'w run_state" where
  "initial_state msg t sys pm w =
     \<lparr>rs_transcript = t_append (user_text msg)
        (case t of None \<Rightarrow> \<lparr>t_messages = [], t_system = sys\<rparr> | Some t \<Rightarrow> t),
      rs_tokens = 0, rs_last_input = None, rs_history = [], rs_nudges = 0, rs_pm = pm, rs_world = w\<rparr>"

definition arun :: "'w agent_config \<Rightarrow> 'w agent_env \<Rightarrow> string \<Rightarrow> transcript option \<Rightarrow> string option \<Rightarrow>
    'w permission_manager option \<Rightarrow> nat \<Rightarrow> rat option \<Rightarrow> 'w \<Rightarrow> 'w turn_outcome" where
  "arun cfg ev msg t sys pm max_iterations deadline_s w =
     (let s = initial_state msg t sys pm w in
      case deadline_s of
        None \<Rightarrow> agent_loop cfg ev None max_iterations [0..<max_iterations] s
      | Some d \<Rightarrow> (case ae_now ev (rs_world s) of (now, w) \<Rightarrow>
          agent_loop cfg ev (Some (now + d)) max_iterations [0..<max_iterations] (s\<lparr>rs_world := w\<rparr>)))"

section \<open>The transcript stays paired\<close>

lemma dispatch_calls_paired:
  assumes "dispatch_calls ev cs rg t w = (err, rg', t', w')"
    and "paired (t_messages t)" and "set (map ref_id cs) \<subseteq> avail_after {} (t_messages t)"
  shows "paired (t_messages t')"
  using assms
proof (induction cs arbitrary: rg t w)
  case (Cons c cs)
  show ?case
  proof (cases "py_dict (ref_args c)")
    case (Inl e)
    with Cons.prems show ?thesis by simp
  next
    case a: (Inr a)
    obtain r rg1 w1 where d: "dispatch (ae_tools ev) rg (ref_name c) a (ref_id c) w = (r, rg1, w1)"
      using prod_cases3 by blast
    show ?thesis
    proof (cases r)
      case (Inl e)
      with Cons.prems a d show ?thesis by simp
    next
      case (Inr b)
      with d have "dispatch (ae_tools ev) rg (ref_name c) a (ref_id c) w = (Inr b, rg1, w1)" by simp
      from dispatch_result_id[OF this] obtain cont er where b: "b = ToolResult (ref_id c) cont er" by blast
      let ?t = "t_append (tool_result_message b) t"
      have "dispatch_calls ev cs rg1 ?t w1 = (err, rg', t', w')"
        using Cons.prems(1) a d Inr by simp
      moreover have "paired (t_messages ?t)"
        using Cons.prems(2,3) by (simp add: paired_from_append b)
      moreover have "set (map ref_id cs) \<subseteq> avail_after {} (t_messages ?t)"
        using Cons.prems(3) by (simp add: avail_next_def b)
      ultimately show ?thesis by (rule Cons.IH)
    qed
  qed
qed simp

lemma paired_append_assistant:
  assumes "from_assistant_response r = Inr m" and "paired ms"
  shows "paired (ms @ [m])" and "avail_after {} (ms @ [m]) = set (map ref_id (pr_tool_calls r))"
  using assms from_assistant_response_no_results[OF assms(1)] from_assistant_response_calls[OF assms(1)]
  by (simp_all add: paired_from_append avail_next_def)

lemma dispatch_calls_frame:
  assumes "dispatch_calls ev cs rg t w = (err, rg', t', w')"
  shows "rg_tools rg' = rg_tools rg"
    and "length (rg_history rg) \<le> history_cap \<Longrightarrow> length (rg_history rg') \<le> history_cap"
  using assms
proof (induction cs arbitrary: rg t w)
  case (Cons c cs)
  {
    case 1
    then show ?case using Cons.IH(1) dispatch_frame(1)[of "ae_tools ev" rg "ref_name c" _ "ref_id c" w]
      by (fastforce split: sum.splits prod.splits)
  next
    case 2
    then show ?case using Cons.IH(2) dispatch_history_bounded[of "ae_tools ev" rg "ref_name c" _ "ref_id c" w]
      by (fastforce split: sum.splits prod.splits)
  }
qed auto

lemma one_turn_paired:
  assumes "one_turn ev schemas t w = (r, partial, t', w')" and "paired (t_messages t)"
  shows "t' = t"
  using assms drop_orphan_none[OF paired_orphan_free[OF assms(2)]]
  by (auto simp: one_turn_def Let_def split: prod.splits stream_outcome.splits)

lemma flush_partial_paired [wf_intros]:
  "paired (t_messages t) \<Longrightarrow> paired (t_messages (flush_partial e partial t))"
  by (simp add: flush_partial_def paired_from_append)

section \<open>The run invariant\<close>

definition run_inv :: "'w run_state \<Rightarrow> bool" where
  "run_inv s \<longleftrightarrow> paired (t_messages (rs_transcript s)) \<and> length (rs_history s) \<le> history_cap \<and>
     rs_nudges s \<le> max_completion_nudges"

lemma run_invI [wf_intros]:
  "paired (t_messages (rs_transcript s)) \<Longrightarrow> length (rs_history s) \<le> history_cap \<Longrightarrow>
   rs_nudges s \<le> max_completion_nudges \<Longrightarrow> run_inv s"
  by (simp add: run_inv_def)

lemma run_invD:
  assumes "run_inv s"
  shows "paired (t_messages (rs_transcript s))" "length (rs_history s) \<le> history_cap"
    "rs_nudges s \<le> max_completion_nudges"
  using assms by (simp_all add: run_inv_def)

lemma turn_prepare_inv:
  assumes "turn_prepare cfg ev s = (r, s')" and "run_inv s"
  shows "run_inv s'" and "r = Inr rg \<Longrightarrow> length (rg_history rg) \<le> history_cap"
proof -
  let ?sel = "for_turn (ae_scores ev) (ac_catalog cfg) (query_from_transcript (rs_transcript s))
                (ac_tools_per_turn cfg) (ac_pinned cfg)"
  note inv = run_invD[OF assms(2)]
  show "run_inv s'" "r = Inr rg \<Longrightarrow> length (rg_history rg) \<le> history_cap"
  proof (atomize (full), cases "make_registry ?sel (rs_pm s) (rs_history s) (ac_write_gate cfg)")
    case (Inl e)
    with assms show "run_inv s' \<and> (r = Inr rg \<longrightarrow> length (rg_history rg) \<le> history_cap)"
      by (auto simp: turn_prepare_def Let_def)
  next
    case (Inr rg0)
    from make_registry_tools(2)[OF Inr] inv have h: "length (rg_history rg0) \<le> history_cap" by simp
    obtain r1 t1 w1 where c: "compact_if_needed (ae_tok ev) (ae_acomplete ev) (ac_compactor cfg)
        (rs_transcript s) (registry_schemas rg0) (rs_world s) = (r1, t1, w1)" using prod_cases3 by blast
    from compact_if_needed_paired[OF c inv(1)] have "paired (t_messages t1)" .
    with inv have "run_inv (s\<lparr>rs_transcript := t1, rs_world := w1\<rparr>)" by (simp add: run_inv_def)
    with assms Inr h c show "run_inv s' \<and> (r = Inr rg \<longrightarrow> length (rg_history rg) \<le> history_cap)"
      by (auto simp: turn_prepare_def Let_def split: if_splits sum.splits)
  qed
qed

lemma turn_final_inv:
  "run_inv s \<Longrightarrow> run_inv (outcome_state (turn_final cfg i r s))"
  by (auto simp: turn_final_def Let_def stop_with_def run_inv_def paired_from_append split: option.splits)

lemma turn_respond_inv:
  assumes "run_inv s" and "length (rg_history rg) \<le> history_cap"
  shows "run_inv (outcome_state (turn_respond cfg ev i rg r s))"
proof -
  note inv = run_invD[OF assms(1)]
  define s1 where "s1 = s\<lparr>rs_tokens := rs_tokens s + pr_input_tokens r + pr_output_tokens r,
      rs_last_input := Some (pr_input_tokens r + pr_cache_read r + pr_cache_creation r)\<rparr>"
  have s1: "rs_transcript s1 = rs_transcript s" "rs_history s1 = rs_history s" "rs_nudges s1 = rs_nudges s"
    "rs_world s1 = rs_world s" by (simp_all add: s1_def)
  show ?thesis
  proof (cases "from_assistant_response r")
    case (Inl e)
    with inv s1 show ?thesis by (simp add: turn_respond_def s1_def[symmetric] run_inv_def)
  next
    case (Inr m)
    define s2 where "s2 = s1\<lparr>rs_transcript := t_append m (rs_transcript s)\<rparr>"
    note p = paired_append_assistant[OF Inr inv(1)]
    have s2: "run_inv s2" using inv p(1) s1 by (simp add: run_inv_def s2_def)
    show ?thesis
    proof (cases "pr_is_final r")
      case True
      with Inr have "turn_respond cfg ev i rg r s = turn_final cfg i r s2"
        by (simp add: turn_respond_def s1_def[symmetric] s1 s2_def[symmetric])
      with turn_final_inv[OF s2] show ?thesis by simp
    next
      case False
      obtain err rg' t' w' where d: "dispatch_calls ev (pr_tool_calls r) rg (rs_transcript s2) (rs_world s2) = (err, rg', t', w')"
        using prod_cases4 by blast
      have "paired (t_messages t')"
        by (rule dispatch_calls_paired[OF d]) (use p in \<open>simp_all add: s2_def\<close>)
      moreover note dispatch_calls_frame(2)[OF d assms(2)]
      ultimately have "run_inv (s2\<lparr>rs_transcript := t', rs_world := w', rs_history := rg_history rg', rs_pm := rg_pm rg'\<rparr>)"
        using s2 by (simp add: run_inv_def)
      moreover have "turn_respond cfg ev i rg r s =
          (let s = s2\<lparr>rs_transcript := t', rs_world := w', rs_history := rg_history rg', rs_pm := rg_pm rg'\<rparr> in
           case err of None \<Rightarrow> Continue s | Some e \<Rightarrow> Raise e s)"
        using Inr False d by (simp add: turn_respond_def s1_def[symmetric] s1 s2_def Let_def split: option.split)
      ultimately show ?thesis by (simp add: Let_def split: option.split)
    qed
  qed
qed

lemma agent_turn_inv:
  assumes "run_inv s"
  shows "run_inv (outcome_state (agent_turn cfg ev deadline i s))"
proof -
  obtain late w where l: "past_deadline ev deadline (rs_world s) = (late, w)" by fastforce
  define s0 where "s0 = s\<lparr>rs_world := w\<rparr>"
  have s0: "run_inv s0" using assms by (simp add: s0_def run_inv_def)
  obtain r s1 where p: "turn_prepare cfg ev s0 = (r, s1)" by fastforce
  have s1: "run_inv s1" by (rule turn_prepare_inv(1)[OF p s0])
  show ?thesis
  proof (cases late)
    case True
    with s0 l show ?thesis by (simp add: agent_turn_def s0_def[symmetric] stop_with_def)
  next
    case False
    show ?thesis
    proof (cases r)
      case (Inl e)
      with False l p s1 show ?thesis by (simp add: agent_turn_def s0_def[symmetric])
    next
      case (Inr rg)
      have h: "length (rg_history rg) \<le> history_cap" by (rule turn_prepare_inv(2)[OF p s0 Inr])
      obtain o1 partial t' w' where o1: "one_turn ev (registry_schemas rg) (rs_transcript s1) (rs_world s1) = (o1, partial, t', w')"
        using prod_cases4 by blast
      have t': "t' = rs_transcript s1" by (rule one_turn_paired[OF o1 run_invD(1)[OF s1]])
      have s2: "run_inv (s1\<lparr>rs_transcript := t', rs_world := w'\<rparr>)" using s1 by (simp add: t' run_inv_def)
      show ?thesis
      proof (cases o1)
        case (Inl e)
        have "run_inv (s1\<lparr>rs_transcript := flush_partial e partial t', rs_world := w'\<rparr>)"
          using s1 flush_partial_paired[of t' e partial] by (simp add: t' run_inv_def)
        with Inl False l p Inr o1 show ?thesis by (simp add: agent_turn_def s0_def[symmetric])
      next
        case (Inr r2)
        with turn_respond_inv[OF s2 h, of cfg ev i r2] \<open>r = Inr rg\<close> False l p o1
        show ?thesis by (simp add: agent_turn_def s0_def[symmetric])
      qed
    qed
  qed
qed

lemma grace_turn_inv:
  assumes "run_inv s"
  shows "run_inv (outcome_state (grace_turn ev n s))"
proof -
  define t0 where "t0 = t_append (user_text grace_nudge) (rs_transcript s)"
  have p0: "paired (t_messages t0)" using run_invD(1)[OF assms] by (simp add: t0_def paired_from_append)
  obtain r partial t w where o1: "one_turn ev [] t0 (rs_world s) = (r, partial, t, w)"
    using prod_cases4 by blast
  have t: "t = t0" by (rule one_turn_paired[OF o1 p0])
  show ?thesis
  proof (cases r)
    case (Inl e)
    with o1 p0 flush_partial_paired[of t0 e partial] run_invD(2,3)[OF assms] show ?thesis
      by (simp add: grace_turn_def Let_def t0_def[symmetric] t stop_with_def run_inv_def)
  next
    case (Inr r1)
    show ?thesis
    proof (cases "from_assistant_response r1")
      case (Inl e)
      with Inr o1 p0 run_invD(2,3)[OF assms] show ?thesis
        by (simp add: grace_turn_def Let_def t0_def[symmetric] t stop_with_def run_inv_def)
    next
      case m: (Inr m)
      with Inr o1 paired_append_assistant(1)[OF m p0] run_invD(2,3)[OF assms] show ?thesis
        by (simp add: grace_turn_def Let_def t0_def[symmetric] t stop_with_def run_inv_def)
    qed
  qed
qed

lemma agent_loop_inv:
  "run_inv s \<Longrightarrow> run_inv (outcome_state (agent_loop cfg ev deadline n is s))"
proof (induction "is" arbitrary: s)
  case Nil
  then show ?case by (simp add: grace_turn_inv)
next
  case (Cons i "is")
  from agent_turn_inv[OF Cons.prems, of cfg ev deadline i] Cons.IH show ?case
    by (cases "agent_turn cfg ev deadline i s") simp_all
qed

lemma initial_state_inv:
  "(\<And>t0. t = Some t0 \<Longrightarrow> paired (t_messages t0)) \<Longrightarrow> run_inv (initial_state msg t sys pm w)"
  by (cases t) (simp_all add: run_inv_def initial_state_def paired_from_append)

lemma run_inv_world [simp]: "run_inv (s\<lparr>rs_world := w\<rparr>) = run_inv s"
  by (simp add: run_inv_def)

lemma arun_inv:
  assumes "\<And>t0. t = Some t0 \<Longrightarrow> paired (t_messages t0)"
  shows "run_inv (outcome_state (arun cfg ev msg t sys pm n deadline_s w))"
  using initial_state_inv[OF assms, of t msg sys pm w]
  by (auto simp: arun_def Let_def agent_loop_inv split: option.split prod.split)

section \<open>The loop as a transition system\<close>

text \<open>The states in which the loop starts an iteration, with the iteration's number.\<close>

inductive agent_reach :: "'w agent_config \<Rightarrow> 'w agent_env \<Rightarrow> rat option \<Rightarrow> nat \<Rightarrow> 'w run_state \<Rightarrow> nat \<Rightarrow> 'w run_state \<Rightarrow> bool"
  for cfg ev deadline n s0 where
  start: "agent_reach cfg ev deadline n s0 0 s0"
| step: "agent_reach cfg ev deadline n s0 i s \<Longrightarrow> i < n \<Longrightarrow> agent_turn cfg ev deadline i s = Continue s' \<Longrightarrow>
    agent_reach cfg ev deadline n s0 (Suc i) s'"

inductive_cases agent_reachE: "agent_reach cfg ev deadline n s0 i s"
inductive_simps agent_reach_0: "agent_reach cfg ev deadline n s0 0 s"

lemma agent_reach_inv:
  "agent_reach cfg ev deadline n s0 i s \<Longrightarrow> run_inv s0 \<Longrightarrow> run_inv s \<and> i \<le> n"
proof (induction rule: agent_reach.induct)
  case (step i s s')
  with agent_turn_inv[of s cfg ev deadline i] show ?case by simp
qed simp

text \<open>What a turn sends after its preparation has no orphan, so the repair never fires.\<close>

lemma agent_reach_no_repair:
  assumes "agent_reach cfg ev deadline n s0 i s" and "run_inv s0"
    and "turn_prepare cfg ev (s\<lparr>rs_world := w\<rparr>) = (r, s1)"
  shows "drop_orphan_tool_results (rs_transcript s1) = (0, rs_transcript s1)"
proof -
  have "run_inv (s\<lparr>rs_world := w\<rparr>)" using agent_reach_inv[OF assms(1,2)] by simp
  from turn_prepare_inv(1)[OF assms(3) this] show ?thesis
    by (intro drop_orphan_none paired_orphan_free run_invD(1))
qed

text \<open>The loop ends in a state one turn away from a reachable one, or in the grace turn.\<close>

lemma agent_loop_reach:
  assumes "agent_reach cfg ev deadline n s0 i s" and "i \<le> n"
  shows "(\<exists>j sj. agent_reach cfg ev deadline n s0 j sj \<and> j < n \<and>
            agent_loop cfg ev deadline n [i..<n] s = agent_turn cfg ev deadline j sj \<and>
            (\<forall>s'. agent_turn cfg ev deadline j sj \<noteq> Continue s')) \<or>
         (\<exists>sn. agent_reach cfg ev deadline n s0 n sn \<and>
            agent_loop cfg ev deadline n [i..<n] s = grace_turn ev n sn)"
  using assms
proof (induction "n - i" arbitrary: i s)
  case 0
  then show ?case by auto
next
  case (Suc k)
  then have "i < n" by simp
  then have u: "[i..<n] = i # [Suc i..<n]" by (rule upt_conv_Cons)
  show ?case
  proof (cases "agent_turn cfg ev deadline i s")
    case (Continue s')
    then have "agent_reach cfg ev deadline n s0 (Suc i) s'"
      using agent_reach.step[OF Suc.prems(1) \<open>i < n\<close>] by simp
    from Suc.hyps(1)[OF _ this] Suc.hyps(2) \<open>i < n\<close> Continue u show ?thesis by simp
  next
    case (Return r s')
    then have "agent_loop cfg ev deadline n [i..<n] s = agent_turn cfg ev deadline i s"
      "\<forall>s'. agent_turn cfg ev deadline i s \<noteq> Continue s'" using u by simp_all
    with Suc.prems(1) \<open>i < n\<close> show ?thesis by blast
  next
    case (Raise e s')
    then have "agent_loop cfg ev deadline n [i..<n] s = agent_turn cfg ev deadline i s"
      "\<forall>s'. agent_turn cfg ev deadline i s \<noteq> Continue s'" using u by simp_all
    with Suc.prems(1) \<open>i < n\<close> show ?thesis by blast
  qed
qed

section \<open>What a result says\<close>

lemma grace_turn_result:
  "grace_turn ev n s = Return r s' \<Longrightarrow>
     rr_stop_reason r = StopMaxIterations \<and> rr_iterations_used r = n \<and> rr_transcript r = rs_transcript s'"
  by (auto simp: grace_turn_def Let_def stop_with_def split: sum.splits prod.splits if_splits)

lemma grace_turn_not_continue: "grace_turn ev n s \<noteq> Continue s'"
  by (auto simp: grace_turn_def Let_def stop_with_def split: sum.splits prod.splits if_splits)

lemma agent_loop_not_continue: "agent_loop cfg ev deadline n is s \<noteq> Continue s'"
  by (induction "is" arbitrary: s) (auto simp: grace_turn_not_continue split: turn_outcome.split)

text \<open>A turn's verdict: which reasons it can return, and what each of them guarantees.\<close>

definition verdict_ok :: "'w agent_config \<Rightarrow> nat \<Rightarrow> run_result \<Rightarrow> 'w run_state \<Rightarrow> bool" where
  "verdict_ok cfg i r s \<longleftrightarrow>
     rr_transcript r = rs_transcript s \<and>
     (rr_stop_reason r = StopDeadline \<and> rr_iterations_used r = i \<or> rr_iterations_used r = Suc i) \<and>
     rr_stop_reason r \<noteq> StopMaxIterations \<and>
     (rr_stop_reason r = StopCompleted \<longrightarrow>
        open_plan cfg (rs_world s) = None \<and> \<not> blank (rr_summary r) \<and>
        last_assistant_text (rs_transcript s) = Some (rr_summary r)) \<and>
     (rr_stop_reason r = StopIncompletePlan \<longrightarrow>
        open_plan cfg (rs_world s) \<noteq> None \<and> rs_nudges s \<ge> max_completion_nudges) \<and>
     (rr_stop_reason r = StopEmpty \<longrightarrow> open_plan cfg (rs_world s) = None)"

lemma last_assistant_text_response:
  assumes "from_assistant_response r = Inr m" and "pr_is_final r"
  shows "last_assistant_text (t_append m t) = pr_text r"
proof -
  from assms(2) obtain body where t: "pr_text r = Some body" "pr_tool_calls r = []"
    by (auto simp: pr_is_final_def)
  with assms(1) have m: "msg_role m = RoleAssistant"
    "msg_blocks m = (case reasoning_block r of None \<Rightarrow> [] | Some b \<Rightarrow> [b]) @ [TextBlock body]"
    by (auto simp: from_assistant_response_def)
  show ?thesis by (simp add: last_assistant_text_def m t)
qed

lemma turn_final_verdict:
  assumes "turn_final cfg i r s = Return res s'"
    and "pr_is_final r" and "last_assistant_text (rs_transcript s) = pr_text r"
  shows "verdict_ok cfg i res s'"
proof -
  from assms(2) obtain body where t: "pr_text r = Some body" by (auto simp: pr_is_final_def)
  have tx: "text_or (Some body) '''' = body" by (simp add: text_or_def)
  from assms(1,3) show ?thesis
    by (auto simp: turn_final_def tx Let_def t stop_with_def verdict_ok_def split: option.splits if_splits)
qed

lemma agent_turn_verdict:
  assumes "agent_turn cfg ev deadline i s = Return res s'"
  shows "verdict_ok cfg i res s'"
proof -
  obtain late w where l: "past_deadline ev deadline (rs_world s) = (late, w)" by fastforce
  define s0 where "s0 = s\<lparr>rs_world := w\<rparr>"
  show ?thesis
  proof (cases late)
    case True
    with assms l show ?thesis
      by (auto simp: agent_turn_def stop_with_def verdict_ok_def)
  next
    case False
    obtain r s1 where p: "turn_prepare cfg ev s0 = (r, s1)" by fastforce
    from assms False l p have "\<exists>rg. r = Inr rg"
      by (cases r) (simp_all add: agent_turn_def s0_def[symmetric])
    then obtain rg where r: "r = Inr rg" by blast
    obtain o1 partial t w1 where o1: "one_turn ev (registry_schemas rg) (rs_transcript s1) (rs_world s1) = (o1, partial, t, w1)"
      using prod_cases4 by blast
    from assms False l p r o1 have "\<exists>resp. o1 = Inr resp"
      by (cases o1) (simp_all add: agent_turn_def s0_def[symmetric])
    then obtain resp where resp: "o1 = Inr resp" by blast
    define s2 where "s2 = s1\<lparr>rs_transcript := t, rs_world := w1\<rparr>"
    have tr: "turn_respond cfg ev i rg resp s2 = Return res s'"
      using assms False l p r o1 resp by (simp add: agent_turn_def s0_def[symmetric] s2_def)
    then obtain m where m: "from_assistant_response resp = Inr m"
      by (cases "from_assistant_response resp") (auto simp: turn_respond_def Let_def)
    have f: "pr_is_final resp"
      using tr m by (auto simp: turn_respond_def Let_def split: if_splits prod.splits option.splits)
    define s3 where "s3 = s2\<lparr>rs_tokens := rs_tokens s2 + pr_input_tokens resp + pr_output_tokens resp,
      rs_last_input := Some (pr_input_tokens resp + pr_cache_read resp + pr_cache_creation resp),
      rs_transcript := t_append m (rs_transcript s2)\<rparr>"
    have "turn_final cfg i resp s3 = Return res s'"
      using tr m f by (simp add: turn_respond_def Let_def s3_def)
    then show ?thesis
      by (rule turn_final_verdict) (use f last_assistant_text_response[OF m f] in \<open>simp_all add: s3_def\<close>)
  qed
qed

text \<open>The result of a whole run.\<close>

lemma agent_loop_result:
  assumes "agent_loop cfg ev deadline n [0..<n] s0 = Return r s'"
  shows "rr_iterations_used r \<le> n"
    and "rr_stop_reason r = StopMaxIterations \<Longrightarrow> rr_iterations_used r = n"
    and "rr_stop_reason r = StopCompleted \<Longrightarrow>
      open_plan cfg (rs_world s') = None \<and> \<not> blank (rr_summary r) \<and>
      last_assistant_text (rr_transcript r) = Some (rr_summary r)"
    and "rr_stop_reason r = StopIncompletePlan \<Longrightarrow> open_plan cfg (rs_world s') \<noteq> None"
proof -
  from agent_loop_reach[OF agent_reach.start, of n cfg ev deadline s0]
  consider (turn) j sj where "j < n" "agent_turn cfg ev deadline j sj = Return r s'"
    | (grace) sn where "grace_turn ev n sn = Return r s'"
    using assms by auto
  then have "rr_iterations_used r \<le> n \<and> (rr_stop_reason r = StopMaxIterations \<longrightarrow> rr_iterations_used r = n) \<and>
    (rr_stop_reason r = StopCompleted \<longrightarrow> open_plan cfg (rs_world s') = None \<and> \<not> blank (rr_summary r) \<and>
      last_assistant_text (rr_transcript r) = Some (rr_summary r)) \<and>
    (rr_stop_reason r = StopIncompletePlan \<longrightarrow> open_plan cfg (rs_world s') \<noteq> None)"
  proof cases
    case turn
    from agent_turn_verdict[OF turn(2)] turn(1) show ?thesis by (auto simp: verdict_ok_def)
  next
    case grace
    from grace_turn_result[OF grace] show ?thesis by simp
  qed
  then show "rr_iterations_used r \<le> n" "rr_stop_reason r = StopMaxIterations \<Longrightarrow> rr_iterations_used r = n"
    "rr_stop_reason r = StopCompleted \<Longrightarrow> open_plan cfg (rs_world s') = None \<and> \<not> blank (rr_summary r) \<and>
      last_assistant_text (rr_transcript r) = Some (rr_summary r)"
    "rr_stop_reason r = StopIncompletePlan \<Longrightarrow> open_plan cfg (rs_world s') \<noteq> None"
    by blast+
qed

section \<open>A sample run\<close>

text \<open>
  A one-tool agent on a world that counts provider calls: the first turn calls the tool, the
  second answers.  The closed instances of the properties evaluate on it.
\<close>

definition sample_tool :: "nat tool" where
  "sample_tool = \<lparr>tool_name = ''f'', tool_description = ''d'', tool_schema = JObj [],
     tool_run = Some (\<lambda>a w. (Inr ''ok'', w)), tool_arun = None, tool_effects = {SRead}\<rparr>"

definition sample_env :: "nat agent_env" where
  "sample_env = \<lparr>
     ae_stream = (\<lambda>t schemas w. (StreamDone (if w = 0
         then [ToolCallStart ''c1'' ''f'', ToolCallDelta ''c1'' ''{}'', Completed 5 2 0 0 0 []]
         else [TextDelta ''done'', Completed 7 1 0 0 0 []]), Suc w)),
     ae_acomplete = (\<lambda>t w. (Inl (Exn ''E'' ''''), w)),
     ae_loads = (\<lambda>s. if s = ''{}'' then Some (JObj []) else None),
     ae_now = (\<lambda>w. (0, w)), ae_tok = length,
     ae_scores = (\<lambda>corpus q. map (\<lambda>_. 0) corpus),
     ae_tools = \<lparr>te_iter_errors = (\<lambda>a s. []), te_close_match = (\<lambda>n ns. None), te_nonce = (\<lambda>w. (''n'', w))\<rparr>\<rparr>"

definition sample_config :: "nat agent_config" where
  "sample_config = \<lparr>ac_catalog = [sample_tool], ac_pinned = [], ac_tools_per_turn = 7,
     ac_budget = default_budget, ac_compactor = default_compactor default_budget, ac_write_gate = False, ac_plan = None\<rparr>"

definition sample_transcript :: transcript where
  "sample_transcript = \<lparr>t_messages = [user_text ''hi'',
     assistant_tool_call (ToolCall ''c0'' ''f'' []) None, tool_result_message (ToolResult ''c0'' ''r'' False)],
     t_system = None\<rparr>"

section \<open>Properties of a run\<close>

text \<open>
  C1.  However a run ends (a result or an exception, cancellation included), the transcript it
  leaves is paired: every tool result answers a call of the assistant turn right before it, no
  result is orphaned by compaction, interruption or a failing tool.  The loop-detection history
  and the nudge counter stay within their bounds.
\<close>

theorem run_keeps_transcript_paired:
  assumes "\<forall>t0. t = Some t0 \<longrightarrow> paired (t_messages t0)"
  shows "paired (t_messages (rs_transcript (outcome_state (arun cfg ev msg t sys pm n deadline_s w)))) \<and>
    length (rs_history (outcome_state (arun cfg ev msg t sys pm n deadline_s w))) \<le> history_cap \<and>
    rs_nudges (outcome_state (arun cfg ev msg t sys pm n deadline_s w)) \<le> max_completion_nudges"
  using arun_inv[of t cfg ev msg sys pm n deadline_s w] assms by (simp add: run_inv_def)

theorem run_keeps_transcript_paired_witness:
  "paired (t_messages (rs_transcript (outcome_state
     (arun sample_config sample_env ''go'' (Some sample_transcript) None None 5 None 0)))) \<and>
   length (t_messages (rs_transcript (outcome_state
     (arun sample_config sample_env ''go'' (Some sample_transcript) None None 5 None 0)))) = 7"
proof
  have "paired (t_messages sample_transcript)" by code_simp
  then have "\<forall>t0. Some sample_transcript = Some t0 \<longrightarrow> paired (t_messages t0)" by simp
  from run_keeps_transcript_paired[OF this, of sample_config sample_env "''go''" None None 5 None 0]
  show "paired (t_messages (rs_transcript (outcome_state
     (arun sample_config sample_env ''go'' (Some sample_transcript) None None 5 None 0))))" by blast
  show "length (t_messages (rs_transcript (outcome_state
     (arun sample_config sample_env ''go'' (Some sample_transcript) None None 5 None 0)))) = 7" by code_simp
qed

text \<open>
  C13.  Every iteration the loop reaches sends a transcript without orphaned results: what
  \<open>_one_turn\<close> repairs before the send is nothing, so the last line of defense never fires.
\<close>

theorem sends_need_no_repair:
  assumes "agent_reach cfg ev deadline n (initial_state msg None sys pm w0) i s"
    and "turn_prepare cfg ev (s\<lparr>rs_world := w\<rparr>) = (r, s1)"
  shows "drop_orphan_tool_results (rs_transcript s1) = (0, rs_transcript s1)"
  by (rule agent_reach_no_repair[OF assms(1) initial_state_inv assms(2)]) simp

theorem sends_need_no_repair_witness:
  "case agent_turn sample_config sample_env None 0 (initial_state ''go'' None None None 0) of
     Continue s \<Rightarrow> drop_orphan_tool_results (rs_transcript (snd (turn_prepare sample_config sample_env (s\<lparr>rs_world := 1\<rparr>)))) =
        (0, rs_transcript (snd (turn_prepare sample_config sample_env (s\<lparr>rs_world := 1\<rparr>))))
   | _ \<Rightarrow> False"
proof -
  let ?s0 = "initial_state ''go'' None None None 0 :: nat run_state"
  have "\<not> (case agent_turn sample_config sample_env None 0 ?s0 of Continue s \<Rightarrow> False | _ \<Rightarrow> True)" by code_simp
  then obtain s where s: "agent_turn sample_config sample_env None 0 ?s0 = Continue s"
    by (auto split: turn_outcome.splits)
  from agent_reach.step[OF agent_reach.start _ s, of 5]
  have "agent_reach sample_config sample_env None 5 ?s0 (Suc 0) s" by simp
  from sends_need_no_repair[OF this prod.collapse[symmetric]] show ?thesis by (simp add: s)
qed

text \<open>
  C3.  A run is bounded and its verdict can be trusted: a result uses at most \<open>max_iterations\<close>
  turns; \<open>completed\<close> is reported only with no open plan, with a non-blank answer that is the last
  thing the assistant said; \<open>incomplete_plan\<close> only while the plan is open.
\<close>

theorem run_verdict:
  assumes "arun cfg ev msg t sys pm n deadline_s w = Return r s'"
  shows "rr_iterations_used r \<le> n \<and>
    (rr_stop_reason r = StopMaxIterations \<longrightarrow> rr_iterations_used r = n) \<and>
    (rr_stop_reason r = StopCompleted \<longrightarrow> open_plan cfg (rs_world s') = None \<and> \<not> blank (rr_summary r) \<and>
       last_assistant_text (rr_transcript r) = Some (rr_summary r)) \<and>
    (rr_stop_reason r = StopIncompletePlan \<longrightarrow> open_plan cfg (rs_world s') \<noteq> None)"
proof -
  obtain deadline s0 where "agent_loop cfg ev deadline n [0..<n] s0 = Return r s'"
    using assms by (auto simp: arun_def Let_def split: option.splits prod.splits)
  from agent_loop_result[OF this] show ?thesis by blast
qed

theorem run_verdict_witness:
  "case arun sample_config sample_env ''go'' None None None 5 None 0 of
     Return r s \<Rightarrow> rr_stop_reason r = StopCompleted \<and> rr_iterations_used r = 2 \<and>
       last_assistant_text (rr_transcript r) = Some (rr_summary r)
   | _ \<Rightarrow> False"
proof -
  let ?o = "arun sample_config sample_env ''go'' None None None 5 None 0"
  have v: "case ?o of Return r s \<Rightarrow> rr_stop_reason r = StopCompleted \<and> rr_iterations_used r = 2 | _ \<Rightarrow> False"
    by code_simp
  then obtain r s where r: "?o = Return r s" by (auto split: turn_outcome.splits)
  from run_verdict[OF r] v show ?thesis by (simp add: r)
qed

text \<open>
  The grace turn is best effort: it always ends the run with \<open>max_iterations\<close> and exactly
  that many turns, whatever the provider does; only a cancellation passes through it.
\<close>

theorem grace_turn_best_effort:
  "case grace_turn ev n s of
     Return r s' \<Rightarrow> rr_stop_reason r = StopMaxIterations \<and> rr_iterations_used r = n \<and> rr_summary r \<noteq> ''''
   | Raise e s' \<Rightarrow> \<not> is_exception e
   | Continue s' \<Rightarrow> False"
proof -
  have t: "text_or x exhausted_marker \<noteq> ''''" for x
    by (auto simp: text_or_def exhausted_marker_def split: option.splits)
  show ?thesis
    by (auto simp: grace_turn_def Let_def stop_with_def t split: prod.splits sum.splits)
qed

text \<open>
  The floor under the token estimate never triggers a compaction.  When the estimate alone
  is not red, a turn is prepared with the transcript unchanged, even if the provider's real
  token count made the turn's own snapshot red: the compactor measures again without it.
\<close>

theorem floor_alone_never_compacts:
  assumes "make_registry (for_turn (ae_scores ev) (ac_catalog cfg) (query_from_transcript (rs_transcript s))
      (ac_tools_per_turn cfg) (ac_pinned cfg)) (rs_pm s) (rs_history s) (ac_write_gate cfg) = Inr rg"
    and "cmp_budget (ac_compactor cfg) = ac_budget cfg"
    and "ctx_state_of (snapshot (ae_tok ev) (ac_budget cfg) (rs_transcript s) (registry_schemas rg) [] None) \<noteq> Red"
  shows "turn_prepare cfg ev s = (Inr rg, s)"
  using assms compact_if_needed_not_red[of "ae_tok ev" "ac_compactor cfg" "rs_transcript s" "registry_schemas rg"
      "ae_acomplete ev" "rs_world s"]
  by (simp add: turn_prepare_def Let_def)

theorem floor_alone_never_compacts_witness:
  "let s = (initial_state ''go'' None None None 0)\<lparr>rs_last_input := Some 1000000\<rparr> in
   rs_transcript (snd (turn_prepare sample_config sample_env s)) = rs_transcript s \<and>
   ctx_state_of (snapshot length default_budget (rs_transcript s) [schema_for_provider sample_tool] [] (rs_last_input s)) = Red"
proof -
  let ?s = "(initial_state ''go'' None None None 0)\<lparr>rs_last_input := Some 1000000\<rparr> :: nat run_state"
  let ?mk = "make_registry (for_turn (ae_scores sample_env) (ac_catalog sample_config) (query_from_transcript (rs_transcript ?s))
      (ac_tools_per_turn sample_config) (ac_pinned sample_config)) (rs_pm ?s) (rs_history ?s) (ac_write_gate sample_config)"
  have v: "case ?mk of Inr rg \<Rightarrow> ctx_state_of (snapshot (ae_tok sample_env) (ac_budget sample_config) (rs_transcript ?s)
      (registry_schemas rg) [] None) \<noteq> Red | Inl e \<Rightarrow> False" by code_simp
  then obtain rg where rg: "?mk = Inr rg" by (auto split: sum.splits)
  have b: "cmp_budget (ac_compactor sample_config) = ac_budget sample_config" by code_simp
  have "ctx_state_of (snapshot length default_budget (rs_transcript ?s) [schema_for_provider sample_tool] [] (rs_last_input ?s)) = Red"
    by code_simp
  with floor_alone_never_compacts[OF rg b] v rg show ?thesis by (simp add: Let_def)
qed

end
