(* ===== verification/Systems.thy ===== *)
theory Systems
  imports Prelude
begin

text \<open>
  Step relations with an invariant and a measure: the contract shared by the concurrent parts of
  the program (the parallel sub-agent batch, the shards of a job, the submissions).  A component
  proves the laws for its own relation and interprets the locale; reachability, termination and
  reaching a finished state are proved here once.
\<close>

locale invariant_system =
  fixes step :: "'s \<Rightarrow> 's \<Rightarrow> bool" and inv :: "'s \<Rightarrow> bool"
  assumes inv_step: "step s s' \<Longrightarrow> inv s \<Longrightarrow> inv s'"
begin

lemma reach_inv: "step\<^sup>*\<^sup>* s s' \<Longrightarrow> inv s \<Longrightarrow> inv s'"
  by (induction rule: rtranclp_induct) (auto intro: inv_step)

end

locale terminating_system = invariant_system +
  fixes work :: "'a \<Rightarrow> nat" and finished :: "'a \<Rightarrow> bool"
  assumes decreases: "step s s' \<Longrightarrow> inv s \<Longrightarrow> work s' < work s"
    and progress: "inv s \<Longrightarrow> \<not> finished s \<Longrightarrow> \<exists>s'. step s s'"
begin

text \<open>No schedule is longer than the work of its first state.\<close>

lemma run_bounded: "(step ^^ n) s s' \<Longrightarrow> inv s \<Longrightarrow> n + work s' \<le> work s"
proof (induction n arbitrary: s')
  case (Suc n)
  from Suc.prems(1) obtain m where m: "(step ^^ n) s m" "step m s'" by auto
  have "inv m" using reach_inv[OF _ Suc.prems(2), of m] m(1) relpowp_imp_rtranclp by metis
  with Suc.IH[OF m(1) Suc.prems(2)] decreases[OF m(2)] show ?case by simp
qed simp

text \<open>Every schedule can be continued to a finished state, and one that is stuck is finished.\<close>

lemma reaches_finished: "inv s \<Longrightarrow> \<exists>s'. step\<^sup>*\<^sup>* s s' \<and> finished s'"
proof (induction "work s" arbitrary: s rule: less_induct)
  case less
  show ?case
  proof (cases "finished s")
    case False
    with progress less.prems obtain s1 where s1: "step s s1" by blast
    from less.hyps[OF decreases[OF s1 less.prems] inv_step[OF s1 less.prems]] s1
    show ?thesis by (meson converse_rtranclp_into_rtranclp)
  qed blast
qed

lemma stuck_finished: "step\<^sup>*\<^sup>* s s' \<Longrightarrow> inv s \<Longrightarrow> \<nexists>s''. step s' s'' \<Longrightarrow> finished s'"
  using progress reach_inv by blast

end

end
