(* ===== verification/Subagents.thy ===== *)
theory Subagents
  imports AgentLoop Systems
begin

text \<open>
  Delegation, \<open>src/src/harness/subagents/\<close>: the spawner with its session budget
  (\<open>spawner.py\<close>), the two delegation tools (\<open>spawn_tool.py\<close>, \<open>parallel_tool.py\<close>), and the
  parallel batch (\<open>parallel.py\<close>).

  A single sub-agent is the agent loop itself (\<open>arun\<close>) on a fresh transcript.  The batch is a
  step relation over the tasks' control states: which task may start under the semaphore, and which
  tool call may run under the write gate of \<open>ToolRegistry.dispatch\<close>; a task's tool calls are
  reduced to whether each takes the gate.
\<close>

section \<open>One sub-agent\<close>

record subagent_spec =
  sa_objective :: string
  sa_output_format :: string
  sa_tools_allowed :: "string list"
  sa_max_iterations :: nat
  sa_max_tokens :: int
  sa_system_override :: "string option"

definition make_spec :: "string \<Rightarrow> string \<Rightarrow> string list \<Rightarrow> subagent_spec" where
  "make_spec ob fmt tools = \<lparr>sa_objective = ob, sa_output_format = fmt, sa_tools_allowed = tools,
     sa_max_iterations = 20, sa_max_tokens = 50000, sa_system_override = None\<rparr>"

record subagent_result =
  sr_summary :: string
  sr_tokens_used :: int
  sr_iterations_used :: nat
  sr_error :: "string option"

definition failed_result :: "string \<Rightarrow> subagent_result" where
  "failed_result e = \<lparr>sr_summary = '''', sr_tokens_used = 0, sr_iterations_used = 0, sr_error = Some e\<rparr>"

record 'w spawner =
  sp_catalog :: "'w catalog"
  sp_max :: nat
  sp_pm :: "'w permission_manager option"
  sp_count :: nat

definition delegation_tool_names :: "string set" where
  "delegation_tool_names = {''spawn_subagent'', ''spawn_parallel_subagents''}"

definition allowed_tools :: "'w catalog \<Rightarrow> string list \<Rightarrow> 'w tool list" where
  "allowed_tools c names = filter (\<lambda>t. tool_name t \<in> set names \<and> tool_name t \<notin> delegation_tool_names) c"

fun show_stop_reason :: "stop_reason \<Rightarrow> string" where
  "show_stop_reason StopCompleted = ''completed''"
| "show_stop_reason StopMaxIterations = ''max_iterations''"
| "show_stop_reason StopDeadline = ''deadline''"
| "show_stop_reason StopEmpty = ''empty_response''"
| "show_stop_reason StopIncompletePlan = ''incomplete_plan''"

definition subagent_mandate :: string where
  "subagent_mandate = newline @
     ''You MUST call at least one tool from your allowed list before'' @ newline @
     ''producing your final answer. Do not describe what you would do '' @ em_dash @ '' do it.'' @ newline @
     ''Describing a tool call in prose without actually invoking it is a failure.'' @ newline"

definition default_subagent_system :: "subagent_spec \<Rightarrow> string" where
  "default_subagent_system spec =
     concat (map (\<lambda>l. l @ newline)
      [''You are a sub-agent. You have one objective:'', '''', sa_objective spec, '''',
       ''Return your answer in this format:'', sa_output_format spec, '''',
       ''You have the following tools available: '' @ repr_list (sa_tools_allowed spec) @ ''.'',
       ''You have a maximum of '' @ show_nat (sa_max_iterations spec) @ '' iterations.'',
       ''You have a maximum of '' @ show_int (sa_max_tokens spec) @ '' tokens of context.'']) @
     (if sa_tools_allowed spec = [] then '''' else subagent_mandate) @
     concat (map (\<lambda>l. l @ newline)
      ['''', ''When you have completed the objective, produce your final answer in the'',
       ''requested format. Do not continue working after you have the answer.'',
       ''If you cannot complete the objective (missing data, scope unclear), say'',
       ''so explicitly '' @ em_dash @ '' do not fabricate.''])"

text \<open>The defaults of \<open>arun\<close> with the sub-agent's catalog, budget and gate.\<close>

definition subagent_config :: "'w spawner \<Rightarrow> subagent_spec \<Rightarrow> bool \<Rightarrow> 'w agent_config" where
  "subagent_config sp spec gate =
     (let b = default_budget\<lparr>window_size := sa_max_tokens spec\<rparr> in
      \<lparr>ac_catalog = allowed_tools (sp_catalog sp) (sa_tools_allowed spec), ac_pinned = [],
       ac_tools_per_turn = 7, ac_budget = b, ac_compactor = default_compactor b,
       ac_write_gate = gate, ac_plan = None\<rparr>)"

definition budget_exceeded :: "nat \<Rightarrow> exn" where
  "budget_exceeded n = Exn ''SubagentBudgetExceeded'' (''spawn budget of '' @ show_nat n @ '' exhausted'')"

definition is_budget_exceeded :: "exn \<Rightarrow> bool" where
  "is_budget_exceeded e \<longleftrightarrow> is_exception e \<and> exn_type e = ''SubagentBudgetExceeded''"

definition result_of_run :: "run_result \<Rightarrow> subagent_result" where
  "result_of_run r = \<lparr>sr_summary = rr_summary r, sr_tokens_used = rr_tokens_used r,
     sr_iterations_used = rr_iterations_used r,
     sr_error = (if rr_stop_reason r = StopCompleted then None
       else Some (''subagent stopped: '' @ show_stop_reason (rr_stop_reason r)))\<rparr>"

definition spawn_system :: "subagent_spec \<Rightarrow> string" where
  "spawn_system spec = text_or (sa_system_override spec) (default_subagent_system spec)"

definition spawn_message :: "subagent_spec \<Rightarrow> string" where
  "spawn_message spec = ''Objective: '' @ sa_objective spec @ newline @ newline @
     ''Return format: '' @ sa_output_format spec"

definition spawn :: "'w agent_env \<Rightarrow> 'w spawner \<Rightarrow> subagent_spec \<Rightarrow> bool \<Rightarrow> 'w \<Rightarrow>
    (exn + subagent_result) \<times> 'w spawner \<times> 'w" where
  "spawn ev sp spec gate w =
     (if sp_count sp \<ge> sp_max sp then (Inl (budget_exceeded (sp_max sp)), sp, w)
      else (let sp = sp\<lparr>sp_count := Suc (sp_count sp)\<rparr> in
        if allowed_tools (sp_catalog sp) (sa_tools_allowed spec) = []
        then (Inr (failed_result (''none of tools_allowed='' @ repr_list (sa_tools_allowed spec) @
                '' match available tools: '' @ repr_list (sort_strs (map tool_name (sp_catalog sp))))), sp, w)
        else (case arun (subagent_config sp spec gate) ev (spawn_message spec) None (Some (spawn_system spec))
                     (sp_pm sp) (sa_max_iterations spec) None w of
            Return r s \<Rightarrow> (Inr (result_of_run r), sp\<lparr>sp_pm := rs_pm s\<rparr>, rs_world s)
          | Raise e s \<Rightarrow>
              ((if is_budget_exceeded e \<or> \<not> is_exception e then Inl e else Inr (failed_result (exn_str e))),
               sp\<lparr>sp_pm := rs_pm s\<rparr>, rs_world s)
          | Continue s \<Rightarrow> (Inr (failed_result ''''), sp\<lparr>sp_pm := rs_pm s\<rparr>, rs_world s))))"

text \<open>The last branch is dead: a run returns or raises.\<close>

lemma arun_not_continue: "arun cfg ev msg t sys pm n d w \<noteq> Continue s"
  by (auto simp: arun_def Let_def agent_loop_not_continue split: option.splits prod.splits)

section \<open>The delegation tools\<close>

definition error_set :: "subagent_result \<Rightarrow> bool" where
  "error_set r \<longleftrightarrow> sr_error r \<noteq> None \<and> sr_error r \<noteq> Some ''''"

definition spawn_subagent :: "'w agent_env \<Rightarrow> 'w spawner \<Rightarrow> string \<Rightarrow> string \<Rightarrow> string list \<Rightarrow> nat \<Rightarrow> string \<Rightarrow> 'w \<Rightarrow>
    (exn + string) \<times> 'w spawner \<times> 'w" where
  "spawn_subagent ev sp objective fmt tools iters justification w =
     (if justification = '''' then
        (Inr (''error: justification is required. If you cannot explain '' @
              ''why a sub-agent is better than inline handling, do not '' @ ''spawn one.''), sp, w)
      else if tools = [] then
        (Inr (''error: tools_allowed must be non-empty. Specify which '' @ ''tools the sub-agent needs.''), sp, w)
      else (case spawn ev sp ((make_spec objective fmt tools)\<lparr>sa_max_iterations := iters\<rparr>) False w of
          (Inl e, sp, w) \<Rightarrow> (Inl e, sp, w)
        | (Inr r, sp, w) \<Rightarrow>
            (Inr (if error_set r then ''sub-agent error: '' @ the (sr_error r)
                  else ''[sub-agent result; '' @ show_int (sr_tokens_used r) @ '' tokens, '' @
                       show_nat (sr_iterations_used r) @ '' iters]'' @ newline @ sr_summary r), sp, w)))"

text \<open>How \<open>spawn_all\<close> and the parallel tool render the outcomes \<open>gather\<close> collected.\<close>

definition settle :: "exn + subagent_result \<Rightarrow> subagent_result" where
  "settle o' = (case o' of Inr r \<Rightarrow> r | Inl e \<Rightarrow> failed_result (exn_str e))"

definition render_results :: "subagent_result list \<Rightarrow> string" where
  "render_results rs = py_join newline (concat (map (\<lambda>(i, r).
     [''--- sub-agent '' @ show_nat i @ '' ---'',
      if error_set r then ''error: '' @ the (sr_error r) else sr_summary r]) (enumerate 1 rs)))"

definition parallel_refusal :: "string list \<Rightarrow> string \<Rightarrow> string option" where
  "parallel_refusal objectives justification =
     (if justification = '''' then Some ''error: justification required''
      else if length objectives < 2 then Some ''error: use spawn_subagent for a single objective''
      else if length (remdups objectives) \<noteq> length objectives
        then Some ''error: objectives must be distinct (no duplicates)''
      else None)"

section \<open>Facts about a spawn\<close>

lemma spawn_count:
  "spawn ev sp spec gate w = (r, sp', w') \<Longrightarrow>
     sp_max sp' = sp_max sp \<and> sp_catalog sp' = sp_catalog sp \<and>
     (if sp_count sp < sp_max sp then sp_count sp' = Suc (sp_count sp)
      else sp_count sp' = sp_count sp \<and> r = Inl (budget_exceeded (sp_max sp)) \<and> w' = w)"
  by (auto simp: spawn_def Let_def split: turn_outcome.splits if_splits)

lemma allowed_tools_spec:
  "set (allowed_tools c names) \<subseteq> set c"
  "tool_name ` set (allowed_tools c names) \<subseteq> set names - delegation_tool_names"
  by (auto simp: allowed_tools_def)

text \<open>The result reads as a success exactly when the run completed.\<close>

lemma result_of_run_error: "sr_error (result_of_run r) = None \<longleftrightarrow> rr_stop_reason r = StopCompleted"
  by (simp add: result_of_run_def)

lemma result_of_run_error_set: "error_set (result_of_run r) \<longleftrightarrow> rr_stop_reason r \<noteq> StopCompleted"
  by (auto simp: result_of_run_def error_set_def)

lemma spawn_success:
  assumes "spawn ev sp spec gate w = (Inr r, sp', w')" and "sr_error r = None"
  shows "\<not> blank (sr_summary r)" and "sr_iterations_used r \<le> sa_max_iterations spec"
proof -
  let ?cfg = "subagent_config (sp\<lparr>sp_count := Suc (sp_count sp)\<rparr>) spec gate"
  let ?s0 = "initial_state (spawn_message spec) None (Some (spawn_system spec)) (sp_pm sp) w"
  let ?n = "sa_max_iterations spec"
  have run: "arun ?cfg ev (spawn_message spec) None (Some (spawn_system spec)) (sp_pm sp) ?n None w =
      agent_loop ?cfg ev None ?n [0..<?n] ?s0"
    by (simp add: arun_def)
  from assms obtain res s where l: "agent_loop ?cfg ev None ?n [0..<?n] ?s0 = Return res s" and r: "r = result_of_run res"
    using arun_not_continue[of ?cfg ev "spawn_message spec" None "Some (spawn_system spec)" "sp_pm sp" ?n None w]
    by (auto simp: spawn_def Let_def failed_result_def run split: if_splits turn_outcome.splits)
  from assms(2) r have "rr_stop_reason res = StopCompleted" by (simp add: result_of_run_error)
  with agent_loop_result[OF l] show "\<not> blank (sr_summary r)" "sr_iterations_used r \<le> ?n"
    by (simp_all add: r result_of_run_def)
qed

lemma parallel_refusal_none:
  "parallel_refusal obs j = None \<longleftrightarrow> j \<noteq> '''' \<and> 2 \<le> length obs \<and> distinct obs"
proof -
  have "length (remdups obs) = length obs \<longleftrightarrow> distinct obs"
    by (metis distinct_remdups_id length_remdups_card_conv distinct_card card_distinct)
  then show ?thesis by (auto simp: parallel_refusal_def)
qed

section \<open>The parallel batch\<close>

text \<open>
  The control state of one sibling: waiting for the semaphore, between tool calls, inside a tool
  call (with or without the write gate), or settled.  The booleans are the remaining tool calls,
  \<open>True\<close> for one that takes the gate (\<open>takes_gate\<close>).  A task whose spawn finds the budget
  exhausted settles at once.
\<close>

datatype task = Queued | Thinking "bool list" | Calling bool "bool list" | Settled bool

record batch =
  b_tasks :: "task list"
  b_spawned :: nat

fun running :: "task \<Rightarrow> bool" where
  "running (Thinking cs) = True"
| "running (Calling g cs) = True"
| "running t = False"

fun holds_gate :: "task \<Rightarrow> bool" where
  "holds_gate (Calling g cs) = g"
| "holds_gate t = False"

fun settled :: "task \<Rightarrow> bool" where
  "settled (Settled r) = True"
| "settled t = False"

definition count_tasks :: "(task \<Rightarrow> bool) \<Rightarrow> batch \<Rightarrow> nat" where
  "count_tasks P b = length (filter P (b_tasks b))"

definition set_task :: "nat \<Rightarrow> task \<Rightarrow> batch \<Rightarrow> batch" where
  "set_task i t b = b\<lparr>b_tasks := (b_tasks b)[i := t]\<rparr>"

text \<open>
  \<open>par\<close> is \<open>max_parallel\<close>, \<open>cap\<close> is \<open>max_subagents_per_session\<close>, \<open>calls i\<close> the tool calls the
  i-th sub-agent will make.
\<close>

inductive batch_step :: "nat \<Rightarrow> nat \<Rightarrow> (nat \<Rightarrow> bool list) \<Rightarrow> batch \<Rightarrow> batch \<Rightarrow> bool"
  for par cap calls where
  admit: "i < length (b_tasks b) \<Longrightarrow> b_tasks b ! i = Queued \<Longrightarrow> count_tasks running b < par \<Longrightarrow>
    b_spawned b < cap \<Longrightarrow>
    batch_step par cap calls b (set_task i (Thinking (calls i)) b\<lparr>b_spawned := Suc (b_spawned b)\<rparr>)"
| refuse: "i < length (b_tasks b) \<Longrightarrow> b_tasks b ! i = Queued \<Longrightarrow> count_tasks running b < par \<Longrightarrow>
    \<not> b_spawned b < cap \<Longrightarrow>
    batch_step par cap calls b (set_task i (Settled False) b)"
| call_free: "i < length (b_tasks b) \<Longrightarrow> b_tasks b ! i = Thinking (False # cs) \<Longrightarrow>
    batch_step par cap calls b (set_task i (Calling False cs) b)"
| call_gated: "i < length (b_tasks b) \<Longrightarrow> b_tasks b ! i = Thinking (True # cs) \<Longrightarrow>
    count_tasks holds_gate b = 0 \<Longrightarrow>
    batch_step par cap calls b (set_task i (Calling True cs) b)"
| call_done: "i < length (b_tasks b) \<Longrightarrow> b_tasks b ! i = Calling g cs \<Longrightarrow>
    batch_step par cap calls b (set_task i (Thinking cs) b)"
| finish: "i < length (b_tasks b) \<Longrightarrow> b_tasks b ! i = Thinking [] \<Longrightarrow>
    batch_step par cap calls b (set_task i (Settled True) b)"

inductive_cases batch_stepE: "batch_step par cap calls b b'"

definition batch_init :: "nat \<Rightarrow> nat \<Rightarrow> batch" where
  "batch_init n spawned = \<lparr>b_tasks = replicate n Queued, b_spawned = spawned\<rparr>"

abbreviation batch_reach :: "nat \<Rightarrow> nat \<Rightarrow> (nat \<Rightarrow> bool list) \<Rightarrow> batch \<Rightarrow> batch \<Rightarrow> bool" where
  "batch_reach par cap calls \<equiv> (batch_step par cap calls)\<^sup>*\<^sup>*"

lemma set_task_simps [simp]:
  "b_tasks (set_task i t b) = (b_tasks b)[i := t]" "b_spawned (set_task i t b) = b_spawned b"
  by (simp_all add: set_task_def)

lemma count_tasks_set:
  "i < length (b_tasks b) \<Longrightarrow>
   count_tasks P (set_task i t b) + (if P (b_tasks b ! i) then 1 else 0) = count_tasks P b + (if P t then 1 else 0)"
  using length_filter_update[of i "b_tasks b" P t] by (simp add: count_tasks_def)

lemma count_tasks_spawned [simp]: "count_tasks P (b\<lparr>b_spawned := n\<rparr>) = count_tasks P b"
  by (simp add: count_tasks_def)

fun was_run :: "task \<Rightarrow> bool" where
  "was_run (Settled r) = r"
| "was_run Queued = False"
| "was_run t = True"

fun refused :: "task \<Rightarrow> bool" where
  "refused (Settled r) = (\<not> r)"
| "refused t = False"

text \<open>
  The invariant: at most \<open>par\<close> sub-agents run, at most one holds the write gate, the budget
  counter moves in step with the admitted tasks, and a refusal happens only with the budget spent.
\<close>

definition batch_inv :: "nat \<Rightarrow> nat \<Rightarrow> nat \<Rightarrow> batch \<Rightarrow> bool" where
  "batch_inv par cap c0 b \<longleftrightarrow> count_tasks running b \<le> par \<and> count_tasks holds_gate b \<le> 1 \<and>
     b_spawned b = c0 + count_tasks was_run b \<and> (b_spawned b > c0 \<longrightarrow> b_spawned b \<le> cap) \<and>
     (count_tasks refused b > 0 \<longrightarrow> \<not> b_spawned b < cap)"

lemma count_replicate [simp]: "count_tasks P (batch_init n c) = (if P Queued then n else 0)"
  by (simp add: count_tasks_def batch_init_def)

lemma batch_inv_init: "batch_inv par cap c (batch_init n c)"
  by (simp add: batch_inv_def) (simp add: batch_init_def)

lemma batch_inv_step:
  assumes "batch_step par cap calls b b'" and "batch_inv par cap c0 b"
  shows "batch_inv par cap c0 b'"
  using assms(1)
proof cases
  case (admit i)
  note c = count_tasks_set[OF admit(2), of _ "Thinking (calls i)"]
  show ?thesis using assms(2) admit c[of running] c[of holds_gate] c[of was_run] c[of refused]
    by (auto simp: batch_inv_def)
next
  case (refuse i)
  note c = count_tasks_set[OF refuse(2), of _ "Settled False"]
  show ?thesis using assms(2) refuse c[of running] c[of holds_gate] c[of was_run] c[of refused]
    by (auto simp: batch_inv_def)
next
  case (call_free i cs)
  note c = count_tasks_set[OF call_free(2), of _ "Calling False cs"]
  show ?thesis using assms(2) call_free c[of running] c[of holds_gate] c[of was_run] c[of refused]
    by (auto simp: batch_inv_def)
next
  case (call_gated i cs)
  note c = count_tasks_set[OF call_gated(2), of _ "Calling True cs"]
  show ?thesis using assms(2) call_gated c[of running] c[of holds_gate] c[of was_run] c[of refused]
    by (auto simp: batch_inv_def)
next
  case (call_done i g cs)
  note c = count_tasks_set[OF call_done(2), of _ "Thinking cs"]
  show ?thesis using assms(2) call_done c[of running] c[of holds_gate] c[of was_run] c[of refused]
    by (auto simp: batch_inv_def)
next
  case (finish i)
  note c = count_tasks_set[OF finish(2), of _ "Settled True"]
  show ?thesis using assms(2) finish c[of running] c[of holds_gate] c[of was_run] c[of refused]
    by (auto simp: batch_inv_def)
qed

lemma batch_reach_inv:
  "batch_reach par cap calls b b' \<Longrightarrow> batch_inv par cap c0 b \<Longrightarrow> batch_inv par cap c0 b'"
  by (induction rule: rtranclp_induct) (auto intro: batch_inv_step)

lemma batch_reach_length:
  "batch_reach par cap calls b b' \<Longrightarrow> length (b_tasks b') = length (b_tasks b)"
  by (induction rule: rtranclp_induct) (auto elim!: batch_stepE)

text \<open>No deadlock: while a task is open some step is enabled.\<close>

lemma count_pos_nth: "0 < count_tasks P b \<Longrightarrow> \<exists>i < length (b_tasks b). P (b_tasks b ! i)"
  by (auto simp: count_tasks_def filter_empty_conv in_set_conv_nth)

lemma batch_progress:
  assumes "0 < par" and "i < length (b_tasks b)" and "\<not> settled (b_tasks b ! i)"
  shows "\<exists>b'. batch_step par cap calls b b'"
proof (cases "\<exists>j < length (b_tasks b). running (b_tasks b ! j)")
  case True
  show ?thesis
  proof (cases "\<exists>j < length (b_tasks b). \<exists>g cs. b_tasks b ! j = Calling g cs")
    case True
    then show ?thesis by (blast intro: batch_step.call_done)
  next
    case calls: False
    then have "count_tasks holds_gate b = 0"
      using count_pos_nth[of holds_gate b] by (metis gr0I holds_gate.elims(2))
    moreover from True calls obtain j cs where "j < length (b_tasks b)" "b_tasks b ! j = Thinking cs"
      by (metis running.elims(2))
    ultimately show ?thesis
      by (cases cs; cases "hd cs") (auto intro: batch_step.intros)
  qed
next
  case False
  then have "count_tasks running b = 0" using count_pos_nth[of running b] by blast
  moreover from False assms(2,3) have "b_tasks b ! i = Queued"
    by (cases "b_tasks b ! i") auto
  ultimately show ?thesis using assms(1,2) batch_step.admit batch_step.refuse by (metis)
qed

text \<open>Every step lowers this measure, so every run of the batch ends.\<close>

fun task_work :: "(nat \<Rightarrow> bool list) \<Rightarrow> nat \<Rightarrow> task \<Rightarrow> nat" where
  "task_work calls i Queued = 2 * length (calls i) + 2"
| "task_work calls i (Thinking cs) = 2 * length cs + 1"
| "task_work calls i (Calling g cs) = 2 * length cs + 2"
| "task_work calls i (Settled r) = 0"

definition batch_work :: "(nat \<Rightarrow> bool list) \<Rightarrow> batch \<Rightarrow> nat" where
  "batch_work calls b = (\<Sum>i < length (b_tasks b). task_work calls i (b_tasks b ! i))"

lemma batch_work_set:
  assumes "i < length (b_tasks b)" and "task_work calls i t < task_work calls i (b_tasks b ! i)"
  shows "batch_work calls (set_task i t b) < batch_work calls b"
  unfolding batch_work_def
  by (simp, rule sum_strict_mono_ex1) (use assms in \<open>auto simp: nth_list_update\<close>)

lemma batch_work_spawned [simp]: "batch_work calls (b\<lparr>b_spawned := n\<rparr>) = batch_work calls b"
  by (simp add: batch_work_def)

lemma batch_step_decreases: "batch_step par cap calls b b' \<Longrightarrow> batch_work calls b' < batch_work calls b"
  by (erule batch_stepE) (simp_all add: batch_work_set)

text \<open>When the batch is settled, as many siblings ran as the session budget allowed.\<close>

lemma count_all: "(\<And>i. i < length (b_tasks b) \<Longrightarrow> settled (b_tasks b ! i)) \<Longrightarrow>
    count_tasks was_run b + count_tasks refused b = length (b_tasks b)"
proof -
  assume all: "\<And>i. i < length (b_tasks b) \<Longrightarrow> settled (b_tasks b ! i)"
  have "settled t \<Longrightarrow> refused t = (\<not> was_run t)" for t by (cases t) auto
  then have "filter refused (b_tasks b) = filter (\<lambda>t. \<not> was_run t) (b_tasks b)"
    using all by (intro filter_cong) (auto simp: in_set_conv_nth)
  then show ?thesis by (simp add: count_tasks_def sum_length_filter_compl)
qed

lemma batch_settled:
  assumes "batch_reach par cap calls (batch_init n c) b" and "c \<le> cap"
    and "\<And>i. i < n \<Longrightarrow> settled (b_tasks b ! i)"
  shows "count_tasks was_run b = min n (cap - c)"
proof -
  have inv: "batch_inv par cap c b" by (rule batch_reach_inv[OF assms(1) batch_inv_init])
  have len: "length (b_tasks b) = n" using batch_reach_length[OF assms(1)] by (simp add: batch_init_def)
  have "count_tasks was_run b + count_tasks refused b = n" using count_all[of b] assms(3) len by simp
  with inv assms(2) show ?thesis by (auto simp: batch_inv_def min_def)
qed

lemma batch_work_init: "batch_work calls (batch_init n c) = (\<Sum>i < n. 2 * length (calls i) + 2)"
  by (simp add: batch_work_def batch_init_def)

lemma settled_stuck: "list_all settled (b_tasks b) \<Longrightarrow> \<not> batch_step par cap calls b b'"
  by (auto simp: list_all_length elim!: batch_stepE)

section \<open>The batch as a terminating system\<close>

interpretation batches: terminating_system "batch_step (Suc par) cap calls" "batch_inv (Suc par) cap c0"
    "batch_work calls" "\<lambda>b. list_all settled (b_tasks b)" for par cap calls c0
proof
  show "\<exists>b'. batch_step (Suc par) cap calls b b'" if "\<not> list_all settled (b_tasks b)" for b
    using that batch_progress[of "Suc par" _ b cap calls] by (auto simp: list_all_length)
qed (auto intro: batch_inv_step batch_step_decreases)

section \<open>Properties of delegation\<close>

text \<open>
  A sub-agent gets only tools of the parent's catalog that its specification names, and
  never a delegation tool, so it cannot spawn.
\<close>

theorem subagent_tools_restricted:
  "set (ac_catalog (subagent_config sp spec gate)) \<subseteq> set (sp_catalog sp) \<and>
   tool_name ` set (ac_catalog (subagent_config sp spec gate)) \<subseteq>
     set (sa_tools_allowed spec) - {''spawn_subagent'', ''spawn_parallel_subagents''}"
  using allowed_tools_spec[of "sp_catalog sp" "sa_tools_allowed spec"]
  by (simp add: subagent_config_def delegation_tool_names_def Let_def)

text \<open>
  A spawn counts against the session budget exactly once, before anything runs, and with
  the budget spent it raises without touching the world.
\<close>

theorem spawn_budget:
  "case spawn ev sp spec gate w of (r, sp', w') \<Rightarrow>
     sp_max sp' = sp_max sp \<and> sp_catalog sp' = sp_catalog sp \<and>
     (if sp_count sp < sp_max sp then sp_count sp' = Suc (sp_count sp)
      else sp' = sp \<and> r = Inl (budget_exceeded (sp_max sp)) \<and> w' = w)"
proof -
  obtain r sp' w' where s: "spawn ev sp spec gate w = (r, sp', w')" using prod_cases3 by blast
  have "sp' = sp" if "\<not> sp_count sp < sp_max sp" using s that by (simp add: spawn_def)
  with s spawn_count[OF s] show ?thesis by simp
qed

text \<open>
  What the parent reads as a success is one: a spawn whose result carries no error ran to
  completion, with a non-blank summary, within the iterations of its specification.
\<close>

theorem spawn_success_is_completion:
  assumes "spawn ev sp spec gate w = (Inr r, sp', w')" and "sr_error r = None"
  shows "\<not> blank (sr_summary r) \<and> sr_iterations_used r \<le> sa_max_iterations spec"
  using spawn_success[OF assms] by blast

definition sample_spawner :: "nat spawner" where
  "sample_spawner = \<lparr>sp_catalog = [sample_tool], sp_max = 5, sp_pm = None, sp_count = 0\<rparr>"

definition sample_spec :: subagent_spec where
  "sample_spec = (make_spec ''o'' ''f'' [''f''])\<lparr>sa_max_iterations := 8, sa_system_override := Some ''s''\<rparr>"

theorem spawn_success_is_completion_witness:
  "case fst (spawn sample_env sample_spawner sample_spec False 0) of
     Inr r \<Rightarrow> \<not> blank (sr_summary r) \<and> sr_iterations_used r \<le> 8
   | Inl e \<Rightarrow> False"
proof -
  let ?run = "arun (subagent_config (sample_spawner\<lparr>sp_count := 1\<rparr>) sample_spec False) sample_env
      (spawn_message sample_spec) None (Some ''s'') None 8 None 0"
  have "case ?run of Return r s \<Rightarrow> rr_stop_reason r = StopCompleted | _ \<Rightarrow> False" by code_simp
  then obtain res s where run: "?run = Return res s" "rr_stop_reason res = StopCompleted"
    by (auto split: turn_outcome.splits)
  have allowed: "allowed_tools [sample_tool] [''f''] \<noteq> []" by code_simp
  have spec: "spawn_system sample_spec = ''s''" "sa_max_iterations sample_spec = 8" "sa_tools_allowed sample_spec = [''f'']"
    by (simp_all add: sample_spec_def make_spec_def spawn_system_def text_or_def)
  have sp: "sp_count sample_spawner = 0" "sp_max sample_spawner = 5" "sp_catalog sample_spawner = [sample_tool]"
    "sp_pm sample_spawner = None" by (simp_all add: sample_spawner_def)
  have "spawn sample_env sample_spawner sample_spec False 0 =
      (Inr (result_of_run res), sample_spawner\<lparr>sp_count := 1, sp_pm := rs_pm s\<rparr>, rs_world s)"
    using run(1) allowed by (simp add: spawn_def Let_def sp spec)
  from spawn_success_is_completion[OF this] run(2) show ?thesis
    by (simp add: \<open>spawn _ _ _ _ _ = _\<close> result_of_run_error spec)
qed

text \<open>
  C9.  Under any interleaving of a parallel batch at most \<open>max_parallel\<close> sub-agents run, at most
  one tool call holds the write gate, and the session budget is never overshot: a sibling is
  refused only when the budget is spent.
\<close>

theorem batch_safety:
  assumes "batch_reach par cap calls (batch_init n c) b"
  shows "count_tasks running b \<le> par \<and> count_tasks holds_gate b \<le> 1 \<and>
    b_spawned b = c + count_tasks was_run b \<and> b_spawned b \<le> max c cap \<and>
    (count_tasks refused b > 0 \<longrightarrow> cap \<le> b_spawned b)"
  using batch_reach_inv[OF assms batch_inv_init] by (auto simp: batch_inv_def)

theorem batch_safety_witness:
  "count_tasks running (set_task 0 (Thinking [True]) (batch_init 2 0)\<lparr>b_spawned := 1\<rparr>) \<le> 1"
proof -
  have "batch_step 1 1 (\<lambda>i. [True]) (batch_init 2 0) (set_task 0 (Thinking [True]) (batch_init 2 0)\<lparr>b_spawned := Suc (b_spawned (batch_init 2 0))\<rparr>)"
    by (rule batch_step.admit) (simp_all add: batch_init_def count_tasks_def)
  then have "batch_reach 1 1 (\<lambda>i. [True]) (batch_init 2 0) (set_task 0 (Thinking [True]) (batch_init 2 0)\<lparr>b_spawned := 1\<rparr>)"
    by (simp add: batch_init_def)
  from batch_safety[OF this] show ?thesis by simp
qed

text \<open>
  C10.  A parallel batch settles: a schedule has at most two steps per sibling and two per tool
  call, every schedule can be continued until every sibling is settled, it cannot go on exactly
  when every sibling is, and then as many of them ran as the remaining session budget allowed.
\<close>

theorem batch_settles:
  assumes "(batch_step (Suc par) cap calls ^^ k) (batch_init n c) b" and "c \<le> cap"
  shows "k \<le> (\<Sum>i < n. 2 * length (calls i) + 2) \<and>
    (\<exists>b'. batch_reach (Suc par) cap calls b b' \<and> list_all settled (b_tasks b')) \<and>
    ((\<nexists>b'. batch_step (Suc par) cap calls b b') \<longleftrightarrow> list_all settled (b_tasks b)) \<and>
    (list_all settled (b_tasks b) \<longrightarrow> length (b_tasks b) = n \<and> count_tasks was_run b = min n (cap - c))"
proof (intro conjI impI)
  have r: "batch_reach (Suc par) cap calls (batch_init n c) b" using assms(1) by (rule relpowp_imp_rtranclp)
  have inv: "batch_inv (Suc par) cap c b" by (rule batch_reach_inv[OF r batch_inv_init])
  show "k \<le> (\<Sum>i < n. 2 * length (calls i) + 2)"
    using batches.run_bounded[OF assms(1) batch_inv_init] by (simp add: batch_work_init)
  show "\<exists>b'. batch_reach (Suc par) cap calls b b' \<and> list_all settled (b_tasks b')"
    by (rule batches.reaches_finished[OF inv])
  show "(\<nexists>b'. batch_step (Suc par) cap calls b b') \<longleftrightarrow> list_all settled (b_tasks b)"
    using batches.stuck_finished[OF r batch_inv_init] settled_stuck by blast
  show len: "length (b_tasks b) = n" using batch_reach_length[OF r] by (simp add: batch_init_def)
  show "count_tasks was_run b = min n (cap - c)" if "list_all settled (b_tasks b)"
    by (rule batch_settled[OF r assms(2)]) (use that len in \<open>simp add: list_all_length\<close>)
qed

text \<open>Two siblings of one gated call each, budget for one, after the first admission.\<close>

theorem batch_settles_witness:
  "\<exists>b'. batch_reach 1 1 (\<lambda>i. [True]) (set_task 0 (Thinking [True]) (batch_init 2 0)\<lparr>b_spawned := 1\<rparr>) b' \<and>
     list_all settled (b_tasks b')"
proof -
  have "batch_step 1 1 (\<lambda>i. [True]) (batch_init 2 0) (set_task 0 (Thinking [True]) (batch_init 2 0)\<lparr>b_spawned := Suc (b_spawned (batch_init 2 0))\<rparr>)"
    by (rule batch_step.admit) (simp_all add: batch_init_def count_tasks_def)
  then have "(batch_step (Suc 0) 1 (\<lambda>i. [True]) ^^ 1) (batch_init 2 0) (set_task 0 (Thinking [True]) (batch_init 2 0)\<lparr>b_spawned := 1\<rparr>)"
    unfolding relpowp_1 by (simp add: batch_init_def)
  from batch_settles[OF this] show ?thesis by simp
qed

end
