(* ===== verification/Access.thy ===== *)
theory Access
  imports Prelude
begin

text \<open>
  The access layer, \<open>src/src/access/\<close>: the open-once \<open>Document\<close> with its page cache and failure
  ledger (\<open>document.py\<close>), the memoising, degrading \<open>Page\<close> (\<open>page.py\<close>) and the validation of
  \<open>TakeoffConfig\<close> (\<open>config.py\<close>).

  Parameters: \<open>load\<close> is \<open>fitz_doc[index]\<close>, \<open>produce\<close> the PyMuPDF or pdfplumber call behind an
  operation, which may raise and may act on the world \<open>'w\<close>.
\<close>

section \<open>Configuration\<close>

record takeoff_config =
  tc_render_dpi :: int
  tc_spread_threshold :: rat
  tc_min_tags :: int
  tc_page_range :: "(int \<times> int) option"

definition default_takeoff_config :: takeoff_config where
  "default_takeoff_config = \<lparr>tc_render_dpi = 100, tc_spread_threshold = 35/100, tc_min_tags = 3, tc_page_range = None\<rparr>"

text \<open>The field bounds and the model validator; \<open>False\<close> is a \<open>ValidationError\<close>.\<close>

definition valid_takeoff_config :: "takeoff_config \<Rightarrow> bool" where
  "valid_takeoff_config c \<longleftrightarrow> 1 \<le> tc_render_dpi c \<and> 0 \<le> tc_spread_threshold c \<and> tc_spread_threshold c \<le> 1 \<and>
     1 \<le> tc_min_tags c \<and>
     (case tc_page_range c of None \<Rightarrow> True | Some (start, end') \<Rightarrow> \<not> (start < 0 \<or> start \<ge> end'))"

section \<open>The document\<close>

datatype page_op = GetText string | GetDrawings | Tables | Render int

fun op_name :: "page_op \<Rightarrow> string" where
  "op_name (GetText k) = ''get_text''"
| "op_name GetDrawings = ''get_drawings''"
| "op_name Tables = ''tables''"
| "op_name (Render d) = ''render''"

record failure =
  fl_page :: int
  fl_op :: string
  fl_error :: exn

record 'v document =
  doc_file_id :: string
  doc_page_count :: int
  doc_config :: takeoff_config
  doc_open :: bool
  doc_pages :: "int list"
  doc_memo :: "(int \<times> page_op, 'v) dict"
  doc_failures :: "failure list"

definition closed_error :: "'v document \<Rightarrow> exn" where
  "closed_error d = Exn ''RuntimeError'' (''Document '' @ doc_file_id d @ '' is closed'')"

definition open_document :: "string \<Rightarrow> takeoff_config option \<Rightarrow> int \<Rightarrow> 'v document" where
  "open_document file_id cfg n = \<lparr>doc_file_id = file_id, doc_page_count = n,
     doc_config = (case cfg of None \<Rightarrow> default_takeoff_config | Some c \<Rightarrow> c),
     doc_open = True, doc_pages = [], doc_memo = [], doc_failures = []\<rparr>"

definition page_count :: "'v document \<Rightarrow> exn + int" where
  "page_count d = (if doc_open d then Inr (doc_page_count d) else Inl (closed_error d))"

definition close_document :: "'v document \<Rightarrow> 'v document" where
  "close_document d = (if doc_open d then d\<lparr>doc_open := False\<rparr> else d)"

text \<open>\<open>_safe\<close>: an \<open>Exception\<close> is recorded and degrades to the default, any other one propagates.\<close>

definition doc_safe :: "int \<Rightarrow> page_op \<Rightarrow> (exn + 'v) \<Rightarrow> 'v \<Rightarrow> 'v document \<Rightarrow> (exn + 'v) \<times> 'v document" where
  "doc_safe i op r dflt d =
     (case r of
        Inr v \<Rightarrow> (Inr v, d)
      | Inl e \<Rightarrow> if is_exception e
          then (Inr dflt, d\<lparr>doc_failures := doc_failures d @ [\<lparr>fl_page = i, fl_op = op_name op, fl_error = e\<rparr>]\<rparr>)
          else (Inl e, d))"

text \<open>\<open>Page._cached\<close>: \<open>produce\<close> runs at most once per page and key.\<close>

definition page_cached :: "(int \<Rightarrow> page_op \<Rightarrow> 'w \<Rightarrow> (exn + 'v) \<times> 'w) \<Rightarrow> (page_op \<Rightarrow> 'v) \<Rightarrow>
    int \<Rightarrow> page_op \<Rightarrow> 'v document \<Rightarrow> 'w \<Rightarrow> (exn + 'v) \<times> 'v document \<times> 'w" where
  "page_cached produce dflt i op d w =
     (case map_of (doc_memo d) (i, op) of
        Some v \<Rightarrow> (Inr v, d, w)
      | None \<Rightarrow> (case produce i op w of (r, w) \<Rightarrow>
          (case doc_safe i op r (dflt op) d of
             (Inl e, d) \<Rightarrow> (Inl e, d, w)
           | (Inr v, d) \<Rightarrow> (Inr v, d\<lparr>doc_memo := dict_set (doc_memo d) (i, op) v\<rparr>, w))))"

text \<open>\<open>dpi or self._doc.config.render_dpi\<close>\<close>

definition render_op :: "'v document \<Rightarrow> int option \<Rightarrow> page_op" where
  "render_op d dpi = Render (case dpi of None \<Rightarrow> tc_render_dpi (doc_config d)
     | Some x \<Rightarrow> if x = 0 then tc_render_dpi (doc_config d) else x)"

definition page_number :: "int \<Rightarrow> int" where
  "page_number i = i + 1"

definition doc_page :: "(int \<Rightarrow> exn option) \<Rightarrow> int \<Rightarrow> 'v document \<Rightarrow> exn option \<times> 'v document" where
  "doc_page load i d =
     (if \<not> doc_open d then (Some (closed_error d), d)
      else if i \<in> set (doc_pages d) then (None, d)
      else (case load i of Some e \<Rightarrow> (Some e, d) | None \<Rightarrow> (None, d\<lparr>doc_pages := doc_pages d @ [i]\<rparr>)))"

text \<open>\<open>range(a, b)\<close>\<close>

abbreviation py_range :: "int \<Rightarrow> int \<Rightarrow> int list" where
  "py_range a b \<equiv> [a..b - 1]"

fun iter_pages :: "(int \<Rightarrow> exn option) \<Rightarrow> int list \<Rightarrow> 'v document \<Rightarrow> (exn + int list) \<times> 'v document" where
  "iter_pages load [] d = (Inr [], d)"
| "iter_pages load (i # is) d =
     (case doc_page load i d of
        (None, d) \<Rightarrow> (case iter_pages load is d of
            (Inl e, d) \<Rightarrow> (Inl e, d)
          | (Inr ps, d) \<Rightarrow> (Inr (i # ps), d))
      | (Some e, d) \<Rightarrow>
          if is_exception e
          then iter_pages load is (d\<lparr>doc_failures := doc_failures d @ [\<lparr>fl_page = i, fl_op = ''load'', fl_error = e\<rparr>]\<rparr>)
          else (Inl e, d))"

definition pages_window :: "(int \<times> int) option \<Rightarrow> 'v document \<Rightarrow> int list" where
  "pages_window arg d =
     (case (case arg of Some pr \<Rightarrow> Some pr | None \<Rightarrow> tc_page_range (doc_config d)) of
        Some (a, b) \<Rightarrow> py_range a b
      | None \<Rightarrow> py_range 0 (doc_page_count d))"

definition doc_pages_iter :: "(int \<Rightarrow> exn option) \<Rightarrow> (int \<times> int) option \<Rightarrow> 'v document \<Rightarrow> (exn + int list) \<times> 'v document" where
  "doc_pages_iter load arg d = iter_pages load (pages_window arg d) d"

text \<open>\<open>using_document\<close>: a path is opened and closed here, a document is passed through.\<close>

datatype 'v source = Path string | Shared "'v document"

definition using_document :: "(string \<Rightarrow> exn + 'v document) \<Rightarrow> 'v source \<Rightarrow> ('v document \<Rightarrow> (exn + 'a) \<times> 'v document) \<Rightarrow>
    (exn + 'a) \<times> 'v document option" where
  "using_document opener src body =
     (case src of
        Shared d \<Rightarrow> map_prod id Some (body d)
      | Path p \<Rightarrow> (case opener p of
            Inl e \<Rightarrow> (Inl e, None)
          | Inr d \<Rightarrow> map_prod id (Some o close_document) (body d)))"

section \<open>Facts\<close>

text \<open>After one successful call the value is fixed: every later call returns it and does nothing.\<close>

lemma page_cached_once:
  assumes "page_cached produce dflt i op d w = (Inr v, d', w')"
  shows "page_cached produce' dflt' i op d' w'' = (Inr v, d', w'')"
  using assms by (auto simp: page_cached_def split: option.splits prod.splits sum.splits)

lemma page_cached_memo:
  assumes "page_cached produce dflt i op d w = (Inr v, d', w')"
  shows "map_of (doc_memo d') (i, op) = Some v"
    and "k \<noteq> (i, op) \<Longrightarrow> map_of (doc_memo d') k = map_of (doc_memo d) k"
  using assms by (auto simp: page_cached_def doc_safe_def split: option.splits prod.splits sum.splits if_splits)

text \<open>The ledger has at most one entry per page and operation key: the keys that degraded.\<close>

definition ledger_inv :: "'v document \<Rightarrow> bool" where
  "ledger_inv d \<longleftrightarrow> distinct (dict_keys (doc_memo d)) \<and> length (doc_failures d) \<le> length (doc_memo d)"

lemma length_dict_set_new: "k \<notin> fst ` set d \<Longrightarrow> length (dict_set d k v) = Suc (length d)"
  by (induction d k v rule: dict_set.induct) auto

lemma page_cached_ledger:
  assumes "page_cached produce dflt i op d w = (r, d', w')" and "ledger_inv d"
  shows "ledger_inv d'"
proof (cases "map_of (doc_memo d) (i, op)")
  case None
  then have n: "(i, op) \<notin> fst ` set (doc_memo d)" by (simp add: map_of_eq_None_iff)
  with assms None show ?thesis
    by (auto simp: page_cached_def doc_safe_def ledger_inv_def length_dict_set_new intro: distinct_keys_dict_set
        split: prod.splits sum.splits if_splits)
qed (use assms in \<open>auto simp: page_cached_def\<close>)

text \<open>An extraction failure never aborts: it degrades to the operation's default.\<close>

lemma page_cached_degrades:
  assumes "produce i op w = (Inl e, w')" and "is_exception e" and "map_of (doc_memo d) (i, op) = None"
  shows "\<exists>d'. page_cached produce dflt i op d w = (Inr (dflt op), d', w') \<and>
     doc_failures d' = doc_failures d @ [\<lparr>fl_page = i, fl_op = op_name op, fl_error = e\<rparr>]"
  using assms by (simp add: page_cached_def doc_safe_def)

lemma close_idem [simp]: "close_document (close_document d) = close_document d"
  by (simp add: close_document_def)

lemma using_document_closes:
  "using_document opener (Path p) body = (r, Some d) \<Longrightarrow> \<not> doc_open d"
proof -
  assume u: "using_document opener (Path p) body = (r, Some d)"
  then obtain d0 where "opener p = Inr d0" by (cases "opener p") (simp_all add: using_document_def)
  with u have "d = close_document (snd (body d0))" by (cases "body d0") (simp add: using_document_def)
  then show ?thesis by (simp add: close_document_def)
qed

text \<open>The page iterator yields the pages that load and records each other one.\<close>

lemma iter_pages_result:
  assumes "doc_open d" and "\<And>i. i \<in> set (doc_pages d) \<Longrightarrow> load i = None"
    and "\<And>i e. i \<in> set is \<Longrightarrow> load i = Some e \<Longrightarrow> is_exception e"
  shows "\<exists>d'. iter_pages load is d = (Inr (filter (\<lambda>i. load i = None) is), d') \<and> doc_open d' \<and>
    map fl_page (doc_failures d') = map fl_page (doc_failures d) @ filter (\<lambda>i. load i \<noteq> None) is"
  using assms
proof (induction "is" arbitrary: d)
  case (Cons i "is")
  show ?case
  proof (cases "load i")
    case None
    obtain d1 where d1: "doc_page load i d = (None, d1)" "doc_open d1" "doc_failures d1 = doc_failures d"
      "\<And>j. j \<in> set (doc_pages d1) \<Longrightarrow> load j = None"
      using Cons.prems(1,2) None by (cases "i \<in> set (doc_pages d)") (auto simp: doc_page_def)
    have "\<exists>d'. iter_pages load is d1 = (Inr (filter (\<lambda>i. load i = None) is), d') \<and> doc_open d' \<and>
      map fl_page (doc_failures d') = map fl_page (doc_failures d1) @ filter (\<lambda>i. load i \<noteq> None) is"
      by (rule Cons.IH) (use d1 Cons.prems(3) in auto)
    with None d1 show ?thesis by auto
  next
    case (Some e)
    let ?d1 = "d\<lparr>doc_failures := doc_failures d @ [\<lparr>fl_page = i, fl_op = ''load'', fl_error = e\<rparr>]\<rparr>"
    from Some Cons.prems(2) have "i \<notin> set (doc_pages d)" by force
    with Some Cons.prems(1) have p: "doc_page load i d = (Some e, d)" by (simp add: doc_page_def)
    have e: "is_exception e" using Cons.prems(3)[OF _ Some] by simp
    have "\<exists>d'. iter_pages load is ?d1 = (Inr (filter (\<lambda>i. load i = None) is), d') \<and> doc_open d' \<and>
      map fl_page (doc_failures d') = map fl_page (doc_failures ?d1) @ filter (\<lambda>i. load i \<noteq> None) is"
      by (rule Cons.IH) (use Cons.prems in auto)
    with Some p e show ?thesis by auto
  qed
qed simp

section \<open>Properties of the access layer\<close>

text \<open>
  A page extraction is produced at most once and never aborts the run: the first call
  returns the produced value, or the operation's default with exactly one ledger entry if it
  failed; every later call returns the same value without producing, whatever the producer would
  do then.
\<close>

theorem page_extraction_once_and_degrades:
  assumes "produce i op w = (out, w')" and "\<forall>e. out = Inl e \<longrightarrow> is_exception e"
    and "map_of (doc_memo d) (i, op) = None"
  shows "\<exists>v d'. page_cached produce dflt i op d w = (Inr v, d', w') \<and>
    v = (case out of Inr x \<Rightarrow> x | Inl e \<Rightarrow> dflt op) \<and>
    doc_failures d' = doc_failures d @
      (case out of Inr x \<Rightarrow> [] | Inl e \<Rightarrow> [\<lparr>fl_page = i, fl_op = op_name op, fl_error = e\<rparr>]) \<and>
    page_cached produce' dflt' i op d' w'' = (Inr v, d', w'')"
proof (cases out)
  case (Inl e)
  with assms page_cached_degrades[of produce i op w e w' d dflt] obtain d' where
    d': "page_cached produce dflt i op d w = (Inr (dflt op), d', w')"
    "doc_failures d' = doc_failures d @ [\<lparr>fl_page = i, fl_op = op_name op, fl_error = e\<rparr>]" by auto
  with page_cached_once[OF d'(1)] Inl show ?thesis by auto
next
  case (Inr v)
  with assms have d': "page_cached produce dflt i op d w = (Inr v, d\<lparr>doc_memo := dict_set (doc_memo d) (i, op) v\<rparr>, w')"
    by (simp add: page_cached_def doc_safe_def)
  with page_cached_once[OF d'] Inr show ?thesis by auto
qed

theorem page_extraction_once_and_degrades_witness:
  "\<exists>d'. page_cached (\<lambda>i op w. (Inl (Exn ''E'' ''x''), Suc w)) (\<lambda>op. ''dflt'') 2 Tables
      (open_document ''f'' None 5) 0 = (Inr ''dflt'', d', 1) \<and> length (doc_failures d') = 1"
proof -
  let ?p = "\<lambda>i op w. (Inl (Exn ''E'' ''x'') :: exn + string, Suc w)"
  have m: "map_of (doc_memo (open_document ''f'' None 5 :: string document)) (2, Tables) = None"
    by (simp add: open_document_def)
  from page_extraction_once_and_degrades[of ?p 2 Tables 0 "Inl (Exn ''E'' ''x'')" 1, OF _ _ m, of "\<lambda>op. ''dflt''" ?p]
  obtain d' where "page_cached ?p (\<lambda>op. ''dflt'') 2 Tables (open_document ''f'' None 5) 0 = (Inr ''dflt'', d', 1)"
    "doc_failures d' = [\<lparr>fl_page = 2, fl_op = op_name Tables, fl_error = Exn ''E'' ''x''\<rparr>]"
    by (auto simp: open_document_def)
  then show ?thesis by auto
qed

text \<open>
  A document opened for a path is closed on every way out of the body, an exception
  included, while a shared document is left to its owner.
\<close>

theorem path_document_always_closed:
  "(case using_document opener (Path p) body of (r, Some d) \<Rightarrow> \<not> doc_open d | (r, None) \<Rightarrow> \<exists>e. opener p = Inl e) \<and>
   snd (using_document opener (Shared d0) body) = Some (snd (body d0))"
proof
  show "case using_document opener (Path p) body of (r, Some d) \<Rightarrow> \<not> doc_open d | (r, None) \<Rightarrow> \<exists>e. opener p = Inl e"
  proof (cases "opener p")
    case (Inr d)
    obtain r d' where "body d = (r, d')" by fastforce
    with Inr have "using_document opener (Path p) body = (r, Some (close_document d'))"
      by (simp add: using_document_def)
    with using_document_closes[OF this] show ?thesis by simp
  qed (simp add: using_document_def)
  show "snd (using_document opener (Shared d0) body) = Some (snd (body d0))"
    by (simp add: using_document_def)
qed

end
