(* ===== verification/Wire.thy ===== *)
theory Wire
  imports Providers
begin

text \<open>
  The wire formats of the two providers: \<open>src/src/harness/providers/openai.py\<close> and
  \<open>src/src/harness/providers/anthropic.py\<close>: what a transcript becomes in a request and what the
  server's stream becomes as provider-neutral events.

  The SDK objects of the streams are the datatypes \<open>responses_event\<close> and \<open>anthropic_event\<close>, with an
  absent or falsy attribute as the empty string; opening the stream (and its retries, see \<open>Retry\<close>)
  is the SDK's.
\<close>

section \<open>OpenAI: the stream\<close>

datatype responses_event =
    OutputTextDelta string
  | ReasoningSummaryDelta string
  | ItemAddedCall (item_id: string) (item_call_id: string) (item_name: string)
  | ItemAddedReasoning string
  | ArgumentsDelta string string
  | ItemDoneReasoning string string
  | ResponseCompleted int int int
  | OtherResponseEvent

record responses_state =
  wr_calls :: "(string, string) dict"
  wr_reasoning :: "(string, string) dict"
  wr_usage :: "int \<times> int \<times> int"

definition responses_init :: responses_state where
  "responses_init = \<lparr>wr_calls = [], wr_reasoning = [], wr_usage = (0, 0, 0)\<rparr>"

text \<open>
  One server event: the events it yields.  The reasoning items keep their encrypted content, the
  empty string standing for none.
\<close>

fun responses_step :: "responses_state \<Rightarrow> responses_event \<Rightarrow> stream_event list \<times> responses_state" where
  "responses_step s (OutputTextDelta d) = (if d \<noteq> '''' then [TextDelta d] else [], s)"
| "responses_step s (ReasoningSummaryDelta d) = (if d \<noteq> '''' then [ReasoningDelta d] else [], s)"
| "responses_step s (ItemAddedCall i c n) =
     (let call_id = (if c \<noteq> '''' then c else i); item_id = (if i \<noteq> '''' then i else call_id) in
      ([ToolCallStart call_id n],
       if item_id \<noteq> '''' then s\<lparr>wr_calls := dict_set (wr_calls s) item_id call_id\<rparr> else s))"
| "responses_step s (ItemAddedReasoning r) =
     ([], if r \<noteq> '''' then s\<lparr>wr_reasoning := dict_setdefault (wr_reasoning s) r ''''\<rparr> else s)"
| "responses_step s (ArgumentsDelta i d) =
     (if d \<noteq> '''' then [ToolCallDelta (case map_of (wr_calls s) i of None \<Rightarrow> i | Some c \<Rightarrow> c) d] else [], s)"
| "responses_step s (ItemDoneReasoning r enc) =
     ([], if r \<noteq> ''''
          then (let m = dict_setdefault (wr_reasoning s) r '''' in
                s\<lparr>wr_reasoning := (if enc \<noteq> '''' then dict_set m r enc else m)\<rparr>) else s)"
| "responses_step s (ResponseCompleted it ot rt) = ([], s\<lparr>wr_usage := (it, ot, rt)\<rparr>)"
| "responses_step s OtherResponseEvent = ([], s)"

fun responses_events :: "responses_state \<Rightarrow> responses_event list \<Rightarrow> stream_event list \<times> responses_state" where
  "responses_events s [] = ([], s)"
| "responses_events s (e # es) =
     (case responses_step s e of (out, s) \<Rightarrow> case responses_events s es of (outs, s) \<Rightarrow> (out @ outs, s))"

definition reasoning_item :: "string \<times> string \<Rightarrow> json" where
  "reasoning_item x = (case x of (r, enc) \<Rightarrow>
     JObj ([(''id'', JStr r)] @ (if enc \<noteq> '''' then [(''encrypted_content'', JStr enc)] else [])))"

definition openai_astream :: "responses_event list \<Rightarrow> stream_event list" where
  "openai_astream es = (case responses_events responses_init es of (outs, s) \<Rightarrow>
     case wr_usage s of (it, ot, rt) \<Rightarrow>
       outs @ [Completed it ot rt 0 0
         (if wr_reasoning s \<noteq> [] then [(''openai_items'', JList (map reasoning_item (wr_reasoning s)))] else [])])"

section \<open>OpenAI: the request\<close>

definition role_name :: "role \<Rightarrow> string" where
  "role_name r = (case r of RoleUser \<Rightarrow> ''user'' | RoleAssistant \<Rightarrow> ''assistant'' | RoleSystem \<Rightarrow> ''system'')"

definition field_json :: "args \<Rightarrow> string \<Rightarrow> json \<Rightarrow> json" where
  "field_json d k dflt = (case map_of d k of None \<Rightarrow> dflt | Some j \<Rightarrow> j)"

definition tool_to_responses :: "args \<Rightarrow> exn + json" where
  "tool_to_responses t = (case map_of t ''name'' of
     None \<Rightarrow> Inl (Exn ''KeyError'' (py_repr ''name''))
   | Some n \<Rightarrow> Inr (JObj [(''type'', JStr ''function''), (''name'', n),
       (''description'', field_json t ''description'' (JStr '''')),
       (''parameters'', field_json t ''input_schema'' (field_json t ''parameters'' (JObj [])))]))"

definition replay_spec :: "json \<Rightarrow> exn + json" where
  "replay_spec spec = (case spec of
     JObj d \<Rightarrow>
       (let summary = field_json d ''summary'' JNull; i = field_json d ''id'' JNull; enc = field_json d ''encrypted_content'' JNull in
        Inr (JObj ([(''type'', JStr ''reasoning''), (''summary'', if json_truthy summary then summary else JList [])] @
          (if json_truthy i then [(''id'', i)] else []) @
          (if json_truthy enc then [(''encrypted_content'', enc)] else []))))
   | _ \<Rightarrow> Inl (Exn ''AttributeError'' ''object has no attribute get''))"

fun sequence_results :: "('e + 'a) list \<Rightarrow> 'e + 'a list" where
  "sequence_results [] = Inr []"
| "sequence_results (Inl e # xs) = Inl e"
| "sequence_results (Inr x # xs) = (case sequence_results xs of Inl e \<Rightarrow> Inl e | Inr ys \<Rightarrow> Inr (x # ys))"

definition replay_items :: "block \<Rightarrow> exn + json list" where
  "replay_items b = (case b of
     ReasoningBlock t meta \<Rightarrow>
       (let specs = field_json meta ''openai_items'' JNull in
        if \<not> json_truthy specs then Inr []
        else (case specs of
            JList js \<Rightarrow> sequence_results (map replay_spec js)
          | JStr s \<Rightarrow> Inl (Exn ''AttributeError'' ''object has no attribute get'')
          | JObj d \<Rightarrow> Inl (Exn ''AttributeError'' ''object has no attribute get'')
          | _ \<Rightarrow> Inl (Exn ''TypeError'' ''object is not iterable'')))
   | _ \<Rightarrow> Inr [])"

definition call_item :: "block \<Rightarrow> json option" where
  "call_item b = (case b of
     ToolCall i n a \<Rightarrow> Some (JObj [(''type'', JStr ''function_call''), (''call_id'', JStr i), (''name'', JStr n),
       (''arguments'', JStr (json_dumps (JObj a)))])
   | _ \<Rightarrow> None)"

definition output_item :: "block \<Rightarrow> json option" where
  "output_item b = (case b of
     ToolResult i c e \<Rightarrow> Some (JObj [(''type'', JStr ''function_call_output''), (''call_id'', JStr i), (''output'', JStr c)])
   | _ \<Rightarrow> None)"

definition message_text :: "message \<Rightarrow> string" where
  "message_text m = py_join newline (List.map_filter (\<lambda>b. case b of TextBlock t \<Rightarrow> Some t | _ \<Rightarrow> None) (msg_blocks m))"

definition to_responses_input :: "message \<Rightarrow> exn + json list" where
  "to_responses_input m =
     (if list_ex is_tool_result (msg_blocks m) then Inr (List.map_filter output_item (msg_blocks m))
      else (case sequence_results (map replay_items (msg_blocks m)) of
          Inl e \<Rightarrow> Inl e
        | Inr items \<Rightarrow>
            if list_ex is_tool_call (msg_blocks m)
            then Inr (concat items @ List.map_filter call_item (msg_blocks m))
            else Inr [JObj [(''role'', JStr (role_name (msg_role m))), (''content'', JStr (message_text m))]]))"

definition openai_input :: "message list \<Rightarrow> exn + json list" where
  "openai_input ms = (case sequence_results (map to_responses_input ms) of Inl e \<Rightarrow> Inl e | Inr xs \<Rightarrow> Inr (concat xs))"

section \<open>Anthropic\<close>

datatype anthropic_event =
    BlockStartTool string string
  | BlockStartOther
  | DeltaText string
  | DeltaThinking string
  | DeltaSignature
  | DeltaInputJson string
  | OtherAnthropicEvent

fun translate :: "anthropic_event \<Rightarrow> string \<Rightarrow> stream_event option" where
  "translate (BlockStartTool i n) cur = Some (ToolCallStart i n)"
| "translate (DeltaText t) cur = Some (TextDelta t)"
| "translate (DeltaThinking t) cur = Some (ReasoningDelta t)"
| "translate (DeltaInputJson p) cur = Some (ToolCallDelta cur p)"
| "translate _ cur = None"

text \<open>The loop; an absent \<open>current_tool_id\<close> is the empty string.\<close>

fun anthropic_events :: "string \<Rightarrow> anthropic_event list \<Rightarrow> stream_event list" where
  "anthropic_events cur [] = []"
| "anthropic_events cur (e # es) =
     (case translate e cur of
        None \<Rightarrow> anthropic_events cur es
      | Some ev \<Rightarrow> ev # anthropic_events (case ev of ToolCallStart i n \<Rightarrow> i | _ \<Rightarrow> cur) es)"

text \<open>\<open>usage\<close>: input, output, cache read and cache creation tokens of the final message.\<close>

definition anthropic_astream :: "int \<times> int \<times> int \<times> int \<Rightarrow> anthropic_event list \<Rightarrow> stream_event list" where
  "anthropic_astream usage es = (case usage of (it, ot, crt, cct) \<Rightarrow>
     anthropic_events '''' es @ [Completed it ot 0 crt cct []])"

definition cache_control :: "string \<times> json" where
  "cache_control = (''cache_control'', JObj [(''type'', JStr ''ephemeral'')])"

definition cached_tools :: "args list \<Rightarrow> args list" where
  "cached_tools tools = (if tools = [] then tools
     else butlast tools @ [dict_set (last tools) (fst cache_control) (snd cache_control)])"

definition cached_system :: "string \<Rightarrow> json" where
  "cached_system system = JList [JObj [(''type'', JStr ''text''), (''text'', JStr system), cache_control]]"

definition block_to_anthropic :: "block \<Rightarrow> json" where
  "block_to_anthropic b = (case b of
     TextBlock t \<Rightarrow> JObj [(''type'', JStr ''text''), (''text'', JStr t)]
   | ToolCall i n a \<Rightarrow> JObj [(''type'', JStr ''tool_use''), (''id'', JStr i), (''name'', JStr n), (''input'', JObj a)]
   | ToolResult i c e \<Rightarrow> JObj [(''type'', JStr ''tool_result''), (''tool_use_id'', JStr i), (''content'', JStr c),
       (''is_error'', JBool e)]
   | ReasoningBlock t meta \<Rightarrow> JObj ([(''type'', JStr ''thinking''), (''thinking'', JStr t)] @
       (case map_of meta ''signature'' of None \<Rightarrow> [] | Some JNull \<Rightarrow> [] | Some s \<Rightarrow> [(''signature'', s)])))"

definition to_anthropic :: "bool \<Rightarrow> message \<Rightarrow> json" where
  "to_anthropic keep_reasoning m = JObj [(''role'', JStr (role_name (msg_role m))),
     (''content'', JList (map block_to_anthropic
        (filter (\<lambda>b. \<not> (is_reasoning b \<and> \<not> keep_reasoning)) (msg_blocks m))))]"

record anthropic_settings =
  an_model :: string
  an_max_tokens :: int
  an_thinking :: bool
  an_thinking_budget :: int
  an_cache :: bool

definition anthropic_request :: "anthropic_settings \<Rightarrow> transcript \<Rightarrow> args list \<Rightarrow> args" where
  "anthropic_request st t tools =
     [(''model'', JStr (an_model st)), (''max_tokens'', JInt (an_max_tokens st)),
      (''messages'', JList (map (to_anthropic (an_thinking st)) (t_messages t))),
      (''tools'', JList (map JObj (if an_cache st then cached_tools tools else tools)))] @
     (case t_system t of None \<Rightarrow> [] | Some s \<Rightarrow> if s = '''' then [] else
        [(''system'', if an_cache st then cached_system s else JStr s)]) @
     (if an_thinking st
      then [(''thinking'', JObj [(''type'', JStr ''enabled''), (''budget_tokens'', JInt (an_thinking_budget st))])] else [])"

section \<open>What a response must be\<close>

text \<open>
  The calls of a response as a table filled event by event: the key the adapter's deltas refer
  to, the call id, the name, the argument text.  This is the reference both adapters are compared
  with; between them and it stand the translation to neutral events and the accumulator with its
  repairs.
\<close>

type_synonym call_table = "(string \<times> string \<times> string \<times> string) list"

definition table_calls :: "(string \<Rightarrow> json option) \<Rightarrow> call_table \<Rightarrow> tool_call_ref list" where
  "table_calls loads xs = map (\<lambda>(k, c, n, buf). \<lparr>ref_id = c, ref_name = n, ref_args = parse_args loads buf\<rparr>) xs"

definition table_entries :: "call_table \<Rightarrow> (string \<times> string \<times> string) list" where
  "table_entries xs = map (\<lambda>(k, c, n, buf). (c, n, buf)) xs"

definition table_open :: "string \<Rightarrow> string \<Rightarrow> string \<Rightarrow> call_table \<Rightarrow> call_table" where
  "table_open k c n xs = xs @ [(k, c, n, '''')]"

definition table_append :: "string \<Rightarrow> string \<Rightarrow> call_table \<Rightarrow> call_table" where
  "table_append k f xs = map (\<lambda>(k', c, n, buf). (k', c, n, if k' = k then buf @ f else buf)) xs"

definition fresh_call :: "string \<Rightarrow> string \<Rightarrow> call_table \<Rightarrow> bool" where
  "fresh_call k c xs \<longleftrightarrow> k \<noteq> '''' \<and> c \<noteq> '''' \<and> k \<notin> fst ` set xs \<and> c \<notin> (fst \<circ> snd) ` set xs"

definition table_ok :: "call_table \<Rightarrow> bool" where
  "table_ok xs \<longleftrightarrow> distinct (map fst xs) \<and> distinct (map (fst \<circ> snd) xs) \<and> '''' \<notin> set (map fst xs) \<and> '''' \<notin> set (map (fst \<circ> snd) xs)"

lemma table_ok_open: "table_ok xs \<Longrightarrow> fresh_call k c xs \<Longrightarrow> table_ok (table_open k c n xs)"
  by (auto simp: table_ok_def fresh_call_def table_open_def)

lemma table_append_keys [simp]:
  "map fst (table_append k f xs) = map fst xs" "map (fst \<circ> snd) (table_append k f xs) = map (fst \<circ> snd) xs"
  "fst ` set (table_append k f xs) = fst ` set xs"
  by (simp_all add: table_append_def comp_def case_prod_beta image_image)

lemma table_ok_append: "table_ok xs \<Longrightarrow> table_ok (table_append k f xs)"
  by (simp add: table_ok_def)

text \<open>How the accumulator's entries follow the table.\<close>

lemma table_entries_keys: "dict_keys (table_entries xs) = map (fst \<circ> snd) xs"
  by (simp add: table_entries_def comp_def case_prod_beta)

lemma acc_start_table:
  assumes "acc_entries a = table_entries xs" and "fresh_call k c xs"
  shows "acc_entries (acc_start a c n) = table_entries (table_open k c n xs)"
proof -
  have "fst ` set (acc_entries a) = (fst \<circ> snd) ` set xs"
    unfolding assms(1) set_map[symmetric] table_entries_keys ..
  then have "c \<noteq> ''''" "c \<notin> fst ` set (acc_entries a)" using assms(2) by (simp_all add: fresh_call_def)
  then show ?thesis
    by (simp add: acc_start_def Let_def dict_set_new assms(1) table_entries_def table_open_def)
qed

lemma dict_set_table:
  assumes "distinct (map (fst \<circ> snd) xs)" and "(k, c, n, buf) \<in> set xs" and "distinct (map fst xs)"
  shows "dict_set (table_entries xs) c (n, buf @ f) = table_entries (table_append k f xs)"
  using assms
proof (induction xs)
  case (Cons x xs)
  obtain k' c' n' buf' where x: "x = (k', c', n', buf')" by (cases x)
  show ?case
  proof (cases "k' = k")
    case True
    with Cons.prems x have eq: "c' = c" "n' = n" "buf' = buf" by force+
    have "table_append k f xs = xs"
      unfolding table_append_def by (rule map_idI) (use Cons.prems(3) x True in \<open>force\<close>)
    with eq True show ?thesis by (simp add: x table_entries_def table_append_def)
  next
    case False
    then have "(k, c, n, buf) \<in> set xs" using Cons.prems(2) x by simp
    moreover from this have "c' \<noteq> c" using Cons.prems(1) x by force
    ultimately show ?thesis using Cons.IH Cons.prems False by (simp add: x table_entries_def table_append_def)
  qed
qed simp

lemma acc_delta_table:
  assumes "acc_entries a = table_entries xs" and "table_ok xs" and "(k, c, n, buf) \<in> set xs"
  shows "acc_entries (acc_delta a c f) = table_entries (table_append k f xs)"
proof -
  have c: "c \<noteq> ''''" using assms(2,3) by (force simp: table_ok_def)
  have d: "distinct (dict_keys (acc_entries a))"
    using assms(1,2) by (simp add: table_entries_keys table_ok_def)
  have in_a: "(c, n, buf) \<in> set (acc_entries a)" using assms(1,3) by (force simp: table_entries_def)
  then have "entry_of a c = (n, buf)" using d by (simp add: entry_of_def)
  moreover have "c \<in> set (dict_keys (acc_entries a))" using in_a by force
  ultimately show ?thesis
    using c dict_set_table[of xs k c n buf f] assms by (simp add: acc_delta_def Let_def table_ok_def)
qed

text \<open>The contract of an adapter: on the streams it accepts, its events fill the accumulator like the table.\<close>

locale wire_adapter =
  fixes astream :: "'e list \<Rightarrow> stream_event list" and accepts :: "'e list \<Rightarrow> bool" and table :: "'e list \<Rightarrow> call_table"
    and texts :: "'e list \<Rightarrow> string"
  assumes entries: "accepts es \<Longrightarrow> acc_entries (acc_run (astream es)) = table_entries (table es)"
    and says: "concat (event_texts (astream es)) = texts es"
begin

lemma response_calls: "accepts es \<Longrightarrow> pr_tool_calls (accumulate loads (astream es)) = table_calls loads (table es)"
proof -
  assume ok: "accepts es"
  let ?a = "acc_run (astream es)"
  have inv: "acc_order ?a = dict_keys (acc_entries ?a)" "distinct (dict_keys (acc_entries ?a))"
    using acc_inv_run[of "astream es"] acc_inv_distinct[OF acc_inv_run, of "astream es"] unfolding acc_inv_def by blast+
  have "pr_tool_calls (accumulate loads (astream es)) = finish_calls loads ?a"
    by (simp add: accumulate_def Let_def split: prod.split)
  also have "\<dots> = map (\<lambda>(i, n, buf). \<lparr>ref_id = i, ref_name = n, ref_args = parse_args loads buf\<rparr>) (acc_entries ?a)"
    unfolding finish_calls_def inv(1) using inv(2)
    by (auto simp: entry_of_def)
  finally show ?thesis by (simp add: entries[OF ok] table_entries_def table_calls_def comp_def case_prod_beta)
qed

lemma response_text:
  "accepts es \<Longrightarrow> pr_text (accumulate loads (astream es)) = (if table es = [] then Some (texts es) else None)"
proof -
  assume "accepts es"
  from response_calls[OF this, of loads] have "finish_calls loads (acc_run (astream es)) = table_calls loads (table es)"
    by (simp add: accumulate_def Let_def split: prod.splits)
  then show ?thesis using says[of es]
    by (auto simp: accumulate_def Let_def acc_text_run table_calls_def split: prod.split)
qed

end

section \<open>Both adapters meet it\<close>

fun openai_table :: "call_table \<Rightarrow> responses_event list \<Rightarrow> call_table" where
  "openai_table xs [] = xs"
| "openai_table xs (ItemAddedCall i c n # es) = openai_table (table_open i c n xs) es"
| "openai_table xs (ArgumentsDelta i d # es) = openai_table (table_append i d xs) es"
| "openai_table xs (_ # es) = openai_table xs es"

text \<open>A stream the server sends: items with their ids, each announced once, before its arguments.\<close>

fun openai_accepts :: "call_table \<Rightarrow> responses_event list \<Rightarrow> bool" where
  "openai_accepts xs [] = True"
| "openai_accepts xs (ItemAddedCall i c n # es) \<longleftrightarrow> fresh_call i c xs \<and> openai_accepts (table_open i c n xs) es"
| "openai_accepts xs (ArgumentsDelta i d # es) \<longleftrightarrow> i \<in> fst ` set xs \<and> openai_accepts (table_append i d xs) es"
| "openai_accepts xs (_ # es) \<longleftrightarrow> openai_accepts xs es"

definition openai_texts :: "responses_event list \<Rightarrow> string" where
  "openai_texts es = concat (map (\<lambda>e. case e of OutputTextDelta d \<Rightarrow> d | _ \<Rightarrow> '''') es)"

definition table_ids :: "call_table \<Rightarrow> (string, string) dict" where
  "table_ids xs = map (\<lambda>(k, c, n, buf). (k, c)) xs"

lemma table_ids_simps [simp]:
  "table_ids (table_append k f xs) = table_ids xs" "table_ids (table_open k c n xs) = table_ids xs @ [(k, c)]"
  "dict_keys (table_ids xs) = map fst xs"
  by (simp_all add: table_ids_def table_append_def table_open_def comp_def case_prod_beta)

lemma table_append_empty [simp]: "table_append k '''' xs = xs"
  unfolding table_append_def by (rule map_idI) auto

lemma responses_events_Cons:
  "fst (responses_events s (e # es)) = fst (responses_step s e) @ fst (responses_events (snd (responses_step s e)) es)"
  by (simp split: prod.split)

declare responses_events.simps(2) [simp del]
declare responses_events_Cons [simp]

lemma openai_entries:
  assumes "acc_entries a = table_entries xs" and "table_ok xs" and "wr_calls s = table_ids xs" and "openai_accepts xs es"
  shows "acc_entries (foldl acc_event a (fst (responses_events s es))) = table_entries (openai_table xs es)"
  using assms
proof (induction es arbitrary: a xs s)
  case (Cons e es)
  show ?case
  proof (cases e)
    case (ItemAddedCall i c n)
    with Cons.prems(4) have f: "fresh_call i c xs" and acc: "openai_accepts (table_open i c n xs) es" by simp_all
    then have ne: "i \<noteq> ''''" "c \<noteq> ''''" "i \<notin> fst ` set (table_ids xs)"
      using table_ids_simps(3)[of xs] by (auto simp: fresh_call_def simp flip: set_map)
    let ?s = "s\<lparr>wr_calls := dict_set (wr_calls s) i c\<rparr>"
    have "acc_entries (foldl acc_event (acc_start a c n) (fst (responses_events ?s es))) =
        table_entries (openai_table (table_open i c n xs) es)"
      by (rule Cons.IH[OF acc_start_table[OF Cons.prems(1) f] table_ok_open[OF Cons.prems(2) f] _ acc])
        (simp add: Cons.prems(3) dict_set_new ne)
    then show ?thesis using ne by (simp add: ItemAddedCall Let_def)
  next
    case (ArgumentsDelta i d)
    with Cons.prems(4) have i: "i \<in> fst ` set xs" and acc: "openai_accepts (table_append i d xs) es" by simp_all
    from i obtain c n buf where x: "(i, c, n, buf) \<in> set xs" by force
    have m: "map_of (wr_calls s) i = Some c"
      using x Cons.prems(2,3) by (force simp: table_ok_def table_ids_def comp_def case_prod_beta intro: map_of_is_SomeI)
    show ?thesis
    proof (cases "d = ''''")
      case True
      with Cons.IH[OF Cons.prems(1-3)] acc show ?thesis by (simp add: ArgumentsDelta)
    next
      case False
      have "acc_entries (foldl acc_event (acc_delta a c d) (fst (responses_events s es))) =
          table_entries (openai_table (table_append i d xs) es)"
        by (rule Cons.IH[OF acc_delta_table[OF Cons.prems(1,2) x] table_ok_append[OF Cons.prems(2)] _ acc])
          (simp add: Cons.prems(3))
      with False m show ?thesis by (simp add: ArgumentsDelta)
    qed
  qed (use Cons in \<open>simp_all add: Let_def\<close>)
qed simp

lemma event_texts_append [simp]: "event_texts (xs @ ys) = event_texts xs @ event_texts ys"
  by (simp add: event_texts_def map_filter_def)

lemma openai_says: "concat (event_texts (fst (responses_events s es))) = openai_texts es"
proof (induction es arbitrary: s)
  case (Cons e es)
  show ?case
    using Cons.IH by (cases e) (simp_all add: openai_texts_def event_texts_def Let_def)
qed (simp add: openai_texts_def event_texts_def)

lemma openai_astream_alt:
  "\<exists>it ot rt meta. openai_astream es = fst (responses_events responses_init es) @ [Completed it ot rt 0 0 meta]"
  by (simp add: openai_astream_def split: prod.split)

interpretation openai: wire_adapter openai_astream "openai_accepts []" "openai_table []" openai_texts
proof
  fix es
  obtain it ot rt meta where w: "openai_astream es = fst (responses_events responses_init es) @ [Completed it ot rt 0 0 meta]"
    using openai_astream_alt[of es] by blast
  show "openai_accepts [] es \<Longrightarrow> acc_entries (acc_run (openai_astream es)) = table_entries (openai_table [] es)"
    using openai_entries[of acc_init "[]" responses_init es]
    by (simp add: acc_run_def w acc_init_def responses_init_def table_entries_def table_ids_def table_ok_def)
  show "concat (event_texts (openai_astream es)) = openai_texts es"
    by (simp add: w openai_says) (simp add: event_texts_def)
qed

text \<open>Anthropic streams one block after another: arguments belong to the tool block opened last.\<close>

fun anthropic_table :: "call_table \<Rightarrow> anthropic_event list \<Rightarrow> call_table" where
  "anthropic_table xs [] = xs"
| "anthropic_table xs (BlockStartTool i n # es) = anthropic_table (table_open i i n xs) es"
| "anthropic_table xs (DeltaInputJson p # es) = anthropic_table (table_append (fst (last xs)) p xs) es"
| "anthropic_table xs (_ # es) = anthropic_table xs es"

fun anthropic_accepts :: "call_table \<Rightarrow> anthropic_event list \<Rightarrow> bool" where
  "anthropic_accepts xs [] = True"
| "anthropic_accepts xs (BlockStartTool i n # es) \<longleftrightarrow> fresh_call i i xs \<and> anthropic_accepts (table_open i i n xs) es"
| "anthropic_accepts xs (DeltaInputJson p # es) \<longleftrightarrow> xs \<noteq> [] \<and> anthropic_accepts (table_append (fst (last xs)) p xs) es"
| "anthropic_accepts xs (_ # es) \<longleftrightarrow> anthropic_accepts xs es"

definition anthropic_texts :: "anthropic_event list \<Rightarrow> string" where
  "anthropic_texts es = concat (map (\<lambda>e. case e of DeltaText d \<Rightarrow> d | _ \<Rightarrow> '''') es)"

definition last_key :: "call_table \<Rightarrow> string" where
  "last_key xs = (if xs = [] then '''' else fst (last xs))"

lemma last_key_simps [simp]: "last_key (table_open k c n xs) = k" "last_key (table_append k f xs) = last_key xs"
  by (simp_all add: last_key_def table_open_def table_append_def last_map case_prod_beta)

lemma anthropic_entries:
  assumes "acc_entries a = table_entries xs" and "table_ok xs" and "list_all (\<lambda>x. fst x = fst (snd x)) xs"
    and "cur = last_key xs" and "anthropic_accepts xs es"
  shows "acc_entries (foldl acc_event a (anthropic_events cur es)) = table_entries (anthropic_table xs es)"
  using assms
proof (induction es arbitrary: a xs cur)
  case (Cons e es)
  show ?case
  proof (cases e)
    case (BlockStartTool i n)
    with Cons.prems(5) have f: "fresh_call i i xs" and acc: "anthropic_accepts (table_open i i n xs) es" by simp_all
    have same: "list_all (\<lambda>x. fst x = fst (snd x)) (table_open i i n xs)"
      using Cons.prems(3) by (simp add: table_open_def)
    have "acc_entries (foldl acc_event (acc_start a i n) (anthropic_events i es)) =
        table_entries (anthropic_table (table_open i i n xs) es)"
      by (rule Cons.IH[OF acc_start_table[OF Cons.prems(1) f] table_ok_open[OF Cons.prems(2) f] same _ acc]) simp
    then show ?thesis by (simp add: BlockStartTool)
  next
    case (DeltaInputJson p)
    with Cons.prems(5) have ne: "xs \<noteq> []" and acc: "anthropic_accepts (table_append (fst (last xs)) p xs) es" by simp_all
    obtain k c n buf where l: "last xs = (k, c, n, buf)" by (cases "last xs")
    from ne l have x: "(k, c, n, buf) \<in> set xs" using last_in_set[OF ne] by simp
    with Cons.prems(3) have kc: "k = c" by (force simp: list_all_iff)
    have same: "list_all (\<lambda>x. fst x = fst (snd x)) (table_append k p xs)"
      using Cons.prems(3) by (auto simp: list_all_iff table_append_def)
    have "acc_entries (foldl acc_event (acc_delta a c p) (anthropic_events cur es)) =
        table_entries (anthropic_table (table_append k p xs) es)"
      by (rule Cons.IH[OF acc_delta_table[OF Cons.prems(1,2) x] table_ok_append[OF Cons.prems(2)] same])
        (use Cons.prems(4) acc l in simp_all)
    moreover have "cur = c" using Cons.prems(4) ne l kc by (simp add: last_key_def)
    ultimately show ?thesis by (simp add: DeltaInputJson l)
  qed (use Cons in simp_all)
qed simp

lemma anthropic_says: "concat (event_texts (anthropic_events cur es)) = anthropic_texts es"
proof (induction es arbitrary: cur)
  case (Cons e es)
  show ?case using Cons.IH by (cases e) (simp_all add: anthropic_texts_def event_texts_def)
qed (simp add: anthropic_texts_def event_texts_def)

interpretation anthropic: wire_adapter "anthropic_astream usage" "anthropic_accepts []" "anthropic_table []" anthropic_texts for usage
proof
  fix es
  obtain it ot crt cct where w: "anthropic_astream usage es = anthropic_events '''' es @ [Completed it ot 0 crt cct []]"
    by (cases usage) (simp add: anthropic_astream_def)
  show "anthropic_accepts [] es \<Longrightarrow> acc_entries (acc_run (anthropic_astream usage es)) = table_entries (anthropic_table [] es)"
    using anthropic_entries[of acc_init "[]" "''''" es]
    by (simp add: acc_run_def w acc_init_def table_entries_def table_ok_def last_key_def)
  show "concat (event_texts (anthropic_astream usage es)) = anthropic_texts es"
    by (simp add: w anthropic_says) (simp add: event_texts_def)
qed

section \<open>Properties of the wire formats\<close>

text \<open>
  C27.  However the server interleaves the argument fragments of parallel calls, texts and
  reasoning, the response the OpenAI adapter and the accumulator build together has exactly the
  calls the server announced, in order, each with its own call id (not the item id its fragments
  carry), its name and the arguments its fragments spell.  The text the server sent is the text of
  the response when there is no call; beside a call it is dropped.
\<close>

theorem openai_calls_faithful:
  assumes "openai_accepts [] es"
  shows "pr_tool_calls (accumulate loads (openai_astream es)) = table_calls loads (openai_table [] es) \<and>
    pr_text (accumulate loads (openai_astream es)) = (if openai_table [] es = [] then Some (openai_texts es) else None)"
  using openai.response_calls[OF assms] openai.response_text[OF assms] by blast

definition sample_parallel_calls :: "responses_event list" where
  "sample_parallel_calls = [ItemAddedCall ''i1'' ''c1'' ''count'', ItemAddedCall ''i2'' ''c2'' ''read'',
     ArgumentsDelta ''i2'' ''{}'', ArgumentsDelta ''i1'' ''['', ArgumentsDelta ''i1'' '']'', ResponseCompleted 5 7 0]"

theorem openai_calls_faithful_witness:
  "map (\<lambda>c. (ref_id c, ref_name c, ref_args c))
     (pr_tool_calls (accumulate (\<lambda>s. Some (JStr s)) (openai_astream sample_parallel_calls))) =
   [(''c1'', ''count'', JStr ''[]''), (''c2'', ''read'', JStr ''{}'')]"
proof -
  have "openai_accepts [] sample_parallel_calls" by code_simp
  from openai_calls_faithful[OF this, of "\<lambda>s. Some (JStr s)"] show ?thesis
    by (simp add: sample_parallel_calls_def table_calls_def table_open_def table_append_def parse_args_def)
qed

text \<open>
  C28.  The same for the Anthropic adapter, whose fragments carry no id at all - each goes to the tool
  block opened last: exactly the announced calls with their arguments, and the text only when there
  is no call.
\<close>

theorem anthropic_calls_faithful:
  assumes "anthropic_accepts [] es"
  shows "pr_tool_calls (accumulate loads (anthropic_astream usage es)) = table_calls loads (anthropic_table [] es) \<and>
    pr_text (accumulate loads (anthropic_astream usage es)) = (if anthropic_table [] es = [] then Some (anthropic_texts es) else None)"
  using anthropic.response_calls[OF assms] anthropic.response_text[OF assms] by blast

text \<open>The text in front of the call is lost.\<close>

theorem anthropic_calls_faithful_witness:
  "map (\<lambda>c. (ref_id c, ref_name c, ref_args c))
     (pr_tool_calls (accumulate (\<lambda>s. Some (JStr s)) (anthropic_astream (1, 2, 0, 0)
        [DeltaText ''so'', BlockStartTool ''t1'' ''read'', DeltaInputJson ''{'', DeltaInputJson ''}''])))
   = [(''t1'', ''read'', JStr ''{}'')] \<and>
   pr_text (accumulate (\<lambda>s. Some (JStr s)) (anthropic_astream (1, 2, 0, 0)
        [DeltaText ''so'', BlockStartTool ''t1'' ''read'', DeltaInputJson ''{'', DeltaInputJson ''}''])) = None"
proof -
  let ?es = "[DeltaText ''so'', BlockStartTool ''t1'' ''read'', DeltaInputJson ''{'', DeltaInputJson ''}'']"
  have "anthropic_accepts [] ?es" by code_simp
  from anthropic_calls_faithful[OF this, of "\<lambda>s. Some (JStr s)" "(1, 2, 0, 0)"] show ?thesis
    by (simp add: table_calls_def table_open_def table_append_def parse_args_def)
qed

section \<open>Requests keep calls and results paired\<close>

text \<open>What an input item is to the API: a call or an output, with its call id.\<close>

definition item_ref :: "json \<Rightarrow> (bool \<times> string) option" where
  "item_ref j = (case j of
     JObj d \<Rightarrow> (case (map_of d ''type'', map_of d ''call_id'') of
        (Some (JStr t), Some (JStr i)) \<Rightarrow>
          (if t = ''function_call'' then Some (True, i) else if t = ''function_call_output'' then Some (False, i) else None)
      | _ \<Rightarrow> None)
   | _ \<Rightarrow> None)"

definition item_refs :: "json list \<Rightarrow> (bool \<times> string) list" where
  "item_refs items = List.map_filter item_ref items"

text \<open>Every output answers a call that comes before it.\<close>

fun answered :: "string set \<Rightarrow> (bool \<times> string) list \<Rightarrow> bool" where
  "answered seen [] = True"
| "answered seen ((is_call, i) # rs) \<longleftrightarrow> (if is_call then answered (insert i seen) rs else i \<in> seen \<and> answered seen rs)"

definition message_refs :: "message \<Rightarrow> (bool \<times> string) list" where
  "message_refs m =
     (if has_tool_result m then map (\<lambda>b. (False, result_call_id b)) (filter is_tool_result (msg_blocks m))
      else map (\<lambda>b. (True, call_id b)) (filter is_tool_call (msg_blocks m)))"

lemma item_refs_append [simp]: "item_refs (xs @ ys) = item_refs xs @ item_refs ys"
  by (simp add: item_refs_def map_filter_def)

lemma item_refs_Nil [simp]: "item_refs [] = []"
  by (simp add: item_refs_def map_filter_simps)

lemma item_refs_Cons: "item_refs (x # xs) = (case item_ref x of None \<Rightarrow> item_refs xs | Some r \<Rightarrow> r # item_refs xs)"
  by (simp add: item_refs_def map_filter_simps split: option.split)

lemma call_item_simps:
  "call_item (TextBlock t) = None" "call_item (ToolResult i c e) = None" "call_item (ReasoningBlock t m) = None"
  "call_item b = Some j \<Longrightarrow> item_ref j = Some (True, call_id b)" "\<exists>j. call_item (ToolCall i n a) = Some j"
  by (auto simp: call_item_def item_ref_def split: block.splits)

lemma output_item_simps:
  "output_item (TextBlock t) = None" "output_item (ToolCall i n a) = None" "output_item (ReasoningBlock t m) = None"
  "output_item b = Some j \<Longrightarrow> item_ref j = Some (False, result_call_id b)" "\<exists>j. output_item (ToolResult i c e) = Some j"
  by (auto simp: output_item_def item_ref_def split: block.splits)

lemma item_ref_outputs: "item_refs (List.map_filter output_item bs) = map (\<lambda>b. (False, result_call_id b)) (filter is_tool_result bs)"
proof (induction bs)
  case (Cons b bs)
  then show ?case using output_item_simps(4)[of b] output_item_simps(5)
    by (cases b) (fastforce simp: map_filter_simps output_item_simps(1-3) item_refs_Cons split: option.splits)+
qed (simp add: map_filter_simps)

lemma item_ref_calls: "item_refs (List.map_filter call_item bs) = map (\<lambda>b. (True, call_id b)) (filter is_tool_call bs)"
proof (induction bs)
  case (Cons b bs)
  then show ?case using call_item_simps(4)[of b] call_item_simps(5)
    by (cases b) (fastforce simp: map_filter_simps call_item_simps(1-3) item_refs_Cons split: option.splits)+
qed (simp add: map_filter_simps)

lemma sequence_results_Inr: "sequence_results xs = Inr ys \<longleftrightarrow> xs = map Inr ys"
proof -
  have "sequence_results (map Inr zs) = Inr zs" for zs :: "'b list" by (induction zs) auto
  moreover have "sequence_results xs = Inr ys \<Longrightarrow> xs = map Inr ys"
  proof (induction xs arbitrary: ys)
    case (Cons x xs)
    then show ?case by (cases x) (auto split: sum.splits)
  qed auto
  ultimately show ?thesis by metis
qed

lemma replay_spec_ref: "replay_spec j = Inr i \<Longrightarrow> item_ref i = None"
  by (auto simp: replay_spec_def item_ref_def Let_def split: json.splits)

lemma replay_items_refs: "replay_items b = Inr is \<Longrightarrow> item_refs is = []"
proof -
  have "item_refs is = []" if "map Inr is = map replay_spec js" for js :: "json list" and "is"
  proof -
    from that have "\<forall>i \<in> set is. \<exists>j. replay_spec j = Inr i"
      by (metis ex_map_conv imageE list.set_map image_eqI)
    then show ?thesis by (induction "is") (auto simp: item_refs_Cons dest: replay_spec_ref)
  qed
  then show "replay_items b = Inr is \<Longrightarrow> item_refs is = []"
    by (auto simp: replay_items_def Let_def sequence_results_Inr split: block.splits if_splits json.splits) metis
qed

lemma to_responses_refs: "to_responses_input m = Inr items \<Longrightarrow> item_refs items = message_refs m"
proof -
  assume a: "to_responses_input m = Inr items"
  show ?thesis
  proof (cases "list_ex is_tool_result (msg_blocks m)")
    case True
    with a show ?thesis by (auto simp: to_responses_input_def message_refs_def has_tool_result_def item_ref_outputs)
  next
    case False
    with a obtain iss where iss: "sequence_results (map replay_items (msg_blocks m)) = Inr iss"
      by (auto simp: to_responses_input_def split: sum.splits)
    then have "\<forall>is \<in> set iss. item_refs is = []"
      unfolding sequence_results_Inr by (metis ex_map_conv image_eqI list.set_map replay_items_refs imageE)
    then have none: "item_refs (concat iss) = []" by (induction iss) auto
    show ?thesis
    proof (cases "list_ex is_tool_call (msg_blocks m)")
      case True
      with False a iss none show ?thesis
        by (auto simp: to_responses_input_def message_refs_def has_tool_result_def item_ref_calls)
    next
      case no_call: False
      then have "filter is_tool_call (msg_blocks m) = []" by (simp add: filter_empty_conv list_ex_iff)
      with no_call False a iss show ?thesis
        by (auto simp: to_responses_input_def message_refs_def has_tool_result_def item_refs_Cons item_ref_def)
    qed
  qed
qed

lemma answered_append: "answered seen (xs @ ys) \<longleftrightarrow> answered seen xs \<and> answered (seen \<union> snd ` {r \<in> set xs. fst r}) ys"
proof (induction xs arbitrary: seen)
  case (Cons x xs)
  obtain c i where x: "x = (c, i)" by (cases x)
  show ?case
  proof (cases c)
    case True
    have "insert i seen \<union> snd ` {r \<in> set xs. fst r} = seen \<union> snd ` {r \<in> set (x # xs). fst r}"
      using True x by force
    with Cons True x show ?thesis by simp
  next
    case False
    then have "{r \<in> set (x # xs). fst r} = {r \<in> set xs. fst r}" using x by auto
    with Cons False x show ?thesis by simp
  qed
qed simp

lemma answered_calls: "answered seen (map (\<lambda>b. (True, f b)) bs)"
  by (induction bs arbitrary: seen) auto

lemma answered_outputs: "answered seen (map (\<lambda>b. (False, f b)) bs) \<longleftrightarrow> f ` set bs \<subseteq> seen"
  by (induction bs) auto

lemma paired_answered:
  assumes "paired_from av ms" and "list_all (\<lambda>m. \<not> has_tool_result m \<or> calls_in m = {}) ms" and "av \<subseteq> seen"
  shows "answered seen (concat (map message_refs ms))"
  using assms
proof (induction ms arbitrary: av seen)
  case (Cons m ms)
  show ?case
  proof (cases "has_tool_result m")
    case True
    have "results_in m \<subseteq> seen" using Cons.prems(1,3) by auto
    then have "answered seen (message_refs m)" using True by (simp add: message_refs_def answered_outputs results_in_def)
    moreover have "avail_next av m \<subseteq> seen" using Cons.prems True by (auto simp: avail_next_def)
    moreover have "snd ` {r \<in> set (message_refs m). fst r} = {}" using True by (auto simp: message_refs_def)
    ultimately show ?thesis using Cons.IH[of "avail_next av m" seen] Cons.prems
      by (simp only: list.map concat.simps answered_append Un_empty_right paired_from.simps list.pred_inject simp_thms)
  next
    case False
    have "snd ` {r \<in> set (message_refs m). fst r} = calls_in m"
      using False by (force simp: message_refs_def calls_in_def image_iff)
    moreover have "answered seen (message_refs m)" using False by (simp add: message_refs_def answered_calls)
    moreover have "avail_next av m \<subseteq> seen \<union> calls_in m" using False by (auto simp: avail_next_def)
    ultimately show ?thesis using Cons.IH[of "avail_next av m" "seen \<union> calls_in m"] Cons.prems by (simp add: answered_append)
  qed
qed simp

text \<open>
  C29.  The request keeps what the transcript promises: for a paired transcript whose messages do not
  mix calls and results, the OpenAI input carries every call and every result of the transcript in
  order and nothing more, and every output answers a call that comes before it.
\<close>

theorem openai_input_is_paired:
  assumes "paired ms" and "list_all (\<lambda>m. \<not> has_tool_result m \<or> calls_in m = {}) ms" and "openai_input ms = Inr items"
  shows "item_refs items = concat (map message_refs ms) \<and> answered {} (item_refs items)"
proof -
  from assms(3) obtain xs where xs: "map to_responses_input ms = map Inr xs" "items = concat xs"
    by (auto simp: openai_input_def sequence_results_Inr split: sum.splits)
  have "map item_refs xs = map message_refs ms" if "map to_responses_input ms = map Inr xs" for ms xs
    using that by (induction ms arbitrary: xs) (auto simp: to_responses_refs)
  from this[OF xs(1)] have "concat (map item_refs xs) = concat (map message_refs ms)" by simp
  moreover have "item_refs (concat xs) = concat (map item_refs xs)" by (induction xs) simp_all
  ultimately show ?thesis using paired_answered[OF assms(1,2), of "{}"] by (simp add: xs(2))
qed

theorem openai_input_is_paired_witness:
  "case openai_input [user_text ''go'', \<lparr>msg_role = RoleAssistant, msg_blocks = [ToolCall ''c1'' ''read'' []]\<rparr>,
      tool_result_message (ToolResult ''c1'' ''ok'' False)] of
     Inr items \<Rightarrow> item_refs items = [(True, ''c1''), (False, ''c1'')] | Inl e \<Rightarrow> False"
proof -
  let ?ms = "[user_text ''go'', \<lparr>msg_role = RoleAssistant, msg_blocks = [ToolCall ''c1'' ''read'' []]\<rparr>,
      tool_result_message (ToolResult ''c1'' ''ok'' False)]"
  have "paired ?ms" "list_all (\<lambda>m. \<not> has_tool_result m \<or> calls_in m = {}) ?ms"
    by (simp_all add: user_text_def tool_result_message_def results_in_def calls_in_def avail_next_def has_tool_result_def)
  moreover obtain items where "openai_input ?ms = Inr items"
    by (simp add: openai_input_def to_responses_input_def user_text_def tool_result_message_def replay_items_def)
  ultimately show ?thesis using openai_input_is_paired[of ?ms items]
    by (simp add: message_refs_def has_tool_result_def user_text_def tool_result_message_def)
qed

end
