(* ===== verification/Regex.thy ===== *)
theory Regex
  imports Prelude
begin

text \<open>
  The part of Python's \<open>re\<close> the document pipeline uses, as a backtracking matcher: every pattern of
  \<open>src/src/pipeline\<close> and \<open>src/src/takeoff\<close> modelled here is a term of \<open>rx\<close>, and \<open>match\<close>,
  \<open>fullmatch\<close>, \<open>search\<close>, \<open>finditer\<close> and \<open>sub\<close> are functions on it.

  A matcher returns all its outcomes in the order the engine tries them (a greedy repetition the
  longest first, a lazy one the shortest first), the first being the match.  Only single
  characters are repeated without bound, which is all the patterns do; bounded repetitions are
  unrolled.  Characters are ASCII; \<open>.\<close> is any byte but the newline.
\<close>

section \<open>Patterns\<close>

datatype rx =
    Eps
  | Chr "char \<Rightarrow> bool"
  | Many bool nat "char \<Rightarrow> bool"
  | Cat rx rx
  | Alt rx rx
  | Grp nat rx
  | LineStart bool
  | LineEnd bool
  | Boundary

text \<open>A position in the subject: what is behind it (reversed), what is ahead, the groups so far.\<close>

record rx_state =
  rs_behind :: string
  rs_ahead :: string
  rs_groups :: "(nat, string) dict"

definition word_char :: "char \<Rightarrow> bool" where
  "word_char c \<longleftrightarrow> is_alnum c \<or> c = CHR ''_''"

definition at_word :: "string \<Rightarrow> bool" where
  "at_word s = (case s of [] \<Rightarrow> False | c # _ \<Rightarrow> word_char c)"

text \<open>Moving \<open>n\<close> characters ahead.\<close>

definition advance :: "nat \<Rightarrow> rx_state \<Rightarrow> rx_state" where
  "advance n s = s\<lparr>rs_behind := rev (take n (rs_ahead s)) @ rs_behind s, rs_ahead := drop n (rs_ahead s)\<rparr>"

text \<open>The text between an earlier state and a later one.\<close>

definition consumed :: "rx_state \<Rightarrow> rx_state \<Rightarrow> string" where
  "consumed s t = rev (take (length (rs_behind t) - length (rs_behind s)) (rs_behind t))"

primrec outcomes :: "rx \<Rightarrow> rx_state \<Rightarrow> rx_state list" where
  "outcomes Eps s = [s]"
| "outcomes (Chr P) s = (case rs_ahead s of [] \<Rightarrow> [] | c # _ \<Rightarrow> if P c then [advance 1 s] else [])"
| "outcomes (Many greedy lo P) s =
     (let ks = [lo..<Suc (length (takeWhile P (rs_ahead s)))] in
      map (\<lambda>k. advance k s) (if greedy then rev ks else ks))"
| "outcomes (Cat r q) s = concat (map (outcomes q) (outcomes r s))"
| "outcomes (Alt r q) s = outcomes r s @ outcomes q s"
| "outcomes (Grp i r) s = map (\<lambda>t. t\<lparr>rs_groups := dict_set (rs_groups t) i (consumed s t)\<rparr>) (outcomes r s)"
| "outcomes (LineStart multi) s =
     (if rs_behind s = [] \<or> multi \<and> hd (rs_behind s) = CHR 10 then [s] else [])"
| "outcomes (LineEnd multi) s =
     (if rs_ahead s = [] \<or> rs_ahead s = newline \<or> multi \<and> hd (rs_ahead s) = CHR 10 then [s] else [])"
| "outcomes Boundary s = (if at_word (rs_behind s) = at_word (rs_ahead s) then [] else [s])"

section \<open>Building patterns\<close>

primrec lit :: "string \<Rightarrow> rx" where
  "lit [] = Eps"
| "lit (c # cs) = Cat (Chr (\<lambda>x. x = c)) (lit cs)"

text \<open>A literal under \<open>re.I\<close>.\<close>

primrec lit_i :: "string \<Rightarrow> rx" where
  "lit_i [] = Eps"
| "lit_i (c # cs) = Cat (Chr (\<lambda>x. lower_char x = lower_char c)) (lit_i cs)"

fun cats :: "rx list \<Rightarrow> rx" where
  "cats [] = Eps"
| "cats [r] = r"
| "cats (r # rs) = Cat r (cats rs)"

fun alts :: "rx list \<Rightarrow> rx" where
  "alts [] = Chr (\<lambda>_. False)"
| "alts [r] = r"
| "alts (r # rs) = Alt r (alts rs)"

definition opt :: "rx \<Rightarrow> rx" where
  "opt r = Alt r Eps"

text \<open>\<open>r{lo,hi}\<close>, greedy.\<close>

fun times :: "nat \<Rightarrow> nat \<Rightarrow> rx \<Rightarrow> rx" where
  "times 0 0 r = Eps"
| "times 0 (Suc n) r = opt (Cat r (times 0 n r))"
| "times (Suc m) n r = Cat r (times m (n - 1) r)"

definition one_of :: "string \<Rightarrow> char \<Rightarrow> bool" where
  "one_of cs c \<longleftrightarrow> c \<in> set cs"

definition any_char :: "char \<Rightarrow> bool" where
  "any_char c \<longleftrightarrow> c \<noteq> CHR 10"

abbreviation spaces :: rx where "spaces \<equiv> Many True 0 is_space"
abbreviation spaces1 :: rx where "spaces1 \<equiv> Many True 1 is_space"
abbreviation digit :: rx where "digit \<equiv> Chr is_digit"

section \<open>Matching\<close>

definition rx_start :: "string \<Rightarrow> rx_state" where
  "rx_start s = \<lparr>rs_behind = [], rs_ahead = s, rs_groups = []\<rparr>"

definition first_of :: "'a list \<Rightarrow> 'a option" where
  "first_of xs = (case xs of [] \<Rightarrow> None | x # _ \<Rightarrow> Some x)"

text \<open>\<open>pattern.match(s)\<close> and \<open>pattern.fullmatch(s)\<close>\<close>

definition re_match :: "rx \<Rightarrow> string \<Rightarrow> rx_state option" where
  "re_match r s = first_of (outcomes r (rx_start s))"

definition re_fullmatch :: "rx \<Rightarrow> string \<Rightarrow> rx_state option" where
  "re_fullmatch r s = first_of (filter (\<lambda>t. rs_ahead t = []) (outcomes r (rx_start s)))"

text \<open>\<open>m.group(i)\<close>; a group that took no part in the match is the empty string here.\<close>

definition group :: "nat \<Rightarrow> rx_state \<Rightarrow> string" where
  "group i t = (case map_of (rs_groups t) i of None \<Rightarrow> '''' | Some g \<Rightarrow> g)"

text \<open>A match found by \<open>search\<close>: its start, its end, and the state with the groups.\<close>

record rx_match =
  rm_start :: nat
  rm_end :: nat
  rm_state :: rx_state

definition match_text :: "string \<Rightarrow> rx_match \<Rightarrow> string" where
  "match_text s m = take (rm_end m - rm_start m) (drop (rm_start m) s)"

definition search_at :: "rx \<Rightarrow> string \<Rightarrow> nat \<Rightarrow> rx_match option" where
  "search_at r s i =
     (case first_of (outcomes r (advance i (rx_start s))) of
        None \<Rightarrow> None
      | Some t \<Rightarrow> Some \<lparr>rm_start = i, rm_end = length (rs_behind t), rm_state = t\<rparr>)"

definition search_from :: "rx \<Rightarrow> string \<Rightarrow> nat \<Rightarrow> rx_match option" where
  "search_from r s i = first_of (List.map_filter (search_at r s) [i..<Suc (length s)])"

definition re_search :: "rx \<Rightarrow> string \<Rightarrow> rx_match option" where
  "re_search r s = search_from r s 0"

text \<open>
  \<open>pattern.finditer(s)\<close>: after a match the scan goes on at its end, one further when it is empty.
\<close>

function finditer_from :: "rx \<Rightarrow> string \<Rightarrow> nat \<Rightarrow> rx_match list" where
  "finditer_from r s i =
     (if i > length s then []
      else case search_from r s i of
        None \<Rightarrow> []
      | Some m \<Rightarrow> m # finditer_from r s (max (Suc i) (max (rm_end m) (Suc (rm_start m)))))"
  by pat_completeness auto

termination finditer_from
  by (relation "measure (\<lambda>(r, s, i). Suc (length s) - i)") auto

declare finditer_from.simps [simp del]

definition finditer :: "rx \<Rightarrow> string \<Rightarrow> rx_match list" where
  "finditer r s = finditer_from r s 0"

text \<open>\<open>pattern.sub(rep, s)\<close> with a constant replacement.\<close>

fun sub_matches :: "string \<Rightarrow> string \<Rightarrow> nat \<Rightarrow> rx_match list \<Rightarrow> string" where
  "sub_matches rep s pos [] = drop pos s"
| "sub_matches rep s pos (m # ms) = take (rm_start m - pos) (drop pos s) @ rep @ sub_matches rep s (rm_end m) ms"

definition re_sub :: "rx \<Rightarrow> string \<Rightarrow> string \<Rightarrow> string" where
  "re_sub r rep s = sub_matches rep s 0 (finditer r s)"

section \<open>Lines\<close>

text \<open>\<open>s.splitlines()\<close>: a carriage return before a newline belongs to it, a last empty line is none.\<close>

definition line_break :: "char \<Rightarrow> bool" where
  "line_break c \<longleftrightarrow> of_char c \<in> {10, 11, 12, 13, 28, 29, 30 :: nat}"

fun splitlines_from :: "string \<Rightarrow> string \<Rightarrow> string list" where
  "splitlines_from acc [] = (if acc = [] then [] else [rev acc])"
| "splitlines_from acc [c] = (if line_break c then [rev acc] else [rev (c # acc)])"
| "splitlines_from acc (c # d # cs) =
     (if c = CHR 13 \<and> d = CHR 10 then rev acc # splitlines_from [] cs
      else if line_break c then rev acc # splitlines_from [] (d # cs)
      else splitlines_from (c # acc) (d # cs))"

definition splitlines :: "string \<Rightarrow> string list" where
  "splitlines s = splitlines_from [] s"

text \<open>\<open>s.rstrip(chars)\<close>\<close>

definition rstrip_chars :: "string \<Rightarrow> string \<Rightarrow> string" where
  "rstrip_chars cs s = rev (dropWhile (\<lambda>c. c \<in> set cs) (rev s))"

text \<open>\<open>s.split(c)\<close> for a one-character separator.\<close>

fun split_on :: "char \<Rightarrow> string \<Rightarrow> string \<Rightarrow> string list" where
  "split_on d acc [] = [rev acc]"
| "split_on d acc (c # cs) = (if c = d then rev acc # split_on d [] cs else split_on d (c # acc) cs)"

section \<open>Headers and what follows them\<close>

text \<open>
  The lines that are headers, with their index, and each with the lines up to the next one: the
  double loop over \<open>bounds[p + 1]\<close> of the section and bid parsers.
\<close>

definition headers :: "('l \<Rightarrow> 'h option) \<Rightarrow> 'l list \<Rightarrow> (nat \<times> 'h) list" where
  "headers f ls = List.map_filter (\<lambda>(i, l). map_option (\<lambda>h. (i, h)) (f l)) (List.enumerate 0 ls)"

fun header_bodies :: "'l list \<Rightarrow> (nat \<times> 'h) list \<Rightarrow> ('h \<times> 'l list) list" where
  "header_bodies ls [] = []"
| "header_bodies ls [(i, h)] = [(h, drop (Suc i) ls)]"
| "header_bodies ls ((i, h) # (j, h') # hs) = (h, take (j - Suc i) (drop (Suc i) ls)) # header_bodies ls ((j, h') # hs)"

section \<open>What every outcome satisfies\<close>

text \<open>An outcome is a later position in the same subject.\<close>

definition ahead_of :: "rx_state \<Rightarrow> rx_state \<Rightarrow> bool" where
  "ahead_of s t \<longleftrightarrow> (\<exists>w. rs_behind t = rev w @ rs_behind s \<and> rs_ahead s = w @ rs_ahead t)"

lemma ahead_of_refl [simp]: "ahead_of s s"
  by (simp add: ahead_of_def)

lemma ahead_of_trans: "ahead_of s t \<Longrightarrow> ahead_of t u \<Longrightarrow> ahead_of s u"
  by (fastforce simp: ahead_of_def)

lemma ahead_of_groups [simp]: "ahead_of s (t\<lparr>rs_groups := g\<rparr>) \<longleftrightarrow> ahead_of s t"
  by (simp add: ahead_of_def)

lemma ahead_of_advance [simp]: "ahead_of s (advance n s)"
  unfolding ahead_of_def by (rule exI[of _ "take n (rs_ahead s)"]) (simp add: advance_def)

lemma outcomes_ahead: "t \<in> set (outcomes r s) \<Longrightarrow> ahead_of s t"
proof (induction r arbitrary: s t)
  case (Cat r q)
  from Cat.prems obtain x where "x \<in> set (outcomes r s)" "t \<in> set (outcomes q x)" by auto
  with Cat.IH show ?case by (blast intro: ahead_of_trans)
qed (auto simp: Let_def split: list.splits if_splits)

lemma ahead_of_subject: "ahead_of s t \<Longrightarrow> rev (rs_behind t) @ rs_ahead t = rev (rs_behind s) @ rs_ahead s"
  by (auto simp: ahead_of_def)

lemma ahead_of_consumed: "ahead_of s t \<Longrightarrow> rs_ahead s = consumed s t @ rs_ahead t \<and> rs_behind t = rev (consumed s t) @ rs_behind s"
  by (auto simp: ahead_of_def consumed_def)

section \<open>The first outcome, compositionally\<close>

text \<open>\<open>leads r s t\<close>: of all outcomes of \<open>r\<close> at \<open>s\<close> the engine tries \<open>t\<close> first.\<close>

definition leads :: "rx \<Rightarrow> rx_state \<Rightarrow> rx_state \<Rightarrow> bool" where
  "leads r s t \<longleftrightarrow> first_of (outcomes r s) = Some t"

named_theorems rx_intros \<open>first outcomes of the pattern constructors\<close>

abbreviation at_pos :: "string \<Rightarrow> string \<Rightarrow> (nat, string) dict \<Rightarrow> rx_state" where
  "at_pos b a g \<equiv> \<lparr>rs_behind = b, rs_ahead = a, rs_groups = g\<rparr>"

lemma first_of_Some: "first_of xs = Some x \<longleftrightarrow> (\<exists>ys. xs = x # ys)"
  by (cases xs) (auto simp: first_of_def)

lemma first_of_None [simp]: "first_of xs = None \<longleftrightarrow> xs = []" "first_of [] = None" "first_of (x # xs) = Some x"
  by (cases xs) (auto simp: first_of_def)

lemma leads_match: "leads r (rx_start s) t \<Longrightarrow> re_match r s = Some t"
  by (simp add: leads_def re_match_def)

lemma leads_Cat [rx_intros]: "leads r s t \<Longrightarrow> leads q t u \<Longrightarrow> leads (Cat r q) s u"
  by (auto simp: leads_def first_of_Some)

lemma leads_Eps [rx_intros]: "leads Eps s s"
  by (simp add: leads_def first_of_def)

lemma leads_Chr [rx_intros]: "P c \<Longrightarrow> leads (Chr P) (at_pos b (c # a) g) (at_pos (c # b) a g)"
  by (simp add: leads_def first_of_def advance_def)

lemma leads_lit [rx_intros]: "leads (lit w) (at_pos b (w @ a) g) (at_pos (rev w @ b) a g)"
proof (induction w arbitrary: b)
  case (Cons c w)
  have "leads (Chr (\<lambda>x. x = c)) (at_pos b (c # w @ a) g) (at_pos (c # b) (w @ a) g)" by (rule leads_Chr) simp
  from leads_Cat[OF this Cons] show ?case by simp
qed (simp add: leads_Eps)

lemma leads_Many: "list_all P w \<Longrightarrow> lo \<le> length w \<Longrightarrow> (case a of [] \<Rightarrow> True | c # _ \<Rightarrow> \<not> P c) \<Longrightarrow>
    leads (Many True lo P) (at_pos b (w @ a) g) (at_pos (rev w @ b) a g)"
proof -
  assume "list_all P w" "lo \<le> length w" "case a of [] \<Rightarrow> True | c # _ \<Rightarrow> \<not> P c"
  then have "takeWhile P (w @ a) = w" by (cases a) (auto simp: list_all_iff)
  with \<open>lo \<le> length w\<close> show ?thesis by (simp add: leads_def first_of_def advance_def Let_def)
qed

lemma leads_Alt1 [rx_intros]: "leads r s t \<Longrightarrow> leads (Alt r q) s t"
  by (auto simp: leads_def first_of_Some)

lemma leads_Alt2: "outcomes r s = [] \<Longrightarrow> leads q s t \<Longrightarrow> leads (Alt r q) s t"
  by (auto simp: leads_def)

lemma leads_Grp [rx_intros]:
  "leads r (at_pos b a g) (at_pos (rev w @ b) a' g') \<Longrightarrow>
   leads (Grp i r) (at_pos b a g) (at_pos (rev w @ b) a' (dict_set g' i w))"
  by (auto simp: leads_def first_of_Some consumed_def)

lemma leads_LineStart [rx_intros]: "leads (LineStart m) (at_pos [] a g) (at_pos [] a g)"
  by (simp add: leads_def first_of_def)

lemma leads_LineEnd [rx_intros]: "leads (LineEnd m) (at_pos b [] g) (at_pos b [] g)"
  by (simp add: leads_def)

text \<open>Outcomes after which the rest of the pattern fails are passed over.\<close>

lemma leads_Cat_skip:
  assumes "outcomes r s = us @ [t]" "\<And>u. u \<in> set us \<Longrightarrow> outcomes q u = []" "leads q t v"
  shows "leads (Cat r q) s v"
proof -
  have none: "concat (map (outcomes q) us) = []" using assms(2) by simp
  show ?thesis unfolding leads_def outcomes.simps assms(1) map_append concat_append none
    using assms(3) by (simp add: leads_def)
qed

text \<open>No blank here, and one blank here.\<close>

lemma leads_no_space: "\<not> is_space c \<Longrightarrow> leads spaces (at_pos b (c # a) g) (at_pos b (c # a) g)"
  using leads_Many[of is_space "[]" 0 "c # a" b g] by simp

lemma leads_one_space: "lo \<le> 1 \<Longrightarrow> \<not> is_space c \<Longrightarrow> leads (Many True lo is_space) (at_pos b (CHR '' '' # c # a) g) (at_pos (CHR '' '' # b) (c # a) g)"
  using leads_Many[of is_space "'' ''" lo "c # a" b g] by (simp add: is_space_def)

text \<open>\<open>(.+?)\s*$\<close> takes a text that starts and ends with a visible character as a whole.\<close>

definition title_text :: "string \<Rightarrow> bool" where
  "title_text t \<longleftrightarrow> t \<noteq> [] \<and> \<not> is_space (hd t) \<and> \<not> is_space (last t) \<and> CHR 10 \<notin> set t"

lemma blank_end_fails:
  assumes "xs \<noteq> []" "\<not> is_space (last xs)" "CHR 10 \<notin> set xs"
  shows "outcomes (Cat spaces (LineEnd False)) (at_pos b xs g) = []"
proof -
  have "length (takeWhile is_space xs) < length xs"
    using assms(1,2) by (metis last_in_set length_takeWhile_le nat_less_le set_takeWhileD takeWhile_eq_all_conv takeWhile_eq_take take_all_iff)
  then have "drop k xs \<noteq> []" if "k < Suc (length (takeWhile is_space xs))" for k using that by simp
  moreover have "drop k xs \<noteq> newline" for k using assms(3) by (metis in_set_dropD list.set_intros(1))
  ultimately show ?thesis by (auto simp: advance_def Let_def)
qed

lemma leads_lazy_title:
  assumes "title_text t"
  shows "leads (Cat (Grp i (Many False 1 any_char)) (Cat spaces (LineEnd False))) (at_pos b t g) (at_pos (rev t @ b) [] (dict_set g i t))"
proof -
  let ?q = "Cat spaces (LineEnd False)"
  let ?st = "\<lambda>k. at_pos (rev (take k t) @ b) (drop k t) (dict_set g i (take k t))"
  have t: "t \<noteq> []" "\<not> is_space (last t)" "CHR 10 \<notin> set t" using assms by (simp_all add: title_text_def)
  have tw: "takeWhile any_char t = t" using t(3) by (auto simp: any_char_def takeWhile_eq_all_conv)
  have "[1..<Suc (length t)] = [1..<length t] @ [length t]" using t(1) by (simp add: Suc_le_eq)
  then have outs: "outcomes (Grp i (Many False 1 any_char)) (at_pos b t g) = map ?st ([1..<length t] @ [length t])"
    unfolding outcomes.simps Let_def rx_state.select_convs tw if_False map_map
    by (simp only: map_append list.map comp_def advance_def consumed_def rx_state.simps length_append length_rev
      diff_add_inverse2 take_append rev_rev_ident take_all diff_self_eq_0 take_0 append_Nil2 order_refl)
  have fail: "outcomes ?q (?st k) = []" if "k \<in> set [1..<length t]" for k
  proof (rule blank_end_fails)
    show "drop k t \<noteq> []" using that by simp
    then show "\<not> is_space (last (drop k t))" using t(2) by (simp add: last_drop)
    show "CHR 10 \<notin> set (drop k t)" using t(3) by (meson in_set_dropD)
  qed
  have "leads ?q (?st (length t)) (at_pos (rev t @ b) [] (dict_set g i t))"
    using leads_Cat[OF leads_Many[of is_space "[]" 0 "[]"] leads_LineEnd]
    by (simp del: outcomes.simps)
  moreover have "outcomes ?q u = []" if "u \<in> set (map ?st [1..<length t])" for u
    using that fail unfolding set_map image_iff by blast
  moreover have "outcomes (Grp i (Many False 1 any_char)) (at_pos b t g) = map ?st [1..<length t] @ [?st (length t)]"
    unfolding outs by simp
  ultimately show ?thesis by (blast intro: leads_Cat_skip)
qed

lemma group_dict_set [simp]: "group i (at_pos b a (dict_set g j w)) = (if i = j then w else group i (at_pos b a g))"
  by (simp add: group_def)

section \<open>Groups\<close>

primrec groups_of :: "rx \<Rightarrow> nat set" where
  "groups_of Eps = {}"
| "groups_of (Chr P) = {}"
| "groups_of (Many g n P) = {}"
| "groups_of (Cat r q) = groups_of r \<union> groups_of q"
| "groups_of (Alt r q) = groups_of r \<union> groups_of q"
| "groups_of (Grp i r) = insert i (groups_of r)"
| "groups_of (LineStart m) = {}"
| "groups_of (LineEnd m) = {}"
| "groups_of Boundary = {}"

lemma groups_of_lit [simp]: "groups_of (lit w) = {}"
  by (induction w) auto

text \<open>A pattern only sets its own groups.\<close>

lemma group_advance [simp]: "group i (advance n s) = group i s"
  by (simp add: group_def advance_def)

lemma outcomes_keep_group: "t \<in> set (outcomes r s) \<Longrightarrow> i \<notin> groups_of r \<Longrightarrow> group i t = group i s"
proof (induction r arbitrary: s t)
  case (Cat r q)
  from Cat.prems obtain x where "x \<in> set (outcomes r s)" "t \<in> set (outcomes q x)" by auto
  with Cat show ?case by simp
qed (auto simp: group_def advance_def Let_def split: list.splits if_splits)

lemma in_Cat: "t \<in> set (outcomes (Cat r q) s) \<longleftrightarrow> (\<exists>u \<in> set (outcomes r s). t \<in> set (outcomes q u))"
  by simp

lemma first_in: "first_of xs = Some x \<Longrightarrow> x \<in> set xs"
  by (cases xs) auto

lemma re_match_in: "re_match r s = Some t \<Longrightarrow> t \<in> set (outcomes r (rx_start s))"
  unfolding re_match_def by (rule first_in)

text \<open>What a group of one character matched.\<close>

lemma outcomes_Grp_Chr: "t \<in> set (outcomes (Grp i (Chr P)) s) \<Longrightarrow> \<exists>c. group i t = [c] \<and> P c"
  by (cases "rs_ahead s") (auto simp: group_def advance_def consumed_def split: if_splits)

section \<open>Headers and bodies\<close>

lemma in_map_filter: "y \<in> set (List.map_filter f xs) \<longleftrightarrow> (\<exists>x \<in> set xs. f x = Some y)"
  by (induction xs) (auto simp: map_filter_simps split: option.split)

lemma headers_in: "(i, h) \<in> set (headers f ls) \<longleftrightarrow> i < length ls \<and> f (ls ! i) = Some h"
proof -
  have "(i, h) \<in> set (headers f ls) \<longleftrightarrow> (\<exists>l. (i, l) \<in> set (List.enumerate 0 ls) \<and> f l = Some h)"
    by (auto simp: headers_def in_map_filter) force
  also have "\<dots> \<longleftrightarrow> i < length ls \<and> f (ls ! i) = Some h" by (auto simp: in_set_enumerate_eq)
  finally show ?thesis .
qed

lemma headers_sorted: "sorted_wrt (<) (map fst (headers f ls))"
proof -
  have "sorted_wrt (<) (map fst (List.map_filter (\<lambda>(i, l). map_option (\<lambda>h. (i, h)) (f l)) (List.enumerate n ls))) \<and>
      (\<forall>i \<in> fst ` set (List.map_filter (\<lambda>(i, l). map_option (\<lambda>h. (i, h)) (f l)) (List.enumerate n ls)). n \<le> i)" for n
  proof (induction ls arbitrary: n)
    case (Cons l ls)
    from Cons[of "Suc n"] show ?case
      by (cases "f l") (auto simp: map_filter_simps)
  qed (simp add: map_filter_simps)
  then show ?thesis by (simp add: headers_def)
qed

lemma map_fst_header_bodies [simp]: "map fst (header_bodies ls hs) = map snd hs"
  by (induction ls hs rule: header_bodies.induct) auto

text \<open>Each header with its body, put back together, is everything from the first header on.\<close>

lemma header_bodies_cover:
  assumes "sorted_wrt (<) (map fst hs)" "list_all (\<lambda>(i, h). i < length ls) hs" "hs \<noteq> []"
  shows "concat (map2 (\<lambda>(i, h) (h', body). ls ! i # body) hs (header_bodies ls hs)) = drop (fst (hd hs)) ls"
  using assms
proof (induction ls hs rule: header_bodies.induct)
  case (2 ls i h)
  then show ?case by (simp add: Cons_nth_drop_Suc)
next
  case (3 ls i h j h' hs)
  then have ij: "i < j" "i < length ls" "j < length ls" by simp_all
  have "ls ! i # take (j - Suc i) (drop (Suc i) ls) @ drop j ls = drop i ls"
    using ij by (metis Cons_nth_drop_Suc append_take_drop_id drop_drop le_add_diff_inverse2 Suc_leI add.commute)
  with 3 show ?case by simp
qed simp

lemma in_set_dropE:
  assumes "x \<in> set (drop n xs)"
  obtains k where "x = xs ! k" "n \<le> k" "k < length xs"
proof -
  from assms obtain m where "m < length xs - n" "x = xs ! (n + m)" by (auto simp: in_set_conv_nth)
  then show ?thesis by (intro that[of "n + m"]) simp_all
qed

text \<open>No line of a body is a header.\<close>

lemma body_no_header:
  assumes "(h, body) \<in> set (header_bodies ls (headers f ls))"
  shows "list_all (\<lambda>l. f l = None) body"
proof -
  have gen: "(h, body) \<in> set (header_bodies ls hs) \<Longrightarrow> sorted_wrt (<) (map fst hs) \<Longrightarrow>
      (\<And>i. i < length ls \<Longrightarrow> lo \<le> i \<Longrightarrow> f (ls ! i) \<noteq> None \<Longrightarrow> i \<in> fst ` set hs) \<Longrightarrow>
      (case hs of [] \<Rightarrow> True | (i, _) # _ \<Rightarrow> lo \<le> i) \<Longrightarrow> list_all (\<lambda>l. f l = None) body" for hs lo
  proof (induction ls hs arbitrary: lo rule: header_bodies.induct)
    case (2 ls i h')
    show ?case unfolding list_all_iff
    proof
      fix l assume "l \<in> set body"
      with 2(1) have "l \<in> set (drop (Suc i) ls)" by simp
      then obtain k where k: "l = ls ! k" "Suc i \<le> k" "k < length ls" by (rule in_set_dropE)
      with 2(3)[of k] 2(4) show "f l = None" by fastforce
    qed
  next
    case (3 ls i h' j h'' hs)
    show ?case
    proof (cases "(h, body) = (h', take (j - Suc i) (drop (Suc i) ls))")
      case True
      show ?thesis unfolding list_all_iff
      proof
        fix l assume "l \<in> set body"
        with True have "l \<in> set (drop (Suc i) (take j ls))" by (simp add: drop_take del: take_drop)
        then obtain k where "l = take j ls ! k" "Suc i \<le> k" "k < length (take j ls)" by (rule in_set_dropE)
        then have k: "l = ls ! k" "Suc i \<le> k" "k < j" "k < length ls" by simp_all
        have "k \<notin> fst ` set ((i, h') # (j, h'') # hs)" using k 3(3) by auto
        with 3(4)[of k] 3(5) k show "f l = None" by fastforce
      qed
    next
      case False
      with 3(2) have "(h, body) \<in> set (header_bodies ls ((j, h'') # hs))" by auto
      moreover have "k \<in> fst ` set ((j, h'') # hs)" if "k < length ls" "Suc i \<le> k" "f (ls ! k) \<noteq> None" for k
        using 3(4)[of k] 3(5) that by auto
      ultimately show ?thesis using 3(1)[of "Suc i"] 3(3) by simp
    qed
  qed simp
  show ?thesis
  proof (rule gen[OF assms headers_sorted, of 0])
    show "i \<in> fst ` set (headers f ls)" if "i < length ls" "f (ls ! i) \<noteq> None" for i
      using that headers_in[of i _ f ls] by force
  qed (auto split: list.split)
qed

end
