(* ===== verification/KnowledgeGraph.thy ===== *)
theory KnowledgeGraph
  imports Regex
begin

text \<open>
  The knowledge graph (\<open>src/src/models/graph.py\<close>): a networkx \<open>MultiDiGraph\<close> as an ordered
  dictionary of nodes and one of keyed edges, and its queries.  An edge is keyed by its ends and
  its relationship, so a second edge with the same key replaces the properties of the first.
  networkx creates a missing end of an edge as a node without attributes; such a bare node is
  \<open>None\<close> here, and what the source reads from it without a default is a \<open>KeyError\<close>.
\<close>

section \<open>The graph\<close>

record node_attrs =
  na_type :: string
  na_props :: args
  na_file :: string
  na_page :: "int option"
  na_conf :: rat

record graph_node =
  gn_id :: string
  gn_attrs :: node_attrs

record graph_edge =
  ge_source :: string
  ge_target :: string
  ge_rel :: string
  ge_props :: "args option"

type_synonym edge_key = "string \<times> string \<times> string"

record kgraph =
  kg_nodes :: "(string, node_attrs option) dict"
  kg_edges :: "(edge_key, args) dict"

definition empty_graph :: kgraph where
  "empty_graph = \<lparr>kg_nodes = [], kg_edges = []\<rparr>"

definition kg_has :: "kgraph \<Rightarrow> string \<Rightarrow> bool" where
  "kg_has kg n \<longleftrightarrow> n \<in> set (dict_keys (kg_nodes kg))"

definition kg_add_node :: "kgraph \<Rightarrow> graph_node \<Rightarrow> kgraph" where
  "kg_add_node kg n = kg\<lparr>kg_nodes := dict_set (kg_nodes kg) (gn_id n) (Some (gn_attrs n))\<rparr>"

definition kg_add_edge :: "kgraph \<Rightarrow> graph_edge \<Rightarrow> kgraph" where
  "kg_add_edge kg e = kg\<lparr>
     kg_nodes := dict_setdefault (dict_setdefault (kg_nodes kg) (ge_source e) None) (ge_target e) None,
     kg_edges := dict_set (kg_edges kg) (ge_source e, ge_target e, ge_rel e)
       (case ge_props e of None \<Rightarrow> [] | Some p \<Rightarrow> p)\<rparr>"

section \<open>Lookups\<close>

text \<open>
  \<open>find_node\<close>: every caller only asks whether the result is true, and the empty dictionary of a
  bare node is not.
\<close>

definition kg_find :: "kgraph \<Rightarrow> string \<Rightarrow> node_attrs option" where
  "kg_find kg n = (case map_of (kg_nodes kg) n of None \<Rightarrow> None | Some a \<Rightarrow> a)"

definition nodes_of_type :: "kgraph \<Rightarrow> string \<Rightarrow> string list" where
  "nodes_of_type kg ty = map fst (filter (\<lambda>(n, a). map_option na_type a = Some ty) (kg_nodes kg))"

text \<open>The adjacency is by neighbour, in the order of the first edge to it, then by relationship.\<close>

definition by_first :: "('e \<Rightarrow> 'k) \<Rightarrow> 'e list \<Rightarrow> 'e list" where
  "by_first key es = concat (map (\<lambda>k. filter (\<lambda>e. key e = k) es) (dedup_first id {} (map key es)))"

definition out_edges :: "kgraph \<Rightarrow> string \<Rightarrow> (edge_key \<times> args) list" where
  "out_edges kg n = by_first (\<lambda>((s, t, r), p). t) (filter (\<lambda>((s, t, r), p). s = n) (kg_edges kg))"

definition in_edges :: "kgraph \<Rightarrow> string \<Rightarrow> (edge_key \<times> args) list" where
  "in_edges kg n = by_first (\<lambda>((s, t, r), p). s) (filter (\<lambda>((s, t, r), p). t = n) (kg_edges kg))"

definition all_edges :: "kgraph \<Rightarrow> (edge_key \<times> args) list" where
  "all_edges kg = concat (map (out_edges kg) (dict_keys (kg_nodes kg)))"

definition kg_out :: "kgraph \<Rightarrow> string \<Rightarrow> (string \<times> string \<times> args) list" where
  "kg_out kg n = (if kg_has kg n then map (\<lambda>((s, t, r), p). (t, r, p)) (out_edges kg n) else [])"

definition kg_degree :: "kgraph \<Rightarrow> string \<Rightarrow> nat" where
  "kg_degree kg n = length (out_edges kg n) + length (in_edges kg n)"

text \<open>\<open>s.split(":", 1)[-1]\<close>\<close>

definition local_id :: "string \<Rightarrow> string" where
  "local_id s = (case dropWhile (\<lambda>c. c \<noteq> CHR '':'') s of [] \<Rightarrow> s | _ # r \<Rightarrow> r)"

section \<open>Queries\<close>

record section_ref =
  rf_section :: string
  rf_title :: "json option"
  rf_file :: string
  rf_page :: "int option"

definition kg_section_ref :: "kgraph \<Rightarrow> string \<Rightarrow> section_ref option" where
  "kg_section_ref kg sid = (case kg_find kg sid of
     None \<Rightarrow> None
   | Some a \<Rightarrow> Some \<lparr>rf_section = local_id sid, rf_title = map_of (na_props a) ''title'',
       rf_file = na_file a, rf_page = na_page a\<rparr>)"

record door_spec =
  ds_mark :: string
  ds_props :: args
  ds_door :: "section_ref option"
  ds_frame :: "section_ref option"
  ds_hardware :: "section_ref option"
  ds_glazing :: "section_ref option"
  ds_room :: "string option"
  ds_sheets :: "string list"

definition door_spec_edge :: "kgraph \<Rightarrow> door_spec \<Rightarrow> string \<times> string \<times> args \<Rightarrow> door_spec" where
  "door_spec_edge kg d = (\<lambda>(target, rel, props).
     if rel = ''DOOR_SPECIFIED_IN'' then d\<lparr>ds_door := kg_section_ref kg target\<rparr>
     else if rel = ''FRAME_SPECIFIED_IN'' then d\<lparr>ds_frame := kg_section_ref kg target\<rparr>
     else if rel = ''HARDWARE_SPECIFIED_IN'' then d\<lparr>ds_hardware := kg_section_ref kg target\<rparr>
     else if rel = ''GLAZING_SPECIFIED_IN'' then d\<lparr>ds_glazing := kg_section_ref kg target\<rparr>
     else if rel = ''LOCATED_IN'' then d\<lparr>ds_room := Some (local_id target)\<rparr>
     else if rel = ''APPEARS_ON'' then d\<lparr>ds_sheets := ds_sheets d @ [local_id target]\<rparr>
     else d)"

definition door_full_spec :: "kgraph \<Rightarrow> string \<Rightarrow> door_spec option" where
  "door_full_spec kg mark = (let did = ''door:'' @ mark in
     case kg_find kg did of
       None \<Rightarrow> None
     | Some a \<Rightarrow> Some (foldl (door_spec_edge kg)
         \<lparr>ds_mark = mark, ds_props = na_props a, ds_door = None, ds_frame = None, ds_hardware = None,
          ds_glazing = None, ds_room = None, ds_sheets = []\<rparr> (kg_out kg did)))"

record room_spec =
  rs_number :: string
  rs_props :: args
  rs_finishes :: "section_ref list"
  rs_doors :: "string list"

definition room_full_spec :: "kgraph \<Rightarrow> string \<Rightarrow> room_spec option" where
  "room_full_spec kg num = (let rid = ''room:'' @ num in
     case kg_find kg rid of
       None \<Rightarrow> None
     | Some a \<Rightarrow> Some \<lparr>rs_number = num, rs_props = na_props a,
         rs_finishes = List.map_filter (\<lambda>(t, r, p). if r = ''FINISH_SPECIFIED_IN'' then kg_section_ref kg t else None)
           (kg_out kg rid),
         rs_doors = List.map_filter (\<lambda>((s, t, r), p). if r = ''LOCATED_IN'' then Some (local_id s) else None)
           (in_edges kg rid)\<rparr>)"

definition find_orphan_doors :: "kgraph \<Rightarrow> string list" where
  "find_orphan_doors kg = map local_id (filter (\<lambda>d. \<not> list_ex (\<lambda>(t, r, p). r = ''LOCATED_IN'') (kg_out kg d))
     (nodes_of_type kg ''door''))"

definition find_orphan_specs :: "kgraph \<Rightarrow> string list" where
  "find_orphan_specs kg = map local_id (filter (\<lambda>s. length (in_edges kg s) = 0) (nodes_of_type kg ''spec_section''))"

definition missing_codes :: "node_attrs option \<Rightarrow> json option" where
  "missing_codes a = (case a of None \<Rightarrow> None | Some a \<Rightarrow>
     (case map_of (na_props a) ''unresolved_codes'' of
        None \<Rightarrow> None | Some codes \<Rightarrow> if json_truthy codes then Some codes else None))"

definition find_missing_connections :: "kgraph \<Rightarrow> (string \<times> string \<times> json) list" where
  "find_missing_connections kg = List.map_filter (\<lambda>(n, a). case (a, missing_codes a) of
     (Some x, Some codes) \<Rightarrow> Some (n, na_type x, codes) | _ \<Rightarrow> None) (kg_nodes kg)"

section \<open>Statistics\<close>

text \<open>All nodes with their attributes, or the error of reading \<open>node_type\<close> of a bare node.\<close>

definition typed_nodes :: "kgraph \<Rightarrow> exn + (string \<times> node_attrs) list" where
  "typed_nodes kg = (if list_ex (\<lambda>(n, a). a = None) (kg_nodes kg)
     then Inl (Exn ''KeyError'' (py_repr ''node_type''))
     else Inr (map (\<lambda>(n, a). (n, the a)) (kg_nodes kg)))"

text \<open>\<open>dict(Counter(xs))\<close>\<close>

definition counter :: "string list \<Rightarrow> (string, nat) dict" where
  "counter xs = map (\<lambda>k. (k, count_list xs k)) (dedup_first id {} xs)"

record graph_stats =
  gs_nodes :: nat
  gs_edges :: nat
  gs_by_type :: "(string, nat) dict"
  gs_by_rel :: "(string, nat) dict"

definition kg_stats :: "kgraph \<Rightarrow> exn + graph_stats" where
  "kg_stats kg = (case typed_nodes kg of
     Inl e \<Rightarrow> Inl e
   | Inr ns \<Rightarrow> Inr \<lparr>gs_nodes = length (kg_nodes kg), gs_edges = length (kg_edges kg),
       gs_by_type = counter (map (\<lambda>(n, a). na_type a) ns),
       gs_by_rel = counter (map (\<lambda>((s, t, r), p). r) (all_edges kg))\<rparr>)"

definition kg_to_dict :: "kgraph \<Rightarrow> exn + (string \<times> node_attrs option) list \<times> (edge_key \<times> args) list \<times> graph_stats" where
  "kg_to_dict kg = (case kg_stats kg of Inl e \<Rightarrow> Inl e | Inr st \<Rightarrow> Inr (kg_nodes kg, all_edges kg, st))"

section \<open>Facts\<close>

lemma set_by_first [simp]: "set (by_first key es) = set es"
  by (force simp: by_first_def set_dedup_first_keys[of id, simplified])

lemma in_out_edges [simp]: "((s, t, r), p) \<in> set (out_edges kg n) \<longleftrightarrow> s = n \<and> ((s, t, r), p) \<in> set (kg_edges kg)"
  by (auto simp: out_edges_def)

lemma in_in_edges [simp]: "((s, t, r), p) \<in> set (in_edges kg n) \<longleftrightarrow> t = n \<and> ((s, t, r), p) \<in> set (kg_edges kg)"
  by (auto simp: in_edges_def)

lemma in_kg_out: "(t, r, p) \<in> set (kg_out kg n) \<longleftrightarrow> kg_has kg n \<and> ((n, t, r), p) \<in> set (kg_edges kg)"
  unfolding kg_out_def by (auto simp: image_iff) (metis in_out_edges old.prod.case)

lemma in_all_edges: "((s, t, r), p) \<in> set (all_edges kg) \<longleftrightarrow> kg_has kg s \<and> ((s, t, r), p) \<in> set (kg_edges kg)"
  by (auto simp: all_edges_def kg_has_def)

lemma kg_has_add_node [simp]: "kg_has (kg_add_node kg n) x \<longleftrightarrow> x = gn_id n \<or> kg_has kg x"
  by (simp add: kg_has_def kg_add_node_def)

lemma kg_has_add_edge [simp]: "kg_has (kg_add_edge kg e) x \<longleftrightarrow> x = ge_source e \<or> x = ge_target e \<or> kg_has kg x"
  by (auto simp: kg_has_def kg_add_edge_def)

lemma kg_edges_add_node [simp]: "kg_edges (kg_add_node kg n) = kg_edges kg"
  by (simp add: kg_add_node_def)

lemma kg_find_has: "kg_find kg n = Some a \<Longrightarrow> kg_has kg n"
  by (force simp: kg_find_def kg_has_def dest: map_of_SomeD split: option.splits)

lemma kg_find_add_node [simp]: "kg_find (kg_add_node kg n) x = (if x = gn_id n then Some (gn_attrs n) else kg_find kg x)"
  by (simp add: kg_find_def kg_add_node_def)

lemma map_of_setdefault: "map_of (dict_setdefault d k v) x = (if x = k \<and> k \<notin> set (dict_keys d) then Some v else map_of d x)"
  by (simp add: dict_setdefault_def)

text \<open>Adding an edge changes no attribute of a node.\<close>

lemma kg_find_add_edge [simp]: "kg_find (kg_add_edge kg e) x = kg_find kg x"
proof -
  have "kg_find kg x = None" if "x \<notin> set (dict_keys (kg_nodes kg))"
    using that by (metis kg_find_has kg_has_def not_Some_eq)
  then show ?thesis
    by (cases "x \<in> set (dict_keys (kg_nodes kg))")
      (auto simp: kg_find_def kg_add_edge_def map_of_setdefault map_of_eq_None_iff[THEN iffD2])
qed

lemma in_dict_set: "(x, v) \<in> set (dict_set d k w) \<Longrightarrow> (x, v) = (k, w) \<or> (x, v) \<in> set d"
  by (induction d k w rule: dict_set.induct) (auto split: if_splits)

lemma dict_set_in: "(k, w) \<in> set (dict_set d k w)"
  by (induction d k w rule: dict_set.induct) auto

lemma dict_set_keeps: "(x, v) \<in> set d \<Longrightarrow> x \<noteq> k \<Longrightarrow> (x, v) \<in> set (dict_set d k w)"
  by (induction d k w rule: dict_set.induct) auto

end
