(* ===== verification/ScheduleResolver.thy ===== *)
theory ScheduleResolver
  imports Prelude
begin

text \<open>
  The header-driven column resolver, \<open>src/src/pipeline/schedule_resolver.py\<close>: label
  normalisation, schemas, the header band, the column map and its coverage, and the choice of the
  schedule's table on a page.

  A table is a list of rows of cells; a cell \<open>None\<close> is the \<open>None\<close> pdfplumber returns for an empty
  cell.  Sets of a schema that are only tested for membership are lists.
\<close>

section \<open>Normalisation\<close>

type_synonym cell = "string option"
type_synonym row = "cell list"
type_synonym table = "row list"

definition cell_text :: "cell \<Rightarrow> string" where
  "cell_text c = (case c of None \<Rightarrow> '''' | Some s \<Rightarrow> s)"

definition lower_alnum :: "char \<Rightarrow> bool" where
  "lower_alnum c \<longleftrightarrow> is_digit c \<or> is_lower c"

text \<open>Runs of characters outside \<open>[a-z0-9]\<close> become one blank.\<close>

fun blank_runs :: "string \<Rightarrow> string" where
  "blank_runs [] = []"
| "blank_runs [c] = (if lower_alnum c then [c] else '' '')"
| "blank_runs (c # d # cs) =
     (if lower_alnum c then c # blank_runs (d # cs)
      else if lower_alnum d then CHR '' '' # blank_runs (d # cs)
      else blank_runs (d # cs))"

definition normalize :: "cell \<Rightarrow> string" where
  "normalize c = py_strip (blank_runs (py_lower (cell_text c)))"

section \<open>Schemas\<close>

record schedule_schema =
  sch_name :: string
  sch_fields :: "(string \<times> string list) list"
  sch_core :: "string list"
  sch_group_tokens :: "string list"
  sch_ambiguous :: "string list"
  sch_shape :: string
  sch_row_key :: string
  sch_row_grammar :: string
  sch_merge_rows :: bool
  sch_qty_field :: "string option"
  sch_qty_unit :: string
  sch_signature :: "string list"

definition schema_default :: "string \<Rightarrow> (string \<times> string list) list \<Rightarrow> string list \<Rightarrow> schedule_schema" where
  "schema_default name flds core = \<lparr>sch_name = name, sch_fields = flds, sch_core = core,
     sch_group_tokens = [], sch_ambiguous = [], sch_shape = ''instance'', sch_row_key = '''',
     sch_row_grammar = ''mark'', sch_merge_rows = False, sch_qty_field = None, sch_qty_unit = ''EA'',
     sch_signature = []\<rparr>"

definition key_field :: "schedule_schema \<Rightarrow> string" where
  "key_field s = (if sch_row_key s \<noteq> '''' then sch_row_key s
     else case sch_core s of [] \<Rightarrow> '''' | f # _ \<Rightarrow> f)"

definition door_schema :: schedule_schema where
  "door_schema = (schema_default ''door''
     [(''door_mark'', [''number'', ''mark'', ''door number'', ''door no'']),
      (''fire_rating_minutes'', [''fire rating'', ''fire rating minutes'', ''fire rating min'', ''rating'']),
      (''width'', [''width'']),
      (''height'', [''height'']),
      (''door_elevation_type'', [''door elevation'']),
      (''door_material'', [''door material'']),
      (''door_finish'', [''door finish'']),
      (''frame_elevation_type'', [''frame elevation'']),
      (''frame_material'', [''frame material'']),
      (''frame_finish'', [''frame finish'']),
      (''hardware_set'', [''hardware set'', ''hardware'', ''hw set'', ''hw'']),
      (''glass_film'', [''glass film'', ''film'']),
      (''glass_type'', [''glass type'', ''glazing'', ''glass'']),
      (''special_notes'', [''special notes and comments'', ''special notes'', ''notes'', ''comments'', ''remarks'']),
      (''location'', [''location'', ''room''])]
     [''door_mark'', ''width'', ''height'', ''door_material''])
     \<lparr>sch_group_tokens := [''door'', ''frame'', ''size''],
      sch_ambiguous := [''material'', ''finish'', ''elevation''],
      sch_row_key := ''door_mark'', sch_merge_rows := True, sch_signature := [''door'', ''schedule'']\<rparr>"

definition finish_schema :: schedule_schema where
  "finish_schema = (schema_default ''finish''
     [(''room_number'', [''number'', ''room number'', ''room no'', ''room'']),
      (''room_name'', [''name'', ''room name'']),
      (''floor_finish'', [''floor'', ''flooring'']),
      (''base_finish'', [''base'']),
      (''wall_finish'', [''wall'', ''walls'']),
      (''ceiling_finish'', [''ceiling'']),
      (''comments'', [''special notes and comments'', ''special notes'', ''notes'', ''comments'', ''remarks''])]
     [''room_number'', ''floor_finish'', ''base_finish'', ''wall_finish'', ''ceiling_finish''])
     \<lparr>sch_row_key := ''room_number'', sch_signature := [''finish'', ''schedule'']\<rparr>"

definition window_schema :: schedule_schema where
  "window_schema = (schema_default ''window''
     [(''mark'', [''mark'', ''window mark'', ''window'', ''type mark'']),
      (''window_type'', [''type'', ''window type'']),
      (''size'', [''size'', ''size width x height'', ''dimensions'']),
      (''daylight_area'', [''daylight area'', ''glass area'', ''glazing area'']),
      (''ventilation_area'', [''ventilation area'', ''vent area'', ''operable area'']),
      (''notes'', [''notes'', ''remarks'', ''comments''])]
     [''mark'', ''window_type'', ''size''])
     \<lparr>sch_shape := ''catalog'', sch_row_key := ''mark'', sch_signature := [''window'', ''schedule'']\<rparr>"

definition plumbing_fixture_schema :: schedule_schema where
  "plumbing_fixture_schema = (schema_default ''plumbing_fixture''
     [(''fixture_tag'', [''fixture tag'', ''tag'', ''mark'', ''fixture'']),
      (''description'', [''description'', ''fixture description'']),
      (''fixture_type'', [''type'']),
      (''manufacturer'', [''manufacturer'', ''mfr'', ''manufacture'']),
      (''model'', [''model'', ''model no'', ''model number'']),
      (''quantity'', [''quantity'', ''qty'', ''count'']),
      (''remarks'', [''plumbing remarks'', ''remarks'', ''notes'', ''comments''])]
     [''fixture_tag'', ''description''])
     \<lparr>sch_shape := ''catalog'', sch_row_key := ''fixture_tag'', sch_qty_field := Some ''quantity'',
      sch_signature := [''plumbing'', ''fixture'']\<rparr>"

definition lighting_fixture_schema :: schedule_schema where
  "lighting_fixture_schema = (schema_default ''lighting_fixture''
     [(''fixture_tag'', [''type'', ''fixture type'', ''tag'', ''mark'', ''symbol'', ''fixture'']),
      (''description'', [''description'', ''fixture description'', ''luminaire'']),
      (''manufacturer'', [''manufacturer'', ''mfr'', ''manufacture'']),
      (''model'', [''model'', ''catalog'', ''catalog number'', ''catalog no'']),
      (''lamp'', [''lamp'', ''lamps'', ''lamp type'', ''load'']),
      (''driver'', [''driver'', ''ballast'']),
      (''remarks'', [''remarks'', ''notes'', ''comments''])]
     [''fixture_tag'', ''description''])
     \<lparr>sch_shape := ''catalog'', sch_row_key := ''fixture_tag'', sch_signature := [''lighting'', ''fixture'']\<rparr>"

definition camera_schema :: schedule_schema where
  "camera_schema = (schema_default ''camera''
     [(''device_number'', [''device number'', ''camera number'', ''number'']),
      (''room_number'', [''room number'', ''room'']),
      (''room_name'', [''room name'', ''name'']),
      (''camera_type'', [''camera type'']),
      (''make_model'', [''make model'', ''make & model'', ''make'']),
      (''reference'', [''reference detail'', ''reference''])]
     [''device_number'', ''camera_type''])
     \<lparr>sch_row_key := ''device_number'', sch_row_grammar := ''free'', sch_signature := [''camera'', ''schedule'']\<rparr>"

definition security_device_schema :: schedule_schema where
  "security_device_schema = (schema_default ''security_device''
     [(''device_number'', [''device number'', ''number'']),
      (''room_number'', [''room number'', ''room'']),
      (''room_name'', [''room name'', ''name'']),
      (''device_type'', [''device type'']),
      (''make'', [''make'', ''model'']),
      (''reference'', [''reference detail'', ''reference''])]
     [''device_number'', ''device_type''])
     \<lparr>sch_row_key := ''device_number'', sch_row_grammar := ''free'', sch_signature := [''security'', ''device'']\<rparr>"

section \<open>Matching a label\<close>

definition prefix_match :: "string \<Rightarrow> string \<Rightarrow> bool" where
  "prefix_match label syn \<longleftrightarrow> length label \<ge> 3 \<and> (prefix syn label \<or> prefix label syn)"

definition match_label :: "string \<Rightarrow> schedule_schema \<Rightarrow> string option" where
  "match_label label s =
     (if label = '''' then None
      else case find (\<lambda>(f, syns). label \<in> set syns) (sch_fields s) of
        Some (f, _) \<Rightarrow> Some f
      | None \<Rightarrow> map_option fst (find (\<lambda>(f, syns). list_ex (prefix_match label) syns) (sch_fields s)))"

definition is_title :: "string list \<Rightarrow> bool" where
  "is_title cells = (let nonempty = filter (\<lambda>c. c \<noteq> '''') cells in
     length nonempty \<le> 1 \<or> list_all (\<lambda>c. py_contains c ''schedule'') nonempty)"

definition header_tokens :: "schedule_schema \<Rightarrow> string set" where
  "header_tokens s = (\<Union>(f, syns) \<in> set (sch_fields s). set syns) \<union> set (sch_group_tokens s) \<union> set (sch_ambiguous s)"

definition header_hit :: "string set \<Rightarrow> string \<Rightarrow> bool" where
  "header_hit htoks c \<longleftrightarrow> length c \<ge> 2 \<and> (\<exists>t \<in> htoks. c = t \<or> prefix t c \<or> prefix c t)"

text \<open>The loop returns at the second hit.\<close>

fun header_scan :: "string set \<Rightarrow> nat \<Rightarrow> nat \<Rightarrow> string list \<Rightarrow> bool" where
  "header_scan htoks min_hits hits [] = False"
| "header_scan htoks min_hits hits (c # cs) =
     (if header_hit htoks c
      then (if Suc hits \<ge> min_hits then True else header_scan htoks min_hits (Suc hits) cs)
      else header_scan htoks min_hits hits cs)"

definition row_is_header :: "string list \<Rightarrow> string set \<Rightarrow> bool" where
  "row_is_header cells htoks = header_scan htoks 2 0 cells"

section \<open>Resolving the columns\<close>

record column_map =
  cm_schema :: string
  cm_mapping :: "(nat, string) dict"
  cm_data_start :: nat
  cm_coverage :: rat
  cm_unmapped :: "nat list"

definition by_field :: "column_map \<Rightarrow> (string, nat) dict" where
  "by_field cm = dict_of (map (\<lambda>(c, f). (f, c)) (cm_mapping cm))"

definition field_at :: "column_map \<Rightarrow> nat \<Rightarrow> string option" where
  "field_at cm c = map_of (cm_mapping cm) c"

text \<open>The header band and the first data row.\<close>

fun scan_band :: "string set \<Rightarrow> nat \<Rightarrow> string list list \<Rightarrow> nat list \<times> nat" where
  "scan_band htoks i [] = ([], i)"
| "scan_band htoks i (cells # rows) =
     (if is_title cells then scan_band htoks (Suc i) rows
      else if row_is_header cells htoks
        then (let (band, start) = scan_band htoks (Suc i) rows in (i # band, start))
      else ([], i))"

definition nearest_group :: "string list list \<Rightarrow> nat list \<Rightarrow> nat \<Rightarrow> nat \<Rightarrow> string list \<Rightarrow> string option" where
  "nearest_group nrm band primary_row col tokens =
     find (\<lambda>x. x \<in> set tokens)
       (concat (map (\<lambda>r. rev (take (Suc col) (nrm ! r))) (filter (\<lambda>r. r < primary_row) band)))"

text \<open>The lowest non-empty header cell of a column, and its row.\<close>

definition primary_label :: "string list list \<Rightarrow> nat list \<Rightarrow> nat \<Rightarrow> (string \<times> nat) option" where
  "primary_label nrm band c =
     (let hits = filter (\<lambda>r. c < length (nrm ! r) \<and> nrm ! r ! c \<noteq> '''') band in
      if hits = [] then None else Some (nrm ! last hits ! c, last hits))"

definition column_label :: "string list list \<Rightarrow> nat list \<Rightarrow> schedule_schema \<Rightarrow> nat \<Rightarrow> string option" where
  "column_label nrm band s c =
     (case primary_label nrm band c of None \<Rightarrow> None
      | Some (primary, r) \<Rightarrow>
          Some (if primary \<in> set (sch_ambiguous s)
            then (case nearest_group nrm band r c (sch_group_tokens s) of
                None \<Rightarrow> primary | Some g \<Rightarrow> g @ '' '' @ primary)
            else primary))"

fun map_columns :: "string list list \<Rightarrow> nat list \<Rightarrow> schedule_schema \<Rightarrow> nat list \<Rightarrow>
    (nat, string) dict \<times> nat list \<Rightarrow> (nat, string) dict \<times> nat list" where
  "map_columns nrm band s [] acc = acc"
| "map_columns nrm band s (c # cs) (mapping, unmapped) =
     (case column_label nrm band s c of
        None \<Rightarrow> map_columns nrm band s cs (mapping, unmapped)
      | Some label \<Rightarrow> (case match_label label s of
          Some f \<Rightarrow> if f \<notin> snd ` set mapping
            then map_columns nrm band s cs (mapping @ [(c, f)], unmapped)
            else map_columns nrm band s cs (mapping, unmapped @ [c])
        | None \<Rightarrow> map_columns nrm band s cs (mapping, unmapped @ [c])))"

definition table_width :: "table \<Rightarrow> nat" where
  "table_width t = fold max (map length t) 0"

definition coverage_of :: "schedule_schema \<Rightarrow> string set \<Rightarrow> rat" where
  "coverage_of s flds =
     (if sch_core s = [] then 0
      else round_dec 3 (of_nat (length (filter (\<lambda>f. f \<in> flds) (sch_core s))) / of_nat (length (sch_core s))))"

definition resolve_columns :: "table \<Rightarrow> schedule_schema \<Rightarrow> column_map" where
  "resolve_columns t s =
     (let nrm = map (map normalize) t;
          (band, data_start) = scan_band (header_tokens s) 0 nrm;
          (mapping, unmapped) = map_columns nrm band s [0..<table_width t] ([], [])
      in \<lparr>cm_schema = sch_name s, cm_mapping = mapping, cm_data_start = data_start,
          cm_coverage = coverage_of s (snd ` set mapping), cm_unmapped = unmapped\<rparr>)"

text \<open>The best table: the loop keeps the first strictly better \<open>(coverage, rows)\<close>.\<close>

definition key_less :: "rat \<times> int \<Rightarrow> rat \<times> int \<Rightarrow> bool" where
  "key_less a b \<longleftrightarrow> fst a < fst b \<or> (fst a = fst b \<and> snd a < snd b)"

fun best_table :: "schedule_schema \<Rightarrow> rat \<Rightarrow> nat \<Rightarrow> table list \<Rightarrow> table option \<Rightarrow> rat \<times> int \<Rightarrow> table option" where
  "best_table s min_cov min_cols [] best key = best"
| "best_table s min_cov min_cols (t # ts) best key =
     (if t = [] \<or> length (hd t) < min_cols then best_table s min_cov min_cols ts best key
      else (let cov = cm_coverage (resolve_columns t s); k = (cov, int (length t)) in
        if cov \<ge> min_cov \<and> key_less key k then best_table s min_cov min_cols ts (Some t) k
        else best_table s min_cov min_cols ts best key))"

definition select_schedule_table :: "table list \<Rightarrow> schedule_schema \<Rightarrow> rat \<Rightarrow> nat \<Rightarrow> table option" where
  "select_schedule_table ts s min_cov min_cols =
     best_table s min_cov min_cols ts None (min_cov - 1 / 10 ^ 9, -1)"

section \<open>Facts about the column map\<close>

lemma match_label_field: "match_label label s = Some f \<Longrightarrow> f \<in> fst ` set (sch_fields s)"
proof -
  assume m: "match_label label s = Some f"
  let ?e = "find (\<lambda>(f, syns). label \<in> set syns) (sch_fields s)"
  let ?p = "find (\<lambda>(f, syns). list_ex (prefix_match label) syns) (sch_fields s)"
  from m consider x where "?e = Some x" "f = fst x" | x where "?p = Some x" "f = fst x"
    by (cases ?e; cases ?p) (auto simp: match_label_def split: if_splits)
  then show ?thesis by cases (auto dest: find_SomeD)
qed

text \<open>An exact synonym wins over any prefix match, whatever the order of the fields.\<close>

lemma match_label_exact:
  assumes "label \<noteq> ''''" and "(f, syns) \<in> set (sch_fields s)" and "label \<in> set syns"
    and "\<And>f' syns'. (f', syns') \<in> set (sch_fields s) \<Longrightarrow> label \<in> set syns' \<Longrightarrow> f' = f"
  shows "match_label label s = Some f"
proof -
  obtain x where x: "find (\<lambda>(f, syns). label \<in> set syns) (sch_fields s) = Some x"
    using assms(2,3) by (cases "find (\<lambda>(f, syns). label \<in> set syns) (sch_fields s)") (auto simp: find_None_iff)
  then have "x \<in> set (sch_fields s)" "label \<in> set (snd x)"
    by (auto dest: find_SomeD split: prod.splits)
  with assms(4)[of "fst x" "snd x"] have "fst x = f" by simp
  with x assms(1) show ?thesis by (auto simp: match_label_def split: prod.splits)
qed

definition map_inv :: "schedule_schema \<Rightarrow> nat \<Rightarrow> (nat, string) dict \<times> nat list \<Rightarrow> bool" where
  "map_inv s n acc \<longleftrightarrow> distinct (map snd (fst acc)) \<and> sorted_wrt (<) (map fst (fst acc)) \<and>
     (\<forall>c f. (c, f) \<in> set (fst acc) \<longrightarrow> c < n \<and> f \<in> fst ` set (sch_fields s)) \<and>
     fst ` set (fst acc) \<inter> set (snd acc) = {} \<and> (\<forall>c \<in> set (snd acc). c < n)"

lemma map_columns_inv:
  assumes "map_inv s n acc"
  shows "map_inv s (n + k) (map_columns nrm band s [n..<n + k] acc)"
  using assms
proof (induction k arbitrary: n acc)
  case 0
  then show ?case by simp
next
  case (Suc k)
  obtain mp un where acc: "acc = (mp, un)" by force
  have u: "[n..<n + Suc k] = n # [Suc n..<Suc n + k]" by (simp add: upt_conv_Cons)
  have w: "map_inv s (Suc n) acc" using Suc.prems by (auto simp: map_inv_def less_Suc_eq)
  have fresh: "n \<notin> fst ` set mp" using Suc.prems by (fastforce simp: map_inv_def acc)
  then have skip: "map_inv s (Suc n) (mp, un @ [n])"
    using Suc.prems by (auto simp: map_inv_def acc less_Suc_eq)
  have take: "map_inv s (Suc n) (mp @ [(n, f)], un)" if "f \<in> fst ` set (sch_fields s)" "f \<notin> snd ` set mp" for f
    using Suc.prems that by (auto simp: map_inv_def acc less_Suc_eq sorted_wrt_append)
  define acc' where "acc' = (case column_label nrm band s n of None \<Rightarrow> acc
     | Some l \<Rightarrow> (case match_label l s of Some f \<Rightarrow> if f \<notin> snd ` set mp then (mp @ [(n, f)], un) else (mp, un @ [n])
         | None \<Rightarrow> (mp, un @ [n])))"
  have a: "map_columns nrm band s [n..<n + Suc k] acc = map_columns nrm band s [Suc n..<Suc n + k] acc'"
    unfolding u acc acc'_def by (simp add: acc del: upt_Suc split: option.split)
  have "map_inv s (Suc n) acc'"
    using w skip take match_label_field by (auto simp: acc'_def split: option.split)
  note a = a this
  from Suc.IH[OF a(2)] show ?case by (simp only: a(1)) simp
qed

lemma map_inv_start: "map_inv s 0 ([], [])"
  by (simp add: map_inv_def)

lemma resolve_columns_map:
  fixes t s
  defines "cm \<equiv> resolve_columns t s"
  shows "map_inv s (table_width t) (cm_mapping cm, cm_unmapped cm)"
proof -
  obtain band start where b: "scan_band (header_tokens s) 0 (map (map normalize) t) = (band, start)" by force
  obtain mp un where m: "map_columns (map (map normalize) t) band s [0..<table_width t] ([], []) = (mp, un)" by force
  have "map_inv s (0 + table_width t) (map_columns (map (map normalize) t) band s [0..<0 + table_width t] ([], []))"
    by (rule map_columns_inv[OF map_inv_start])
  then show ?thesis by (simp add: cm_def resolve_columns_def b m)
qed

text \<open>One column per field and one field per column; both inside the table and the schema.\<close>

lemma resolve_columns_injective:
  fixes t s
  defines "cm \<equiv> resolve_columns t s"
  shows "distinct (map fst (cm_mapping cm))" "distinct (map snd (cm_mapping cm))"
    and "(c, f) \<in> set (cm_mapping cm) \<Longrightarrow> c < table_width t \<and> f \<in> fst ` set (sch_fields s)"
    and "c \<in> set (cm_unmapped cm) \<Longrightarrow> c \<notin> fst ` set (cm_mapping cm)"
  using resolve_columns_map[of s t] by (auto simp: map_inv_def cm_def strict_sorted_iff)

lemma map_fst_swap: "map fst (map (\<lambda>(c, f). (f, c)) xs) = map snd xs"
  by (induction xs) auto

lemma map_of_swap:
  assumes "distinct (map fst xs)" and "distinct (map snd xs)"
  shows "(map_of (map (\<lambda>(c, f). (f, c)) xs) f = Some c) = (map_of xs c = Some f)"
proof -
  have d: "distinct (map fst (map (\<lambda>(c, f). (f, c)) xs))" unfolding map_fst_swap by (rule assms(2))
  have "(map_of (map (\<lambda>(c, f). (f, c)) xs) f = Some c) = ((f, c) \<in> (\<lambda>(c, f). (f, c)) ` set xs)"
    unfolding map_of_eq_Some_iff[OF d] by simp
  also have "\<dots> = ((c, f) \<in> set xs)" by force
  finally show ?thesis using assms(1) by (simp add: map_of_eq_Some_iff)
qed

lemma dict_of_distinct: "distinct (map fst kvs) \<Longrightarrow> map_of (dict_of kvs) = map_of kvs"
  by (simp add: dict_of_id)

text \<open>\<open>by_field\<close> inverts the mapping.\<close>

lemma by_field_iff:
  "map_of (by_field (resolve_columns t s)) f = Some c \<longleftrightarrow> field_at (resolve_columns t s) c = Some f"
proof -
  note d = resolve_columns_injective(1,2)[of t s]
  have "map_of (by_field (resolve_columns t s)) = map_of (map (\<lambda>(c, f). (f, c)) (cm_mapping (resolve_columns t s)))"
    unfolding by_field_def by (rule dict_of_distinct) (unfold map_fst_swap, rule d(2))
  with map_of_swap[OF d] show ?thesis by (simp add: field_at_def)
qed

lemma coverage_unit: "0 \<le> coverage_of s flds \<and> coverage_of s flds \<le> 1"
proof (cases "sch_core s = []")
  case False
  have "length (filter (\<lambda>f. f \<in> flds) (sch_core s)) \<le> length (sch_core s)" by (rule length_filter_le)
  with False show ?thesis by (simp add: coverage_of_def round_dec_unit)
qed (simp add: coverage_of_def)

lemma coverage_full: "sch_core s \<noteq> [] \<Longrightarrow> set (sch_core s) \<subseteq> flds \<Longrightarrow> coverage_of s flds = 1"
proof -
  assume "sch_core s \<noteq> []" "set (sch_core s) \<subseteq> flds"
  moreover from this(2) have "filter (\<lambda>f. f \<in> flds) (sch_core s) = sch_core s" by (auto simp: filter_id_conv)
  ultimately show ?thesis by (simp add: coverage_of_def)
qed

text \<open>The table chosen is one of the page's, wide enough, covered enough, and no other beats it.\<close>

definition eligible :: "schedule_schema \<Rightarrow> rat \<Rightarrow> nat \<Rightarrow> table \<Rightarrow> bool" where
  "eligible s min_cov min_cols t \<longleftrightarrow> t \<noteq> [] \<and> min_cols \<le> length (hd t) \<and> min_cov \<le> cm_coverage (resolve_columns t s)"

abbreviation table_rank :: "schedule_schema \<Rightarrow> table \<Rightarrow> rat \<times> int" where
  "table_rank s t \<equiv> (cm_coverage (resolve_columns t s), int (length t))"

lemma key_less_trans: "key_less a b \<Longrightarrow> key_less b c \<Longrightarrow> key_less a c"
  by (auto simp: key_less_def)

lemma key_not_less_trans: "\<not> key_less b a \<Longrightarrow> key_less b c \<Longrightarrow> \<not> key_less c a"
  by (auto simp: key_less_def)

lemma key_less_antisym: "key_less a b \<Longrightarrow> \<not> key_less b a"
  by (auto simp: key_less_def)

lemma best_table_Cons:
  "best_table s mc n (t # ts) best key =
     (if eligible s mc n t \<and> key_less key (table_rank s t) then best_table s mc n ts (Some t) (table_rank s t)
      else best_table s mc n ts best key)"
  by (auto simp: Let_def eligible_def)

text \<open>The invariant of the scan: the rank kept is the rank of the table kept.\<close>

lemma best_table_some:
  assumes "best_table s mc n ts (Some b) (table_rank s b) = r"
  obtains t where "r = Some t" "t = b \<or> (t \<in> set ts \<and> eligible s mc n t)"
    "\<not> key_less (table_rank s t) (table_rank s b)"
    "\<And>t'. t' \<in> set ts \<Longrightarrow> eligible s mc n t' \<Longrightarrow> \<not> key_less (table_rank s t) (table_rank s t')"
proof -
  have "\<exists>t. r = Some t \<and> (t = b \<or> (t \<in> set ts \<and> eligible s mc n t)) \<and>
    \<not> key_less (table_rank s t) (table_rank s b) \<and>
    (\<forall>t' \<in> set ts. eligible s mc n t' \<longrightarrow> \<not> key_less (table_rank s t) (table_rank s t'))"
    using assms
  proof (induction ts arbitrary: b)
    case Nil
    then show ?case by (simp add: key_less_def)
  next
    case (Cons x xs)
    show ?case
    proof (cases "eligible s mc n x \<and> key_less (table_rank s b) (table_rank s x)")
      case True
      from Cons.prems have "best_table s mc n xs (Some x) (table_rank s x) = r"
        unfolding best_table_Cons using True by simp
      from Cons.IH[OF this] obtain t where t: "r = Some t" "t = x \<or> (t \<in> set xs \<and> eligible s mc n t)"
        "\<not> key_less (table_rank s t) (table_rank s x)"
        "\<forall>t' \<in> set xs. eligible s mc n t' \<longrightarrow> \<not> key_less (table_rank s t) (table_rank s t')" by blast
      have "\<not> key_less (table_rank s t) (table_rank s b)"
        using True t(3) key_less_trans by blast
      moreover have "t = b \<or> (t \<in> set (x # xs) \<and> eligible s mc n t)" using t(2) True by auto
      ultimately show ?thesis using t(1,3,4) by (intro exI[of _ t]) simp
    next
      case False
      from Cons.prems have "best_table s mc n xs (Some b) (table_rank s b) = r"
        unfolding best_table_Cons using False by simp
      from Cons.IH[OF this] obtain t where t: "r = Some t" "t = b \<or> (t \<in> set xs \<and> eligible s mc n t)"
        "\<not> key_less (table_rank s t) (table_rank s b)"
        "\<forall>t' \<in> set xs. eligible s mc n t' \<longrightarrow> \<not> key_less (table_rank s t) (table_rank s t')" by blast
      have "eligible s mc n x \<Longrightarrow> \<not> key_less (table_rank s t) (table_rank s x)"
        using False t(3) by (auto simp: key_less_def)
      moreover have "t = b \<or> (t \<in> set (x # xs) \<and> eligible s mc n t)" using t(2) by auto
      ultimately show ?thesis using t(1,3,4) by (intro exI[of _ t]) simp
    qed
  qed
  with that show thesis by blast
qed

lemma best_table_none:
  assumes "\<And>t. eligible s mc n t \<Longrightarrow> key_less key (table_rank s t)"
  shows "case best_table s mc n ts None key of
      None \<Rightarrow> \<forall>t \<in> set ts. \<not> eligible s mc n t
    | Some t \<Rightarrow> t \<in> set ts \<and> eligible s mc n t \<and>
        (\<forall>t' \<in> set ts. eligible s mc n t' \<longrightarrow> \<not> key_less (table_rank s t) (table_rank s t'))"
proof (induction ts)
  case (Cons x xs)
  show ?case
  proof (cases "eligible s mc n x")
    case True
    obtain t where t: "best_table s mc n xs (Some x) (table_rank s x) = Some t" "t = x \<or> (t \<in> set xs \<and> eligible s mc n t)"
      "\<not> key_less (table_rank s t) (table_rank s x)"
      "\<And>t'. t' \<in> set xs \<Longrightarrow> eligible s mc n t' \<Longrightarrow> \<not> key_less (table_rank s t) (table_rank s t')"
      by (rule best_table_some[OF refl]) blast
    have "best_table s mc n (x # xs) None key = Some t"
      unfolding best_table_Cons using True assms[OF True] t(1) by simp
    with t True show ?thesis by (simp del: best_table.simps) blast
  next
    case False
    then have "best_table s mc n (x # xs) None key = best_table s mc n xs None key"
      unfolding best_table_Cons by simp
    with Cons False show ?thesis by (simp del: best_table.simps split: option.splits)
  qed
qed simp

lemma select_schedule_table_spec:
  "select_schedule_table ts s mc n = Some t \<Longrightarrow>
     t \<in> set ts \<and> eligible s mc n t \<and>
     (\<forall>t' \<in> set ts. eligible s mc n t' \<longrightarrow> \<not> key_less (table_rank s t) (table_rank s t'))"
  "select_schedule_table ts s mc n = None \<Longrightarrow> \<forall>t \<in> set ts. \<not> eligible s mc n t"
proof -
  have base: "\<forall>t. eligible s mc n t \<longrightarrow> key_less (mc - 1 / 10 ^ 9, -1) (table_rank s t)"
  proof (intro allI impI)
    fix t assume "eligible s mc n t"
    then have "mc \<le> cm_coverage (resolve_columns t s)" by (simp add: eligible_def)
    moreover have "mc - 1 / 10 ^ 9 < mc" by simp
    ultimately have "mc - 1 / 10 ^ 9 < cm_coverage (resolve_columns t s)" by linarith
    then show "key_less (mc - 1 / 10 ^ 9, -1) (table_rank s t)" by (simp add: key_less_def)
  qed
  note spec = best_table_none[of s mc n "(mc - 1 / 10 ^ 9, -1)" ts, OF base[rule_format]]
  show "select_schedule_table ts s mc n = Some t \<Longrightarrow>
     t \<in> set ts \<and> eligible s mc n t \<and>
     (\<forall>t' \<in> set ts. eligible s mc n t' \<longrightarrow> \<not> key_less (table_rank s t) (table_rank s t'))"
    using spec by (auto simp: select_schedule_table_def)
  show "select_schedule_table ts s mc n = None \<Longrightarrow> \<forall>t \<in> set ts. \<not> eligible s mc n t"
    using spec by (auto simp: select_schedule_table_def)
qed

section \<open>Properties of resolution\<close>

text \<open>
  Column resolution is a partial injection: no column is given two fields and no field two
  columns, only columns of the table and fields of the schema occur, an unmapped column is not
  also mapped, and the coverage is a fraction.
\<close>

theorem resolution_injective:
  "distinct (map fst (cm_mapping (resolve_columns t s))) \<and> distinct (map snd (cm_mapping (resolve_columns t s))) \<and>
   fst ` set (cm_mapping (resolve_columns t s)) \<subseteq> {..<table_width t} \<and>
   snd ` set (cm_mapping (resolve_columns t s)) \<subseteq> fst ` set (sch_fields s) \<and>
   set (cm_unmapped (resolve_columns t s)) \<inter> fst ` set (cm_mapping (resolve_columns t s)) = {} \<and>
   0 \<le> cm_coverage (resolve_columns t s) \<and> cm_coverage (resolve_columns t s) \<le> 1"
proof -
  let ?cm = "resolve_columns t s"
  have cov: "cm_coverage ?cm = coverage_of s (snd ` set (cm_mapping ?cm))"
    by (simp add: resolve_columns_def Let_def split: prod.splits)
  note inj = resolve_columns_injective[where t = t and s = s]
  have "fst ` set (cm_mapping ?cm) \<subseteq> {..<table_width t}" "snd ` set (cm_mapping ?cm) \<subseteq> fst ` set (sch_fields s)"
    using inj(3) by auto
  moreover have "set (cm_unmapped ?cm) \<inter> fst ` set (cm_mapping ?cm) = {}" using inj(4) by blast
  ultimately show ?thesis using inj(1,2) coverage_unit[of s] by (simp add: cov)
qed

text \<open>
  The table chosen for a schema is a best one: it is eligible (wide enough, covered enough)
  and no eligible table has a higher coverage, or the same coverage and more rows; \<open>None\<close> means no
  table is eligible.
\<close>

theorem best_table_selected:
  "case select_schedule_table ts s min_cov min_cols of
     Some t \<Rightarrow> t \<in> set ts \<and> eligible s min_cov min_cols t \<and>
       list_all (\<lambda>t'. \<not> (eligible s min_cov min_cols t' \<and> key_less (table_rank s t) (table_rank s t'))) ts
   | None \<Rightarrow> list_all (\<lambda>t. \<not> eligible s min_cov min_cols t) ts"
  using select_schedule_table_spec[where ts = ts and s = s and mc = min_cov and n = min_cols]
  by (auto simp: list_all_iff split: option.split)

end
