(* ===== verification/ScheduleParser.thy ===== *)
theory ScheduleParser
  imports ScheduleResolver
begin

text \<open>
  Row selection and the door and finish parsers of
  \<open>src/src/pipeline/phase2_schedule_parser.py\<close>.  The regular expressions are recognisers on the
  characters (ASCII); pdfplumber's \<open>extract_tables\<close> is an argument, the tables of the page.
\<close>

section \<open>Cells\<close>

text \<open>\<open>re.sub(r"\s*\n\s*", " ", s)\<close>: a run of white space with a newline in it becomes one blank.\<close>

function clean_runs :: "string \<Rightarrow> string" where
  "clean_runs [] = []"
| "clean_runs (c # cs) =
     (if is_space c
      then (let run = takeWhile is_space (c # cs); rest = dropWhile is_space (c # cs)
            in (if CHR 10 \<in> set run then '' '' else run) @ clean_runs rest)
      else c # clean_runs cs)"
  by pat_completeness auto

termination clean_runs
  by (relation "measure length") (auto simp: le_imp_less_Suc length_dropWhile_le)

definition clean :: "cell \<Rightarrow> string" where
  "clean c = clean_runs (py_strip (cell_text c))"

text \<open>\<open>_clean(row[c]) if c < len(row) else ""\<close>.\<close>

definition clean_at :: "row \<Rightarrow> nat \<Rightarrow> string" where
  "clean_at r c = (if c < length r then clean (r ! c) else '''')"

section \<open>Mark grammars\<close>

definition mark_body :: "string \<Rightarrow> bool" where
  "mark_body s = (let t = dropWhile is_digit s in
     length (takeWhile is_digit s) \<ge> 2 \<and> length t \<le> 2 \<and> list_all is_upper t)"

text \<open>\<open>[NS][A-Z]?\d{2,}[A-Z]{0,2}\<close>\<close>

fun door_mark_re :: "string \<Rightarrow> bool" where
  "door_mark_re [] = False"
| "door_mark_re (c # s) \<longleftrightarrow> c \<in> {CHR ''N'', CHR ''S''} \<and>
     (mark_body s \<or> (case s of [] \<Rightarrow> False | u # s' \<Rightarrow> is_upper u \<and> mark_body s'))"

text \<open>\<open>[NS]\d{3}[A-Z]?\<close>\<close>

fun room_re :: "string \<Rightarrow> bool" where
  "room_re [] = False"
| "room_re (c # s) \<longleftrightarrow> c \<in> {CHR ''N'', CHR ''S''} \<and> length s \<in> {3, 4} \<and>
     list_all is_digit (take 3 s) \<and> list_all is_upper (drop 3 s)"

definition looks_like_mark :: "string \<Rightarrow> bool" where
  "looks_like_mark s \<longleftrightarrow> 2 \<le> length s \<and> length s \<le> 8 \<and> list_all is_alnum s \<and> list_ex is_digit s"

section \<open>Rows\<close>

definition chunk :: "string list \<Rightarrow> nat \<Rightarrow> nat \<Rightarrow> string" where
  "chunk toks k i = py_join '' '' (take k (drop (i * k) toks))"

definition expand_cell :: "nat \<Rightarrow> cell \<Rightarrow> string list" where
  "expand_cell n c = (let toks = py_split (clean c) in
     if toks \<noteq> [] \<and> length toks mod n = 0
     then map (chunk toks (length toks div n)) [0..<n]
     else clean c # replicate (n - 1) '''')"

definition expand_merged :: "row \<Rightarrow> nat \<Rightarrow> row list" where
  "expand_merged r mark_col =
     (let n = length (py_split (clean (r ! mark_col))); per_col = map (expand_cell n) r
      in map (\<lambda>i. map (\<lambda>col. Some (col ! i)) per_col) [0..<n])"

fun select_door_rows :: "table \<Rightarrow> nat \<Rightarrow> (string \<Rightarrow> bool) \<Rightarrow> (string \<Rightarrow> bool) \<Rightarrow> row list" where
  "select_door_rows [] mark_col is_mark is_token = []"
| "select_door_rows (r # rs) mark_col is_mark is_token =
     (let c0 = clean_at r mark_col; tokens = py_split c0 in
      (if length tokens \<ge> 2 \<and> list_all is_token tokens then expand_merged r mark_col
       else if c0 \<noteq> '''' \<and> is_mark c0 then [r] else [])
      @ select_door_rows rs mark_col is_mark is_token)"

definition min_builtin_marks :: nat where
  "min_builtin_marks = 5"

definition select_door_rows_auto :: "table \<Rightarrow> nat \<Rightarrow> row list" where
  "select_door_rows_auto t mark_col =
     (let builtin = select_door_rows t mark_col door_mark_re door_mark_re in
      if length builtin \<ge> min_builtin_marks then builtin
      else select_door_rows t mark_col looks_like_mark looks_like_mark)"

definition select_finish_rows :: "table \<Rightarrow> nat \<Rightarrow> (string \<Rightarrow> bool) \<Rightarrow> row list" where
  "select_finish_rows t room_col is_room =
     filter (\<lambda>r. room_col < length r \<and> is_room (clean (r ! room_col))) t"

definition select_finish_rows_auto :: "table \<Rightarrow> nat \<Rightarrow> row list" where
  "select_finish_rows_auto t room_col =
     (let builtin = select_finish_rows t room_col room_re in
      if length builtin \<ge> min_builtin_marks then builtin
      else select_finish_rows t room_col looks_like_mark)"

section \<open>Door entries\<close>

record door_entry =
  de_mark :: string
  de_fire_rating :: "nat option"
  de_width :: string
  de_height :: string
  de_elevation :: string
  de_material :: string
  de_finish :: string
  de_frame_elevation :: "string option"
  de_frame_material :: string
  de_frame_finish :: string
  de_hardware_set :: string
  de_glass_film :: "string option"
  de_glass_type :: "string option"
  de_special_notes :: "string option"
  de_building :: string

text \<open>\<open>int(m.group())\<close> of the first run of digits.\<close>

definition digits_value :: "string \<Rightarrow> nat" where
  "digits_value ds = foldl (\<lambda>n c. 10 * n + (of_char c - 48)) 0 ds"

definition first_number :: "string \<Rightarrow> nat option" where
  "first_number s = (let ds = takeWhile is_digit (dropWhile (\<lambda>c. \<not> is_digit c) s) in
     if ds = [] then None else Some (digits_value ds))"

definition or_none :: "string \<Rightarrow> string option" where
  "or_none s = (if s = '''' then None else Some s)"

text \<open>The local \<open>get\<close>: the cleaned cell of a field's column.\<close>

definition get_field :: "column_map \<Rightarrow> row \<Rightarrow> string \<Rightarrow> string" where
  "get_field cm r f = (case map_of (by_field cm) f of None \<Rightarrow> '''' | Some c \<Rightarrow> clean_at r c)"

definition build_entry :: "row \<Rightarrow> column_map \<Rightarrow> door_entry" where
  "build_entry r cm = (let get = get_field cm r; mark = get ''door_mark'' in
     \<lparr>de_mark = mark,
      de_fire_rating = (case map_of (by_field cm) ''fire_rating_minutes'' of None \<Rightarrow> None
        | Some c \<Rightarrow> if c < length r then first_number (cell_text (r ! c)) else None),
      de_width = get ''width'', de_height = get ''height'',
      de_elevation = get ''door_elevation_type'', de_material = get ''door_material'',
      de_finish = get ''door_finish'', de_frame_elevation = or_none (get ''frame_elevation_type''),
      de_frame_material = get ''frame_material'', de_frame_finish = get ''frame_finish'',
      de_hardware_set = get ''hardware_set'', de_glass_film = or_none (get ''glass_film''),
      de_glass_type = or_none (get ''glass_type''), de_special_notes = or_none (get ''special_notes''),
      de_building = (case mark of [] \<Rightarrow> '''' | c # _ \<Rightarrow>
        if c = CHR ''N'' then ''North'' else if c = CHR ''S'' then ''South'' else '''')\<rparr>)"

text \<open>\<open>cm.by_field.get(f, 0)\<close>\<close>

definition key_column :: "column_map \<Rightarrow> string \<Rightarrow> nat" where
  "key_column cm f = (case map_of (by_field cm) f of None \<Rightarrow> 0 | Some c \<Rightarrow> c)"

definition parse_door_schedule :: "table list \<Rightarrow> exn + door_entry list" where
  "parse_door_schedule tables =
     (case select_schedule_table tables door_schema (3/4) 6 of
        None \<Rightarrow> Inl (Exn ''ValueError'' ''No door schedule table (by header coverage) found on page.'')
      | Some t \<Rightarrow> (let cm = resolve_columns t door_schema in
          Inr (map (\<lambda>r. build_entry r cm) (select_door_rows_auto t (key_column cm ''door_mark'')))))"

definition extraction_confidence :: "door_entry list \<Rightarrow> rat" where
  "extraction_confidence es =
     (if es = [] then 0
      else (let valid = of_nat (length (filter (\<lambda>e. door_mark_re (de_mark e)) es)) / of_nat (length es);
                filled = of_nat (length (filter (\<lambda>e. de_material e \<noteq> '''' \<and> de_frame_material e \<noteq> '''') es))
                         / of_nat (length es)
            in round_dec 3 ((valid + filled) / 2)))"

section \<open>Finish entries\<close>

record finish_entry =
  fe_room_number :: string
  fe_room_name :: string
  fe_floor :: string
  fe_base :: string
  fe_wall :: string
  fe_ceiling :: string
  fe_comments :: "string option"

definition build_finish_entry :: "row \<Rightarrow> column_map \<Rightarrow> finish_entry" where
  "build_finish_entry r cm = (let get = get_field cm r in
     \<lparr>fe_room_number = get ''room_number'', fe_room_name = get ''room_name'',
      fe_floor = get ''floor_finish'', fe_base = get ''base_finish'', fe_wall = get ''wall_finish'',
      fe_ceiling = get ''ceiling_finish'', fe_comments = or_none (get ''comments'')\<rparr>)"

fun finish_rows :: "column_map \<Rightarrow> nat \<Rightarrow> row list \<Rightarrow> string set \<times> finish_entry list \<Rightarrow> string set \<times> finish_entry list" where
  "finish_rows cm room_col [] acc = acc"
| "finish_rows cm room_col (r # rs) (seen, entries) =
     (let room = clean_at r room_col in
      if room \<in> seen then finish_rows cm room_col rs (seen, entries)
      else finish_rows cm room_col rs (insert room seen, entries @ [build_finish_entry r cm]))"

fun finish_tables :: "table list \<Rightarrow> string set \<times> finish_entry list \<Rightarrow> string set \<times> finish_entry list" where
  "finish_tables [] acc = acc"
| "finish_tables (t # ts) acc =
     (if t = [] \<or> length (hd t) < 6 then finish_tables ts acc
      else (let cm = resolve_columns t finish_schema in
        if cm_coverage cm < 3/4 then finish_tables ts acc
        else (let room_col = key_column cm ''room_number'' in
          finish_tables ts (finish_rows cm room_col (select_finish_rows_auto t room_col) acc))))"

definition parse_finish_schedule :: "table list \<Rightarrow> finish_entry list" where
  "parse_finish_schedule tables = snd (finish_tables tables ({}, []))"

section \<open>Facts\<close>

lemma get_field_eq: "get_field (resolve_columns t s) r f =
    (case map_of (by_field (resolve_columns t s)) f of None \<Rightarrow> '''' | Some c \<Rightarrow> clean_at r c)"
  by (simp add: get_field_def)

lemma length_expand_cell [simp]: "0 < n \<Longrightarrow> length (expand_cell n c) = n"
  by (simp add: expand_cell_def Let_def)

text \<open>A merged row gives as many rows as its mark cell has tokens, each as wide as the row, and the
  i-th row carries the i-th mark.\<close>

lemma expand_merged_shape:
  "length (expand_merged r mc) = length (py_split (clean (r ! mc)))"
  "x \<in> set (expand_merged r mc) \<Longrightarrow> length x = length r"
  by (auto simp: expand_merged_def Let_def)

lemma expand_merged_mark:
  assumes "mc < length r" and "i < length (py_split (clean (r ! mc)))"
  shows "expand_merged r mc ! i ! mc = Some (py_split (clean (r ! mc)) ! i)"
proof -
  let ?toks = "py_split (clean (r ! mc))"
  have ne: "?toks \<noteq> []" using assms(2) by auto
  have "expand_cell (length ?toks) (r ! mc) = map (chunk ?toks 1) [0..<length ?toks]"
    using ne by (simp add: expand_cell_def Let_def)
  moreover have "chunk ?toks 1 i = ?toks ! i"
    using assms(2) by (simp add: chunk_def take_Suc_conv_app_nth[of 0] hd_drop_conv_nth take_Suc)
  ultimately show ?thesis using assms by (simp add: expand_merged_def Let_def)
qed

text \<open>The finish schedule never lists a room twice.\<close>

lemma finish_rows_distinct:
  assumes "finish_rows cm c rs (seen, es) = (seen', es')"
    and "distinct (map fe_room_number es)" and "fe_room_number ` set es \<subseteq> seen"
    and "\<And>r. fe_room_number (build_finish_entry r cm) = clean_at r c"
  shows "distinct (map fe_room_number es') \<and> fe_room_number ` set es' \<subseteq> seen'"
  using assms
proof (induction rs arbitrary: seen es)
  case (Cons r rs)
  show ?case
  proof (cases "clean_at r c \<in> seen")
    case True
    with Cons show ?thesis by (simp add: Let_def)
  next
    case False
    then have step: "finish_rows cm c rs (insert (clean_at r c) seen, es @ [build_finish_entry r cm]) = (seen', es')"
      using Cons.prems(1) by (simp add: Let_def)
    show ?thesis
      by (rule Cons.IH[OF step _ _ Cons.prems(4)]) (use Cons.prems False in auto)
  qed
qed simp

lemma finish_key:
  assumes "map_of (by_field cm) ''room_number'' \<noteq> None"
  shows "fe_room_number (build_finish_entry r cm) = clean_at r (key_column cm ''room_number'')"
  using assms by (auto simp: build_finish_entry_def Let_def get_field_def key_column_def)

lemma extraction_confidence_unit: "0 \<le> extraction_confidence es \<and> extraction_confidence es \<le> 1"
proof (cases "es = []")
  case False
  have frac: "0 \<le> (of_nat (length (filter P es)) / of_nat (length es) :: rat)"
    "(of_nat (length (filter P es)) / of_nat (length es) :: rat) \<le> 1" for P
    using False length_filter_le[of P es] by simp_all
  let ?v = "of_nat (length (filter (\<lambda>e. door_mark_re (de_mark e)) es)) / of_nat (length es) :: rat"
  let ?f = "of_nat (length (filter (\<lambda>e. de_material e \<noteq> '''' \<and> de_frame_material e \<noteq> '''') es)) / of_nat (length es) :: rat"
  have "0 \<le> ?v" "?v \<le> 1" "0 \<le> ?f" "?f \<le> 1" by (rule frac)+
  moreover have "0 \<le> x \<Longrightarrow> x \<le> 1 \<Longrightarrow> 0 \<le> y \<Longrightarrow> y \<le> 1 \<Longrightarrow> 0 \<le> (x + y) / 2 \<and> (x + y) / 2 \<le> 1" for x y :: rat
    by simp
  ultimately have "0 \<le> (?v + ?f) / 2 \<and> (?v + ?f) / 2 \<le> 1" by blast
  with round_dec_unit[of "(?v + ?f) / 2" 3] False show ?thesis by (simp add: extraction_confidence_def Let_def)
qed (simp add: extraction_confidence_def)

text \<open>Every selected door row carries a mark of the grammar that selected it.\<close>

lemma select_door_rows_token:
  assumes "r \<in> set (select_door_rows t mc P P)"
  shows "\<exists>r0 \<in> set t. r = r0 \<and> P (clean_at r0 mc) \<or>
     (\<exists>i < length (py_split (clean_at r0 mc)). list_all P (py_split (clean_at r0 mc)) \<and> r = expand_merged r0 mc ! i)"
  using assms
proof (induction t)
  case (Cons x xs)
  show ?case
  proof (cases "r \<in> set (select_door_rows xs mc P P)")
    case True
    with Cons.IH show ?thesis by auto
  next
    case False
    let ?toks = "py_split (clean_at x mc)"
    consider (merged) "length ?toks \<ge> 2" "list_all P ?toks" "r \<in> set (expand_merged x mc)"
      | (single) "P (clean_at x mc)" "r = x"
      using Cons.prems False by (auto simp: Let_def split: if_splits)
    then show ?thesis
    proof cases
      case merged
      have "mc < length x" using merged(1) by (cases "mc < length x") (auto simp: clean_at_def py_split_def)
      then have "length (expand_merged x mc) = length ?toks" by (simp add: expand_merged_shape clean_at_def)
      with merged(3) obtain i where "i < length ?toks" "r = expand_merged x mc ! i"
        by (auto simp: in_set_conv_nth)
      with merged(2) show ?thesis by auto
    qed auto
  qed
qed simp

text \<open>
  The marks a mark column holds, said of its cells alone: what the row selection, the splitting of
  merged rows and the reading of the split rows amount to.
\<close>

definition cell_marks :: "(string \<Rightarrow> bool) \<Rightarrow> string \<Rightarrow> string list" where
  "cell_marks P s = (let words = py_split s in
     if 2 \<le> length words \<and> list_all P words then words else if s \<noteq> '''' \<and> P s then [s] else [])"

definition table_marks :: "table \<Rightarrow> nat \<Rightarrow> string list" where
  "table_marks t c = (let marks = (\<lambda>P. concat (map (\<lambda>r. cell_marks P (clean_at r c)) t)) in
     if 5 \<le> length (marks door_mark_re) then marks door_mark_re else marks looks_like_mark)"

lemma clean_word: "w \<in> set (py_split s) \<Longrightarrow> clean (Some w) = w"
proof -
  assume "w \<in> set (py_split s)"
  then have ns: "\<forall>c \<in> set w. \<not> is_space c" by (rule py_split_word)
  then have "clean_runs w = w" by (induction w) auto
  moreover have "py_strip w = w"
    using ns by (simp add: py_strip_def py_lstrip_def dropWhile_eq_self_iff) (metis hd_in_set dropWhile_eq_self_iff rev_rev_ident set_rev)
  ultimately show ?thesis by (simp add: clean_def cell_text_def)
qed

lemma expand_merged_marks:
  assumes "c < length r"
  shows "map (\<lambda>x. clean_at x c) (expand_merged r c) = py_split (clean_at r c)"
proof (rule nth_equalityI)
  show "length (map (\<lambda>x. clean_at x c) (expand_merged r c)) = length (py_split (clean_at r c))"
    using assms by (simp add: expand_merged_shape clean_at_def)
  fix i assume "i < length (map (\<lambda>x. clean_at x c) (expand_merged r c))"
  then have i: "i < length (py_split (clean (r ! c)))" by (simp add: expand_merged_shape)
  then have "length (expand_merged r c ! i) = length r"
    by (intro expand_merged_shape(2)[of _ r c]) (simp add: expand_merged_shape(1))
  with i assms show "map (\<lambda>x. clean_at x c) (expand_merged r c) ! i = py_split (clean_at r c) ! i"
    by (simp add: expand_merged_shape(1) clean_at_def expand_merged_mark clean_word[OF nth_mem])
qed

lemma select_door_rows_marks:
  "map (\<lambda>r. clean_at r c) (select_door_rows t c P P) = concat (map (\<lambda>r. cell_marks P (clean_at r c)) t)"
proof (induction t)
  case (Cons r rs)
  show ?case
  proof (cases "2 \<le> length (py_split (clean_at r c)) \<and> list_all P (py_split (clean_at r c))")
    case True
    then have "c < length r" by (cases "c < length r") (auto simp: clean_at_def py_split_def)
    from expand_merged_marks[OF this] True Cons show ?thesis by (simp add: Let_def cell_marks_def)
  next
    case False
    with Cons show ?thesis by (auto simp: Let_def cell_marks_def)
  qed
qed simp

lemma select_door_marks: "map (\<lambda>r. clean_at r c) (select_door_rows_auto t c) = table_marks t c"
proof -
  have "length (select_door_rows t c P P) = length (concat (map (\<lambda>r. cell_marks P (clean_at r c)) t))" for P
    using arg_cong[OF select_door_rows_marks[of c t P], of length] by simp
  then show ?thesis
    by (simp add: select_door_rows_auto_def table_marks_def Let_def select_door_rows_marks min_builtin_marks_def)
qed

end
