(* ===== verification/ShardPlanner.thy ===== *)
theory ShardPlanner
  imports Prelude
begin

text \<open>
  Shard planning, \<open>src/service/takeoff/planner.py\<close>, and the light reduce of
  \<open>src/service/takeoff/reduce.py\<close>.

  The planner's contract is the locale \<open>shard_planner\<close>: windows that follow one another without gap
  or overlap from the first page to the last.  \<open>plan_shard_windows\<close> is proved to provide it, with
  the bound on the candidates per window the memory budget rests on.
\<close>

section \<open>The planner\<close>

record shard_window =
  win_index :: nat
  win_start :: int
  win_end :: int
  win_candidates :: nat

text \<open>The cut after every \<open>cap\<close>-th candidate.\<close>

fun cut_boundaries :: "int \<Rightarrow> int \<Rightarrow> int list \<Rightarrow> int list" where
  "cut_boundaries cap count [] = []"
| "cut_boundaries cap count (page # cands) =
     (if count + 1 = cap then (page + 1) # cut_boundaries cap 0 cands
      else cut_boundaries cap (count + 1) cands)"

definition in_window :: "int list \<Rightarrow> int \<Rightarrow> int \<Rightarrow> nat" where
  "in_window cands start end' = length (filter (\<lambda>p. start \<le> p \<and> p < end') cands)"

text \<open>The loop over \<open>zip(edges, edges[1:])\<close>; an empty window is skipped and takes no index.\<close>

fun windows_of :: "int list \<Rightarrow> nat \<Rightarrow> int list \<Rightarrow> shard_window list" where
  "windows_of cands n (s # e # es) =
     (if s \<ge> e then windows_of cands n (e # es)
      else \<lparr>win_index = n, win_start = s, win_end = e, win_candidates = in_window cands s e\<rparr>
           # windows_of cands (Suc n) (e # es))"
| "windows_of cands n es = []"

definition plan_shard_windows :: "int list \<Rightarrow> int \<Rightarrow> int \<Rightarrow> int \<Rightarrow> int option \<Rightarrow> exn + shard_window list" where
  "plan_shard_windows candidate_pages total_pages cap page_start page_end =
     (if total_pages < 0 then Inl (Exn ''ValueError'' (''total_pages must be >= 0, got '' @ show_int total_pages))
      else if cap < 1 then Inl (Exn ''ValueError'' (''max_candidates_per_shard must be >= 1, got '' @ show_int cap))
      else (let lo = max page_start 0;
                hi = min (case page_end of None \<Rightarrow> total_pages | Some e \<Rightarrow> e) total_pages in
        if lo \<ge> hi then Inr []
        else (let cands = sort (remdups (filter (\<lambda>p. lo \<le> p \<and> p < hi) candidate_pages)) in
          if int (length cands) \<le> cap
          then Inr [\<lparr>win_index = 0, win_start = lo, win_end = hi, win_candidates = length cands\<rparr>]
          else Inr (windows_of cands 0 (lo # cut_boundaries cap 0 cands @ [hi])))))"

definition win_pages :: "shard_window \<Rightarrow> int list" where
  "win_pages w = [win_start w..win_end w - 1]"

section \<open>Edges\<close>

lemma cut_boundaries_set: "set (cut_boundaries cap count cands) \<subseteq> (\<lambda>p. p + 1) ` set cands"
  by (induction cap count cands rule: cut_boundaries.induct) auto

lemma cut_boundaries_sorted:
  "sorted cands \<Longrightarrow> sorted (cut_boundaries cap count cands)"
proof (induction cap count cands rule: cut_boundaries.induct)
  case (2 cap count page cands)
  then show ?case using cut_boundaries_set[of cap 0 cands] by auto
qed simp

lemma edges_sorted:
  assumes "sorted cands" and "\<And>p. p \<in> set cands \<Longrightarrow> lo \<le> p \<and> p < hi" and "lo < hi"
  shows "sorted (lo # cut_boundaries cap count cands @ [hi])"
proof -
  have "lo \<le> b \<and> b \<le> hi" if "b \<in> set (cut_boundaries cap count cands)" for b
    using that cut_boundaries_set[of cap count cands] assms(2) by force
  with assms show ?thesis by (auto simp: sorted_append cut_boundaries_sorted)
qed

text \<open>Windows over sorted edges are contiguous, cover the range and are numbered in order.\<close>

fun contiguous :: "int \<Rightarrow> shard_window list \<Rightarrow> int \<Rightarrow> bool" where
  "contiguous lo [] hi \<longleftrightarrow> lo = hi"
| "contiguous lo (w # ws) hi \<longleftrightarrow> win_start w = lo \<and> lo < win_end w \<and> contiguous (win_end w) ws hi"

lemma contiguous_le: "contiguous lo ws hi \<Longrightarrow> lo \<le> hi"
  by (induction ws arbitrary: lo) force+

lemma contiguous_pages: "contiguous lo ws hi \<Longrightarrow> concat (map win_pages ws) = [lo..hi - 1]"
proof (induction ws arbitrary: lo)
  case (Cons w ws)
  from Cons.prems have c: "contiguous (win_end w) ws hi" and s: "win_start w = lo" "lo < win_end w" by auto
  from contiguous_le[OF c] have "win_end w \<le> hi" .
  with s Cons.IH[OF c] show ?case
    using upto_split1[of lo "win_end w - 1" "hi - 1"] by (auto simp: win_pages_def upto_split2[of lo "win_end w - 1" "hi - 1"])
qed simp

lemma windows_of_contiguous:
  "sorted (s # es) \<Longrightarrow> contiguous s (windows_of cands n (s # es)) (last (s # es))"
proof (induction es arbitrary: s n)
  case (Cons e es)
  then show ?case using Cons.IH[of e n] Cons.IH[of e "Suc n"] by (auto split: if_splits)
qed simp

lemma windows_of_index:
  "map win_index (windows_of cands n es) = [n..<n + length (windows_of cands n es)]"
proof (induction cands n es rule: windows_of.induct)
  case (1 cands n s e es)
  then show ?case by (simp add: upt_rec)
qed auto

lemma windows_of_count:
  "w \<in> set (windows_of cands n es) \<Longrightarrow> win_candidates w = in_window cands (win_start w) (win_end w)"
  by (induction cands n es rule: windows_of.induct) (auto split: if_splits)

section \<open>The bound on candidates per window\<close>

lemma in_window_Cons: "in_window (p # cands) s e = (if s \<le> p \<and> p < e then 1 else 0) + in_window cands s e"
  by (simp add: in_window_def)

lemma in_window_none: "(\<And>p. p \<in> set cands \<Longrightarrow> \<not> (s \<le> p \<and> p < e)) \<Longrightarrow> in_window cands s e = 0"
  by (simp add: in_window_def filter_empty_conv)

text \<open>
  The generalisation over the loop counter: \<open>count\<close> candidates are already in the first window.
\<close>

lemma cut_bound:
  assumes "sorted_wrt (<) cands" and "\<And>p. p \<in> set cands \<Longrightarrow> s \<le> p \<and> p < hi" and "0 \<le> count" "count < cap"
  shows "int (in_window cands s (hd (cut_boundaries cap count cands @ [hi]))) + count \<le> cap"
    and "(a, b) \<in> set (zip (cut_boundaries cap count cands @ [hi]) (tl (cut_boundaries cap count cands @ [hi])))
      \<Longrightarrow> int (in_window cands a b) \<le> cap"
proof (atomize (full), use assms in \<open>induction cands arbitrary: s count\<close>)
  case Nil
  then show ?case by (simp add: in_window_def)
next
  case (Cons p cands)
  have sub: "p < q \<and> q < hi" if "q \<in> set cands" for q using Cons.prems that by auto
  have sw: "sorted_wrt (<) cands" using Cons.prems by simp
  show ?case
  proof (cases "count + 1 = cap")
    case True
    let ?bs = "cut_boundaries cap 0 cands @ [hi]"
    have ih: "int (in_window cands (p + 1) (hd ?bs)) + 0 \<le> cap \<and>
        ((a, b) \<in> set (zip ?bs (tl ?bs)) \<longrightarrow> int (in_window cands a b) \<le> cap)"
      by (rule Cons.IH) (use sw sub Cons.prems in \<open>auto simp: add1_zle_eq\<close>)
    have later: "p < x" if "x \<in> set ?bs" for x
      using that cut_boundaries_set[of cap 0 cands] sub Cons.prems by force
    have "in_window cands s (p + 1) = 0" using sub by (intro in_window_none) force
    then have first: "int (in_window (p # cands) s (p + 1)) + count \<le> cap"
      using True by (simp add: in_window_Cons)
    have keep: "in_window (p # cands) x y = in_window cands x y" if "(x, y) \<in> set (zip ((p + 1) # ?bs) ?bs)" for x y
      using set_zip_leftD[OF that] later[of x] by (auto simp: in_window_Cons)
    have zip_bs: "zip ((p + 1) # ?bs) ?bs = (p + 1, hd ?bs) # zip ?bs (tl ?bs)"
      by (cases ?bs) auto
    have "int (in_window (p # cands) a b) \<le> cap" if "(a, b) \<in> set (zip ((p + 1) # ?bs) ?bs)"
      using that ih unfolding keep[OF that] by (auto simp: zip_bs)
    then show ?thesis using first True by simp
  next
    case False
    let ?bs = "cut_boundaries cap (count + 1) cands @ [hi]"
    have ih: "int (in_window cands s (hd ?bs)) + (count + 1) \<le> cap \<and>
        ((a, b) \<in> set (zip ?bs (tl ?bs)) \<longrightarrow> int (in_window cands a b) \<le> cap)"
      by (rule Cons.IH) (use sw sub False Cons.prems in force)+
    have later: "p < x" if "x \<in> set ?bs" for x
      using that cut_boundaries_set[of cap "count + 1" cands] sub Cons.prems by force
    have "int (in_window (p # cands) a b) \<le> cap" if "(a, b) \<in> set (zip ?bs (tl ?bs))"
      using that ih later[OF set_zip_leftD[OF that]] by (simp add: in_window_Cons)
    moreover have "int (in_window (p # cands) s (hd ?bs)) + count \<le> cap"
      using ih Cons.prems(2)[of p] by (simp add: in_window_Cons)
    ultimately show ?thesis using False by simp
  qed
qed

lemma windows_of_edges:
  "w \<in> set (windows_of cands n es) \<Longrightarrow> (win_start w, win_end w) \<in> set (zip es (tl es))"
  by (induction cands n es rule: windows_of.induct) (auto split: if_splits)

definition range_lo :: "int \<Rightarrow> int" where
  "range_lo page_start = max page_start 0"

definition range_hi :: "int option \<Rightarrow> int \<Rightarrow> int" where
  "range_hi page_end total_pages = min (case page_end of None \<Rightarrow> total_pages | Some e \<Rightarrow> e) total_pages"

lemma plan_cases:
  assumes "plan_shard_windows cs total_pages cap ps pe = Inr ws"
  obtains (empty) "range_hi pe total_pages \<le> range_lo ps" "ws = []" "0 \<le> total_pages" "1 \<le> cap"
  | (single) n where "range_lo ps < range_hi pe total_pages" "0 \<le> total_pages" "1 \<le> cap"
      "ws = [\<lparr>win_index = 0, win_start = range_lo ps, win_end = range_hi pe total_pages, win_candidates = n\<rparr>]"
      "n = length (remdups (filter (\<lambda>p. range_lo ps \<le> p \<and> p < range_hi pe total_pages) cs))" "int n \<le> cap"
  | (sharded) cands where "range_lo ps < range_hi pe total_pages" "0 \<le> total_pages" "1 \<le> cap"
      "cands = sort (remdups (filter (\<lambda>p. range_lo ps \<le> p \<and> p < range_hi pe total_pages) cs))"
      "ws = windows_of cands 0 (range_lo ps # cut_boundaries cap 0 cands @ [range_hi pe total_pages])"
      "cap < int (length cands)"
  using assms
  by (auto simp: plan_shard_windows_def Let_def range_lo_def[symmetric] range_hi_def[symmetric] not_le not_less
      split: if_splits)

lemma plan_contiguous:
  assumes "plan_shard_windows cs total_pages cap ps pe = Inr ws" and "range_lo ps < range_hi pe total_pages"
  shows "contiguous (range_lo ps) ws (range_hi pe total_pages)" and "map win_index ws = [0..<length ws]"
proof (atomize (full), use assms(1) in \<open>cases rule: plan_cases\<close>)
  case empty
  with assms(2) show "contiguous (range_lo ps) ws (range_hi pe total_pages) \<and> map win_index ws = [0..<length ws]"
    by simp
next
  case (single n)
  then show "contiguous (range_lo ps) ws (range_hi pe total_pages) \<and> map win_index ws = [0..<length ws]" by simp
next
  case (sharded cands)
  have "sorted (range_lo ps # cut_boundaries cap 0 cands @ [range_hi pe total_pages])"
    by (rule edges_sorted) (use sharded in auto)
  from windows_of_contiguous[OF this, of cands 0] windows_of_index[of cands 0]
  show "contiguous (range_lo ps) ws (range_hi pe total_pages) \<and> map win_index ws = [0..<length ws]"
    by (simp add: sharded(5))
qed

lemma plan_outside:
  assumes "plan_shard_windows cs total_pages cap ps pe = Inr ws" and "range_hi pe total_pages \<le> range_lo ps"
  shows "ws = []"
  using assms(1) by (cases rule: plan_cases) (use assms(2) in auto)

lemma plan_bounded:
  assumes "plan_shard_windows cs total_pages cap ps pe = Inr ws" and "w \<in> set ws"
  shows "int (win_candidates w) \<le> cap"
  using assms(1)
proof (cases rule: plan_cases)
  case empty
  with assms(2) show ?thesis by simp
next
  case (single n)
  with assms(2) show ?thesis by simp
next
  case (sharded cands)
  let ?lo = "range_lo ps" and ?hi = "range_hi pe total_pages"
  let ?bs = "cut_boundaries cap 0 cands @ [?hi]"
  have sw: "sorted_wrt (<) cands" by (simp add: sharded(4) strict_sorted_iff)
  have in_range: "?lo \<le> p \<and> p < ?hi" if "p \<in> set cands" for p using that by (simp add: sharded(4))
  note b = cut_bound[of cands ?lo ?hi 0 cap, OF sw in_range]
  have w: "(win_start w, win_end w) \<in> set (zip (?lo # ?bs) ?bs)"
    using windows_of_edges[of w cands 0 "?lo # ?bs"] assms(2) by (simp add: sharded(5))
  have "zip (?lo # ?bs) ?bs = (?lo, hd ?bs) # zip ?bs (tl ?bs)" by (cases ?bs) auto
  with w consider "win_start w = ?lo" "win_end w = hd ?bs"
    | "(win_start w, win_end w) \<in> set (zip ?bs (tl ?bs))" by auto
  then have "int (in_window cands (win_start w) (win_end w)) \<le> cap"
    by cases (use b sharded(3) in auto)
  then show ?thesis using windows_of_count[of w cands 0] assms(2) by (simp add: sharded(5))
qed

lemma concat_concat_map: "concat (map (\<lambda>x. concat (map f (g x))) xs) = concat (map f (concat (map g xs)))"
  by (induction xs) auto

section \<open>The reduce\<close>

text \<open>
  \<open>merge_partials\<close> over the partials in window order.  An item is any value with a schedule and a
  mark; the two projections are the dictionary look-ups \<open>it["schedule"]\<close> and \<open>it["mark"]\<close>.
\<close>

fun merge_loop :: "('a \<Rightarrow> string) \<Rightarrow> ('a \<Rightarrow> string) \<Rightarrow> (string \<times> string) set \<Rightarrow> 'a list \<Rightarrow> 'a list" where
  "merge_loop schedule mark seen [] = []"
| "merge_loop schedule mark seen (it # its) =
     (let key = (schedule it, mark it) in
      if mark it = '''' \<or> key \<in> seen then merge_loop schedule mark seen its
      else it # merge_loop schedule mark (insert key seen) its)"

definition merge_partials :: "('a \<Rightarrow> string) \<Rightarrow> ('a \<Rightarrow> string) \<Rightarrow> 'a list list \<Rightarrow> 'a list" where
  "merge_partials schedule mark partials = merge_loop schedule mark {} (concat partials)"

abbreviation item_key :: "('a \<Rightarrow> string) \<Rightarrow> ('a \<Rightarrow> string) \<Rightarrow> 'a \<Rightarrow> string \<times> string" where
  "item_key schedule mark \<equiv> \<lambda>it. (schedule it, mark it)"

lemma merge_loop_dedup:
  "merge_loop schedule mark seen its =
     dedup_first (item_key schedule mark) seen (filter (\<lambda>it. mark it \<noteq> '''') its)"
  by (induction its arbitrary: seen) (simp_all add: Let_def)

lemma merge_partials_dedup: "merge_partials schedule mark ps =
    dedup_first (item_key schedule mark) {} (filter (\<lambda>it. mark it \<noteq> '''') (concat ps))"
  by (simp add: merge_partials_def merge_loop_dedup)

text \<open>Merging the merged windows is merging everything at once.\<close>

lemma merge_partials_idem:
  "merge_partials schedule mark (map (\<lambda>its. merge_partials schedule mark [its]) itss) =
     merge_partials schedule mark itss"
proof -
  have f: "filter P (dedup_first k {} (filter P xs)) = dedup_first k {} (filter P xs)" for P k xs
    using set_dedup_first[of k "{}" "filter P xs"] by (auto simp: filter_id_conv)
  show ?thesis
    using dedup_first_concat[of "item_key schedule mark" "{}" "map (filter (\<lambda>it. mark it \<noteq> '''')) itss"]
    by (simp add: merge_partials_dedup filter_concat f o_def)
qed

lemma merge_partials_keys:
  "distinct (map (\<lambda>it. (schedule it, mark it)) (merge_partials schedule mark ps))"
  "it \<in> set (merge_partials schedule mark ps) \<Longrightarrow> mark it \<noteq> '''' \<and> (\<exists>p \<in> set ps. it \<in> set p)"
  using set_dedup_first[of "\<lambda>it. (schedule it, mark it)" "{}" "filter (\<lambda>it. mark it \<noteq> '''') (concat ps)"]
  by (auto simp: merge_partials_dedup distinct_dedup_first)

lemma merge_partials_complete:
  assumes "p \<in> set ps" "it \<in> set p" "mark it \<noteq> ''''"
  shows "\<exists>it' \<in> set (merge_partials schedule mark ps). schedule it' = schedule it \<and> mark it' = mark it"
proof -
  have "(schedule it, mark it) \<in> (\<lambda>it. (schedule it, mark it)) ` set (merge_partials schedule mark ps)"
    unfolding merge_partials_dedup set_dedup_first_keys using assms by auto
  then show ?thesis by auto
qed

section \<open>The planner's contract\<close>

text \<open>
  What the orchestrator relies on: the windows of a plan follow one another from the first page of
  the range to the last, are numbered in order, and hold at most \<open>cap\<close> candidates each.
\<close>

locale shard_planner =
  fixes plan :: "int list \<Rightarrow> int \<Rightarrow> int \<Rightarrow> int \<Rightarrow> int option \<Rightarrow> exn + shard_window list"
  assumes contig: "plan cs n cap ps pe = Inr ws \<Longrightarrow> range_lo ps < range_hi pe n \<Longrightarrow>
      contiguous (range_lo ps) ws (range_hi pe n)"
    and numbered: "plan cs n cap ps pe = Inr ws \<Longrightarrow> range_lo ps < range_hi pe n \<Longrightarrow> map win_index ws = [0..<length ws]"
    and outside: "plan cs n cap ps pe = Inr ws \<Longrightarrow> range_hi pe n \<le> range_lo ps \<Longrightarrow> ws = []"
    and bounded: "plan cs n cap ps pe = Inr ws \<Longrightarrow> w \<in> set ws \<Longrightarrow> int (win_candidates w) \<le> cap"
begin

text \<open>Every page of the range is in exactly one window, in page order.\<close>

lemma pages: "plan cs n cap ps pe = Inr ws \<Longrightarrow> concat (map win_pages ws) = [range_lo ps..range_hi pe n - 1]"
proof (cases "range_lo ps < range_hi pe n")
  case True
  then show "plan cs n cap ps pe = Inr ws \<Longrightarrow> ?thesis" by (intro contiguous_pages contig)
next
  case False
  then have le: "range_hi pe n \<le> range_lo ps" by (rule leI)
  assume "plan cs n cap ps pe = Inr ws"
  from outside[OF this le] le show ?thesis by simp
qed

lemma page_covered:
  assumes "plan cs n cap ps pe = Inr ws" and "range_lo ps \<le> p" "p < range_hi pe n"
  shows "\<exists>w \<in> set ws. p \<in> set (win_pages w)"
proof -
  have "p \<in> set (concat (map win_pages ws))" unfolding pages[OF assms(1)] using assms by simp
  then show ?thesis by auto
qed

lemma page_unique: "plan cs n cap ps pe = Inr ws \<Longrightarrow> distinct (concat (map win_pages ws))"
  by (simp add: pages)

text \<open>
  Extraction window by window followed by the reduce is extraction of the whole range, for any
  extractor that reads page by page and keeps the first item of a key.
\<close>

lemma map_reduce:
  assumes "plan cs n cap ps pe = Inr ws"
  shows "merge_partials schedule mark (map (\<lambda>w. merge_loop schedule mark {} (concat (map f (win_pages w)))) ws)
    = merge_loop schedule mark {} (concat (map f [range_lo ps..range_hi pe n - 1]))"
proof -
  have m: "merge_loop schedule mark {} xs = merge_partials schedule mark [xs]" for xs
    by (simp add: merge_partials_def)
  have "merge_partials schedule mark (map (\<lambda>w. merge_loop schedule mark {} (concat (map f (win_pages w)))) ws)
    = merge_partials schedule mark (map (\<lambda>its. merge_partials schedule mark [its]) (map (\<lambda>w. concat (map f (win_pages w))) ws))"
    by (simp add: m o_def)
  also have "\<dots> = merge_partials schedule mark (map (\<lambda>w. concat (map f (win_pages w))) ws)"
    by (rule merge_partials_idem)
  also have "\<dots> = merge_loop schedule mark {} (concat (map f (concat (map win_pages ws))))"
    by (simp add: merge_partials_def map_concat concat_concat_map o_def)
  finally show ?thesis by (simp only: pages[OF assms])
qed

end

interpretation planner: shard_planner plan_shard_windows
proof
  fix cs n cap ps pe ws
  assume p: "plan_shard_windows cs n cap ps pe = Inr ws"
  show "range_lo ps < range_hi pe n \<Longrightarrow> contiguous (range_lo ps) ws (range_hi pe n)"
    "range_lo ps < range_hi pe n \<Longrightarrow> map win_index ws = [0..<length ws]"
    by (rule plan_contiguous[OF p], assumption)+
  show "range_hi pe n \<le> range_lo ps \<Longrightarrow> ws = []" by (rule plan_outside[OF p])
  show "int (win_candidates w) \<le> cap" if "w \<in> set ws" for w by (rule plan_bounded[OF p that])
qed

section \<open>Properties of a plan\<close>

text \<open>
  C15.  A shard plan partitions the page range: the windows' pages, concatenated, are exactly the
  pages of the (clamped) range in order, each once; the windows are numbered from 0; and none
  holds more candidate pages than the memory budget allows.
\<close>

theorem shard_plan_partitions:
  assumes "plan_shard_windows cs total_pages cap ps pe = Inr ws"
  shows "concat (map win_pages ws) = [range_lo ps..range_hi pe total_pages - 1] \<and>
    map win_index ws = [0..<length ws] \<and> list_all (\<lambda>w. int (win_candidates w) \<le> cap) ws"
proof -
  have "map win_index ws = [0..<length ws]"
  proof (cases "range_lo ps < range_hi pe total_pages")
    case True
    then show ?thesis by (rule planner.numbered[OF assms])
  next
    case False
    then show ?thesis using planner.outside[OF assms] by simp
  qed
  with planner.pages[OF assms] planner.bounded[OF assms] show ?thesis by (simp add: list_all_iff)
qed

theorem shard_plan_partitions_witness:
  "case plan_shard_windows [1, 3, 4] 6 1 0 None of
     Inr ws \<Rightarrow> length ws = 4 \<and> concat (map win_pages ws) = [0, 1, 2, 3, 4, 5]
   | Inl e \<Rightarrow> False"
proof -
  have v: "case plan_shard_windows [1, 3, 4] 6 1 0 None of Inr ws \<Rightarrow> length ws = 4 | Inl e \<Rightarrow> False" by code_simp
  then obtain ws where ws: "plan_shard_windows [1, 3, 4] 6 1 0 None = Inr ws" by (auto split: sum.splits)
  have "[range_lo 0..range_hi None 6 - 1] = [0, 1, 2, 3, 4, 5]" by code_simp
  with shard_plan_partitions[OF ws] v ws show ?thesis by simp
qed

end
