(* ===== verification/Quantities.thy ===== *)
theory Quantities
  imports ScheduleParser ShardPlanner
begin

text \<open>
  Schema-driven quantity extraction, \<open>src/src/takeoff/quantity_schedules.py\<close>: tags, row selection,
  the quantity of a row, uniform items, and the driver over a page range; and the map step of
  \<open>src/service/takeoff/pipeline_adapter.py\<close> over a shard window.

  A document is seen through \<open>doc_view\<close>: what \<open>Document.page(i)\<close> returns for each index, with
  the page's text, tables and positioned words as the (memoised, degrading) accessors return them.
\<close>

section \<open>Pages\<close>

record word =
  wd_x0 :: rat
  wd_y0 :: rat
  wd_x1 :: rat
  wd_y1 :: rat
  wd_text :: string

record page_view =
  pv_text :: string
  pv_tables :: "table list"
  pv_words :: "word list"
  pv_width :: rat
  pv_height :: rat

record doc_view =
  dv_file_id :: string
  dv_page_count :: int
  dv_page :: "int \<Rightarrow> exn + page_view"

section \<open>Numbers and tags\<close>

definition fraction_value :: "string \<Rightarrow> rat" where
  "fraction_value ds = of_nat (digits_value ds) / 10 ^ length ds"

text \<open>The value of the number a string starts with (digits, optional fraction).\<close>

definition leading_number :: "string \<Rightarrow> rat" where
  "leading_number s =
     (let ip = takeWhile is_digit s; rest = dropWhile is_digit s in
      of_nat (digits_value ip) +
      (case rest of
         c # d # r \<Rightarrow> if c = CHR ''.'' \<and> is_digit d then fraction_value (takeWhile is_digit (d # r)) else 0
       | _ \<Rightarrow> 0))"

text \<open>\<open>re.search(r"-?\d+(?:\.\d+)?", cell)\<close> and \<open>float\<close> of the match.\<close>

fun num_of :: "string \<Rightarrow> rat option" where
  "num_of [] = None"
| "num_of (c # s) =
     (if is_digit c then Some (leading_number (c # s))
      else if c = CHR ''-'' \<and> s \<noteq> [] \<and> is_digit (hd s) then Some (- leading_number s)
      else num_of s)"

text \<open>\<open>[A-Z]\<close> alone or \<open>[A-Z]{1,4}-?\d+[A-Z]?\<close>\<close>

definition catalog_tag_re :: "string \<Rightarrow> bool" where
  "catalog_tag_re s =
     ((length s = 1 \<and> list_all is_upper s) \<or>
      (let pre = takeWhile is_upper s; r = dropWhile is_upper s;
           r = (case r of c # r' \<Rightarrow> if c = CHR ''-'' then r' else r | [] \<Rightarrow> r);
           ds = takeWhile is_digit r; suf = dropWhile is_digit r
       in 1 \<le> length pre \<and> length pre \<le> 4 \<and> ds \<noteq> [] \<and> length suf \<le> 1 \<and> list_all is_upper suf))"

definition looks_like_tag :: "string \<Rightarrow> bool" where
  "looks_like_tag c = catalog_tag_re (py_strip c)"

section \<open>Row selection\<close>

fun catalog_rows :: "nat \<Rightarrow> string set \<Rightarrow> table \<Rightarrow> row list" where
  "catalog_rows key_col seen [] = []"
| "catalog_rows key_col seen (r # rs) =
     (let key = clean_at r key_col in
      if \<not> looks_like_tag key \<or> key \<in> seen then catalog_rows key_col seen rs
      else if length (filter (\<lambda>c. clean c \<noteq> '''') r) < 2 then catalog_rows key_col seen rs
      else r # catalog_rows key_col (insert key seen) rs)"

definition select_catalog_rows :: "table \<Rightarrow> nat \<Rightarrow> row list" where
  "select_catalog_rows t key_col = catalog_rows key_col {} t"

definition select_free_rows :: "table \<Rightarrow> column_map \<Rightarrow> nat \<Rightarrow> row list" where
  "select_free_rows t cm key_col =
     filter (\<lambda>r. key_col < length r \<and> clean (r ! key_col) \<noteq> '''') (drop (cm_data_start cm) t)"

definition select_rows :: "table \<Rightarrow> column_map \<Rightarrow> schedule_schema \<Rightarrow> row list" where
  "select_rows t cm s =
     (let key_col = key_column cm (key_field s) in
      if sch_shape s = ''catalog'' then select_catalog_rows t key_col
      else if sch_row_grammar s = ''free'' then select_free_rows t cm key_col
      else if sch_merge_rows s then select_door_rows_auto t key_col
      else select_finish_rows_auto t key_col)"

section \<open>Items\<close>

datatype basis = RowCount | QtyColumn | UnknownPlanCount | PlanCount

record schedule_item =
  si_schedule :: string
  si_shape :: string
  si_mark :: string
  si_quantity :: "rat option"
  si_unit :: "string option"
  si_basis :: basis
  si_description :: string
  si_attributes :: "(string, string) dict"
  si_file :: string
  si_page :: "int option"

definition attr_or :: "(string, string) dict \<Rightarrow> string \<Rightarrow> string" where
  "attr_or a k = (case map_of a k of None \<Rightarrow> '''' | Some v \<Rightarrow> v)"

definition quantity_of :: "schedule_schema \<Rightarrow> (string, string) dict \<Rightarrow> rat option \<times> string option \<times> basis" where
  "quantity_of s attrs =
     (case (case sch_qty_field s of None \<Rightarrow> None
            | Some q \<Rightarrow> if q \<noteq> '''' \<and> attr_or attrs q \<noteq> '''' then num_of (attr_or attrs q) else None) of
        Some v \<Rightarrow> (Some v, Some (sch_qty_unit s), QtyColumn)
      | None \<Rightarrow> if sch_shape s = ''instance'' then (Some 1, Some (sch_qty_unit s), RowCount)
                else (None, None, UnknownPlanCount))"

definition row_attributes :: "row \<Rightarrow> column_map \<Rightarrow> (string, string) dict" where
  "row_attributes r cm = dict_of (map (\<lambda>(c, f). (f, clean (r ! c))) (filter (\<lambda>(c, f). c < length r) (cm_mapping cm)))"

definition build_item :: "row \<Rightarrow> column_map \<Rightarrow> schedule_schema \<Rightarrow> string \<Rightarrow> int option \<Rightarrow> schedule_item" where
  "build_item r cm s file page =
     (let attrs = row_attributes r cm; (qty, unit, basis) = quantity_of s attrs in
      \<lparr>si_schedule = sch_name s, si_shape = sch_shape s, si_mark = attr_or attrs (key_field s),
       si_quantity = qty, si_unit = unit, si_basis = basis,
       si_description = attr_or attrs ''description'', si_attributes = attrs,
       si_file = file, si_page = page\<rparr>)"

definition parse_schedule :: "table \<Rightarrow> schedule_schema \<Rightarrow> string \<Rightarrow> int option \<Rightarrow> schedule_item list" where
  "parse_schedule t s file page =
     (let cm = resolve_columns t s in map (\<lambda>r. build_item r cm s file page) (select_rows t cm s))"

definition parse_page :: "table list \<Rightarrow> schedule_schema \<Rightarrow> string \<Rightarrow> int option \<Rightarrow> rat \<Rightarrow> nat \<Rightarrow> schedule_item list" where
  "parse_page tables s file page min_cov min_cols =
     concat (map (\<lambda>t. if t = [] \<or> length (hd t) < min_cols then []
        else if cm_coverage (resolve_columns t s) < min_cov then []
        else parse_schedule t s file page) tables)"

section \<open>The driver\<close>

definition schedule_registry :: "schedule_schema list" where
  "schedule_registry = [door_schema, finish_schema, window_schema, plumbing_fixture_schema,
     lighting_fixture_schema, camera_schema, security_device_schema]"

definition page_matches :: "string \<Rightarrow> schedule_schema \<Rightarrow> bool" where
  "page_matches text s \<longleftrightarrow> sch_signature s \<noteq> [] \<and> list_all (\<lambda>tok. py_contains (py_lower text) tok) (sch_signature s)"

definition matched_schemas :: "schedule_schema list \<Rightarrow> page_view \<Rightarrow> schedule_schema list" where
  "matched_schemas schemas p = filter (page_matches (pv_text p)) schemas"

text \<open>The text pass: the candidate pages with their schemas; a page that does not load aborts.\<close>

fun text_pass :: "doc_view \<Rightarrow> schedule_schema list \<Rightarrow> int list \<Rightarrow> exn + (int \<times> page_view) list" where
  "text_pass doc schemas [] = Inr []"
| "text_pass doc schemas (i # is) =
     (case dv_page doc i of Inl e \<Rightarrow> Inl e
      | Inr p \<Rightarrow> (case text_pass doc schemas is of Inl e \<Rightarrow> Inl e
          | Inr cs \<Rightarrow> Inr (if matched_schemas schemas p \<noteq> [] then (i, p) # cs else cs)))"

text \<open>The items a page would give, before de-duplication.\<close>

definition page_items :: "doc_view \<Rightarrow> schedule_schema list \<Rightarrow> int \<Rightarrow> page_view \<Rightarrow> schedule_item list" where
  "page_items doc schemas i p =
     concat (map (\<lambda>s. parse_page (pv_tables p) s (dv_file_id doc) (Some i) (3/4) 6) (matched_schemas schemas p))"

definition extract_schedule_items :: "doc_view \<Rightarrow> int list \<Rightarrow> schedule_schema list \<Rightarrow> exn + schedule_item list" where
  "extract_schedule_items doc rng schemas =
     (case text_pass doc schemas rng of Inl e \<Rightarrow> Inl e
      | Inr cs \<Rightarrow> (let candidates = sort_key fst (dict_of cs) in
          Inr (merge_loop si_schedule si_mark {} (concat (map (\<lambda>(i, p). page_items doc schemas i p) candidates)))))"

text \<open>The planner's text gate, \<open>find_candidate_pages\<close>, and the map step, \<open>extract_shard\<close>.\<close>

definition find_candidate_pages :: "doc_view \<Rightarrow> exn + int list" where
  "find_candidate_pages doc = (case text_pass doc schedule_registry [0..dv_page_count doc - 1] of
     Inl e \<Rightarrow> Inl e | Inr cs \<Rightarrow> Inr (map fst cs))"

definition extract_shard :: "doc_view \<Rightarrow> int \<times> int \<Rightarrow> exn + schedule_item list" where
  "extract_shard doc rng = extract_schedule_items doc [fst rng..snd rng - 1] schedule_registry"

section \<open>Summary\<close>

definition count_by :: "('a \<Rightarrow> 'k) \<Rightarrow> 'a list \<Rightarrow> ('k, nat) dict" where
  "count_by key xs = foldl (\<lambda>d x. dict_set d (key x) (case map_of d (key x) of None \<Rightarrow> 1 | Some n \<Rightarrow> Suc n)) [] xs"

record items_summary =
  sm_total :: nat
  sm_by_schedule :: "(string, nat) dict"
  sm_by_basis :: "(basis, nat) dict"
  sm_known_quantity :: rat
  sm_pending :: nat

definition known_total :: "schedule_item list \<Rightarrow> rat" where
  "known_total items = sum_list (map (\<lambda>i. case si_quantity i of None \<Rightarrow> 0 | Some q \<Rightarrow> q) items)"

definition summarize :: "schedule_item list \<Rightarrow> items_summary" where
  "summarize items = (let by_basis = count_by si_basis items in
     \<lparr>sm_total = length items, sm_by_schedule = count_by si_schedule items, sm_by_basis = by_basis,
      sm_known_quantity = round_dec 2 (known_total items),
      sm_pending = (case map_of by_basis UnknownPlanCount of None \<Rightarrow> 0 | Some n \<Rightarrow> n)\<rparr>)"

section \<open>Facts about items\<close>

text \<open>The basis says where the quantity comes from, and no quantity is ever invented.\<close>

definition item_ok :: "schedule_item \<Rightarrow> bool" where
  "item_ok i \<longleftrightarrow>
     (si_basis i = RowCount \<longrightarrow> si_quantity i = Some 1 \<and> si_shape i = ''instance'') \<and>
     (si_basis i = UnknownPlanCount \<longleftrightarrow> si_quantity i = None) \<and>
     (si_unit i = None \<longleftrightarrow> si_quantity i = None)"

lemma build_item_ok: "item_ok (build_item r cm s file page)"
  by (auto simp: item_ok_def build_item_def quantity_of_def Let_def split: prod.splits option.splits if_splits)

lemma parse_schedule_ok: "i \<in> set (parse_schedule t s file page) \<Longrightarrow> item_ok i \<and> si_schedule i = sch_name s"
  by (auto simp: parse_schedule_def Let_def build_item_ok) (simp add: build_item_def Let_def split: prod.splits)

lemma parse_page_ok:
  "i \<in> set (parse_page ts s file page mc n) \<Longrightarrow> item_ok i \<and> si_schedule i = sch_name s"
  by (auto simp: parse_page_def parse_schedule_ok split: if_splits)

text \<open>A catalog's rows carry distinct tags.\<close>

lemma catalog_rows_distinct:
  "distinct (map (\<lambda>r. clean_at r k) (catalog_rows k seen t)) \<and>
   (\<forall>r \<in> set (catalog_rows k seen t). clean_at r k \<notin> seen \<and> looks_like_tag (clean_at r k) \<and> r \<in> set t)"
proof (induction t arbitrary: seen)
  case (Cons r rs)
  show ?case
  proof (cases "looks_like_tag (clean_at r k) \<and> clean_at r k \<notin> seen \<and> \<not> length (filter (\<lambda>c. clean c \<noteq> '''') r) < 2")
    case True
    then have e: "catalog_rows k seen (r # rs) = r # catalog_rows k (insert (clean_at r k) seen) rs"
      by (simp add: Let_def)
    from Cons[of "insert (clean_at r k) seen"] True show ?thesis unfolding e by auto
  next
    case False
    then have e: "catalog_rows k seen (r # rs) = catalog_rows k seen rs" by (auto simp: Let_def)
    from Cons[of seen] show ?thesis unfolding e by auto
  qed
qed simp

text \<open>The attributes are the resolved cells, so the generic parser and the door parser agree.\<close>

lemma attr_or_row:
  "attr_or (row_attributes r (resolve_columns t s)) f = get_field (resolve_columns t s) r f"
proof -
  let ?cm = "resolve_columns t s"
  let ?fm = "filter (\<lambda>(c, f). c < length r) (cm_mapping ?cm)"
  note d = resolve_columns_injective(1,2)[of t s]
  have keys: "map fst (map (\<lambda>(c, f). (f, clean (r ! c))) ?fm) = map snd ?fm" by (auto simp: case_prod_beta)
  have dm: "distinct (map fst (map (\<lambda>(c, f). (f, clean (r ! c))) ?fm))"
    unfolding keys using d(2) by (rule distinct_map_filter_pred)
  have look: "map_of (map (\<lambda>(c, f). (f, clean (r ! c))) ?fm) f = Some v \<longleftrightarrow>
      (\<exists>c. (c, f) \<in> set (cm_mapping ?cm) \<and> c < length r \<and> v = clean (r ! c))" for v
    unfolding map_of_eq_Some_iff[OF dm] by auto
  have bf: "map_of (by_field ?cm) f = Some c \<longleftrightarrow> (c, f) \<in> set (cm_mapping ?cm)" for c
    using d(1) by (simp add: by_field_iff field_at_def)
  show ?thesis
  proof (cases "map_of (by_field ?cm) f")
    case None
    then have "(c, f) \<notin> set (cm_mapping ?cm)" for c using bf[of c] by simp
    then have "map_of (map (\<lambda>(c, f). (f, clean (r ! c))) ?fm) f = None"
      using look by (metis not_None_eq)
    with None show ?thesis by (simp add: attr_or_def row_attributes_def dict_of_distinct[OF dm] get_field_def)
  next
    case (Some c)
    then have c: "(c, f) \<in> set (cm_mapping ?cm)" by (simp add: bf)
    have uniq: "c' = c" if "(c', f) \<in> set (cm_mapping ?cm)" for c' using that bf[of c'] Some by simp
    show ?thesis
    proof (cases "c < length r")
      case True
      with c look have "map_of (map (\<lambda>(c, f). (f, clean (r ! c))) ?fm) f = Some (clean (r ! c))" by blast
      with True Some show ?thesis
        by (simp add: attr_or_def row_attributes_def dict_of_distinct[OF dm] get_field_def clean_at_def)
    next
      case False
      with uniq look have "map_of (map (\<lambda>(c, f). (f, clean (r ! c))) ?fm) f = None"
        by (metis not_None_eq)
      with False Some show ?thesis
        by (simp add: attr_or_def row_attributes_def dict_of_distinct[OF dm] get_field_def clean_at_def)
    qed
  qed
qed

lemma build_item_mark: "si_mark (build_item r (resolve_columns t s) s file page) =
    get_field (resolve_columns t s) r (key_field s)"
  by (simp add: build_item_def Let_def attr_or_row split: prod.splits)

lemma door_rows_selected:
  "select_rows t cm door_schema = select_door_rows_auto t (key_column cm ''door_mark'')" "key_field door_schema = ''door_mark''"
proof -
  show k: "key_field door_schema = ''door_mark''" by (simp add: key_field_def door_schema_def schema_default_def)
  show "select_rows t cm door_schema = select_door_rows_auto t (key_column cm ''door_mark'')"
    unfolding select_rows_def k by (simp add: door_schema_def schema_default_def)
qed

section \<open>Sharded extraction is serial extraction\<close>

lemma text_pass_ok:
  assumes "\<And>i. i \<in> set is \<Longrightarrow> dv_page doc i = Inr (pg i)"
  shows "text_pass doc schemas is =
    Inr (map (\<lambda>i. (i, pg i)) (filter (\<lambda>i. matched_schemas schemas (pg i) \<noteq> []) is))"
  using assms by (induction "is") auto

lemma text_pass_error:
  assumes "text_pass doc schemas is = Inl e"
  shows "\<exists>i \<in> set is. dv_page doc i = Inl e"
  using assms by (induction "is") (auto split: sum.splits if_splits)

text \<open>A page no schema matches contributes nothing, so the text gate loses nothing.\<close>

lemma page_items_unmatched: "matched_schemas schemas p = [] \<Longrightarrow> page_items doc schemas i p = []"
  by (simp add: page_items_def)

lemma concat_map_filter_empty:
  "(\<And>x. x \<in> set xs \<Longrightarrow> \<not> P x \<Longrightarrow> f x = []) \<Longrightarrow> concat (map f (filter P xs)) = concat (map f xs)"
  by (induction xs) auto

lemma extract_ok:
  assumes "sorted is" and "distinct is" and "\<And>i. i \<in> set is \<Longrightarrow> dv_page doc i = Inr (pg i)"
  shows "extract_schedule_items doc is schemas =
    Inr (merge_loop si_schedule si_mark {} (concat (map (\<lambda>i. page_items doc schemas i (pg i)) is)))"
proof -
  let ?is = "filter (\<lambda>i. matched_schemas schemas (pg i) \<noteq> []) is"
  let ?cs = "map (\<lambda>i. (i, pg i)) ?is"
  have keys: "map fst ?cs = ?is" by (simp add: o_def)
  have "dict_of ?cs = ?cs" by (rule dict_of_id) (simp add: keys assms(2) del: map_map)
  moreover have "sort_key fst ?cs = ?cs"
    by (rule sort_key_id_if_sorted) (unfold keys, rule sorted_wrt_filter[OF assms(1)])
  ultimately have "extract_schedule_items doc is schemas =
      Inr (merge_loop si_schedule si_mark {} (concat (map (\<lambda>i. page_items doc schemas i (pg i)) ?is)))"
    by (simp add: extract_schedule_items_def text_pass_ok[OF assms(3)] Let_def o_def)
  also have "concat (map (\<lambda>i. page_items doc schemas i (pg i)) ?is) = concat (map (\<lambda>i. page_items doc schemas i (pg i)) is)"
    by (rule concat_map_filter_empty) (simp add: page_items_unmatched)
  finally show ?thesis .
qed

lemma page_of_range:
  assumes "\<And>i. lo \<le> i \<Longrightarrow> i < hi \<Longrightarrow> \<exists>p. dv_page doc i = Inr p"
  obtains pg where "\<And>i. lo \<le> i \<Longrightarrow> i < hi \<Longrightarrow> dv_page doc i = Inr (pg i)"
proof -
  from assms have "\<forall>i. \<exists>p. lo \<le> i \<longrightarrow> i < hi \<longrightarrow> dv_page doc i = Inr p" by blast
  then obtain pg where "\<forall>i. lo \<le> i \<longrightarrow> i < hi \<longrightarrow> dv_page doc i = Inr (pg i)" by metis
  with that show thesis by blast
qed

text \<open>The reduce over the partials of a plan is the serial extraction of the whole range.\<close>

lemma sharded_is_serial:
  assumes plan: "plan_shard_windows cs n cap ps pe = Inr ws"
    and loads: "\<And>i. range_lo ps \<le> i \<Longrightarrow> i < range_hi pe n \<Longrightarrow> \<exists>p. dv_page doc i = Inr p"
  shows "\<exists>parts. map (\<lambda>w. extract_shard doc (win_start w, win_end w)) ws = map Inr parts \<and>
    extract_shard doc (range_lo ps, range_hi pe n) = Inr (merge_partials si_schedule si_mark parts)"
proof -
  obtain pg where pg: "\<And>i. range_lo ps \<le> i \<Longrightarrow> i < range_hi pe n \<Longrightarrow> dv_page doc i = Inr (pg i)"
    using page_of_range[OF loads] by metis
  define f where "f = (\<lambda>i. page_items doc schedule_registry i (pg i))"
  have sub: "set (win_pages w) \<subseteq> set [range_lo ps..range_hi pe n - 1]" if "w \<in> set ws" for w
    using planner.pages[OF plan, symmetric] that by auto
  have shard: "extract_shard doc (win_start w, win_end w) = Inr (merge_loop si_schedule si_mark {} (concat (map f (win_pages w))))"
    if w: "w \<in> set ws" for w
    unfolding extract_shard_def f_def win_pages_def fst_conv snd_conv
    by (rule extract_ok) (use sub[OF w] pg in \<open>auto simp: win_pages_def\<close>)
  have whole: "extract_shard doc (range_lo ps, range_hi pe n) =
      Inr (merge_loop si_schedule si_mark {} (concat (map f [range_lo ps..range_hi pe n - 1])))"
    unfolding extract_shard_def f_def fst_conv snd_conv by (rule extract_ok) (use pg in auto)
  show ?thesis
    by (rule exI[of _ "map (\<lambda>w. merge_loop si_schedule si_mark {} (concat (map f (win_pages w)))) ws"])
      (simp add: shard whole planner.map_reduce[OF plan])
qed

text \<open>Every extracted item has a mark, a key of its own, and comes from a candidate page.\<close>

lemma extract_items_spec:
  assumes "extract_schedule_items doc rng schemas = Inr items"
  shows "distinct (map (item_key si_schedule si_mark) items)"
    and "it \<in> set items \<Longrightarrow> si_mark it \<noteq> '''' \<and> item_ok it"
proof -
  from assms obtain cs where i: "items = merge_partials si_schedule si_mark
      [concat (map (\<lambda>(i, p). page_items doc schemas i p) (sort_key fst (dict_of cs)))]"
    by (auto simp: extract_schedule_items_def Let_def merge_partials_def split: sum.splits)
  show "distinct (map (item_key si_schedule si_mark) items)"
    unfolding i by (rule merge_partials_keys(1))
  show "si_mark it \<noteq> '''' \<and> item_ok it" if "it \<in> set items"
    using merge_partials_keys(2)[OF that[unfolded i]]
    by (auto simp: page_items_def dest: parse_page_ok)
qed

section \<open>Properties of extraction\<close>

text \<open>
  C16.  The marks of a door schedule, read off its mark column alone: a cell whose words are all
  marks gives each of them, any other cell that is a mark gives itself, and every other row gives
  nothing; the built-in grammar is used when it finds at least five, the generic one otherwise.
  The generic, schema-driven extraction and the door parser both list exactly these marks in
  order: splitting a merged row and reading the split rows back loses, adds and displaces no mark.
\<close>

theorem door_marks_exact:
  assumes "map_of (by_field (resolve_columns t door_schema)) ''door_mark'' = Some c"
  shows "map si_mark (parse_schedule t door_schema file page) = table_marks t c \<and>
    (select_schedule_table tables door_schema (3/4) 6 = Some t \<longrightarrow>
       (\<exists>es. parse_door_schedule tables = Inr es \<and> map de_mark es = table_marks t c))"
proof -
  let ?cm = "resolve_columns t door_schema"
  have k: "key_column ?cm ''door_mark'' = c" using assms by (simp add: key_column_def)
  have get: "get_field ?cm r ''door_mark'' = clean_at r c" for r using assms by (simp add: get_field_def)
  have "map si_mark (parse_schedule t door_schema file page) = table_marks t c"
    unfolding parse_schedule_def Let_def door_rows_selected(1) k select_door_marks[symmetric]
    by (simp add: build_item_mark door_rows_selected(2) get)
  moreover have "de_mark (build_entry r ?cm) = clean_at r c" for r by (simp add: build_entry_def Let_def get)
  ultimately show ?thesis
    unfolding select_door_marks[symmetric] by (auto simp: parse_door_schedule_def Let_def k)
qed

definition sample_door_table :: table where
  "sample_door_table = [[Some ''DOOR NO.'', Some ''WIDTH'', Some ''HEIGHT''],
     [Some ''N101 N102'', Some ''3-0 3-0'', Some ''7-0 7-0''], [Some ''N103'', Some ''3-0'', None], [Some ''TOTAL'', None, None]]"

theorem door_marks_exact_witness:
  "map si_mark (parse_schedule sample_door_table door_schema ''d'' None) = [''N101'', ''N102'', ''N103'']"
proof -
  have "map_of (by_field (resolve_columns sample_door_table door_schema)) ''door_mark'' = Some 0" by code_simp
  moreover have "table_marks sample_door_table 0 = [''N101'', ''N102'', ''N103'']" by code_simp
  ultimately show ?thesis using door_marks_exact[of sample_door_table 0 "''d''" None] by simp
qed

text \<open>
  C17.  Over pages that load, the extraction returns a list of items without duplicates by
  schedule and mark, every item marked, and with a quantity exactly when its basis knows one (a
  row count is one instance, a pending plan count has none).
\<close>

theorem extraction_distinct_and_well_formed:
  assumes "\<forall>i. lo \<le> i \<and> i < hi \<longrightarrow> (\<exists>p. dv_page doc i = Inr p)"
  shows "\<exists>items. extract_shard doc (lo, hi) = Inr items \<and> distinct (map (item_key si_schedule si_mark) items) \<and>
    list_all (\<lambda>it. si_mark it \<noteq> '''' \<and> item_ok it) items"
proof -
  obtain pg where pg: "\<And>i. lo \<le> i \<Longrightarrow> i < hi \<Longrightarrow> dv_page doc i = Inr (pg i)"
    using assms by (meson page_of_range)
  have "extract_schedule_items doc [lo..hi - 1] schedule_registry =
    Inr (merge_loop si_schedule si_mark {} (concat (map (\<lambda>i. page_items doc schedule_registry i (pg i)) [lo..hi - 1])))"
    by (rule extract_ok) (use pg in auto)
  then obtain items where i: "extract_schedule_items doc [lo..hi - 1] schedule_registry = Inr items" by blast
  with extract_items_spec[OF i] show ?thesis by (auto simp: extract_shard_def list_all_iff)
qed

definition sample_doc :: doc_view where
  "sample_doc = \<lparr>dv_file_id = ''d'', dv_page_count = 4,
     dv_page = (\<lambda>i. Inr \<lparr>pv_text = (if i = 1 then ''PLUMBING FIXTURE SCHEDULE'' else ''''),
       pv_tables = (if i = 1 then [[[Some ''MARK'', Some ''DESCRIPTION'', Some ''MFR'', Some ''MODEL'', Some ''QTY'', Some ''NOTES''],
           [Some ''P1'', Some ''SINK'', None, None, Some ''2'', None], [Some ''P1'', Some ''SINK'', None, None, None, None]]] else []),
       pv_words = [], pv_width = 100, pv_height = 100\<rparr>)\<rparr>"

theorem extraction_distinct_and_well_formed_witness:
  "\<exists>items. extract_shard sample_doc (0, 4) = Inr items \<and> distinct (map (item_key si_schedule si_mark) items) \<and>
    list_all item_ok items"
proof -
  have "\<forall>i. 0 \<le> i \<and> i < 4 \<longrightarrow> (\<exists>p. dv_page sample_doc i = Inr p)" by (simp add: sample_doc_def)
  from extraction_distinct_and_well_formed[OF this] show ?thesis by (auto simp: list_all_iff)
qed

end
