(* ===== verification/Sheets.thy ===== *)
theory Sheets
  imports Quantities Regex
begin

text \<open>
  The small drawing-side parsers: the drawing index (\<open>src/src/pipeline/phase2_drawing_index.py\<close>),
  the title blocks and their reconciliation with the index (\<open>phase3_sheet_classifier.py\<close>) and the
  abbreviation list (\<open>phase2_abbreviation_parser.py\<close>), with the records of
  \<open>src/src/models/project.py\<close>.  A page's tables and words are arguments.
\<close>

section \<open>The drawing index\<close>

record sheet_entry =
  se_number :: string
  se_title :: string
  se_discipline :: string
  se_type :: "string option"
  se_page :: "int option"

text \<open>\<open>^[A-Z]{1,3}\d[\w.]*$\<close>\<close>

definition index_number_re :: rx where
  "index_number_re = cats [LineStart False, times 1 3 (Chr is_upper), digit,
     Many True 0 (\<lambda>c. word_char c \<or> c = CHR ''.''), LineEnd False]"

definition discipline_map :: "(string \<times> string) list" where
  "discipline_map = [(''G'', ''General''), (''S'', ''Structural''), (''A'', ''Architectural''),
     (''AD'', ''Architectural''), (''AF'', ''Architectural''), (''FP'', ''Fire Protection''),
     (''P'', ''Plumbing''), (''PD'', ''Plumbing''), (''M'', ''Mechanical''), (''MD'', ''Mechanical''),
     (''E'', ''Electrical''), (''ED'', ''Electrical''), (''EMP'', ''Electrical''),
     (''T'', ''Technology''), (''Y'', ''Security'')]"

definition drawing_type_rules :: "(string \<times> string) list" where
  "drawing_type_rules = [(''REFLECTED CEILING PLAN'', ''Reflected Ceiling Plan''), (''SCHEDULE'', ''Schedule''),
     (''DEMOLITION'', ''Demolition Plan''), (''ENLARGED'', ''Enlarged Plan''), (''FLOOR PLAN'', ''Floor Plan''),
     (''ELEVATION'', ''Elevation''), (''SECTION'', ''Section''), (''DETAIL'', ''Detail''),
     (''ABBREVIATIONS'', ''Reference''), (''SYMBOLS'', ''Reference'')]"

definition derive_discipline :: "string \<Rightarrow> string" where
  "derive_discipline num = (case map_of discipline_map (takeWhile is_upper num) of None \<Rightarrow> ''Unknown'' | Some d \<Rightarrow> d)"

definition derive_drawing_type :: "string \<Rightarrow> string option" where
  "derive_drawing_type title = map_option snd (find (\<lambda>(kw, _). py_contains (py_upper title) kw) drawing_type_rules)"

definition is_sheet_list_table :: "table \<Rightarrow> bool" where
  "is_sheet_list_table t \<longleftrightarrow> list_ex (\<lambda>r. case r of [] \<Rightarrow> False
     | c # _ \<Rightarrow> cell_text c \<noteq> '''' \<and> py_contains (cell_text c) ''SHEET'' \<and> py_contains (cell_text c) ''NUMBER'') t"

text \<open>The number and title of a row, when it is one of the list.\<close>

definition index_row :: "row \<Rightarrow> (string \<times> string) option" where
  "index_row r = (if length r < 2 then None
     else (let num = py_strip (cell_text (r ! 0)); title = py_strip (cell_text (r ! 1)) in
       if re_match index_number_re num \<noteq> None \<and> title \<noteq> '''' then Some (num, title) else None))"

fun index_rows :: "row list \<Rightarrow> string set \<times> sheet_entry list \<Rightarrow> string set \<times> sheet_entry list" where
  "index_rows [] acc = acc"
| "index_rows (r # rs) (seen, entries) =
     (case index_row r of
        None \<Rightarrow> index_rows rs (seen, entries)
      | Some (num, title) \<Rightarrow>
          if num \<in> seen then index_rows rs (seen, entries)
          else index_rows rs (insert num seen, entries @ [\<lparr>se_number = num, se_title = title,
            se_discipline = derive_discipline num, se_type = derive_drawing_type title, se_page = None\<rparr>]))"

definition parse_drawing_index :: "table list \<Rightarrow> sheet_entry list" where
  "parse_drawing_index tables =
     (let entries = snd (index_rows (concat (filter is_sheet_list_table tables)) ({}, [])) in
      map (\<lambda>(i, e). e\<lparr>se_page := Some (int i)\<rparr>) (List.enumerate 1 entries))"

section \<open>Title blocks\<close>

record sheet_metadata =
  sm_page :: int
  sm_number :: string
  sm_title :: string
  sm_project :: "string option"

text \<open>\<open>^[A-Z]{1,3}\d+(?:\.\d+){0,3}$\<close> and \<open>\b\d{5}\.\d{3}\b\<close>\<close>

definition title_number_re :: rx where
  "title_number_re = cats [LineStart False, times 1 3 (Chr is_upper), Many True 1 is_digit,
     times 0 3 (Cat (lit ''.'') (Many True 1 is_digit)), LineEnd False]"

definition project_number_re :: rx where
  "project_number_re = cats [Boundary, times 5 5 digit, lit ''.'', times 3 3 digit, Boundary]"

definition word_height :: "word \<Rightarrow> rat" where
  "word_height w = wd_y1 w - wd_y0 w"

text \<open>Upwards from the number, until a gap of more than 60 points.\<close>

fun walk_up :: "rat \<Rightarrow> word list \<Rightarrow> word list \<Rightarrow> word list" where
  "walk_up prev acc [] = acc"
| "walk_up prev acc (w # ws) =
     (if acc \<noteq> [] \<and> prev - wd_y0 w > 60 then acc else walk_up (wd_y0 w) (acc @ [w]) ws)"

definition title_words :: "word \<Rightarrow> word list \<Rightarrow> word list" where
  "title_words num ws =
     (let h = word_height num;
          mid = sort_key (\<lambda>w. - wd_y0 w)
            (filter (\<lambda>w. wd_x0 w > wd_x0 num - 260 \<and> wd_y0 w < wd_y0 num \<and>
               4/10 * h \<le> word_height w \<and> word_height w < 9/10 * h) ws)
      in sort_key (\<lambda>w. round_half_even (wd_y0 w / 6)) (sort_key wd_x0 (walk_up (wd_y0 num) [] mid)))"

definition extract_title_block :: "word list \<Rightarrow> int \<Rightarrow> exn + sheet_metadata" where
  "extract_title_block ws page_index =
     (case py_max word_height (filter (\<lambda>w. re_match title_number_re (wd_text w) \<noteq> None) ws) of
        None \<Rightarrow> Inl (Exn ''ValueError'' (''No sheet-number token found on page '' @ show_int (page_index + 1) @ ''.''))
      | Some num \<Rightarrow> (let text = py_join '' '' (map wd_text ws) in Inr
          \<lparr>sm_page = page_index + 1, sm_number = wd_text num,
           sm_title = py_strip (py_join '' '' (map wd_text (title_words num ws))),
           sm_project = map_option (match_text text) (re_search project_number_re text)\<rparr>))"

fun classify_sheets :: "(int \<Rightarrow> exn + word list) \<Rightarrow> int list \<Rightarrow> exn + sheet_metadata list" where
  "classify_sheets words_of [] = Inr []"
| "classify_sheets words_of (i # is) =
     (case words_of i of
        Inl e \<Rightarrow> Inl e
      | Inr ws \<Rightarrow> (case extract_title_block ws i of
          Inl e \<Rightarrow> Inl e
        | Inr m \<Rightarrow> (case classify_sheets words_of is of Inl e \<Rightarrow> Inl e | Inr ms \<Rightarrow> Inr (m # ms))))"

definition sample_page_indices :: "int list" where
  "sample_page_indices = [1, 5, 13, 14, 34, 37, 48, 49, 51, 59, 81]"

record sheet_check =
  sk_page :: int
  sk_number :: string
  sk_in_registry :: bool
  sk_registry_page :: "int option"
  sk_page_matches :: bool
  sk_title_matches :: bool
  sk_extracted_title :: string
  sk_registry_title :: "string option"

definition same_title :: "string \<Rightarrow> string \<Rightarrow> bool" where
  "same_title a b \<longleftrightarrow> py_upper (py_strip a) = py_upper (py_strip b)"

definition reconcile_sheets :: "sheet_metadata list \<Rightarrow> sheet_entry list \<Rightarrow> sheet_check list" where
  "reconcile_sheets metadata registry =
     (let by_number = dict_of (map (\<lambda>e. (se_number e, e)) registry) in
      map (\<lambda>md. let entry = map_of by_number (sm_number md) in
        \<lparr>sk_page = sm_page md, sk_number = sm_number md, sk_in_registry = (entry \<noteq> None),
         sk_registry_page = (case entry of None \<Rightarrow> None | Some e \<Rightarrow> se_page e),
         sk_page_matches = (case entry of None \<Rightarrow> False | Some e \<Rightarrow> se_page e = Some (sm_page md)),
         sk_title_matches = (case entry of None \<Rightarrow> False | Some e \<Rightarrow> same_title (se_title e) (sm_title md)),
         sk_extracted_title = sm_title md, sk_registry_title = map_option se_title entry\<rparr>) metadata)"

section \<open>Abbreviations\<close>

record abbreviation_entry =
  ab_abbreviation :: string
  ab_definition :: string

text \<open>\<open>s[::2]\<close>\<close>

fun every_other :: "'a list \<Rightarrow> 'a list" where
  "every_other (x # y # zs) = x # every_other zs"
| "every_other xs = xs"

definition dedouble :: "string \<Rightarrow> string" where
  "dedouble tok =
     (if length tok \<ge> 4 \<and> even (length tok) \<and> every_other tok = every_other (tl tok)
      then every_other tok else tok)"

definition column_anchors :: "rat list" where
  "column_anchors = [169, 440, 712]"

definition column_of :: "rat \<Rightarrow> nat option" where
  "column_of x0 = foldl (\<lambda>col (i, anchor). if x0 \<ge> anchor - 20 then Some i else col) None
     (List.enumerate 0 column_anchors)"

definition row_tolerance :: rat where
  "row_tolerance = 5"

text \<open>Greedy rows: a word joins the current row when it is close to the row's first word.\<close>

fun cluster_loop :: "rat \<Rightarrow> word list \<Rightarrow> word list \<Rightarrow> word list list" where
  "cluster_loop tol current [] = (if current = [] then [] else [current])"
| "cluster_loop tol current (w # ws) =
     (case current of
        [] \<Rightarrow> cluster_loop tol [w] ws
      | f # _ \<Rightarrow>
          if \<bar>wd_y0 w - wd_y0 f\<bar> \<le> tol then cluster_loop tol (current @ [w]) ws
          else current # cluster_loop tol [w] ws)"

definition cluster_rows :: "rat \<Rightarrow> word list \<Rightarrow> word list list" where
  "cluster_rows tol ws = cluster_loop tol [] (sort_key wd_y0 ws)"

text \<open>\<open>[A-Z0-9/&.\-]{1,7}\<close>\<close>

definition abbrev_re :: rx where
  "abbrev_re = times 1 7 (Chr (\<lambda>c. is_upper c \<or> is_digit c \<or> one_of ''/&.-'' c))"

definition row_columns :: "word list \<Rightarrow> (nat, string list) dict" where
  "row_columns row = foldl (\<lambda>cols w. case column_of (wd_x0 w) of None \<Rightarrow> cols
     | Some c \<Rightarrow> dict_set cols c ((case map_of cols c of None \<Rightarrow> [] | Some ts \<Rightarrow> ts) @ [dedouble (wd_text w)]))
     [] (sort_key wd_x0 row)"

definition column_entry :: "string list \<Rightarrow> abbreviation_entry option" where
  "column_entry toks = (if length toks < 2 then None
     else (let abbrev = hd toks; dfn = py_join '' '' (tl toks) in
       if re_fullmatch abbrev_re abbrev \<noteq> None \<and> dfn \<noteq> ''''
       then Some \<lparr>ab_abbreviation = abbrev, ab_definition = dfn\<rparr> else None))"

definition parse_abbreviations :: "word list \<Rightarrow> abbreviation_entry list" where
  "parse_abbreviations ws =
     (let words = filter (\<lambda>w. 150 \<le> wd_x0 w \<and> wd_x0 w < 900) ws in
      dedup_first (\<lambda>e. (ab_abbreviation e, ab_definition e)) {}
        (List.map_filter (\<lambda>(_, toks). column_entry toks)
           (concat (map (\<lambda>row. sort_key fst (row_columns row)) (cluster_rows row_tolerance words)))))"

definition abbreviations_as_dict :: "abbreviation_entry list \<Rightarrow> (string, string) dict" where
  "abbreviations_as_dict es = foldl (\<lambda>d e. dict_setdefault d (ab_abbreviation e) (ab_definition e)) [] es"

section \<open>Facts\<close>

definition index_entry :: "string \<times> string \<Rightarrow> sheet_entry" where
  "index_entry = (\<lambda>(num, title). \<lparr>se_number = num, se_title = title, se_discipline = derive_discipline num,
     se_type = derive_drawing_type title, se_page = None\<rparr>)"

lemma index_rows_dedup:
  "snd (index_rows rs (seen, es)) = es @ map index_entry (dedup_first fst seen (List.map_filter index_row rs))"
  by (induction rs arbitrary: seen es) (auto simp: map_filter_simps index_entry_def split: option.split)

text \<open>The index lists every sheet once, the first row winning, numbered from one.\<close>

lemma drawing_index_spec:
  fixes tables :: "table list"
  defines "rows \<equiv> List.map_filter index_row (concat (filter is_sheet_list_table tables))"
  shows "map se_page (parse_drawing_index tables) = map (\<lambda>i. Some (int i)) [1..<Suc (length (parse_drawing_index tables))]"
    "distinct (map se_number (parse_drawing_index tables))"
    "set (map se_number (parse_drawing_index tables)) = fst ` set rows"
    "list_all (\<lambda>e. (se_number e, se_title e) \<in> set rows) (parse_drawing_index tables)"
proof -
  let ?es = "map index_entry (dedup_first fst {} rows)"
  have p: "parse_drawing_index tables = map (\<lambda>(i, e). e\<lparr>se_page := Some (int i)\<rparr>) (List.enumerate 1 ?es)"
    by (simp add: parse_drawing_index_def rows_def index_rows_dedup)
  have gen: "map se_page (map (\<lambda>(i, e). e\<lparr>se_page := Some (int i)\<rparr>) (List.enumerate n es)) =
      map (\<lambda>i. Some (int i)) [n..<n + length es]"
    "map se_number (map (\<lambda>(i, e). e\<lparr>se_page := Some (int i)\<rparr>) (List.enumerate n es)) = map se_number es"
    "map se_title (map (\<lambda>(i, e). e\<lparr>se_page := Some (int i)\<rparr>) (List.enumerate n es)) = map se_title es"
    for n and es :: "sheet_entry list"
    by (induction es arbitrary: n) (simp_all add: upt_conv_Cons del: upt_Suc)
  have num: "map se_number ?es = map fst (dedup_first fst {} rows)" "map se_title ?es = map snd (dedup_first fst {} rows)"
    by (auto simp: index_entry_def)
  show "map se_page (parse_drawing_index tables) = map (\<lambda>i. Some (int i)) [1..<Suc (length (parse_drawing_index tables))]"
    unfolding p gen(1) by simp
  have n: "map se_number (parse_drawing_index tables) = map fst (dedup_first fst {} rows)"
    and t: "map se_title (parse_drawing_index tables) = map snd (dedup_first fst {} rows)"
    unfolding p gen num by (rule refl)+
  show "distinct (map se_number (parse_drawing_index tables))"
    unfolding n by (rule distinct_dedup_first)
  show "set (map se_number (parse_drawing_index tables)) = fst ` set rows"
    unfolding n using set_dedup_first_keys[of fst "{}" rows] by simp
  have "(se_number e, se_title e) \<in> set rows" if e: "e \<in> set (parse_drawing_index tables)" for e
  proof -
    from e obtain i where i: "i < length (parse_drawing_index tables)" "e = parse_drawing_index tables ! i"
      by (auto simp: in_set_conv_nth)
    have l: "length (dedup_first fst {} rows) = length (parse_drawing_index tables)"
      using arg_cong[OF n, of length] by simp
    have "(se_number e, se_title e) = dedup_first fst {} rows ! i"
      using arg_cong[OF n, of "\<lambda>xs. xs ! i"] arg_cong[OF t, of "\<lambda>xs. xs ! i"] i l by (simp add: prod_eq_iff)
    then have "(se_number e, se_title e) \<in> set (dedup_first fst {} rows)" using i l by simp
    then show ?thesis using set_dedup_first[of fst "{}" rows] by blast
  qed
  then show "list_all (\<lambda>e. (se_number e, se_title e) \<in> set rows) (parse_drawing_index tables)"
    by (simp add: list_all_iff)
qed

text \<open>Doubled glyphs are undone.\<close>

definition double :: "string \<Rightarrow> string" where
  "double s = concat (map (\<lambda>c. [c, c]) s)"

lemma every_other_double [simp]: "every_other (double s) = s" "every_other (tl (double s)) = s"
proof -
  have "every_other (double s) = s \<and> every_other (tl (double (c # s))) = c # s" for c
    by (induction s arbitrary: c) (auto simp: double_def)
  then show "every_other (double s) = s" "every_other (tl (double s)) = s"
    by (auto, cases s, auto simp: double_def)
qed

lemma length_double [simp]: "length (double s) = 2 * length s"
  by (induction s) (auto simp: double_def)

lemma dedouble_double: "2 \<le> length s \<Longrightarrow> dedouble (double s) = s"
  by (simp add: dedouble_def)

text \<open>The rows of the abbreviation sheet are its words from top to bottom.\<close>

lemma cluster_rows_words: "concat (cluster_rows tol ws) = sort_key wd_y0 ws"
proof -
  have "concat (cluster_loop tol current vs) = current @ vs" for current vs
    by (induction tol current vs rule: cluster_loop.induct) (auto split: list.split)
  then show ?thesis by (simp add: cluster_rows_def)
qed

end
