(* ===== verification/SectionResolver.thy ===== *)
theory SectionResolver
  imports Sheets
begin

text \<open>
  The semantic section resolver (\<open>pipeline/section_resolver.py\<close>, \<open>pipeline/section_llm.py\<close>): the
  applied finish list, the expansion of a material or finish code, the lexical matcher, the grounded
  language-model backend with its replay and recording clients, and the section map.  A
  dictionary is an association list; a client is a function of the request and the world; \<open>float()\<close>
  of a JSON value is the parameter \<open>to_float\<close>, \<open>sha256\<close> the parameter of the fixture key.
\<close>

section \<open>The applied finish list\<close>

text \<open>\<open>\b([A-Z]{1,4}-\d+[A-Z]?)\s+TYPE:\<close>\<close>

definition finish_code_anchor :: rx where
  "finish_code_anchor = cats [Boundary, Grp 1 (cats [times 1 4 (Chr is_upper), lit ''-'', Many True 1 is_digit,
     opt (Chr is_upper)]), spaces1, lit ''TYPE:'']"

fun anchored_texts :: "string \<Rightarrow> rx_match list \<Rightarrow> (string \<times> string) list" where
  "anchored_texts text [] = []"
| "anchored_texts text (m # ms) =
     (let end' = (case ms of [] \<Rightarrow> length text | n # _ \<Rightarrow> rm_start n) in
      (group 1 (rm_state m), py_strip (take (end' - rm_start m) (drop (rm_start m) text))) # anchored_texts text ms)"

definition reading_order :: "word list \<Rightarrow> word list" where
  "reading_order ws = sort_key (\<lambda>w. round_half_even (wd_y0 w / 8)) (sort_key wd_x0 ws)"

definition parse_applied_finish_list :: "rat \<Rightarrow> word list \<Rightarrow> (string, string) dict" where
  "parse_applied_finish_list region_top ws =
     (let text = py_join '' '' (map wd_text (reading_order (filter (\<lambda>w. wd_y0 w < region_top) ws))) in
      foldl (\<lambda>d (c, t). dict_setdefault d c t) [] (anchored_texts text (finditer finish_code_anchor text)))"

section \<open>Expansions\<close>

definition finish_fields :: "string list" where
  "finish_fields = [''TYPE'', ''STYLE'', ''MANUFACTURE'', ''MANUFACTURER'', ''LOCATION'', ''COLOR'', ''INSTALL'', ''NOTES'',
     ''GRID'', ''PROFILE'', ''CONTENT'', ''ELEVATION'', ''CONTACT'']"

definition field_re :: rx where
  "field_re = cats [Boundary, alts (map lit_i finish_fields), spaces, lit '':'']"

definition alpha_prefix_re :: rx where
  "alpha_prefix_re = Many True 1 (\<lambda>c. is_upper c \<or> is_lower c)"

definition alpha_prefix :: "string \<Rightarrow> string" where
  "alpha_prefix code = (case re_match alpha_prefix_re code of
     None \<Rightarrow> ''''
   | Some t \<Rightarrow> py_upper (rev (rs_behind t)))"

text \<open>\<open>TYPE\s*:\s*(.*)\<close> under \<open>re.I | re.S\<close>\<close>

definition type_field_re :: rx where
  "type_field_re = cats [lit_i ''TYPE'', spaces, lit '':'', spaces, Grp 1 (Many True 0 (\<lambda>_. True))]"

definition finish_type :: "string \<Rightarrow> string" where
  "finish_type dfn = (case re_search type_field_re dfn of
     None \<Rightarrow> ''''
   | Some m \<Rightarrow> (let tail = group 1 (rm_state m) in
       py_strip (case re_search field_re tail of Some nxt \<Rightarrow> take (rm_start nxt) tail | None \<Rightarrow> tail)))"

definition finish_type_descriptions :: "string \<Rightarrow> (string, string) dict \<Rightarrow> string list" where
  "finish_type_descriptions pre applied =
     filter (\<lambda>d. d \<noteq> '''') (map (\<lambda>(c, d). finish_type d) (filter (\<lambda>(c, d). alpha_prefix c = py_upper pre) applied))"

text \<open>\<open>x or y\<close> on texts, and \<open>d.get(k)\<close> with an absent key as the empty text.\<close>

definition or_text :: "string \<Rightarrow> string \<Rightarrow> string" where
  "or_text x y = (if x = '''' then y else x)"

definition get_text :: "(string, string) dict \<Rightarrow> string \<Rightarrow> string" where
  "get_text d k = (case map_of d k of None \<Rightarrow> '''' | Some v \<Rightarrow> v)"

definition expansion :: "string \<Rightarrow> (string, string) dict \<Rightarrow> (string, string) dict \<Rightarrow> string \<Rightarrow> string" where
  "expansion code abbrev applied prefer =
     (let pre = alpha_prefix code;
          abbr_desc = or_text (get_text abbrev code) (get_text abbrev pre);
          finish_desc = (case py_min length (finish_type_descriptions pre applied) of None \<Rightarrow> '''' | Some d \<Rightarrow> d)
      in if prefer = ''material'' then or_text abbr_desc finish_desc else or_text finish_desc abbr_desc)"

section \<open>The lexical matcher\<close>

definition stop_words :: "string list" where
  "stop_words = [''and'', ''of'', ''the'', ''for'', ''a'', ''to'', ''with'', ''or'', ''in'', ''at'']"

definition non_token_re :: rx where
  "non_token_re = Many True 1 (\<lambda>c. \<not> (is_lower c \<or> is_digit c))"

definition tokens :: "string \<Rightarrow> string list" where
  "tokens s = filter (\<lambda>t. t \<notin> set stop_words \<and> 1 < length t) (py_split (re_sub non_token_re '' '' (py_lower s)))"

definition tok_match :: "string \<Rightarrow> string \<Rightarrow> bool" where
  "tok_match a b \<longleftrightarrow> a = b \<or> 4 \<le> length a \<and> 4 \<le> length b \<and> (prefix b a \<or> prefix a b)"

definition score_title :: "string \<Rightarrow> string \<Rightarrow> rat" where
  "score_title expn title = (let q = tokens expn; t = tokens title in
     if q = [] then 0
     else of_nat (length (filter (\<lambda>qt. list_ex (tok_match qt) t) q)) / of_nat (length q))"

definition in_division :: "string option \<Rightarrow> string \<Rightarrow> bool" where
  "in_division dv num \<longleftrightarrow> (case dv of None \<Rightarrow> True | Some d \<Rightarrow> prefix d num)"

definition better_title :: "string \<Rightarrow> string option \<Rightarrow> string option \<times> rat \<Rightarrow> string \<times> string \<Rightarrow> string option \<times> rat" where
  "better_title expn dv best t =
     (if \<not> in_division dv (fst t) then best
      else (let sc = score_title expn (snd t) in if sc > snd best then (Some (fst t), sc) else best))"

definition match_section :: "string \<Rightarrow> (string, string) dict \<Rightarrow> string option \<Rightarrow> rat \<Rightarrow> string option \<times> rat" where
  "match_section expn titles dv min_conf =
     (case foldl (better_title expn dv) (None, 0) titles of
        (best, sc) \<Rightarrow> (if sc \<ge> min_conf then best else None, round_dec 3 sc))"

section \<open>The language-model backend\<close>

record section_request =
  sr_code :: string
  sr_context :: string
  sr_description :: string
  sr_candidates :: "(string, string) dict"

type_synonym 'w section_client = "section_request \<Rightarrow> 'w \<Rightarrow> (exn + json) \<times> 'w"

definition request_key :: "(string \<Rightarrow> string) \<Rightarrow> section_request \<Rightarrow> string" where
  "request_key sha256 req = take 16 (sha256 (dumps_sorted
     [(''code'', JStr (sr_code req)), (''context'', JStr (sr_context req)),
      (''candidates'', JObj (sort_keys (map (\<lambda>(n, t). (n, JStr t)) (sr_candidates req))))]))"

text \<open>
  What the matcher makes of a response: a response that is not an object has no \<open>get\<close>, a
  confidence that is not a number makes \<open>float\<close> raise, a section that is a list or an object is not hashable.
\<close>

definition grounded_answer :: "(json \<Rightarrow> exn + rat) \<Rightarrow> (string, string) dict \<Rightarrow> json \<Rightarrow> exn + (string option \<times> rat)" where
  "grounded_answer to_float cands resp =
     (case resp of
        JObj kvs \<Rightarrow>
          (let cj = (case map_of kvs ''confidence'' of None \<Rightarrow> JFloat ''0.0'' | Some j \<Rightarrow> j) in
           case to_float (if json_truthy cj then cj else JFloat ''0.0'') of
             Inl e \<Rightarrow> Inl e
           | Inr conf \<Rightarrow> (case map_of kvs ''section'' of
                 Some (JStr s) \<Rightarrow> Inr (if s \<in> set (dict_keys cands) then Some s else None, conf)
               | Some (JList xs) \<Rightarrow> Inl (Exn ''TypeError'' (''unhashable type: '' @ py_repr ''list''))
               | Some (JObj xs) \<Rightarrow> Inl (Exn ''TypeError'' (''unhashable type: '' @ py_repr ''dict''))
               | _ \<Rightarrow> Inr (None, conf)))
      | _ \<Rightarrow> Inl (Exn ''AttributeError'' ''object has no attribute get''))"

definition llm_resolve :: "'w section_client \<Rightarrow> (json \<Rightarrow> exn + rat) \<Rightarrow> section_request \<Rightarrow> 'w \<Rightarrow>
    (exn + (string option \<times> rat)) \<times> 'w" where
  "llm_resolve client to_float req w =
     (case client req w of
        (Inl e, w') \<Rightarrow> (if is_exception e then Inr (None, 0) else Inl e, w')
      | (Inr resp, w') \<Rightarrow> (grounded_answer to_float (sr_candidates req) resp, w'))"

text \<open>The live client: one prompt, the arguments of the first tool use in the answer.\<close>

definition section_prompt :: "section_request \<Rightarrow> string" where
  "section_prompt req =
     ''Code: '' @ sr_code req @ newline @ ''Appears in: '' @ sr_context req @ '' schedule'' @ newline @
     ''Known description: '' @ or_text (sr_description req) ''(none available)'' @ newline @ newline @
     ''Candidate CSI sections:'' @ newline @
     py_join newline (map (\<lambda>(n, t). ''  '' @ n @ '': '' @ t) (sort_keys (sr_candidates req))) @ newline @ newline @
     ''Which section specifies this? Call select_section with a candidate '' @
     ''number, or section='' @ py_repr ''none'' @ ''.''"

definition first_tool_use :: "(string \<times> args) list \<Rightarrow> json" where
  "first_tool_use blocks = (case find (\<lambda>(t, a). t = ''tool_use'') blocks of
     Some (t, a) \<Rightarrow> JObj a
   | None \<Rightarrow> JObj [(''section'', JStr ''none''), (''confidence'', JFloat ''0.0''), (''reason'', JStr ''no tool use'')])"

definition anthropic_section_client :: "(string \<Rightarrow> 'w \<Rightarrow> (exn + (string \<times> args) list) \<times> 'w) \<Rightarrow> 'w section_client" where
  "anthropic_section_client create req w =
     (case create (section_prompt req) w of
        (Inl e, w') \<Rightarrow> (Inl e, w')
      | (Inr blocks, w') \<Rightarrow> (Inr (first_tool_use blocks), w'))"

text \<open>The offline client replays a file of recorded responses, the recording one adds to it.\<close>

definition replay_client :: "(string \<Rightarrow> string) \<Rightarrow> (string, json) dict \<Rightarrow> 'w section_client" where
  "replay_client sha256 data req w =
     (let key = request_key sha256 req in
      case map_of data key of
        None \<Rightarrow> (Inl (Exn ''KeyError'' (''no recorded fixture for '' @ py_repr (sr_code req) @ '' ('' @ key @ '')'')), w)
      | Some r \<Rightarrow> (Inr r, w))"

definition recording_client :: "(string \<Rightarrow> string) \<Rightarrow> 'w section_client \<Rightarrow> (('w \<times> (string, json) dict)) section_client" where
  "recording_client sha256 inner req = (\<lambda>(w, data). case inner req w of
     (Inl e, w') \<Rightarrow> (Inl e, (w', data))
   | (Inr resp, w') \<Rightarrow> (Inr resp, (w', dict_set data (request_key sha256 req) resp)))"

section \<open>The section map\<close>

datatype link_method = DerivedLexical | DerivedLlm | Override | Unresolved

record section_link =
  sl_section :: "string option"
  sl_method :: link_method
  sl_confidence :: rat
  sl_suggestion :: "string option"
  sl_disputed :: bool

definition link_of :: "string option \<Rightarrow> rat \<Rightarrow> link_method \<Rightarrow> string option \<Rightarrow> section_link" where
  "link_of got conf how want =
     (case (got, want) of
        (Some g, None) \<Rightarrow> \<lparr>sl_section = Some g, sl_method = how, sl_confidence = round_dec 3 conf,
            sl_suggestion = None, sl_disputed = False\<rparr>
      | (Some g, Some s) \<Rightarrow>
          if g = s then \<lparr>sl_section = Some g, sl_method = how, sl_confidence = round_dec 3 conf,
            sl_suggestion = None, sl_disputed = False\<rparr>
          else \<lparr>sl_section = Some s, sl_method = Override, sl_confidence = round_dec 3 conf,
            sl_suggestion = Some g, sl_disputed = True\<rparr>
      | (None, Some s) \<Rightarrow> \<lparr>sl_section = Some s, sl_method = Override, sl_confidence = round_dec 3 conf,
            sl_suggestion = None, sl_disputed = False\<rparr>
      | (None, None) \<Rightarrow> \<lparr>sl_section = None, sl_method = Unresolved, sl_confidence = round_dec 3 conf,
            sl_suggestion = None, sl_disputed = False\<rparr>)"

text \<open>What a resolution works on: \<open>llm\<close> is the injected client, when there is one.\<close>

record resolver_input =
  ri_abbrev :: "(string, string) dict"
  ri_applied :: "(string, string) dict"
  ri_titles :: "(string, string) dict"
  ri_kind :: string
  ri_division :: "string option"
  ri_seed :: "(string, string) dict"

definition division_titles :: "resolver_input \<Rightarrow> (string, string) dict" where
  "division_titles ri = filter (\<lambda>(n, t). in_division (ri_division ri) n) (ri_titles ri)"

definition code_expansion :: "resolver_input \<Rightarrow> string \<Rightarrow> string" where
  "code_expansion ri code = expansion code (ri_abbrev ri) (ri_applied ri)
     (if ri_kind ri = ''material'' then ''material'' else ''finish'')"

definition derive_section :: "(json \<Rightarrow> exn + rat) \<Rightarrow> 'w section_client option \<Rightarrow> resolver_input \<Rightarrow> string \<Rightarrow> 'w \<Rightarrow>
    (exn + (string option \<times> rat \<times> link_method)) \<times> 'w" where
  "derive_section to_float llm ri code w =
     (let exp = code_expansion ri code in
      case (match_section exp (ri_titles ri) (ri_division ri) (1/2), llm) of
        ((None, conf), Some client) \<Rightarrow>
          (case llm_resolve client to_float \<lparr>sr_code = code, sr_context = ri_kind ri, sr_description = exp,
                  sr_candidates = division_titles ri\<rparr> w of
             (Inl e, w') \<Rightarrow> (Inl e, w')
           | (Inr (Some s, c), w') \<Rightarrow> (Inr (Some s, c, DerivedLlm), w')
           | (Inr (None, c), w') \<Rightarrow> (Inr (None, conf, DerivedLexical), w'))
      | ((got, conf), _) \<Rightarrow> (Inr (got, conf, DerivedLexical), w))"

fun section_links :: "(json \<Rightarrow> exn + rat) \<Rightarrow> 'w section_client option \<Rightarrow> resolver_input \<Rightarrow> string list \<Rightarrow>
    (string, section_link) dict \<Rightarrow> 'w \<Rightarrow> (exn + (string, section_link) dict) \<times> 'w" where
  "section_links to_float llm ri [] out w = (Inr out, w)"
| "section_links to_float llm ri (c # cs) out w =
     (case derive_section to_float llm ri c w of
        (Inl e, w') \<Rightarrow> (Inl e, w')
      | (Inr (got, conf, how), w') \<Rightarrow>
          section_links to_float llm ri cs (dict_set out c (link_of got conf how (map_of (ri_seed ri) c))) w')"

definition build_section_map :: "(json \<Rightarrow> exn + rat) \<Rightarrow> 'w section_client option \<Rightarrow> resolver_input \<Rightarrow> string list \<Rightarrow>
    'w \<Rightarrow> (exn + (string, section_link) dict) \<times> 'w" where
  "build_section_map to_float llm ri codes w = section_links to_float llm ri codes [] w"

section \<open>What the matcher finds\<close>

lemma score_title_nonneg [simp]: "0 \<le> score_title e t"
  by (simp add: score_title_def Let_def)

definition best_so_far :: "string \<Rightarrow> string option \<Rightarrow> (string \<times> string) list \<Rightarrow> string option \<times> rat \<Rightarrow> bool" where
  "best_so_far expn dv seen b \<longleftrightarrow>
     list_all (\<lambda>(n, t). in_division dv n \<longrightarrow> score_title expn t \<le> snd b) seen \<and>
     (case fst b of None \<Rightarrow> snd b = 0
      | Some n \<Rightarrow> list_ex (\<lambda>(m, t). m = n \<and> in_division dv n \<and> score_title expn t = snd b) seen \<and> 0 < snd b)"

lemma best_so_far_nonneg: "best_so_far e dv seen b \<Longrightarrow> 0 \<le> snd b"
  by (auto simp: best_so_far_def split: option.splits)

lemma best_so_far_step:
  assumes "best_so_far e dv seen b"
  shows "best_so_far e dv (seen @ [t]) (better_title e dv b t)"
proof (cases "in_division dv (fst t) \<and> snd b < score_title e (snd t)")
  case True
  then have "list_all (\<lambda>(n, u). in_division dv n \<longrightarrow> score_title e u \<le> score_title e (snd t)) seen"
    using assms by (fastforce simp: best_so_far_def list_all_iff)
  then show ?thesis using True best_so_far_nonneg[OF assms]
    by (cases t) (simp add: best_so_far_def better_title_def Let_def)
next
  case False
  then have "better_title e dv b t = b" by (auto simp: better_title_def Let_def)
  then show ?thesis using assms False
    by (cases t) (auto simp: best_so_far_def not_less split: option.splits)
qed

lemma best_so_far_fold: "best_so_far e dv ts (foldl (better_title e dv) (None, 0) ts)"
proof (induction ts rule: rev_induct)
  case (snoc t ts)
  then show ?case by (simp add: best_so_far_step)
qed (simp add: best_so_far_def)

text \<open>The section found carries the highest score of its division, and that is at least the threshold.\<close>

definition best_title :: "string \<Rightarrow> (string, string) dict \<Rightarrow> string option \<Rightarrow> string \<Rightarrow> bool" where
  "best_title expn titles dv n \<longleftrightarrow> in_division dv n \<and>
     list_ex (\<lambda>(m, t). m = n \<and> 0 < score_title expn t \<and>
       list_all (\<lambda>(k, u). in_division dv k \<longrightarrow> score_title expn u \<le> score_title expn t) titles) titles"

lemma match_section_Some:
  assumes "match_section e titles dv m = (Some n, sc)"
  shows "best_title e titles dv n \<and> list_ex (\<lambda>(k, t). k = n \<and> m \<le> score_title e t) titles"
proof -
  obtain b x where f: "foldl (better_title e dv) (None, 0) titles = (b, x)" by (meson surj_pair)
  with assms have b: "b = Some n" and m: "m \<le> x" by (auto simp: match_section_def split: if_splits)
  have I: "list_all (\<lambda>(k, t). in_division dv k \<longrightarrow> score_title e t \<le> x) titles"
    "list_ex (\<lambda>(k, t). k = n \<and> in_division dv n \<and> score_title e t = x) titles" "0 < x"
    using best_so_far_fold[of e dv titles] unfolding f b by (simp_all add: best_so_far_def)
  then obtain t where t: "(n, t) \<in> set titles" "in_division dv n" "score_title e t = x"
    by (auto simp: list_ex_iff)
  then have "best_title e titles dv n"
    unfolding best_title_def list_ex_iff using I by (intro conjI bexI[of _ "(n, t)"]) simp_all
  moreover have "list_ex (\<lambda>(k, t). k = n \<and> m \<le> score_title e t) titles"
    unfolding list_ex_iff using t m by (intro bexI[of _ "(n, t)"]) simp_all
  ultimately show ?thesis ..
qed

lemma match_section_None:
  assumes "match_section e titles dv m = (None, sc)" "0 < m" "(n, t) \<in> set titles" "in_division dv n"
  shows "score_title e t < m"
proof -
  obtain b x where f: "foldl (better_title e dv) (None, 0) titles = (b, x)" by (meson surj_pair)
  have I: "best_so_far e dv titles (b, x)" using best_so_far_fold[of e dv titles] f by simp
  then have le: "score_title e t \<le> x" using assms(3,4) by (auto simp: best_so_far_def list_all_iff)
  from f assms(1) consider "b = None" | "x < m" by (auto simp: match_section_def split: if_splits)
  then show ?thesis using I le assms(2) by cases (auto simp: best_so_far_def)
qed

lemma best_title_key: "best_title e (ri_titles ri) (ri_division ri) n \<Longrightarrow> n \<in> set (dict_keys (division_titles ri))"
  by (force simp: best_title_def list_ex_iff division_titles_def)

section \<open>What a section map holds\<close>

lemma grounded_answer_in: "grounded_answer to_float cands resp = Inr (Some s, c) \<Longrightarrow> s \<in> set (dict_keys cands)"
  by (auto simp: grounded_answer_def Let_def split: json.splits option.splits sum.splits if_splits)

lemma llm_resolve_in: "llm_resolve client to_float req w = (Inr (Some s, c), w') \<Longrightarrow> s \<in> set (dict_keys (sr_candidates req))"
  by (auto simp: llm_resolve_def dest: grounded_answer_in split: prod.splits sum.splits if_splits)

lemma derive_section_cases:
  assumes "derive_section to_float llm ri code w = (Inr (got, conf, how), w')"
  obtains (lexical) n where "got = Some n" "how = DerivedLexical"
      "fst (match_section (code_expansion ri code) (ri_titles ri) (ri_division ri) (1/2)) = Some n"
    | (model) n where "got = Some n" "how = DerivedLlm" "n \<in> set (dict_keys (division_titles ri))"
      "fst (match_section (code_expansion ri code) (ri_titles ri) (ri_division ri) (1/2)) = None"
    | (neither) "got = None" "how = DerivedLexical"
      "fst (match_section (code_expansion ri code) (ri_titles ri) (ri_division ri) (1/2)) = None"
proof -
  obtain l c where m: "match_section (code_expansion ri code) (ri_titles ri) (ri_division ri) (1/2) = (l, c)"
    by (meson surj_pair)
  show ?thesis
  proof (cases l)
    case (Some n)
    then show ?thesis using assms m by (intro lexical[of n]) (auto simp: derive_section_def Let_def)
  next
    case None
    show ?thesis
    proof (cases llm)
      case None
      then show ?thesis using assms m \<open>l = None\<close> by (intro neither) (auto simp: derive_section_def Let_def)
    next
      case (Some client)
      let ?req = "\<lparr>sr_code = code, sr_context = ri_kind ri, sr_description = code_expansion ri code,
        sr_candidates = division_titles ri\<rparr>"
      obtain r v where r: "llm_resolve client to_float ?req w = (r, v)" by (meson surj_pair)
      with assms m \<open>l = None\<close> Some obtain a x where a: "r = Inr (a, x)"
        by (cases r) (auto simp: derive_section_def Let_def)
      show ?thesis
      proof (cases a)
        case None
        then show ?thesis using assms m \<open>l = None\<close> Some r a by (intro neither) (auto simp: derive_section_def Let_def)
      next
        case (Some s)
        then have "s \<in> set (dict_keys (division_titles ri))" using llm_resolve_in[of client to_float ?req w s x v] r a by simp
        then show ?thesis using assms m \<open>l = None\<close> \<open>llm = Some client\<close> Some r a
          by (intro model[of s]) (auto simp: derive_section_def Let_def)
      qed
    qed
  qed
qed

definition link_grounded :: "resolver_input \<Rightarrow> string \<Rightarrow> section_link \<Rightarrow> bool" where
  "link_grounded ri code l \<longleftrightarrow>
     (let expn = code_expansion ri code; want = map_of (ri_seed ri) code in
      case (sl_method l, sl_section l) of
        (DerivedLexical, Some n) \<Rightarrow> best_title expn (ri_titles ri) (ri_division ri) n \<and> want \<in> {None, Some n} \<and>
          list_ex (\<lambda>(k, t). k = n \<and> 1/2 \<le> score_title expn t) (ri_titles ri) \<and> \<not> sl_disputed l
      | (DerivedLlm, Some n) \<Rightarrow> n \<in> set (dict_keys (division_titles ri)) \<and> want \<in> {None, Some n} \<and>
          list_all (\<lambda>(k, t). score_title expn t < 1/2) (division_titles ri) \<and> \<not> sl_disputed l
      | (Override, Some s) \<Rightarrow> want = Some s \<and>
          (case sl_suggestion l of
             None \<Rightarrow> \<not> sl_disputed l \<and> list_all (\<lambda>(k, t). score_title expn t < 1/2) (division_titles ri)
           | Some g \<Rightarrow> sl_disputed l \<and> g \<noteq> s \<and> g \<in> set (dict_keys (division_titles ri)))
      | (Unresolved, None) \<Rightarrow> want = None \<and>
          list_all (\<lambda>(k, t). score_title expn t < 1/2) (division_titles ri) \<and> \<not> sl_disputed l
      | _ \<Rightarrow> False)"

lemma lexical_none:
  assumes "fst (match_section e (ri_titles ri) (ri_division ri) (1/2)) = None"
  shows "list_all (\<lambda>(k, t). score_title e t < 1/2) (division_titles ri)"
proof -
  obtain sc where "match_section e (ri_titles ri) (ri_division ri) (1/2) = (None, sc)"
    using assms by (metis prod.collapse)
  from match_section_None[OF this] show ?thesis by (auto simp: list_all_iff division_titles_def)
qed

lemma derived_link_grounded:
  assumes "derive_section to_float llm ri code w = (Inr (got, conf, how), w')"
  shows "link_grounded ri code (link_of got conf how (map_of (ri_seed ri) code))"
  using assms
proof (cases rule: derive_section_cases)
  case (lexical n)
  obtain sc where "match_section (code_expansion ri code) (ri_titles ri) (ri_division ri) (1/2) = (Some n, sc)"
    using lexical(3) by (metis prod.collapse)
  from match_section_Some[OF this] best_title_key lexical show ?thesis
    by (auto simp: link_grounded_def link_of_def Let_def split: option.splits)
next
  case (model n)
  with lexical_none[OF model(4)] show ?thesis
    by (auto simp: link_grounded_def link_of_def Let_def split: option.splits)
next
  case neither
  with lexical_none[OF neither(3)] show ?thesis
    by (auto simp: link_grounded_def link_of_def Let_def split: option.splits)
qed

lemma list_all_dict_set: "list_all (\<lambda>(k, v). P k v) d \<Longrightarrow> P k v \<Longrightarrow> list_all (\<lambda>(k, v). P k v) (dict_set d k v)"
  by (induction d k v rule: dict_set.induct) auto

lemma section_links_ok:
  "section_links to_float llm ri cs out w = (Inr res, w') \<Longrightarrow> list_all (\<lambda>(c, l). link_grounded ri c l) out \<Longrightarrow>
   list_all (\<lambda>(c, l). link_grounded ri c l) res \<and> set (dict_keys res) = set (dict_keys out) \<union> set cs"
proof (induction cs arbitrary: out w)
  case (Cons c cs)
  from Cons.prems(1) obtain got conf how v where d: "derive_section to_float llm ri c w = (Inr (got, conf, how), v)"
    by (auto split: prod.splits sum.splits)
  with Cons.prems(1) have r: "section_links to_float llm ri cs (dict_set out c (link_of got conf how (map_of (ri_seed ri) c))) v
      = (Inr res, w')" by simp
  from Cons.IH[OF r list_all_dict_set[OF Cons.prems(2) derived_link_grounded[OF d]]] show ?case by auto
qed simp

text \<open>C36.  However the section map of a code set was resolved, by the lexical matcher, by the language model
  or from the seed, every code has a link, and every link is grounded: a lexical one is the best title of
  its division and at least half matched, a model one is a listed section of the division that the matcher
  could not decide, an override is the seed's own entry, flagged exactly when a derivation disagreed, and
  a code is unresolved only without a seed entry and a matching title.\<close>

theorem section_map_is_grounded:
  assumes "build_section_map to_float llm ri codes w = (Inr links, w')"
  shows "set (dict_keys links) = set codes \<and> list_all (\<lambda>(c, l). link_grounded ri c l) links"
  using section_links_ok[OF assms[unfolded build_section_map_def]] by simp

section \<open>A model that fails changes nothing\<close>

lemma llm_failure_degrades:
  assumes "\<And>req v. \<exists>e. client req v = (Inl e, v) \<and> is_exception e"
  shows "section_links to_float (Some client) ri cs out w = section_links to_float None ri cs out w"
proof (induction cs arbitrary: out w)
  case (Cons c cs)
  have "llm_resolve client to_float req v = (Inr (None, 0), v)" for req v
    using assms[of req v] by (auto simp: llm_resolve_def)
  then have "derive_section to_float (Some client) ri c w = derive_section to_float None ri c w"
    by (simp add: derive_section_def Let_def split: prod.splits option.splits)
  then show ?case by (simp add: Cons.IH split: prod.splits sum.splits)
qed simp

definition sample_resolver :: resolver_input where
  "sample_resolver = \<lparr>ri_abbrev = [(''HM'', ''METAL'')], ri_applied = [],
     ri_titles = [(''081113'', ''METALS''), (''084113'', ''GLASS'')],
     ri_kind = ''material'', ri_division = Some ''08'', ri_seed = [(''WD'', ''081416'')]\<rparr>"

definition sample_section_client :: "unit section_client" where
  "sample_section_client req w =
     (Inr (JObj [(''section'', JStr (if sr_code req = ''AL'' then ''084113'' else ''none'')), (''confidence'', JFloat ''0.9'')]), w)"

lemma sample_links:
  "build_section_map (\<lambda>_. Inr (9/10)) (Some sample_section_client) sample_resolver [''HM'', ''AL'', ''WD''] () =
     (Inr [(''HM'', \<lparr>sl_section = Some ''081113'', sl_method = DerivedLexical, sl_confidence = 1, sl_suggestion = None, sl_disputed = False\<rparr>),
       (''AL'', \<lparr>sl_section = Some ''084113'', sl_method = DerivedLlm, sl_confidence = 9/10, sl_suggestion = None, sl_disputed = False\<rparr>),
       (''WD'', \<lparr>sl_section = Some ''081416'', sl_method = Override, sl_confidence = 0, sl_suggestion = None, sl_disputed = False\<rparr>)], ())"
  by code_simp

theorem section_map_is_grounded_witness:
  "list_all (link_grounded sample_resolver ''HM'') [\<lparr>sl_section = Some ''081113'', sl_method = DerivedLexical,
     sl_confidence = 1, sl_suggestion = None, sl_disputed = False\<rparr>]"
  using section_map_is_grounded[OF sample_links] by simp

end
