(* ===== verification/Segmenter.thy ===== *)
theory Segmenter
  imports Regex
begin

text \<open>
  Discovery, first half: intake (\<open>src/src/pipeline/phase1_intake.py\<close>), the page profiles
  (\<open>page_profiler.py\<close>), the segmentation of a file into regions (\<open>segmenter.py\<close>) and their
  records (\<open>src/src/models/document_map.py\<close>).

  Parameters: \<open>open_pdf\<close> is \<open>fitz.open\<close> with the pages it yields, \<open>checksum\<close> the SHA-256 of the
  file.
\<close>

section \<open>Records\<close>

record file_ref =
  fr_id :: string
  fr_path :: string
  fr_checksum :: string
  fr_pages :: nat
  fr_format :: string

record page_profile =
  pp_file :: string
  pp_index :: int
  pp_width :: rat
  pp_height :: rat
  pp_rotation :: int
  pp_size_class :: string
  pp_char_count :: nat
  pp_density :: rat
  pp_text_layer :: bool
  pp_short_tokens :: nat
  pp_anchors :: "(string, nat) dict"

record region =
  rg_kind :: string
  rg_file :: string
  rg_start :: int
  rg_end :: int
  rg_conf :: rat

definition region_pages :: "region \<Rightarrow> int" where
  "region_pages r = rg_end r - rg_start r + 1"

definition region_contains :: "region \<Rightarrow> string \<Rightarrow> int \<Rightarrow> bool" where
  "region_contains r f i \<longleftrightarrow> f = rg_file r \<and> rg_start r \<le> i \<and> i \<le> rg_end r"

section \<open>Intake\<close>

text \<open>A page as PyMuPDF gives it: rectangle, rotation and text.\<close>

record fitz_page =
  fp_width :: rat
  fp_height :: rat
  fp_rotation :: int
  fp_text :: string

definition text_layer_min_chars :: nat where
  "text_layer_min_chars = 20"

definition text_sample_pages :: nat where
  "text_sample_pages = 10"

definition has_text :: "fitz_page \<Rightarrow> bool" where
  "has_text p \<longleftrightarrow> length (py_strip (fp_text p)) \<ge> text_layer_min_chars"

definition detect_format :: "fitz_page list \<Rightarrow> string" where
  "detect_format ps = (let n = length ps in
     if n = 0 then ''unknown''
     else (let step = max 1 (n div text_sample_pages);
               sampled = filter (\<lambda>i. i mod step = 0) [0..<n] in
       if length (filter (\<lambda>i. has_text (ps ! i)) sampled) > 0 then ''pdf_vector'' else ''pdf_scanned''))"

text \<open>The components of a path, and \<open>PurePath.stem\<close>: the last one without its suffix.\<close>

fun path_parts :: "string \<Rightarrow> string \<Rightarrow> string list" where
  "path_parts acc [] = (if acc = [] \<or> acc = ''.'' then [] else [rev acc])"
| "path_parts acc (c # cs) =
     (if c = CHR ''/'' then (if acc = [] \<or> acc = ''.'' then path_parts [] cs else rev acc # path_parts [] cs)
      else path_parts (c # acc) cs)"

definition path_name :: "string \<Rightarrow> string" where
  "path_name p = (case path_parts [] p of [] \<Rightarrow> '''' | xs \<Rightarrow> last xs)"

definition path_stem :: "string \<Rightarrow> string" where
  "path_stem p = (let name = path_name p; suf = length (takeWhile (\<lambda>c. c \<noteq> CHR ''.'') (rev name));
       i = length name - suf - 1 in
     if suf < length name \<and> 0 < i \<and> i < length name - 1 then take i name else name)"

definition intake_file :: "(string \<Rightarrow> exn + fitz_page list) \<Rightarrow> (string \<Rightarrow> exn + string) \<Rightarrow> string \<Rightarrow> exn + file_ref" where
  "intake_file open_pdf checksum path =
     (case open_pdf path of
        Inl e \<Rightarrow> Inl e
      | Inr ps \<Rightarrow> (case checksum path of
          Inl e \<Rightarrow> Inl e
        | Inr h \<Rightarrow> Inr \<lparr>fr_id = path_stem path, fr_path = path, fr_checksum = h,
            fr_pages = length ps, fr_format = detect_format ps\<rparr>))"

fun intake_package :: "(string \<Rightarrow> exn + fitz_page list) \<Rightarrow> (string \<Rightarrow> exn + string) \<Rightarrow> string list \<Rightarrow> exn + file_ref list" where
  "intake_package open_pdf checksum [] = Inr []"
| "intake_package open_pdf checksum (p # ps) =
     (case intake_file open_pdf checksum p of
        Inl e \<Rightarrow> Inl e
      | Inr r \<Rightarrow> (case intake_package open_pdf checksum ps of Inl e \<Rightarrow> Inl e | Inr rs \<Rightarrow> Inr (r # rs)))"

section \<open>Profiles\<close>

definition anchor_tokens :: "string list" where
  "anchor_tokens = [''DIVISION'', ''SECTION'', ''TABLE OF CONTENTS'', ''SHEET NUMBER'', ''SHEET NAME'',
     ''DOOR SCHEDULE'', ''FIRE RATING'', ''HARDWARE SET'', ''ROOM FINISH SCHEDULE'', ''FINISH SCHEDULE'',
     ''ABBREVIATION'']"

definition size_class :: "rat \<Rightarrow> rat \<Rightarrow> string" where
  "size_class w h = (let longest = max w h in
     if longest < 1000 then ''letter'' else if longest \<ge> 1500 then ''large'' else ''other'')"

text \<open>\<open>s.count(sub)\<close> for a non-empty \<open>sub\<close>: occurrences that do not overlap.\<close>

function count_sub :: "string \<Rightarrow> string \<Rightarrow> nat" where
  "count_sub sub [] = 0"
| "count_sub sub (c # cs) =
     (if sub \<noteq> [] \<and> prefix sub (c # cs) then Suc (count_sub sub (drop (length sub) (c # cs)))
      else count_sub sub cs)"
  by pat_completeness auto

termination count_sub
  by (relation "measure (\<lambda>(sub, s). length s)") auto

definition anchor_hits :: "string \<Rightarrow> (string, nat) dict" where
  "anchor_hits upper = map (\<lambda>t. (t, count_sub t upper)) (filter (py_contains upper) anchor_tokens)"

text \<open>\<open>\b[A-Z]{1,4}\b\<close>\<close>

definition short_token_re :: rx where
  "short_token_re = cats [Boundary, times 1 4 (Chr is_upper), Boundary]"

definition profile_page :: "string \<Rightarrow> fitz_page \<Rightarrow> int \<Rightarrow> page_profile" where
  "profile_page file_id p i =
     (let chars = length (py_strip (fp_text p)); area = max (fp_width p * fp_height p) 1 in
      \<lparr>pp_file = file_id, pp_index = i, pp_width = round_dec 1 (fp_width p),
       pp_height = round_dec 1 (fp_height p), pp_rotation = fp_rotation p,
       pp_size_class = size_class (fp_width p) (fp_height p), pp_char_count = chars,
       pp_density = round_dec 3 (of_nat chars / (area / 1000)),
       pp_text_layer = (chars \<ge> text_layer_min_chars),
       pp_short_tokens = length (finditer short_token_re (fp_text p)),
       pp_anchors = anchor_hits (py_upper (fp_text p))\<rparr>)"

definition profile_file :: "string \<Rightarrow> fitz_page list \<Rightarrow> page_profile list" where
  "profile_file file_id ps = map (\<lambda>i. profile_page file_id (ps ! i) (int i)) [0..<length ps]"

fun profile_package :: "(string \<Rightarrow> exn + fitz_page list) \<Rightarrow> file_ref list \<Rightarrow> exn + page_profile list" where
  "profile_package open_pdf [] = Inr []"
| "profile_package open_pdf (r # rs) =
     (case open_pdf (fr_path r) of
        Inl e \<Rightarrow> Inl e
      | Inr ps \<Rightarrow> (case profile_package open_pdf rs of
          Inl e \<Rightarrow> Inl e
        | Inr qs \<Rightarrow> Inr (profile_file (fr_id r) ps @ qs)))"

section \<open>Segmentation\<close>

definition provisional_kind :: "page_profile \<Rightarrow> string" where
  "provisional_kind p = (if pp_size_class p = ''large'' then ''drawings'' else ''manual'')"

text \<open>\<open>_runs\<close>: the run-length encoding with first and last position.\<close>

function runs_from :: "nat \<Rightarrow> 'a list \<Rightarrow> ('a \<times> nat \<times> nat) list" where
  "runs_from pos [] = []"
| "runs_from pos (k # ks) =
     (let n = Suc (length (takeWhile (\<lambda>x. x = k) ks)) in
      (k, pos, pos + n - 1) # runs_from (pos + n) (dropWhile (\<lambda>x. x = k) ks))"
  by pat_completeness auto

termination runs_from
  by (relation "measure (\<lambda>(pos, ks). length ks)") (auto simp: le_imp_less_Suc length_dropWhile_le)

text \<open>The first interior run that is too short and whose neighbours agree.\<close>

fun first_stray :: "int \<Rightarrow> (string \<times> nat \<times> nat) list \<Rightarrow> (nat \<times> nat \<times> string) option" where
  "first_stray m ((lk, ls, le) # (k, s, e) # (rk, rs, re) # rest) =
     (if int (e - s + 1) < m \<and> lk = rk \<and> lk \<noteq> k then Some (s, e, lk)
      else first_stray m ((k, s, e) # (rk, rs, re) # rest))"
| "first_stray m _ = None"

definition relabel :: "string list \<Rightarrow> nat \<Rightarrow> nat \<Rightarrow> string \<Rightarrow> string list" where
  "relabel ks s e k = take s ks @ replicate (Suc e - s) k @ drop (Suc e) ks"

text \<open>How often the kind changes along the pages: the measure of the absorbing loop.\<close>

fun kind_changes :: "'a list \<Rightarrow> nat" where
  "kind_changes (x # y # zs) = (if x = y then 0 else 1) + kind_changes (y # zs)"
| "kind_changes _ = 0"

lemma kind_changes_append:
  "kind_changes (xs @ ys) = kind_changes xs + kind_changes ys +
     (if xs \<noteq> [] \<and> ys \<noteq> [] \<and> last xs \<noteq> hd ys then 1 else 0)"
proof (induction xs)
  case (Cons x xs)
  then show ?case by (cases xs; cases ys) auto
qed simp

lemma kind_changes_replicate [simp]: "kind_changes (replicate n x) = 0"
proof (induction n)
  case (Suc n)
  then show ?case by (cases n) auto
qed simp

definition spell :: "('a \<times> nat \<times> nat) list \<Rightarrow> 'a list" where
  "spell rs = concat (map (\<lambda>(k, s, e). replicate (Suc e - s) k) rs)"

lemma spell_simps [simp]: "spell [] = []" "spell ((k, s, e) # rs) = replicate (Suc e - s) k @ spell rs"
  "spell (rs @ qs) = spell rs @ spell qs"
  by (simp_all add: spell_def)

lemma takeWhile_eq_replicate: "takeWhile (\<lambda>x. x = k) ks = replicate (length (takeWhile (\<lambda>x. x = k) ks)) k"
  by (induction ks) auto

lemma spell_runs: "spell (runs_from pos ks) = ks"
proof (induction pos ks rule: runs_from.induct)
  case (2 pos k ks)
  have "replicate (length (takeWhile (\<lambda>x. x = k) ks)) k @ dropWhile (\<lambda>x. x = k) ks = ks"
    by (simp flip: takeWhile_eq_replicate)
  with 2 show ?case by (simp add: Let_def)
qed simp

text \<open>Positions, kinds and lengths of the runs.\<close>

lemma runs_at:
  "runs_from pos ks = pre @ (k, s, e) # post \<Longrightarrow> s = pos + length (spell pre) \<and> s \<le> e"
proof (induction pos ks arbitrary: pre rule: runs_from.induct)
  case (2 pos k' ks)
  show ?case
  proof (cases pre)
    case Nil
    with 2(2) show ?thesis by (auto simp: Let_def)
  next
    case (Cons p pre')
    let ?n = "Suc (length (takeWhile (\<lambda>x. x = k') ks))"
    from 2(2) Cons have p: "p = (k', pos, pos + ?n - 1)"
      and rest: "runs_from (pos + ?n) (dropWhile (\<lambda>x. x = k') ks) = pre' @ (k, s, e) # post"
      by (auto simp: Let_def)
    from 2(1)[OF refl rest] show ?thesis by (simp add: Cons p)
  qed
qed simp

lemma runs_first: "runs_from pos ks = (k, s, e) # post \<Longrightarrow> ks \<noteq> [] \<and> k = hd ks"
  by (cases ks) (auto simp: Let_def)

lemma runs_adjacent:
  "runs_from pos ks = pre @ (k, s, e) # (k', s', e') # post \<Longrightarrow> k \<noteq> k'"
proof (induction pos ks arbitrary: pre rule: runs_from.induct)
  case (2 pos x ks)
  let ?n = "Suc (length (takeWhile (\<lambda>y. y = x) ks))"
  let ?rest = "dropWhile (\<lambda>y. y = x) ks"
  show ?case
  proof (cases pre)
    case Nil
    with 2(2) have "runs_from (pos + ?n) ?rest = (k', s', e') # post" and k: "k = x"
      by (auto simp: Let_def)
    from runs_first[OF this(1)] have "?rest \<noteq> []" "k' = hd ?rest" by simp_all
    then show ?thesis using hd_dropWhile[of "\<lambda>y. y = x" ks] k by simp
  next
    case (Cons p pre')
    with 2(2) have "runs_from (pos + ?n) ?rest = pre' @ (k, s, e) # (k', s', e') # post"
      by (simp add: Let_def)
    from 2(1)[OF refl this] show ?thesis .
  qed
qed simp

lemma first_stray_Some:
  "first_stray m rs = Some (s, e, left) \<Longrightarrow>
   \<exists>pre ls le k s' e' post. rs = pre @ (left, ls, le) # (k, s, e) # (left, s', e') # post \<and> left \<noteq> k"
proof (induction m rs rule: first_stray.induct)
  case (1 m lk ls le k s' e' rk r1 r2 rest)
  show ?case
  proof (cases "int (e' - s' + 1) < m \<and> lk = rk \<and> lk \<noteq> k")
    case True
    with 1(2) have "left = lk" "s = s'" "e = e'" by auto
    with True show ?thesis by (intro exI[of _ "[]"]) auto
  next
    case False
    with 1(2) have "first_stray m ((k, s', e') # (rk, r1, r2) # rest) = Some (s, e, left)" by auto
    from 1(1)[OF False this] obtain pre where
      "\<exists>ls le k' s'' e'' post. (k, s', e') # (rk, r1, r2) # rest =
         pre @ (left, ls, le) # (k', s, e) # (left, s'', e'') # post \<and> left \<noteq> k'" by blast
    then show ?thesis by (intro exI[of _ "(lk, ls, le) # pre"]) simp
  qed
qed auto

lemma relabel_decreases:
  assumes "first_stray m (runs_from 0 ks) = Some (s, e, left)"
  shows "kind_changes (relabel ks s e left) < kind_changes ks \<and> length (relabel ks s e left) = length ks"
proof -
  obtain pre ls le k s' e' post where r: "runs_from 0 ks = pre @ (left, ls, le) # (k, s, e) # (left, s', e') # post"
    and ne: "left \<noteq> k" using first_stray_Some[OF assms] by blast
  have s: "s = length (spell (pre @ [(left, ls, le)]))" and se: "s \<le> e"
    using runs_at[of 0 ks "pre @ [(left, ls, le)]" k s e] r by auto
  have l: "ls \<le> le" using runs_at[of 0 ks pre left ls le] r by auto
  have r': "s' \<le> e'" using runs_at[of 0 ks "pre @ [(left, ls, le), (k, s, e)]" left s' e'] r by auto
  define A where "A = spell pre @ replicate (Suc le - ls) left"
  define B where "B = replicate (Suc e' - s') left @ spell post"
  have ks: "ks = A @ replicate (Suc e - s) k @ B"
    using spell_runs[of 0 ks] by (simp add: r A_def B_def)
  have A: "A \<noteq> []" "last A = left" "length A = s" using l s by (auto simp: A_def)
  have B: "B \<noteq> []" "hd B = left" using r' by (auto simp: B_def Suc_diff_le hd_append)
  have new: "relabel ks s e left = A @ replicate (Suc e - s) left @ B"
    using A se by (simp add: relabel_def ks)
  have R: "replicate (Suc e - s) x \<noteq> []" "last (replicate (Suc e - s) x) = x" "hd (replicate (Suc e - s) x) = x" for x :: string
    using se by (auto simp: Suc_diff_le)
  show ?thesis
    unfolding new using A B R ne by (simp add: ks kind_changes_append)
qed

text \<open>\<open>_absorb_strays\<close>: each pass relabels one stray and starts again.\<close>

function absorb_strays :: "int \<Rightarrow> string list \<Rightarrow> string list" where
  "absorb_strays m ks =
     (case first_stray m (runs_from 0 ks) of
        None \<Rightarrow> ks
      | Some (s, e, left) \<Rightarrow> absorb_strays m (relabel ks s e left))"
  by pat_completeness auto

termination absorb_strays
  by (relation "measure (\<lambda>(m, ks). kind_changes ks)") (auto simp: relabel_decreases)

declare absorb_strays.simps [simp del]

definition manual_anchors :: "string list" where
  "manual_anchors = [''DIVISION'', ''SECTION'', ''TABLE OF CONTENTS'']"

definition key_error :: "int \<Rightarrow> exn" where
  "key_error i = Exn ''KeyError'' (show_int i)"

fun lookup_all :: "('k \<Rightarrow> exn) \<Rightarrow> ('k, 'v) dict \<Rightarrow> 'k list \<Rightarrow> exn + 'v list" where
  "lookup_all err d [] = Inr []"
| "lookup_all err d (k # ks) = (case map_of d k of
     None \<Rightarrow> Inl (err k)
   | Some v \<Rightarrow> (case lookup_all err d ks of Inl e \<Rightarrow> Inl e | Inr vs \<Rightarrow> Inr (v # vs)))"

text \<open>A short boundary run of manual pages without a manual anchor is front matter.\<close>

definition mark_boundary :: "(int, page_profile) dict \<Rightarrow> int \<Rightarrow> region \<Rightarrow> exn + region" where
  "mark_boundary by_index m r =
     (if rg_kind r \<noteq> ''manual'' \<or> region_pages r \<ge> m then Inr r
      else (case lookup_all key_error by_index [rg_start r..rg_end r] of
          Inl e \<Rightarrow> Inl e
        | Inr ps \<Rightarrow>
            if list_ex (\<lambda>p. list_ex (\<lambda>tok. tok \<in> set (dict_keys (pp_anchors p))) manual_anchors) ps
            then Inr r else Inr (r\<lparr>rg_kind := ''front_matter''\<rparr>)))"

definition mark_front_matter :: "(int, page_profile) dict \<Rightarrow> int \<Rightarrow> region list \<Rightarrow> exn + region list" where
  "mark_front_matter by_index m rs =
     (case rs of
        [] \<Rightarrow> Inr []
      | [r] \<Rightarrow> (case mark_boundary by_index m r of Inl e \<Rightarrow> Inl e | Inr r' \<Rightarrow> Inr [r'])
      | r # r2 # more_rs \<Rightarrow> (case mark_boundary by_index m r of
          Inl e \<Rightarrow> Inl e
        | Inr r' \<Rightarrow> (case mark_boundary by_index m (last rs) of
            Inl e \<Rightarrow> Inl e
          | Inr l' \<Rightarrow> Inr (r' # butlast (r2 # more_rs) @ [l']))))"

definition run_region :: "string \<Rightarrow> page_profile list \<Rightarrow> string \<times> nat \<times> nat \<Rightarrow> region" where
  "run_region file_id profs = (\<lambda>(k, s, e). (let run = take (Suc e - s) (drop s profs) in
     \<lparr>rg_kind = k, rg_file = file_id, rg_start = pp_index (profs ! s), rg_end = pp_index (profs ! e),
      rg_conf = round_dec 3 (of_nat (length (filter (\<lambda>p. provisional_kind p = k) run)) / of_nat (length run))\<rparr>))"

definition segment_file :: "page_profile list \<Rightarrow> int \<Rightarrow> exn + region list" where
  "segment_file profiles m =
     (let profs = sort_key pp_index profiles in
      if profs = [] then Inr []
      else (let by_index = dict_of (map (\<lambda>p. (pp_index p, p)) profs);
                kinds = absorb_strays m (map provisional_kind profs) in
        mark_front_matter by_index m (map (run_region (pp_file (hd profs)) profs) (runs_from 0 kinds))))"

fun segment_files :: "page_profile list \<Rightarrow> int \<Rightarrow> string list \<Rightarrow> exn + region list" where
  "segment_files profiles m [] = Inr []"
| "segment_files profiles m (f # fs) =
     (case segment_file (filter (\<lambda>p. pp_file p = f) profiles) m of
        Inl e \<Rightarrow> Inl e
      | Inr rs \<Rightarrow> (case segment_files profiles m fs of Inl e \<Rightarrow> Inl e | Inr qs \<Rightarrow> Inr (rs @ qs)))"

definition segment_package :: "page_profile list \<Rightarrow> int \<Rightarrow> exn + region list" where
  "segment_package profiles m = segment_files profiles m (dedup_first id {} (map pp_file profiles))"

definition default_min_run :: int where
  "default_min_run = 3"

section \<open>The runs of a segmented file\<close>

lemma set_relabel:
  assumes "first_stray m (runs_from 0 ks) = Some (s, e, left)"
  shows "set (relabel ks s e left) \<subseteq> set ks"
proof -
  obtain pre ls le k s' e' post where r: "runs_from 0 ks = pre @ (left, ls, le) # (k, s, e) # (left, s', e') # post"
    using first_stray_Some[OF assms] by blast
  have l: "ls \<le> le" using runs_at[of 0 ks pre left ls le] r by auto
  then have "left \<in> set (spell (runs_from 0 ks))" by (simp add: r)
  then show ?thesis
    unfolding spell_runs relabel_def using set_take_subset[of s ks] set_drop_subset[of "Suc e" ks] by auto
qed

lemma absorb_facts:
  "length (absorb_strays m ks) = length ks \<and> set (absorb_strays m ks) \<subseteq> set ks \<and>
   first_stray m (runs_from 0 (absorb_strays m ks)) = None"
proof (induction m ks rule: absorb_strays.induct)
  case (1 m ks)
  show ?case
  proof (cases "first_stray m (runs_from 0 ks)")
    case None
    then show ?thesis by (simp add: absorb_strays.simps[of m ks])
  next
    case (Some sel)
    obtain s e left where sel: "sel = (s, e, left)" by (cases sel rule: prod_cases3)
    have "length (absorb_strays m (relabel ks s e left)) = length (relabel ks s e left) \<and>
      set (absorb_strays m (relabel ks s e left)) \<subseteq> set (relabel ks s e left) \<and>
      first_stray m (runs_from 0 (absorb_strays m (relabel ks s e left))) = None"
      using 1[OF Some sel[symmetric] refl] .
    with relabel_decreases[of m ks s e left] set_relabel[of m ks s e left] Some sel
    show ?thesis by (auto simp: absorb_strays.simps[of m ks])
  qed
qed

lemma first_stray_None:
  "first_stray m (pre @ (lk, ls, le) # (k, s, e) # (rk, rs, re) # post) = None \<Longrightarrow>
   lk = rk \<Longrightarrow> lk \<noteq> k \<Longrightarrow> m \<le> int (e - s + 1)"
proof (induction pre)
  case Nil
  then show ?case by (auto split: if_splits)
next
  case (Cons p pre)
  have "first_stray m (pre @ (lk, ls, le) # (k, s, e) # (rk, rs, re) # post) = None"
  proof (cases pre)
    case Nil
    with Cons.prems(1) show ?thesis by (cases p rule: prod_cases3) (simp split: if_splits)
  next
    case (Cons q pre')
    obtain x where "pre' @ (lk, ls, le) # (k, s, e) # (rk, rs, re) # post = hd x # tl x"
      by (metis append_is_Nil_conv list.distinct(1) list.exhaust_sel)
    with Cons.prems(1) Cons show ?thesis
      by (cases p rule: prod_cases3; cases q rule: prod_cases3; cases "hd x" rule: prod_cases3)
         (simp split: if_splits)
  qed
  with Cons show ?case by blast
qed

lemma interior_split:
  assumes "r \<in> set (tl (butlast xs))"
  obtains pre l x post where "xs = pre @ l # r # x # post"
proof -
  obtain a ys z where xs: "xs = a # ys @ [z]" and r: "r \<in> set ys"
    using assms by (cases xs; cases "tl xs" rule: rev_cases) (auto split: if_splits)
  from r obtain ys1 ys2 where ys: "ys = ys1 @ r # ys2" by (auto simp: in_set_conv_decomp)
  have "\<exists>x post. ys2 @ [z] = x # post" by (cases ys2) auto
  then obtain x post where p: "ys2 @ [z] = x # post" by blast
  show ?thesis
  proof (cases ys1 rule: rev_cases)
    case Nil
    with p show ?thesis by (intro that[of "[]" a x post]) (simp add: xs ys)
  next
    case (snoc b l)
    with p show ?thesis by (intro that[of "a # b" l x post]) (simp add: xs ys)
  qed
qed

text \<open>With two kinds the neighbours of an interior run always agree, so none is short.\<close>

lemma interior_run_long:
  assumes "(k, s, e) \<in> set (tl (butlast (runs_from 0 (absorb_strays m ks))))" and "set ks \<subseteq> {a, b}"
  shows "m \<le> int (e - s + 1)"
proof -
  let ?ks = "absorb_strays m ks"
  obtain pre l x post where r: "runs_from 0 ?ks = pre @ l # (k, s, e) # x # post"
    using interior_split[OF assms(1)] by blast
  obtain lk ls le where l: "l = (lk, ls, le)" by (cases l rule: prod_cases3)
  obtain xk xs xe where x: "x = (xk, xs, xe)" by (cases x rule: prod_cases3)
  have ne: "lk \<noteq> k" "k \<noteq> xk"
    using runs_adjacent[of 0 ?ks pre lk ls le k s e "x # post"]
      runs_adjacent[of 0 ?ks "pre @ [l]" k s e xk xs xe post] r l x by simp_all
  have in_set: "z \<in> set ?ks" if "(z, p, q) \<in> set (runs_from 0 ?ks)" for z p q
  proof -
    from that obtain us vs where u: "runs_from 0 ?ks = us @ (z, p, q) # vs" by (auto simp: in_set_conv_decomp)
    with runs_at[OF u] have "z \<in> set (spell (runs_from 0 ?ks))" by simp
    then show ?thesis by (simp only: spell_runs)
  qed
  have "{lk, k, xk} \<subseteq> {a, b}"
    using in_set[of lk ls le] in_set[of k s e] in_set[of xk xs xe] absorb_facts[of m ks] assms(2) r l x by auto
  with ne have "lk = xk" by auto
  with first_stray_None[of m pre lk ls le k s e xk xs xe post] absorb_facts[of m ks] ne r l x show ?thesis by simp
qed

lemma runs_positions: "concat (map (\<lambda>(k, s, e). [s..<Suc e]) (runs_from pos ks)) = [pos..<pos + length ks]"
proof (induction pos ks rule: runs_from.induct)
  case (2 pos k ks)
  let ?n = "Suc (length (takeWhile (\<lambda>x. x = k) ks))"
  have "length ks = length (takeWhile (\<lambda>x. x = k) ks) + length (dropWhile (\<lambda>x. x = k) ks)"
    by (metis length_append takeWhile_dropWhile_id)
  then have "[pos..<pos + length (k # ks)] =
      [pos..<pos + ?n] @ [pos + ?n..<pos + ?n + length (dropWhile (\<lambda>x. x = k) ks)]"
    using upt_add_eq_append[of pos "pos + ?n" "length (dropWhile (\<lambda>x. x = k) ks)"]
    by (simp add: add.assoc del: upt_Suc upt.simps)
  with 2[OF refl] show ?case by (simp add: Let_def del: upt_Suc)
qed simp

section \<open>The regions of a file\<close>

lemma lookup_all_ok: "list_all (\<lambda>k. k \<in> fst ` set d) ks \<Longrightarrow> \<exists>vs. lookup_all err d ks = Inr vs"
proof (induction ks)
  case (Cons k ks)
  then obtain v where "map_of d k = Some v" by (auto dest: weak_map_of_SomeI)
  with Cons show ?case by auto
qed simp

text \<open>What the marking of front matter leaves as it is.\<close>

definition span :: "region \<Rightarrow> string \<times> int \<times> int \<times> rat" where
  "span r = (rg_file r, rg_start r, rg_end r, rg_conf r)"

lemma mark_boundary_ok:
  assumes "{rg_start r..rg_end r} \<subseteq> fst ` set d"
  obtains r' where "mark_boundary d m r = Inr r'" "span r' = span r"
proof -
  have "list_all (\<lambda>k. k \<in> fst ` set d) [rg_start r..rg_end r]" using assms by (auto simp: list_all_iff)
  from lookup_all_ok[OF this] obtain vs where "lookup_all key_error d [rg_start r..rg_end r] = Inr vs" by blast
  then have "\<exists>r'. mark_boundary d m r = Inr r' \<and> span r' = span r"
    by (auto simp: mark_boundary_def span_def)
  with that show ?thesis by blast
qed

lemma mark_front_matter_ok:
  assumes "\<And>r. r \<in> set rs \<Longrightarrow> {rg_start r..rg_end r} \<subseteq> fst ` set d"
  shows "\<exists>rs'. mark_front_matter d m rs = Inr rs' \<and> map span rs' = map span rs \<and> tl (butlast rs') = tl (butlast rs)"
proof (cases rs)
  case (Cons r rest)
  obtain r' where r': "mark_boundary d m r = Inr r'" "span r' = span r"
    using mark_boundary_ok[of r d m] assms Cons by auto
  show ?thesis
  proof (cases rest rule: rev_cases)
    case Nil
    with r' Cons show ?thesis by (simp add: mark_front_matter_def)
  next
    case (snoc mid l)
    obtain l' where l': "mark_boundary d m l = Inr l'" "span l' = span l"
      using mark_boundary_ok[of l d m] assms Cons snoc by auto
    obtain q qs where q: "mid @ [l] = q # qs" by (cases "mid @ [l]") auto
    have b: "butlast (q # qs) = mid" "last (r # q # qs) = l" unfolding q[symmetric] by simp_all
    have "mark_front_matter d m rs = Inr (r' # mid @ [l'])"
      using r' l' unfolding mark_front_matter_def Cons snoc q using b by simp
    with r' l' show ?thesis by (simp add: Cons snoc butlast_append)
  qed
qed (simp add: mark_front_matter_def)

lemma run_in: "(k, s, e) \<in> set (runs_from 0 ks) \<Longrightarrow> s \<le> e \<and> e < length ks"
proof -
  assume r: "(k, s, e) \<in> set (runs_from 0 ks)"
  then obtain us vs where u: "runs_from 0 ks = us @ (k, s, e) # vs" by (auto simp: in_set_conv_decomp)
  from runs_at[OF u] have se: "s = length (spell us)" "s \<le> e" by simp_all
  have "length (spell us) + (Suc e - s) \<le> length (spell (runs_from 0 ks))" by (simp add: u)
  with se show ?thesis by (simp add: spell_runs)
qed

lemma upto_shift: "map (\<lambda>i. a + int i) [s..<Suc e] = [a + int s..a + int e]"
proof (cases "s \<le> e")
  case True
  then obtain n where e: "e = s + n" using le_Suc_ex by blast
  show ?thesis unfolding e
  proof (induction n)
    case (Suc n)
    have "[a + int s..a + int (s + Suc n)] = [a + int s..a + int (s + n)] @ [a + int (s + Suc n)]"
      by (subst upto_rec2) auto
    with Suc show ?case by simp
  qed simp
qed simp

lemma interior_kinds: "tl (butlast (map f xs)) = map f (tl (butlast xs))"
  by (simp add: map_butlast map_tl)

text \<open>The regions of profiles whose indices count up from \<open>a\<close>, before any marking.\<close>

definition raw_regions :: "string \<Rightarrow> page_profile list \<Rightarrow> int \<Rightarrow> region list" where
  "raw_regions f profs m = map (run_region f profs) (runs_from 0 (absorb_strays m (map provisional_kind profs)))"

definition indices_from :: "int \<Rightarrow> page_profile list \<Rightarrow> bool" where
  "indices_from a profs \<longleftrightarrow> map pp_index profs = map (\<lambda>i. a + int i) [0..<length profs]"

lemma indices_nth: "indices_from a profs \<Longrightarrow> i < length profs \<Longrightarrow> pp_index (profs ! i) = a + int i"
  unfolding indices_from_def by (drule arg_cong[where f = "\<lambda>xs. xs ! i"]) simp

lemma absorbed_length [simp]: "length (absorb_strays m (map provisional_kind profs)) = length profs"
  using absorb_facts[of m "map provisional_kind profs"] by simp

lemma region_ends:
  assumes "indices_from a profs" and "(k, s, e) \<in> set (runs_from 0 (absorb_strays m (map provisional_kind profs)))"
  shows "rg_start (run_region f profs (k, s, e)) = a + int s" "rg_end (run_region f profs (k, s, e)) = a + int e"
    "s \<le> e" "e < length profs"
  using run_in[OF assms(2)] indices_nth[OF assms(1)] by (simp_all add: run_region_def Let_def)

lemma region_fraction:
  "rg_file (run_region f profs x) = f \<and> 0 \<le> rg_conf (run_region f profs x) \<and> rg_conf (run_region f profs x) \<le> 1"
proof -
  obtain k s e where x: "x = (k, s, e)" by (cases x rule: prod_cases3)
  define run where "run = take (Suc e - s) (drop s profs)"
  have "length (filter (\<lambda>p. provisional_kind p = k) run) \<le> length run" by simp
  then have "of_nat (length (filter (\<lambda>p. provisional_kind p = k) run)) / of_nat (length run) \<le> (1::rat)"
    by (simp add: divide_le_eq_1)
  then show ?thesis unfolding x run_region_def Let_def prod.case run_def[symmetric]
    by (simp add: round_dec_unit)
qed

lemma raw_regions_tile:
  assumes "indices_from a profs"
  shows "concat (map (\<lambda>r. [rg_start r..rg_end r]) (raw_regions f profs m)) = map (\<lambda>i. a + int i) [0..<length profs]"
proof -
  let ?runs = "runs_from 0 (absorb_strays m (map provisional_kind profs))"
  have "map (\<lambda>r. [rg_start r..rg_end r]) (raw_regions f profs m) =
      map (map (\<lambda>i. a + int i)) (map (\<lambda>(k, s, e). [s..<Suc e]) ?runs)"
    unfolding raw_regions_def map_map
  proof (rule map_cong[OF refl])
    fix x assume x: "x \<in> set ?runs"
    obtain k s e where e: "x = (k, s, e)" by (cases x rule: prod_cases3)
    from region_ends(1,2)[OF assms x[unfolded e]]
    show "((\<lambda>r. [rg_start r..rg_end r]) \<circ> run_region f profs) x = (map (\<lambda>i. a + int i) \<circ> (\<lambda>(k, s, e). [s..<Suc e])) x"
      by (simp add: e upto_shift del: upt_Suc)
  qed
  then have "concat (map (\<lambda>r. [rg_start r..rg_end r]) (raw_regions f profs m)) =
      map (\<lambda>i. a + int i) (concat (map (\<lambda>(k, s, e). [s..<Suc e]) ?runs))"
    by (simp only: map_concat)
  then show ?thesis unfolding runs_positions by simp
qed

lemma raw_regions_long: "indices_from a profs \<Longrightarrow> list_all (\<lambda>r. m \<le> region_pages r) (tl (butlast (raw_regions f profs m)))"
proof -
  let ?ks = "map provisional_kind profs"
  assume ix: "indices_from a profs"
  have sub: "x \<in> set (tl (butlast xs)) \<Longrightarrow> x \<in> set xs" for x and xs :: "'a list"
    using in_set_butlastD[of x xs] by (cases "butlast xs") auto
  have "m \<le> region_pages (run_region f profs (k, s, e))"
    if i: "(k, s, e) \<in> set (tl (butlast (runs_from 0 (absorb_strays m ?ks))))" for k s e
  proof -
    have "set ?ks \<subseteq> {''drawings'', ''manual''}" by (auto simp: provisional_kind_def)
    from interior_run_long[OF i this] have "m \<le> int (e - s + 1)" .
    with region_ends[OF ix sub[OF i]] show ?thesis by (simp add: region_pages_def of_nat_diff)
  qed
  then show ?thesis by (auto simp: raw_regions_def interior_kinds list_all_iff)
qed

lemma profile_dict_keys:
  "fst ` set (dict_of (map (\<lambda>p. (pp_index p, p)) profs)) = set (map pp_index profs)"
  by (simp add: image_image)

lemma raw_regions_known:
  assumes "indices_from a profs" and "r \<in> set (raw_regions f profs m)"
  shows "{rg_start r..rg_end r} \<subseteq> fst ` set (dict_of (map (\<lambda>p. (pp_index p, p)) profs))"
proof -
  have "set [rg_start r..rg_end r] \<subseteq> set (concat (map (\<lambda>r. [rg_start r..rg_end r]) (raw_regions f profs m)))"
    using assms(2) by auto
  then show ?thesis unfolding raw_regions_tile[OF assms(1)] profile_dict_keys
    using assms(1) by (simp add: indices_from_def flip: set_map)
qed

text \<open>One file whose page indices are a range.\<close>

lemma segment_file_ok:
  assumes idx: "indices_from a (sort_key pp_index ps)" and own: "list_all (\<lambda>p. pp_file p = f) ps"
  shows "\<exists>rs. segment_file ps m = Inr rs \<and> list_all (\<lambda>r. rg_file r = f \<and> 0 \<le> rg_conf r \<and> rg_conf r \<le> 1) rs \<and>
    concat (map (\<lambda>r. [rg_start r..rg_end r]) rs) = map (\<lambda>i. a + int i) [0..<length ps] \<and>
    list_all (\<lambda>r. m \<le> region_pages r) (tl (butlast rs))"
proof (cases "ps = []")
  case True
  then show ?thesis by (simp add: segment_file_def)
next
  case False
  let ?profs = "sort_key pp_index ps"
  let ?d = "dict_of (map (\<lambda>p. (pp_index p, p)) ?profs)"
  have ne: "?profs \<noteq> []" using False by (metis length_0_conv length_sort)
  have hd_own: "pp_file (hd ?profs) = f" using own hd_in_set[OF ne] by (simp add: list_all_iff)
  have known: "{rg_start r..rg_end r} \<subseteq> fst ` set ?d" if "r \<in> set (raw_regions f ?profs m)" for r
    by (rule raw_regions_known[OF idx that])
  obtain rs where rs: "mark_front_matter ?d m (raw_regions f ?profs m) = Inr rs"
    "map span rs = map span (raw_regions f ?profs m)" "tl (butlast rs) = tl (butlast (raw_regions f ?profs m))"
    using mark_front_matter_ok[of "raw_regions f ?profs m" ?d m] known by blast
  have "segment_file ps m = Inr rs"
    using rs(1) ne by (simp add: segment_file_def Let_def hd_own raw_regions_def)
  moreover have "list_all (\<lambda>q. fst q = f \<and> 0 \<le> snd (snd (snd q)) \<and> snd (snd (snd q)) \<le> 1) (map span rs)"
    unfolding rs(2) using region_fraction by (simp add: list_all_iff span_def raw_regions_def)
  then have "list_all (\<lambda>r. rg_file r = f \<and> 0 \<le> rg_conf r \<and> rg_conf r \<le> 1) rs"
    by (simp add: list_all_iff span_def)
  moreover have "concat (map (\<lambda>q. [fst (snd q)..fst (snd (snd q))]) (map span rs)) = map (\<lambda>i. a + int i) [0..<length ps]"
    unfolding rs(2) using raw_regions_tile[OF idx, of f m] by (simp add: span_def comp_def)
  then have "concat (map (\<lambda>r. [rg_start r..rg_end r]) rs) = map (\<lambda>i. a + int i) [0..<length ps]"
    by (simp add: span_def comp_def)
  moreover have "list_all (\<lambda>r. m \<le> region_pages r) (tl (butlast rs))"
    unfolding rs(3) by (rule raw_regions_long[OF idx])
  ultimately show ?thesis by (intro exI[of _ rs] conjI)
qed

section \<open>A package\<close>

lemma profile_file_facts:
  "map pp_index (profile_file f ps) = map int [0..<length ps]" "list_all (\<lambda>p. pp_file p = f) (profile_file f ps)"
  "length (profile_file f ps) = length ps"
  by (simp_all add: profile_file_def profile_page_def Let_def list_all_iff)

text \<open>With distinct ids, a file's profiles are exactly those its own pages gave.\<close>

lemma profiles_of_file:
  assumes "profile_package open_pdf files = Inr profiles" and "distinct (map fr_id files)"
    and "f \<in> set files" and "open_pdf (fr_path f) = Inr ps"
  shows "filter (\<lambda>p. pp_file p = fr_id f) profiles = profile_file (fr_id f) ps"
  using assms(1-3)
proof (induction files arbitrary: profiles)
  case (Cons g gs)
  from Cons.prems(1) obtain qs rest where g: "open_pdf (fr_path g) = Inr qs" "profile_package open_pdf gs = Inr rest"
    "profiles = profile_file (fr_id g) qs @ rest" by (auto split: sum.splits)
  have own: "filter (\<lambda>p. pp_file p = i) (profile_file j qs) = (if i = j then profile_file j qs else [])" for i j
    using profile_file_facts(2)[of j qs] by (auto simp: list_all_iff filter_empty_conv)
  have other: "filter (\<lambda>p. pp_file p = i) rest = []" if "i \<notin> fr_id ` set gs" for i
  proof -
    have "profile_package open_pdf hs = Inr r \<Longrightarrow> i \<notin> fr_id ` set hs \<Longrightarrow> filter (\<lambda>p. pp_file p = i) r = []" for hs r
    proof (induction hs arbitrary: r)
      case (Cons h hs)
      from Cons.prems(1) obtain us vs where "profile_package open_pdf hs = Inr vs" "r = profile_file (fr_id h) us @ vs"
        by (auto split: sum.splits)
      with Cons profile_file_facts(2)[of "fr_id h" us] show ?case by (auto simp: list_all_iff filter_empty_conv)
    qed simp
    from this[OF g(2) that] show ?thesis .
  qed
  show ?case
  proof (cases "f = g")
    case True
    with g other[of "fr_id g"] Cons.prems(2) assms(4) own show ?thesis by simp
  next
    case False
    with Cons.prems(3) have f: "f \<in> set gs" by simp
    then have "fr_id f \<in> fr_id ` set gs" by simp
    with Cons.prems(2) have "fr_id f \<noteq> fr_id g" by auto
    with f g own Cons.IH[OF g(2)] Cons.prems(2) show ?thesis by simp
  qed
qed simp

lemma segment_files_ok:
  assumes "distinct fs" and "\<And>f. f \<in> set fs \<Longrightarrow>
      \<exists>rs. segment_file (filter (\<lambda>p. pp_file p = f) profiles) m = Inr rs \<and> list_all (\<lambda>r. rg_file r = f) rs"
  shows "\<exists>rs. segment_files profiles m fs = Inr rs \<and> (\<forall>r \<in> set rs. rg_file r \<in> set fs) \<and>
    (\<forall>f \<in> set fs. segment_file (filter (\<lambda>p. pp_file p = f) profiles) m = Inr (filter (\<lambda>r. rg_file r = f) rs))"
  using assms
proof (induction fs)
  case (Cons g gs)
  obtain rs where rs: "segment_file (filter (\<lambda>p. pp_file p = g) profiles) m = Inr rs" "list_all (\<lambda>r. rg_file r = g) rs"
    using Cons.prems(2)[of g] by auto
  obtain qs where qs: "segment_files profiles m gs = Inr qs" "\<forall>r \<in> set qs. rg_file r \<in> set gs"
    "\<forall>f \<in> set gs. segment_file (filter (\<lambda>p. pp_file p = f) profiles) m = Inr (filter (\<lambda>r. rg_file r = f) qs)"
    using Cons by auto
  have own: "filter (\<lambda>r. rg_file r = g) rs = rs" "filter (\<lambda>r. rg_file r = g) qs = []"
    using rs(2) qs(2) Cons.prems(1) by (auto simp: list_all_iff filter_empty_conv intro!: filter_True)
  have other: "filter (\<lambda>r. rg_file r = f) rs = []" if "f \<in> set gs" for f
    using rs(2) Cons.prems(1) that by (auto simp: list_all_iff filter_empty_conv)
  have "segment_files profiles m (g # gs) = Inr (rs @ qs)" using rs(1) qs(1) by simp
  moreover have "\<forall>f \<in> set (g # gs). segment_file (filter (\<lambda>p. pp_file p = f) profiles) m =
      Inr (filter (\<lambda>r. rg_file r = f) (rs @ qs))"
    using rs(1) qs(3) own other by simp
  moreover have "\<forall>r \<in> set (rs @ qs). rg_file r \<in> set (g # gs)" using rs(2) qs(2) by (auto simp: list_all_iff)
  ultimately show ?case by blast
qed simp

lemma file_of_profile: "profile_package open_pdf files = Inr profiles \<Longrightarrow> p \<in> set profiles \<Longrightarrow> pp_file p \<in> fr_id ` set files \<and>
   (\<exists>f ps. f \<in> set files \<and> pp_file p = fr_id f \<and> open_pdf (fr_path f) = Inr ps)"
proof (induction files arbitrary: profiles)
  case (Cons g gs)
  from Cons.prems(1) obtain qs rest where g: "open_pdf (fr_path g) = Inr qs" "profile_package open_pdf gs = Inr rest"
    "profiles = profile_file (fr_id g) qs @ rest" by (auto split: sum.splits)
  with Cons profile_file_facts(2)[of "fr_id g" qs] show ?case by (force simp: list_all_iff)
qed simp

lemma segment_own_file:
  assumes "profile_package open_pdf files = Inr profiles" and "distinct (map fr_id files)"
    and "f \<in> set files" and "open_pdf (fr_path f) = Inr ps"
  shows "\<exists>rs. segment_file (filter (\<lambda>p. pp_file p = fr_id f) profiles) m = Inr rs \<and>
    list_all (\<lambda>r. rg_file r = fr_id f \<and> 0 \<le> rg_conf r \<and> rg_conf r \<le> 1) rs \<and>
    concat (map (\<lambda>r. [rg_start r..rg_end r]) rs) = map int [0..<length ps] \<and>
    list_all (\<lambda>r. m \<le> region_pages r) (tl (butlast rs))"
proof -
  let ?ps = "profile_file (fr_id f) ps"
  have "sorted (map pp_index ?ps)" by (simp only: profile_file_facts) (simp add: sorted_map sorted_wrt_map mono_def)
  then have "sort_key pp_index ?ps = ?ps" by (rule sort_key_id_if_sorted)
  then show ?thesis
    using segment_file_ok[of 0 ?ps "fr_id f" m] profile_file_facts[of "fr_id f" ps]
    unfolding profiles_of_file[OF assms] by (simp add: indices_from_def)
qed

lemma segment_package_ok:
  assumes "profile_package open_pdf files = Inr profiles" and "distinct (map fr_id files)"
  shows "\<exists>rs. segment_package profiles m = Inr rs \<and>
    (\<forall>g \<in> pp_file ` set profiles. segment_file (filter (\<lambda>p. pp_file p = g) profiles) m = Inr (filter (\<lambda>r. rg_file r = g) rs))"
proof -
  let ?fs = "dedup_first id {} (map pp_file profiles)"
  have fs: "set ?fs = pp_file ` set profiles" "distinct ?fs"
    using set_dedup_first_keys[of id "{}" "map pp_file profiles"] distinct_dedup_first[of id "{}" "map pp_file profiles"]
    by simp_all
  have each: "\<exists>rs. segment_file (filter (\<lambda>p. pp_file p = g) profiles) m = Inr rs \<and> list_all (\<lambda>r. rg_file r = g) rs"
    if "g \<in> set ?fs" for g
  proof -
    from that fs obtain p where "p \<in> set profiles" "g = pp_file p" by auto
    with file_of_profile[OF assms(1)] obtain h qs where "h \<in> set files" "g = fr_id h" "open_pdf (fr_path h) = Inr qs" by blast
    with segment_own_file[OF assms(1,2), of h qs m] show ?thesis by (auto simp: list_all_iff)
  qed
  from segment_files_ok[OF fs(2) each] show ?thesis unfolding segment_package_def fs(1) by blast
qed

text \<open>
  C38.  Segmentation partitions a package: for files with distinct ids it never raises, and the
  regions of each file tile its pages, in order, without gap or overlap; every region but the
  first and the last of a file has at least \<open>min_run\<close> pages, and confidences are fractions.
\<close>

theorem segmentation_partitions_pages:
  assumes "profile_package open_pdf files = Inr profiles" and "distinct (map fr_id files)"
    and "f \<in> set files" and "open_pdf (fr_path f) = Inr ps" and "ps \<noteq> []"
  shows "\<exists>rs. segment_package profiles m = Inr rs \<and>
    concat (map (\<lambda>r. [rg_start r..rg_end r]) (filter (\<lambda>r. rg_file r = fr_id f) rs)) = map int [0..<length ps] \<and>
    list_all (\<lambda>r. m \<le> region_pages r) (tl (butlast (filter (\<lambda>r. rg_file r = fr_id f) rs))) \<and>
    list_all (\<lambda>r. 0 \<le> rg_conf r \<and> rg_conf r \<le> 1) (filter (\<lambda>r. rg_file r = fr_id f) rs)"
proof -
  have "profile_file (fr_id f) ps \<noteq> []" using assms(5) by (simp add: profile_file_def)
  then have "filter (\<lambda>p. pp_file p = fr_id f) profiles \<noteq> []" by (simp only: profiles_of_file[OF assms(1-4)] not_False_eq_True)
  then have "fr_id f \<in> pp_file ` set profiles" by (force simp: filter_empty_conv)
  with segment_package_ok[OF assms(1,2), of m] obtain rs where rs: "segment_package profiles m = Inr rs"
    and own: "segment_file (filter (\<lambda>p. pp_file p = fr_id f) profiles) m = Inr (filter (\<lambda>r. rg_file r = fr_id f) rs)"
    by blast
  have "list_all (\<lambda>r. 0 \<le> rg_conf r \<and> rg_conf r \<le> 1) qs"
    if "list_all (\<lambda>r. rg_file r = fr_id f \<and> 0 \<le> rg_conf r \<and> rg_conf r \<le> 1) qs" for qs
    using that by (simp add: list_all_iff)
  with rs show ?thesis using segment_own_file[OF assms(1-4), of m] unfolding own sum.inject by blast
qed

text \<open>A cover sheet, drawings, and a manual behind them, in one file of seven pages.\<close>

definition sample_page :: "rat \<Rightarrow> fitz_page" where
  "sample_page w = \<lparr>fp_width = w, fp_height = 792, fp_rotation = 0, fp_text = ''''\<rparr>"

definition sample_pages :: "fitz_page list" where
  "sample_pages = map sample_page [612, 2592, 2592, 2592, 612, 612, 612]"

definition sample_ref :: file_ref where
  "sample_ref = \<lparr>fr_id = ''set'', fr_path = ''set.pdf'', fr_checksum = '''', fr_pages = 7, fr_format = ''pdf_scanned''\<rparr>"

theorem segmentation_partitions_pages_witness:
  "\<exists>rs. segment_package (profile_file ''set'' sample_pages) default_min_run = Inr rs \<and>
     concat (map (\<lambda>r. [rg_start r..rg_end r]) (filter (\<lambda>r. rg_file r = ''set'') rs)) = map int [0..<7]"
proof -
  have "profile_package (\<lambda>_. Inr sample_pages) [sample_ref] = Inr (profile_file ''set'' sample_pages)"
    by (simp add: sample_ref_def)
  from segmentation_partitions_pages[OF this, of sample_ref sample_pages default_min_run]
  obtain rs where "segment_package (profile_file ''set'' sample_pages) default_min_run = Inr rs"
    "concat (map (\<lambda>r. [rg_start r..rg_end r]) (filter (\<lambda>r. rg_file r = ''set'') rs)) = map int [0..<length sample_pages]"
    by (auto simp: sample_ref_def sample_pages_def)
  moreover have "length sample_pages = 7" by (simp add: sample_pages_def)
  ultimately show ?thesis by auto
qed

end
