(* ===== verification/SpecText.thy ===== *)
theory SpecText
  imports Regex
begin

text \<open>
  The specification parsers, \<open>src/src/pipeline/phase2_spec_parser.py\<close>, and their records
  (\<open>src/src/models/spec.py\<close>): the table of contents folded line by line, and one section with its
  parts and clauses.  A document is the list of its page texts (\<open>extract_text() or ""\<close>).
\<close>

section \<open>The table of contents\<close>

text \<open>The dashes of the source, as their UTF-8 bytes.\<close>

definition dash :: rx where
  "dash = alts [lit ''-'', lit [CHR 0xE2, CHR 0x80, CHR 0x92], lit [CHR 0xE2, CHR 0x80, CHR 0x93],
     lit [CHR 0xE2, CHR 0x80, CHR 0x94], lit [CHR 0xE2, CHR 0x80, CHR 0x95], lit [CHR 0xE2, CHR 0x88, CHR 0x92]]"

text \<open>\<open>(.+?)\s*$\<close>\<close>

definition lazy_title :: "nat \<Rightarrow> rx" where
  "lazy_title i = Cat (Grp i (Many False 1 any_char)) (Cat spaces (LineEnd False))"

definition two_digits :: rx where
  "two_digits = Cat digit digit"

definition division_re :: rx where
  "division_re = cats [LineStart False, spaces, lit ''DIVISION'', spaces1, Grp 1 two_digits, spaces, dash,
     spaces, lazy_title 2]"

definition section_re :: rx where
  "section_re = cats [LineStart False, spaces, opt (Cat (lit ''SECTION'') spaces1),
     Grp 1 (cats [two_digits, opt (Chr is_space), two_digits, opt (Chr is_space), two_digits,
       opt (Cat (lit ''.'') two_digits)]),
     spaces, opt dash, spaces, lazy_title 2]"

definition section_number :: "string \<Rightarrow> string" where
  "section_number raw = filter (\<lambda>c. c \<noteq> CHR '' '') raw"

definition is_letter :: "char \<Rightarrow> bool" where
  "is_letter c \<longleftrightarrow> is_upper c \<or> is_lower c"

text \<open>\<open>^\d{1,2}\s+[A-Za-z]+\s+\d{4}$\<close> and \<open>^TABLE OF CONTENTS\s+TOC-\d+$\<close>\<close>

definition date_re :: rx where
  "date_re = cats [LineStart False, times 1 2 digit, spaces1, Many True 1 is_letter, spaces1, times 4 4 digit, LineEnd False]"

definition footer_re :: rx where
  "footer_re = cats [LineStart False, lit ''TABLE OF CONTENTS'', spaces1, lit ''TOC-'', Many True 1 is_digit, LineEnd False]"

definition noise_exact :: "string list" where
  "noise_exact = [''BID SET'', ''TABLE OF CONTENTS'', ''END OF TABLE OF CONTENTS'', ''PROJECT MANUAL COVER'']"

definition is_noise :: "string \<Rightarrow> bool" where
  "is_noise line \<longleftrightarrow> (let s = py_strip line in
     s = '''' \<or> prefix ''SMITHGROUP'' s \<or> s \<in> set noise_exact \<or> re_match date_re s \<noteq> None \<or> re_match footer_re s \<noteq> None)"

definition is_toc_page :: "string \<Rightarrow> bool" where
  "is_toc_page text \<longleftrightarrow> py_contains text ''END OF TABLE OF CONTENTS'' \<or>
     list_ex (\<lambda>l. re_match division_re l \<noteq> None) (splitlines text)"

fun toc_scan :: "bool \<Rightarrow> string list \<Rightarrow> string list" where
  "toc_scan started [] = []"
| "toc_scan started (t # ts) =
     (if is_toc_page t then splitlines t @ toc_scan True ts
      else if started then [] else toc_scan started ts)"

definition toc_lines :: "string list \<Rightarrow> nat \<Rightarrow> nat \<Rightarrow> string list" where
  "toc_lines pages start_page scan_pages = toc_scan False (take scan_pages (drop start_page pages))"

record division =
  dv_number :: string
  dv_title :: string
  dv_sections :: "(string \<times> string) list"
  dv_applicable :: bool

record spec_toc =
  st_divisions :: "division list"
  st_total :: nat

definition toc_division :: "spec_toc \<Rightarrow> string \<Rightarrow> division option" where
  "toc_division toc num = find (\<lambda>d. dv_number d = num) (st_divisions toc)"

definition update_last :: "('a \<Rightarrow> 'a) \<Rightarrow> 'a list \<Rightarrow> 'a list" where
  "update_last f xs = (if xs = [] then [] else butlast xs @ [f (last xs)])"

definition continue_title :: "string \<Rightarrow> string \<Rightarrow> string" where
  "continue_title raw prev = py_strip (prev @ (if suffix ''-'' prev then '''' else '' '') @ py_strip raw)"

text \<open>
  One line of the parser's loop.  \<open>current\<close> is the last division; \<open>last_section\<close>, the boolean, is
  whether there is one, which then is the last section of that division.
\<close>

definition toc_line :: "division list \<times> bool \<Rightarrow> string \<Rightarrow> division list \<times> bool" where
  "toc_line st raw = (case st of (divs, last_section) \<Rightarrow>
     if is_noise raw then st
     else (case re_match division_re raw of
       Some m \<Rightarrow> (divs @ [\<lparr>dv_number = group 1 m, dv_title = py_strip (group 2 m), dv_sections = [],
                            dv_applicable = True\<rparr>], False)
     | None \<Rightarrow>
         if py_upper (py_strip raw) = ''NOT APPLICABLE''
         then (update_last (\<lambda>d. d\<lparr>dv_applicable := False\<rparr>) divs, last_section)
         else (case (re_match section_re raw, divs) of
           (Some m, _ # _) \<Rightarrow>
             (update_last (\<lambda>d. d\<lparr>dv_sections := dv_sections d @
                [(section_number (group 1 m), py_strip (group 2 m))]\<rparr>) divs, True)
         | _ \<Rightarrow>
             if divs \<noteq> [] \<and> dv_number (last divs) \<noteq> ''00'' \<and> last_section
             then (update_last (\<lambda>d. d\<lparr>dv_sections :=
                update_last (\<lambda>(n, t). (n, continue_title raw t)) (dv_sections d)\<rparr>) divs, last_section)
             else st)))"

definition parse_toc_lines :: "string list \<Rightarrow> spec_toc" where
  "parse_toc_lines ls = (let divs = fst (foldl toc_line ([], False) ls) in
     \<lparr>st_divisions = divs, st_total = sum_list (map (\<lambda>d. length (dv_sections d)) divs)\<rparr>)"

definition parse_spec_toc :: "string list \<Rightarrow> nat \<Rightarrow> spec_toc" where
  "parse_spec_toc pages start_page = parse_toc_lines (toc_lines pages start_page 20)"

section \<open>One section\<close>

record spec_clause =
  sc_id :: string
  sc_title :: string
  sc_text :: string
  sc_products :: "string list"
  sc_standards :: "string list"

record spec_part =
  sp_number :: nat
  sp_title :: string
  sp_clauses :: "spec_clause list"

record spec_section =
  ss_number :: string
  ss_title :: string
  ss_division_number :: string
  ss_division_title :: string
  ss_parts :: "spec_part list"
  ss_page_range :: "nat \<times> nat"
  ss_raw_text :: string

text \<open>\<open>^\s*PART\s+([123])\s*-\s*(.+?)\s*$\<close> and \<open>^\s*(\d+\.\d+)\s+([A-Z][A-Z0-9 ,./&()'-]+?)\s*$\<close>\<close>

definition part_re :: rx where
  "part_re = cats [LineStart False, spaces, lit ''PART'', spaces1, Grp 1 (Chr (one_of ''123'')), spaces, dash, spaces, lazy_title 2]"

definition clause_char :: "char \<Rightarrow> bool" where
  "clause_char c \<longleftrightarrow> is_upper c \<or> is_digit c \<or> one_of '' ,./&()-'' c \<or> c = CHR 39"

definition clause_re :: rx where
  "clause_re = cats [LineStart False, spaces, Grp 1 (cats [Many True 1 is_digit, lit ''.'', Many True 1 is_digit]), spaces1,
     Grp 2 (Cat (Chr is_upper) (Many False 1 clause_char)), spaces, LineEnd False]"

definition std_orgs :: "string list" where
  "std_orgs = [''ASTM'', ''ANSI/SDI'', ''ANSI'', ''NAAMM-HMMA'', ''NAAMM'', ''SDI'', ''HMMA'', ''NFPA'', ''UL'', ''BHMA'',
     ''WDMA'', ''ICC'', ''ASHRAE'', ''SSPC'', ''NEMA'', ''FM'']"

definition standard_re :: rx where
  "standard_re = cats [Boundary, alts (map lit std_orgs), spaces1, opt (Chr is_upper), digit,
     Many True 0 (\<lambda>c. word_char c \<or> one_of ''./-'' c)]"

definition page_footer_re :: "string \<Rightarrow> rx" where
  "page_footer_re num = cats [Boundary, lit num, lit ''-'', Many True 1 is_digit, spaces, LineEnd False]"

definition strip_section_noise :: "string \<Rightarrow> string \<Rightarrow> bool" where
  "strip_section_noise line num = (let s = py_strip line in
     if s = '''' \<or> prefix ''SMITHGROUP'' s \<or> s = ''BID SET'' \<or> re_match date_re s \<noteq> None then True
     else re_search (page_footer_re num) s \<noteq> None)"

definition extract_standards :: "string \<Rightarrow> string list" where
  "extract_standards text = (let flat = re_sub spaces1 '' '' text in
     dedup_first id {} (map (\<lambda>m. py_strip (rstrip_chars ''. '' (match_text flat m))) (finditer standard_re flat)))"

text \<open>\<open>^\s*[a-z0-9]{1,2}[.)]\s+(.*)$\<close>\<close>

definition list_item_re :: rx where
  "list_item_re = cats [LineStart False, spaces, times 1 2 (Chr (\<lambda>c. is_lower c \<or> is_digit c)), Chr (one_of ''.)''), spaces1,
     Grp 1 (Many True 0 any_char), LineEnd False]"

definition product_name :: "string \<Rightarrow> string" where
  "product_name piece = py_strip (rstrip_chars ''.'' (py_strip piece))"

definition is_product :: "string \<Rightarrow> bool" where
  "is_product name \<longleftrightarrow> 2 \<le> length name \<and> length name \<le> 60 \<and> is_upper (hd name) \<and>
     \<not> py_contains (py_lower name) '' requirements''"

definition extract_products :: "string \<Rightarrow> string \<Rightarrow> string list" where
  "extract_products title text =
     (if \<not> py_contains title ''MANUFACTURER'' then []
      else dedup_first id {} (filter is_product (map product_name
        (concat (List.map_filter (\<lambda>l. map_option (\<lambda>m. split_on (CHR '';'') [] (group 1 m)) (re_match list_item_re l))
          (splitlines text))))))"

definition section_header_re :: "string \<Rightarrow> rx" where
  "section_header_re num = cats [LineStart False, spaces, lit ''SECTION'', spaces1, lit num, spaces, dash, spaces, lazy_title 1]"

definition page_header :: "string \<Rightarrow> string \<Rightarrow> string option" where
  "page_header num text = map_option (\<lambda>m. py_strip (group 1 m)) (first_of (List.map_filter (re_match (section_header_re num)) (splitlines text)))"

text \<open>\<open>^\s*SECTION\s+\d{6}\<close> under \<open>re.M\<close>\<close>

definition next_section_re :: rx where
  "next_section_re = cats [LineStart True, spaces, lit ''SECTION'', spaces1, times 6 6 digit]"

fun section_end :: "string list \<Rightarrow> nat \<Rightarrow> nat list \<Rightarrow> nat \<Rightarrow> nat" where
  "section_end pages start [] last_page = last_page"
| "section_end pages start (i # is) last_page =
     (if py_contains (pages ! i) ''END OF SECTION'' then i
      else if i > start \<and> re_search next_section_re (pages ! i) \<noteq> None then i - 1
      else section_end pages start is i)"

definition extract_section_text :: "string list \<Rightarrow> string \<Rightarrow> nat \<Rightarrow> exn + string \<times> string \<times> (nat \<times> nat)" where
  "extract_section_text pages num start_hint =
     (let n = length pages in
      case first_of (List.map_filter (\<lambda>i. map_option (\<lambda>t. (i, t)) (page_header num (pages ! i))) [start_hint..<n]) of
        None \<Rightarrow> Inl (Exn ''ValueError'' (''SECTION '' @ num @ '' header not found (from page '' @ show_nat (start_hint + 1) @ '').''))
      | Some (start, title) \<Rightarrow>
          (let end' = section_end pages start [start..<min (start + 60) n] start;
               body = concat (map (\<lambda>i. filter (\<lambda>l. \<not> strip_section_noise l num) (splitlines (pages ! i))) [start..<Suc end'])
           in Inr (py_join newline body, title, (start + 1, end' + 1))))"

definition digit_value :: "string \<Rightarrow> nat" where
  "digit_value s = foldl (\<lambda>n c. 10 * n + (of_char c - 48)) 0 s"

definition part_header :: "string \<Rightarrow> (nat \<times> string) option" where
  "part_header line = map_option (\<lambda>m. (digit_value (group 1 m), py_strip (group 2 m))) (re_match part_re line)"

definition clause_header :: "nat \<Rightarrow> string \<Rightarrow> (string \<times> string) option" where
  "clause_header part_no line = (case re_match clause_re line of
     None \<Rightarrow> None
   | Some m \<Rightarrow> if hd (split_on (CHR ''.'') [] (group 1 m)) = show_nat part_no
       then Some (group 1 m, py_strip (group 2 m)) else None)"

definition build_clause :: "(string \<times> string) \<times> string list \<Rightarrow> spec_clause" where
  "build_clause = (\<lambda>((cid, title), ls). let body = py_strip (py_join newline ls) in
     \<lparr>sc_id = cid, sc_title = title, sc_text = body, sc_products = extract_products title body,
      sc_standards = extract_standards (title @ newline @ body)\<rparr>)"

definition build_part :: "(nat \<times> string) \<times> string list \<Rightarrow> spec_part" where
  "build_part = (\<lambda>((no, title), ls). \<lparr>sp_number = no, sp_title = title,
     sp_clauses = map build_clause (header_bodies ls (headers (clause_header no) ls))\<rparr>)"

definition section_parts :: "string \<Rightarrow> spec_part list" where
  "section_parts raw = (let ls = splitlines raw in map build_part (header_bodies ls (headers part_header ls)))"

definition parse_spec_section :: "string list \<Rightarrow> string \<Rightarrow> spec_toc option \<Rightarrow> nat \<Rightarrow> exn + spec_section" where
  "parse_spec_section pages num toc start_hint =
     (case extract_section_text pages num start_hint of
        Inl e \<Rightarrow> Inl e
      | Inr (raw, title, pages_of) \<Rightarrow>
          (let t = (case toc of None \<Rightarrow> parse_spec_toc pages 0 | Some t \<Rightarrow> t) in
           Inr \<lparr>ss_number = num, ss_title = title, ss_division_number = take 2 num,
             ss_division_title = (case toc_division t (take 2 num) of None \<Rightarrow> '''' | Some d \<Rightarrow> dv_title d),
             ss_parts = section_parts raw, ss_page_range = pages_of, ss_raw_text = raw\<rparr>))"

text \<open>\<open>SpecSection.clause\<close> and \<open>SpecSection.all_standards\<close>\<close>

definition section_clause :: "spec_section \<Rightarrow> string \<Rightarrow> spec_clause option" where
  "section_clause s cid = find (\<lambda>c. sc_id c = cid) (concat (map sp_clauses (ss_parts s)))"

definition all_standards :: "spec_section \<Rightarrow> string list" where
  "all_standards s = dedup_first id {} (concat (map sc_standards (concat (map sp_clauses (ss_parts s)))))"

section \<open>Printing a table of contents\<close>

definition division_line :: "division \<Rightarrow> string" where
  "division_line d = ''DIVISION '' @ dv_number d @ '' - '' @ dv_title d"

definition section_line :: "string \<times> string \<Rightarrow> string" where
  "section_line = (\<lambda>(n, t). ''SECTION '' @ n @ '' - '' @ t)"

definition print_division :: "division \<Rightarrow> string list" where
  "print_division d = division_line d # map section_line (dv_sections d) @
     (if dv_applicable d then [] else [''NOT APPLICABLE''])"

text \<open>Six digits, with an optional suffix of a dot and two.\<close>

definition csi_number :: "string \<Rightarrow> bool" where
  "csi_number n \<longleftrightarrow> list_all is_digit (take 6 n) \<and>
     (length n = 6 \<or> length n = 9 \<and> n ! 6 = CHR ''.'' \<and> list_all is_digit (drop 7 n))"

definition division_ok :: "division \<Rightarrow> bool" where
  "division_ok d \<longleftrightarrow> length (dv_number d) = 2 \<and> list_all is_digit (dv_number d) \<and> title_text (dv_title d) \<and>
     list_all (\<lambda>(n, t). csi_number n \<and> title_text t) (dv_sections d)"

lemma py_strip_id:
  assumes "s \<noteq> []" "\<not> is_space (hd s)" "\<not> is_space (last s)"
  shows "py_strip s = s"
proof -
  have h: "dropWhile is_space s = s" using assms by (cases s) auto
  have "dropWhile is_space (rev s) = rev s" using assms by (cases s rule: rev_cases) auto
  with h show ?thesis by (simp add: py_strip_def py_lstrip_def)
qed

lemma title_strip [simp]: "title_text t \<Longrightarrow> py_strip t = t"
  by (rule py_strip_id) (auto simp: title_text_def)

lemma title_last: "title_text t \<Longrightarrow> last (xs @ t) = last t"
  by (simp add: title_text_def)

lemma line_strip: "title_text t \<Longrightarrow> \<not> is_space c \<Longrightarrow> py_strip (c # xs @ t) = c # xs @ t"
  by (rule py_strip_id) (auto simp: title_text_def)

lemma not_space_facts:
  "is_digit c \<Longrightarrow> \<not> is_space c" "\<not> is_space (CHR ''-'')" "\<not> is_space (CHR ''D'')" "\<not> is_space (CHR ''S'')"
  "\<not> is_space (CHR ''N'')"
  by (auto simp: is_digit_def is_space_def)

lemma leads_digits2: "is_digit c \<Longrightarrow> is_digit d \<Longrightarrow> leads two_digits (at_pos b (c # d # a) g) (at_pos (rev [c, d] @ b) a g)"
  unfolding two_digits_def by (auto intro!: rx_intros)

lemma leads_hyphen: "leads dash (at_pos b (CHR ''-'' # a) g) (at_pos (CHR ''-'' # b) a g)"
  unfolding dash_def alts.simps using leads_Alt1[OF leads_lit[of "''-''" b a g]] by simp

text \<open>The separator and the title, the common end of both lines.\<close>

lemma leads_title_tail:
  assumes "title_text t" "leads d (at_pos (CHR '' '' # b) (CHR ''-'' # CHR '' '' # t) g) (at_pos (CHR ''-'' # CHR '' '' # b) (CHR '' '' # t) g)"
  shows "leads (Cat spaces (Cat d (Cat spaces (lazy_title 2)))) (at_pos b ('' - '' @ t) g)
    (at_pos (rev t @ '' - '' @ b) [] (dict_set g 2 t))"
proof -
  obtain c r where t: "t = c # r" "\<not> is_space c" using assms(1) by (cases t) (auto simp: title_text_def)
  have "leads spaces (at_pos b ('' - '' @ t) g) (at_pos (CHR '' '' # b) (CHR ''-'' # CHR '' '' # t) g)"
    using leads_one_space[of 0 "CHR ''-''" b "CHR '' '' # t" g] by (simp add: not_space_facts)
  moreover have "leads spaces (at_pos (CHR ''-'' # CHR '' '' # b) (CHR '' '' # t) g) (at_pos ('' - '' @ b) t g)"
    using leads_one_space[of 0 c "CHR ''-'' # CHR '' '' # b" r g] t by simp
  moreover have "leads (lazy_title 2) (at_pos ('' - '' @ b) t g) (at_pos (rev t @ '' - '' @ b) [] (dict_set g 2 t))"
    unfolding lazy_title_def by (rule leads_lazy_title[OF assms(1)])
  ultimately show ?thesis using assms(2) by (blast intro: leads_Cat)
qed

lemma match_division_line:
  assumes "division_ok d"
  obtains m where "re_match division_re (division_line d) = Some m" "group 1 m = dv_number d" "group 2 m = dv_title d"
proof -
  obtain x y where n: "dv_number d = [x, y]" "is_digit x" "is_digit y" using assms
    by (auto simp: division_ok_def numeral_2_eq_2 length_Suc_conv)
  have t: "title_text (dv_title d)" using assms by (simp add: division_ok_def)
  have kw: "leads (lit ''DIVISION'') (at_pos [] (division_line d) []) (at_pos (rev ''DIVISION'') ('' '' @ [x, y] @ '' - '' @ dv_title d) [])"
    using leads_lit[of "''DIVISION''" "[]" "'' '' @ [x, y] @ '' - '' @ dv_title d" "[]"] by (simp add: division_line_def n)
  have sp0: "leads spaces (at_pos [] (division_line d) []) (at_pos [] (division_line d) [])"
    unfolding division_line_def by (simp add: leads_no_space not_space_facts)
  have sp: "leads spaces1 (at_pos (rev ''DIVISION'') ('' '' @ [x, y] @ '' - '' @ dv_title d) [])
      (at_pos (rev ''DIVISION '') ([x, y] @ '' - '' @ dv_title d) [])"
    using leads_one_space[of 1 x "rev ''DIVISION''" "y # '' - '' @ dv_title d" "[]"] n not_space_facts(1) by simp
  have num: "leads (Grp 1 two_digits) (at_pos (rev ''DIVISION '') ([x, y] @ '' - '' @ dv_title d) [])
      (at_pos (rev [x, y] @ rev ''DIVISION '') ('' - '' @ dv_title d) [(1, [x, y])])"
    using leads_Grp[OF leads_digits2[OF n(2,3), of "rev ''DIVISION ''" "'' - '' @ dv_title d" "[]"], where i = 1] by simp
  have tl: "leads (Cat spaces (Cat dash (Cat spaces (lazy_title 2))))
      (at_pos (rev [x, y] @ rev ''DIVISION '') ('' - '' @ dv_title d) [(1, [x, y])])
      (at_pos (rev (dv_title d) @ '' - '' @ rev [x, y] @ rev ''DIVISION '') [] (dict_set [(1, [x, y])] 2 (dv_title d)))"
    by (rule leads_title_tail[OF t leads_hyphen])
  have "leads division_re (rx_start (division_line d)) (at_pos (rev (dv_title d) @ '' - '' @ rev [x, y] @ rev ''DIVISION '') [] (dict_set [(1, [x, y])] 2 (dv_title d)))"
    unfolding division_re_def cats.simps rx_start_def
    by (rule leads_Cat[OF leads_LineStart leads_Cat[OF sp0 leads_Cat[OF kw leads_Cat[OF sp leads_Cat[OF num tl]]]]])
  from leads_match[OF this] show ?thesis by (rule that) (simp_all add: n group_def)
qed

lemma take_six_digits:
  assumes "csi_number n"
  obtains a b c d e f w where "n = [a, b, c, d, e, f] @ w" "list_all is_digit [a, b, c, d, e, f]"
    "w = [] \<or> (\<exists>x y. w = [CHR ''.'', x, y] \<and> is_digit x \<and> is_digit y)"
proof -
  have six: "list_all is_digit (take 6 n)" "6 \<le> length n" and
    w: "length n = 6 \<or> length n = 9 \<and> n ! 6 = CHR ''.'' \<and> list_all is_digit (drop 7 n)"
    using assms by (auto simp: csi_number_def)
  obtain a b c d e f where "take 6 n = [a, b, c, d, e, f]"
    using six(2) by (cases n; cases "tl n"; cases "tl (tl n)"; cases "tl (tl (tl n))"; cases "tl (tl (tl (tl n)))";
        cases "tl (tl (tl (tl (tl n))))") auto
  moreover have "n = take 6 n @ drop 6 n" by simp
  moreover have "drop 6 n = [] \<or> (\<exists>x y. drop 6 n = [CHR ''.'', x, y] \<and> is_digit x \<and> is_digit y)"
  proof (cases "length n = 6")
    case False
    with w have l: "length n = 9" "n ! 6 = CHR ''.''" "list_all is_digit (drop 7 n)" by auto
    have "drop 6 n = n ! 6 # drop 7 n" using Cons_nth_drop_Suc[of 6 n] l(1) by simp
    moreover obtain x y where "drop 7 n = [x, y]" using l(1)
      by (cases "drop 7 n"; cases "tl (drop 7 n)") (auto dest: arg_cong[where f = length])
    ultimately show ?thesis using l by simp
  qed simp
  ultimately show ?thesis using that six(1) by metis
qed

text \<open>The number of a section line, up to the separator.\<close>

lemma leads_csi_number:
  assumes "list_all is_digit [a, b, c, d, e, f]" "w = [] \<or> (\<exists>x y. w = [CHR ''.'', x, y] \<and> is_digit x \<and> is_digit y)"
  shows "leads (Grp 1 (cats [two_digits, opt (Chr is_space), two_digits, opt (Chr is_space), two_digits, opt (Cat (lit ''.'') two_digits)]))
    (at_pos p ([a, b, c, d, e, f] @ w @ CHR '' '' # r) [])
    (at_pos (rev ([a, b, c, d, e, f] @ w) @ p) (CHR '' '' # r) [(1, [a, b, c, d, e, f] @ w)])"
proof -
  have dig: "is_digit a" "is_digit b" "is_digit c" "is_digit d" "is_digit e" "is_digit f" using assms(1) by simp_all
  have sp: "leads (opt (Chr is_space)) (at_pos q (z # zs) []) (at_pos q (z # zs) [])" if "is_digit z" for q z zs
    unfolding opt_def using not_space_facts(1)[OF that] by (intro leads_Alt2 leads_Eps) simp
  have suf: "leads (opt (Cat (lit ''.'') two_digits)) (at_pos q (w @ CHR '' '' # r) []) (at_pos (rev w @ q) (CHR '' '' # r) [])" for q
    using assms(2)
  proof
    assume "w = []"
    then show ?thesis unfolding opt_def by (intro leads_Alt2) (simp_all add: leads_Eps)
  next
    assume "\<exists>x y. w = [CHR ''.'', x, y] \<and> is_digit x \<and> is_digit y"
    then obtain x y where w: "w = [CHR ''.'', x, y]" "is_digit x" "is_digit y" by blast
    have "leads (lit ''.'') (at_pos q (w @ CHR '' '' # r) []) (at_pos (CHR ''.'' # q) ([x, y] @ CHR '' '' # r) [])"
      using leads_lit[of "''.''" q "[x, y] @ CHR '' '' # r" "[]"] by (simp add: w)
    from leads_Cat[OF this] show ?thesis
      unfolding opt_def w by (intro leads_Alt1) (use leads_digits2[OF w(2,3), of "CHR ''.'' # q" "CHR '' '' # r" "[]"] w in simp)
  qed
  have "leads (cats [two_digits, opt (Chr is_space), two_digits, opt (Chr is_space), two_digits, opt (Cat (lit ''.'') two_digits)])
      (at_pos p ([a, b, c, d, e, f] @ w @ CHR '' '' # r) []) (at_pos (rev ([a, b, c, d, e, f] @ w) @ p) (CHR '' '' # r) [])"
    unfolding cats.simps
    using leads_Cat[OF leads_digits2[OF dig(1,2)] leads_Cat[OF sp[OF dig(3)] leads_Cat[OF leads_digits2[OF dig(3,4)]
        leads_Cat[OF sp[OF dig(5)] leads_Cat[OF leads_digits2[OF dig(5,6)] suf]]]], of p] by simp
  from leads_Grp[OF this, of 1] show ?thesis by simp
qed

lemma leads_opt_dash: "leads (opt dash) (at_pos b (CHR ''-'' # a) g) (at_pos (CHR ''-'' # b) a g)"
  unfolding opt_def by (rule leads_Alt1) (rule leads_hyphen)

lemma match_section_line:
  assumes "csi_number n" "title_text t"
  obtains m where "re_match section_re (section_line (n, t)) = Some m" "group 1 m = n" "group 2 m = t"
proof -
  from take_six_digits[OF assms(1)] obtain a b c d e f w where n: "n = [a, b, c, d, e, f] @ w"
    and dig: "list_all is_digit [a, b, c, d, e, f]"
    and w: "w = [] \<or> (\<exists>x y. w = [CHR ''.'', x, y] \<and> is_digit x \<and> is_digit y)" by metis
  let ?kw = "rev ''SECTION ''"
  have sp0: "leads spaces (at_pos [] (section_line (n, t)) []) (at_pos [] (section_line (n, t)) [])"
    unfolding section_line_def by (simp add: leads_no_space not_space_facts)
  have a: "\<not> is_space a" using dig not_space_facts(1) by simp
  have "leads (lit ''SECTION'') (at_pos [] (section_line (n, t)) []) (at_pos (rev ''SECTION'') (CHR '' '' # n @ '' - '' @ t) [])"
    using leads_lit[of "''SECTION''" "[]" "CHR '' '' # n @ '' - '' @ t" "[]"] by (simp add: section_line_def)
  moreover have "leads spaces1 (at_pos (rev ''SECTION'') (CHR '' '' # n @ '' - '' @ t) []) (at_pos ?kw (n @ '' - '' @ t) [])"
    using leads_one_space[of 1 a "rev ''SECTION''" "tl n @ '' - '' @ t" "[]"] a n by simp
  ultimately have kw: "leads (opt (Cat (lit ''SECTION'') spaces1)) (at_pos [] (section_line (n, t)) []) (at_pos ?kw (n @ '' - '' @ t) [])"
    unfolding opt_def by (blast intro: leads_Alt1 leads_Cat)
  have num: "leads (Grp 1 (cats [two_digits, opt (Chr is_space), two_digits, opt (Chr is_space), two_digits, opt (Cat (lit ''.'') two_digits)]))
      (at_pos ?kw (n @ '' - '' @ t) []) (at_pos (rev n @ ?kw) ('' - '' @ t) [(1, n)])"
    using leads_csi_number[OF dig w, of ?kw "CHR ''-'' # CHR '' '' # t"] by (simp add: n)
  have tl: "leads (Cat spaces (Cat (opt dash) (Cat spaces (lazy_title 2)))) (at_pos (rev n @ ?kw) ('' - '' @ t) [(1, n)])
      (at_pos (rev t @ '' - '' @ rev n @ ?kw) [] (dict_set [(1, n)] 2 t))"
    by (rule leads_title_tail[OF assms(2) leads_opt_dash])
  have "leads section_re (rx_start (section_line (n, t))) (at_pos (rev t @ '' - '' @ rev n @ ?kw) [] (dict_set [(1, n)] 2 t))"
    unfolding section_re_def cats.simps rx_start_def
    using leads_Cat[OF leads_LineStart leads_Cat[OF sp0 leads_Cat[OF kw leads_Cat[OF num[unfolded cats.simps] tl]]]] .
  from leads_match[OF this] show ?thesis by (rule that) (simp_all add: group_def)
qed

text \<open>What the other patterns make of the printed lines.\<close>

lemma lit_other: "c \<noteq> x \<Longrightarrow> outcomes (lit (c # cs)) (at_pos b (x # a) g) = []"
  by simp

lemma no_match_after_blanks:
  assumes "\<not> is_space x" "x \<noteq> c"
  shows "re_match (Cat (LineStart False) (Cat spaces (Cat (lit (c # cs)) q))) (x # xs) = None"
  using assms by (simp add: re_match_def rx_start_def Let_def advance_def)

lemma section_line_no_division: "re_match division_re (section_line nt) = None"
  unfolding division_re_def cats.simps section_line_def
  by (cases nt) (simp add: no_match_after_blanks not_space_facts del: lit.simps outcomes.simps)

lemma not_applicable_no_division: "re_match division_re ''NOT APPLICABLE'' = None"
  unfolding division_re_def cats.simps by (rule no_match_after_blanks) (simp_all add: not_space_facts)

lemma no_date: "\<not> is_digit x \<Longrightarrow> re_match date_re (x # xs) = None"
  by (simp add: re_match_def rx_start_def date_re_def numeral_2_eq_2 opt_def)

lemma no_footer: "x \<noteq> CHR ''T'' \<Longrightarrow> re_match footer_re (x # xs) = None"
  by (simp add: re_match_def rx_start_def footer_re_def)

lemma printed_not_noise:
  assumes "title_text t" "x \<in> {CHR ''D'', CHR ''S''}" "y \<noteq> CHR ''M''"
  shows "\<not> is_noise (x # y # xs @ t)"
proof -
  have x: "\<not> is_space x" "\<not> is_digit x" "x \<noteq> CHR ''T''" using assms(2) by (auto simp: is_space_def is_digit_def)
  have s: "py_strip (x # y # xs @ t) = x # y # xs @ t" using line_strip[OF assms(1) x(1), of "y # xs"] by simp
  show ?thesis unfolding is_noise_def s Let_def
    using assms(2,3) x by (auto simp: no_date no_footer noise_exact_def)
qed

lemma toc_line_division:
  assumes "division_ok d"
  shows "toc_line st (division_line d) = (fst st @ [d\<lparr>dv_sections := [], dv_applicable := True\<rparr>], False)"
proof -
  obtain m where m: "re_match division_re (division_line d) = Some m" "group 1 m = dv_number d" "group 2 m = dv_title d"
    using match_division_line[OF assms] by blast
  have t: "title_text (dv_title d)" using assms by (simp add: division_ok_def)
  then have "\<not> is_noise (division_line d)"
    using printed_not_noise[of "dv_title d" "CHR ''D''" "CHR ''I''" "''VISION '' @ dv_number d @ '' - ''"] by (simp add: division_line_def)
  with m t show ?thesis by (cases st) (simp add: toc_line_def)
qed

lemma section_line_not_applicable: "title_text t \<Longrightarrow> py_upper (py_strip (section_line (n, t))) \<noteq> ''NOT APPLICABLE''"
  using line_strip[of t "CHR ''S''" "''ECTION '' @ n @ '' - ''"]
  by (auto simp: section_line_def not_space_facts upper_char_def is_lower_def)

lemma toc_line_section:
  assumes "csi_number n" "title_text t" "divs \<noteq> []"
  shows "toc_line (divs, ls) (section_line (n, t)) =
    (update_last (\<lambda>d. d\<lparr>dv_sections := dv_sections d @ [(n, t)]\<rparr>) divs, True)"
proof -
  obtain m where m: "re_match section_re (section_line (n, t)) = Some m" "group 1 m = n" "group 2 m = t"
    using match_section_line[OF assms(1,2)] by blast
  have "\<not> is_noise (section_line (n, t))"
    using printed_not_noise[OF assms(2), of "CHR ''S''" "CHR ''E''" "''CTION '' @ n @ '' - ''"] by (simp add: section_line_def)
  moreover have "section_number n = n"
  proof -
    have "CHR '' '' \<notin> set n"
      by (rule take_six_digits[OF assms(1)]) (auto simp: is_digit_def)
    then show ?thesis by (auto simp: section_number_def filter_id_conv)
  qed
  moreover obtain d ds where "divs = d # ds" using assms(3) by (cases divs) auto
  ultimately show ?thesis using m assms(2) section_line_no_division section_line_not_applicable[OF assms(2)]
    by (simp add: toc_line_def)
qed

lemma toc_line_not_applicable:
  "toc_line (divs, ls) ''NOT APPLICABLE'' = (update_last (\<lambda>d. d\<lparr>dv_applicable := False\<rparr>) divs, ls)"
proof -
  have s: "py_strip ''NOT APPLICABLE'' = ''NOT APPLICABLE''" by (rule py_strip_id) (simp_all add: is_space_def)
  have "\<not> is_noise ''NOT APPLICABLE''"
    unfolding is_noise_def s Let_def by (simp add: no_date no_footer noise_exact_def is_digit_def)
  moreover have "py_upper ''NOT APPLICABLE'' = ''NOT APPLICABLE''" by (simp add: upper_char_def is_lower_def)
  ultimately show ?thesis by (simp add: toc_line_def s not_applicable_no_division)
qed

lemma update_last_snoc [simp]: "update_last f (xs @ [x]) = xs @ [f x]"
  by (simp add: update_last_def)

lemma toc_sections:
  "list_all (\<lambda>(n, t). csi_number n \<and> title_text t) ss \<Longrightarrow>
   fst (foldl toc_line (divs @ [d], ls) (map section_line ss)) = divs @ [d\<lparr>dv_sections := dv_sections d @ ss\<rparr>]"
proof (induction ss arbitrary: d ls)
  case (Cons s ss)
  obtain n t where s: "s = (n, t)" by (cases s)
  show ?case using Cons.prems Cons.IH[of "d\<lparr>dv_sections := dv_sections d @ [(n, t)]\<rparr>" True]
    by (simp add: s toc_line_section)
qed simp

lemma toc_print_division:
  assumes "division_ok d"
  shows "fst (foldl toc_line st (print_division d)) = fst st @ [d]"
proof -
  let ?d = "d\<lparr>dv_sections := [], dv_applicable := True\<rparr>"
  have "list_all (\<lambda>(n, t). csi_number n \<and> title_text t) (dv_sections d)" using assms by (simp add: division_ok_def)
  from toc_sections[OF this, of "fst st" ?d False]
  have f: "fst (foldl toc_line (toc_line st (division_line d)) (map section_line (dv_sections d))) =
      fst st @ [d\<lparr>dv_applicable := True\<rparr>]"
    by (simp add: toc_line_division[OF assms])
  show ?thesis
  proof (cases "dv_applicable d")
    case True
    then have "d\<lparr>dv_applicable := True\<rparr> = d" by simp
    with f True show ?thesis by (simp add: print_division_def)
  next
    case False
    then have na: "d\<lparr>dv_applicable := False\<rparr> = d" by simp
    obtain ls where "foldl toc_line (toc_line st (division_line d)) (map section_line (dv_sections d)) =
        (fst st @ [d\<lparr>dv_applicable := True\<rparr>], ls)" using f by (metis prod.collapse)
    with False na show ?thesis by (simp add: print_division_def toc_line_not_applicable)
  qed
qed

lemma toc_print: "list_all division_ok ds \<Longrightarrow> fst (foldl toc_line st (concat (map print_division ds))) = fst st @ ds"
proof (induction ds arbitrary: st)
  case (Cons d ds)
  then show ?case using toc_print_division[of d st] by simp
qed simp

text \<open>Noise lines change nothing wherever they stand.\<close>

lemma toc_noise: "foldl toc_line st ls = foldl toc_line st (filter (\<lambda>l. \<not> is_noise l) ls)"
  by (induction ls arbitrary: st) (simp_all add: toc_line_def split: prod.split)

text \<open>
  C39.  Printing and parsing a table of contents are inverse: a list of divisions with two-digit
  numbers, six-digit section numbers (with an optional suffix) and visible titles, printed as
  DIVISION, SECTION and NOT APPLICABLE lines, is parsed back to itself, whatever page headers,
  dates, footers and blank lines stand between the lines.
\<close>

theorem toc_round_trip:
  assumes "list_all division_ok ds" and "filter (\<lambda>l. \<not> is_noise l) ls = concat (map print_division ds)"
  shows "parse_toc_lines ls = \<lparr>st_divisions = ds, st_total = sum_list (map (\<lambda>d. length (dv_sections d)) ds)\<rparr>"
  unfolding parse_toc_lines_def toc_noise[of _ ls] assms(2) Let_def by (simp add: toc_print[OF assms(1)])

definition sample_divisions :: "division list" where
  "sample_divisions =
     [\<lparr>dv_number = ''08'', dv_title = ''OPENINGS'', dv_sections = [(''081113'', ''HOLLOW METAL''), (''087100.13'', ''HARDWARE'')],
       dv_applicable = True\<rparr>,
      \<lparr>dv_number = ''14'', dv_title = ''LIFTS'', dv_sections = [], dv_applicable = False\<rparr>]"

theorem toc_round_trip_witness:
  "parse_toc_lines (concat (map print_division sample_divisions)) = \<lparr>st_divisions = sample_divisions, st_total = 2\<rparr>"
proof -
  have ok: "list_all division_ok sample_divisions"
    by (simp add: sample_divisions_def division_ok_def csi_number_def title_text_def is_digit_def is_space_def)
  have "filter (\<lambda>l. \<not> is_noise l) (concat (map print_division sample_divisions)) = concat (map print_division sample_divisions)"
    by code_simp
  from toc_round_trip[OF ok this] show ?thesis by (simp add: sample_divisions_def)
qed

section \<open>The structure of a section\<close>

lemma section_end_bounds:
  "list_all (\<lambda>i. start \<le> i \<and> i < n) is \<Longrightarrow> start \<le> e \<and> e < n \<Longrightarrow>
   start \<le> section_end pages start is e \<and> section_end pages start is e < n"
  by (induction pages start "is" e rule: section_end.induct) auto

text \<open>The section starts on the first page from the hint on that has its header.\<close>

lemma extract_section_ok:
  assumes "extract_section_text pages num hint = Inr (raw, title, (a, b))"
  shows "hint < a \<and> a \<le> b \<and> b \<le> length pages \<and> page_header num (pages ! (a - 1)) = Some title \<and>
    list_all (\<lambda>i. page_header num (pages ! i) = None) [hint..<a - 1]"
proof -
  let ?f = "\<lambda>i. map_option (\<lambda>t. (i, t)) (page_header num (pages ! i))"
  obtain start where f: "first_of (List.map_filter ?f [hint..<length pages]) = Some (start, title)"
    and a: "a = start + 1" and b: "b = section_end pages start [start..<min (start + 60) (length pages)] start + 1"
    using assms by (auto simp: extract_section_text_def Let_def split: option.splits)
  have least: "first_of (List.map_filter ?f xs) = Some (i, t) \<Longrightarrow>
      \<exists>us vs. xs = us @ i # vs \<and> page_header num (pages ! i) = Some t \<and> list_all (\<lambda>i. page_header num (pages ! i) = None) us" for xs i t
  proof (induction xs)
    case (Cons x xs)
    show ?case
    proof (cases "page_header num (pages ! x)")
      case None
      with Cons obtain us vs where "xs = us @ i # vs" "page_header num (pages ! i) = Some t"
        "list_all (\<lambda>i. page_header num (pages ! i) = None) us" by (auto simp: map_filter_simps)
      with None have "x # xs = (x # us) @ i # vs \<and> page_header num (pages ! i) = Some t \<and>
        list_all (\<lambda>i. page_header num (pages ! i) = None) (x # us)" by simp
      then show ?thesis by blast
    next
      case (Some t')
      with Cons.prems have "x # xs = [] @ i # xs \<and> page_header num (pages ! i) = Some t \<and>
        list_all (\<lambda>i. page_header num (pages ! i) = None) []" by (simp add: map_filter_simps)
      then show ?thesis by blast
    qed
  qed (simp add: map_filter_simps)
  from least[OF f] obtain us vs where d: "[hint..<length pages] = us @ start # vs"
    "page_header num (pages ! start) = Some title" "list_all (\<lambda>i. page_header num (pages ! i) = None) us" by blast
  have s: "start \<in> set [hint..<length pages]" unfolding d by simp
  then have st: "hint \<le> start" "start < length pages" by simp_all
  have "us = [hint..<start]"
  proof -
    have "us = take (length us) [hint..<length pages]" "start = [hint..<length pages] ! length us" by (simp_all add: d)
    moreover have "length us < length pages - hint" using arg_cong[OF d(1), of length] by simp
    ultimately show ?thesis by (simp add: take_upt)
  qed
  with d(2,3) a b st section_end_bounds[of start "length pages" "[start..<min (start + 60) (length pages)]" start pages]
  show ?thesis by (auto simp: list_all_iff)
qed

lemma part_header_number: "part_header l = Some (k, t) \<Longrightarrow> k \<in> {1, 2, 3}"
proof -
  assume "part_header l = Some (k, t)"
  then obtain m where m: "re_match part_re l = Some m" "k = digit_value (group 1 m)"
    by (auto simp: part_header_def)
  let ?rest = "Cat spaces (Cat dash (Cat spaces (lazy_title 2)))"
  obtain u v where v: "v \<in> set (outcomes (Grp 1 (Chr (one_of ''123''))) u)" "m \<in> set (outcomes ?rest v)"
    using re_match_in[OF m(1)] unfolding part_re_def cats.simps in_Cat by blast
  obtain c where c: "group 1 v = [c]" "one_of ''123'' c" using outcomes_Grp_Chr[OF v(1)] by blast
  have "group 1 m = group 1 v"
    by (rule outcomes_keep_group[OF v(2)]) (simp add: dash_def lazy_title_def)
  with c m(2) show ?thesis by (auto simp: one_of_def digit_value_def)
qed

lemma clause_header_id: "clause_header n l = Some (cid, t) \<Longrightarrow> hd (split_on (CHR ''.'') [] cid) = show_nat n"
  by (auto simp: clause_header_def split: option.splits if_splits)

definition clause_of_part :: "nat \<Rightarrow> spec_clause \<Rightarrow> bool" where
  "clause_of_part n c \<longleftrightarrow> hd (split_on (CHR ''.'') [] (sc_id c)) = show_nat n"

lemma build_part_clauses: "list_all (clause_of_part (sp_number (build_part p))) (sp_clauses (build_part p))"
proof -
  obtain n t ls where p: "p = ((n, t), ls)" by (cases p) auto
  have "clause_of_part n c" if "c \<in> set (map build_clause (header_bodies ls (headers (clause_header n) ls)))" for c
  proof -
    from that obtain h body where h: "(h, body) \<in> set (header_bodies ls (headers (clause_header n) ls))" "c = build_clause (h, body)"
      by auto
    obtain cid ct where hc: "h = (cid, ct)" by (cases h)
    from h(1) have "h \<in> set (map snd (headers (clause_header n) ls))"
      by (metis fst_conv image_eqI list.set_map map_fst_header_bodies)
    then obtain i where "(i, (cid, ct)) \<in> set (headers (clause_header n) ls)" by (auto simp: hc)
    then have "clause_header n (ls ! i) = Some (cid, ct)" by (simp add: headers_in)
    from clause_header_id[OF this] show ?thesis by (simp add: h(2) hc clause_of_part_def build_clause_def Let_def)
  qed
  then show ?thesis by (simp add: p build_part_def list_all_iff)
qed

lemma section_parts_numbers: "p \<in> set (section_parts raw) \<Longrightarrow> sp_number p \<in> {1, 2, 3}"
proof -
  assume "p \<in> set (section_parts raw)"
  then obtain h body where h: "(h, body) \<in> set (header_bodies (splitlines raw) (headers part_header (splitlines raw)))"
    "p = build_part (h, body)" by (auto simp: section_parts_def Let_def)
  obtain n t where nt: "h = (n, t)" by (cases h)
  from h(1) have "h \<in> set (map snd (headers part_header (splitlines raw)))"
    by (metis fst_conv image_eqI list.set_map map_fst_header_bodies)
  then obtain i where "(i, (n, t)) \<in> set (headers part_header (splitlines raw))" by (auto simp: nt)
  then have "part_header (splitlines raw ! i) = Some (n, t)" by (simp add: headers_in)
  from part_header_number[OF this] show ?thesis by (simp add: h(2) nt build_part_def)
qed

text \<open>
  C40.  A parsed section is where its header is: it starts on the first page from the hint on that
  has the header line, with the title of that line, its pages are within the document, its parts
  are numbered one to three, and a part holds only clauses numbered with that part.
\<close>

theorem parsed_section_structure:
  assumes "parse_spec_section pages num toc hint = Inr s"
  shows "(case ss_page_range s of (a, b) \<Rightarrow>
      hint < a \<and> a \<le> b \<and> b \<le> length pages \<and> page_header num (pages ! (a - 1)) = Some (ss_title s) \<and>
      list_all (\<lambda>i. page_header num (pages ! i) = None) [hint..<a - 1]) \<and>
    list_all (\<lambda>p. sp_number p \<in> {1, 2, 3} \<and> list_all (clause_of_part (sp_number p)) (sp_clauses p)) (ss_parts s)"
proof -
  obtain raw title a b where e: "extract_section_text pages num hint = Inr (raw, title, (a, b))"
    and s: "ss_title s = title" "ss_page_range s = (a, b)" "ss_parts s = section_parts raw"
    using assms by (auto simp: parse_spec_section_def Let_def split: sum.splits)
  have "list_all (clause_of_part (sp_number p)) (sp_clauses p)" if "p \<in> set (section_parts raw)" for p
    using that build_part_clauses by (auto simp: section_parts_def Let_def)
  with extract_section_ok[OF e] section_parts_numbers[of _ raw] show ?thesis
    by (auto simp: s list_all_iff)
qed

definition sample_section_page :: string where
  "sample_section_page = ''SECTION 081113 - DOORS'' @ newline @ ''PART 1 - GENERAL'' @ newline @ ''1.1 SUMMARY''"

definition no_toc :: spec_toc where
  "no_toc = \<lparr>st_divisions = [], st_total = 0\<rparr>"

lemma sample_header: "page_header ''081113'' sample_section_page = Some ''DOORS''"
  by code_simp

theorem parsed_section_structure_witness:
  "case parse_spec_section [sample_section_page] ''081113'' (Some no_toc) 0 of
     Inl e \<Rightarrow> False
   | Inr s \<Rightarrow> ss_title s = ''DOORS'' \<and> ss_page_range s = (1, 1) \<and> list_all (\<lambda>p. sp_number p \<in> {1, 2, 3}) (ss_parts s)"
proof -
  have "\<exists>s. parse_spec_section [sample_section_page] ''081113'' (Some no_toc) 0 = Inr s \<and> ss_title s = ''DOORS''"
    by (simp add: parse_spec_section_def extract_section_text_def Let_def sample_header map_filter_simps)
  then obtain s where s: "parse_spec_section [sample_section_page] ''081113'' (Some no_toc) 0 = Inr s" "ss_title s = ''DOORS''"
    by blast
  with parsed_section_structure[OF s(1)] show ?thesis
    by (cases "ss_page_range s") (auto simp: list_all_iff)
qed

end
