(* ===== verification/Locator.thy ===== *)
theory Locator
  imports Segmenter Sheets SpecText "HOL-Library.Product_Lexorder"
begin

text \<open>
  Discovery, second half: the locator (\<open>src/src/pipeline/locator.py\<close>) and the document map with
  its completeness and the pages handed to extraction (\<open>build_document_map.py\<close>,
  \<open>src/src/models/document_map.py\<close>).

  \<open>open_pages\<close> is \<open>pdfplumber.open\<close> with the pages it yields (text and tables).
\<close>

section \<open>Confirming a page\<close>

definition confirm_toc :: "page_view \<Rightarrow> rat" where
  "confirm_toc p = (if 3 \<le> length (filter (\<lambda>l. re_match division_re l \<noteq> None \<or> re_match section_re l \<noteq> None)
     (splitlines (pv_text p))) then 1 else 0)"

definition confirm_drawing_index :: "page_view \<Rightarrow> rat" where
  "confirm_drawing_index p = (if list_ex is_sheet_list_table (pv_tables p) then 1 else 0)"

definition confirm_door_schedule :: "page_view \<Rightarrow> rat" where
  "confirm_door_schedule p =
     (let best = foldl (\<lambda>b t. if t = [] \<or> length (hd t) < 6 then b
         else max b (cm_coverage (resolve_columns t door_schema))) 0 (pv_tables p)
      in if best \<ge> 3/4 then best else 0)"

definition finish_header :: "table \<Rightarrow> string" where
  "finish_header t = py_upper (py_join '' '' (map clean (concat (take 3 t))))"

fun finish_table_conf :: "table list \<Rightarrow> rat" where
  "finish_table_conf [] = 0"
| "finish_table_conf (t # ts) =
     (if t = [] \<or> length (hd t) \<noteq> 7 then finish_table_conf ts
      else if py_contains (finish_header t) ''ROOM FINISH SCHEDULE'' then 1
      else if list_all (py_contains (finish_header t)) [''FLOOR'', ''BASE'', ''WALL'', ''CEILING''] then 7/10
      else finish_table_conf ts)"

definition confirm_finish_schedule :: "page_view \<Rightarrow> rat" where
  "confirm_finish_schedule p = finish_table_conf (pv_tables p)"

definition score_abbreviations :: "page_profile \<Rightarrow> rat" where
  "score_abbreviations p = of_nat (pp_short_tokens p) / (of_nat (pp_short_tokens p) + 400)"

section \<open>The locators\<close>

datatype confirmation = OnPage "page_view \<Rightarrow> rat" | OnProfile "page_profile \<Rightarrow> rat"

record locator_spec =
  ls_name :: string
  ls_region :: string
  ls_prefilter :: "page_profile \<Rightarrow> bool"
  ls_confirm :: confirmation
  ls_run :: bool
  ls_min_conf :: rat

definition has_all :: "string list \<Rightarrow> page_profile \<Rightarrow> bool" where
  "has_all toks p \<longleftrightarrow> list_all (\<lambda>t. t \<in> set (dict_keys (pp_anchors p))) toks"

definition has_any :: "string list \<Rightarrow> page_profile \<Rightarrow> bool" where
  "has_any toks p \<longleftrightarrow> list_ex (\<lambda>t. t \<in> set (dict_keys (pp_anchors p))) toks"

definition locators :: "locator_spec list" where
  "locators =
     [\<lparr>ls_name = ''spec_toc'', ls_region = ''manual'', ls_prefilter = has_any [''TABLE OF CONTENTS''],
       ls_confirm = OnPage confirm_toc, ls_run = True, ls_min_conf = 6/10\<rparr>,
      \<lparr>ls_name = ''drawing_index'', ls_region = ''drawings'', ls_prefilter = has_all [''SHEET NUMBER'', ''SHEET NAME''],
       ls_confirm = OnPage confirm_drawing_index, ls_run = False, ls_min_conf = 6/10\<rparr>,
      \<lparr>ls_name = ''door_schedule'', ls_region = ''drawings'', ls_prefilter = has_all [''DOOR SCHEDULE'', ''FIRE RATING''],
       ls_confirm = OnPage confirm_door_schedule, ls_run = True, ls_min_conf = 6/10\<rparr>,
      \<lparr>ls_name = ''finish_schedule'', ls_region = ''drawings'',
       ls_prefilter = has_any [''ROOM FINISH SCHEDULE'', ''FINISH SCHEDULE''],
       ls_confirm = OnPage confirm_finish_schedule, ls_run = True, ls_min_conf = 6/10\<rparr>,
      \<lparr>ls_name = ''abbreviations'', ls_region = ''drawings'', ls_prefilter = has_any [''ABBREVIATION''],
       ls_confirm = OnProfile score_abbreviations, ls_run = False, ls_min_conf = 5/10\<rparr>]"

section \<open>Running a locator\<close>

record page_ref =
  pr_file :: string
  pr_page :: int
  pr_conf :: rat
  pr_signature :: string

datatype artifact_status = Found | LowConfidence | Absent | NotApplicable

record located =
  la_name :: string
  la_status :: artifact_status
  la_region :: string
  la_pages :: "page_ref list"

definition la_found :: "located \<Rightarrow> bool" where
  "la_found a \<longleftrightarrow> la_status a \<in> {Found, LowConfidence}"

definition region_present :: "region list \<Rightarrow> string \<Rightarrow> bool" where
  "region_present rs kind \<longleftrightarrow> list_ex (\<lambda>r. rg_kind r = kind) rs"

definition candidates :: "locator_spec \<Rightarrow> page_profile list \<Rightarrow> region list \<Rightarrow> page_profile list" where
  "candidates spec profiles rs =
     (let target = filter (\<lambda>r. rg_kind r = ls_region spec) rs in
      filter (\<lambda>p. ls_prefilter spec p \<and> list_ex (\<lambda>r. region_contains r (pp_file p) (pp_index p)) target) profiles)"

text \<open>The maximal runs of consecutive pages of a sorted list.\<close>

fun page_runs :: "page_ref list \<Rightarrow> page_ref list list" where
  "page_runs [] = []"
| "page_runs [r] = [[r]]"
| "page_runs (r # s # rs) =
     (case page_runs (s # rs) of
        [] \<Rightarrow> [[r]]
      | x # xs \<Rightarrow> if pr_page s = pr_page r + 1 then (r # x) # xs else [r] # x # xs)"

definition run_key :: "page_ref list \<Rightarrow> nat \<times> rat" where
  "run_key rs = (length rs, sum_list (map pr_conf rs))"

definition files_of :: "('a \<Rightarrow> string) \<Rightarrow> 'a list \<Rightarrow> string list" where
  "files_of f xs = dedup_first id {} (map f xs)"

definition file_run :: "page_ref list \<Rightarrow> string \<Rightarrow> page_ref list" where
  "file_run refs f = (case py_max run_key (page_runs (sort_key pr_page (filter (\<lambda>r. pr_file r = f) refs))) of
     None \<Rightarrow> [] | Some run \<Rightarrow> run)"

definition longest_run :: "page_ref list \<Rightarrow> page_ref list" where
  "longest_run refs = foldl (\<lambda>best cand. if best = [] \<or> run_key cand > run_key best then cand else best) []
     (map (file_run refs) (files_of pr_file refs))"

definition ref_le :: "page_ref \<Rightarrow> page_ref \<Rightarrow> bool" where
  "ref_le a b \<longleftrightarrow> (if pr_file a = pr_file b then pr_page a \<le> pr_page b else str_le (pr_file a) (pr_file b))"

fun insert_ref :: "page_ref \<Rightarrow> page_ref list \<Rightarrow> page_ref list" where
  "insert_ref r [] = [r]"
| "insert_ref r (x # xs) = (if ref_le r x then r # x # xs else x # insert_ref r xs)"

fun sort_refs :: "page_ref list \<Rightarrow> page_ref list" where
  "sort_refs [] = []"
| "sort_refs (r # rs) = insert_ref r (sort_refs rs)"

definition assemble_located :: "locator_spec \<Rightarrow> page_ref list \<Rightarrow> bool \<Rightarrow> located" where
  "assemble_located spec refs present =
     (if \<not> present then \<lparr>la_name = ls_name spec, la_status = NotApplicable, la_region = ls_region spec, la_pages = []\<rparr>
      else if refs = [] then \<lparr>la_name = ls_name spec, la_status = Absent, la_region = ls_region spec, la_pages = []\<rparr>
      else (let pages = (if ls_run spec then longest_run refs
                         else case py_max pr_conf refs of None \<Rightarrow> [] | Some r \<Rightarrow> [r]);
                best = Max (set (map pr_conf pages)) in
        \<lparr>la_name = ls_name spec, la_status = (if best \<ge> ls_min_conf spec then Found else LowConfidence),
         la_region = ls_region spec, la_pages = sort_refs pages\<rparr>))"

definition page_ref_of :: "locator_spec \<Rightarrow> page_profile \<Rightarrow> rat \<Rightarrow> page_ref option" where
  "page_ref_of spec p conf = (if conf > 0
     then Some \<lparr>pr_file = pp_file p, pr_page = pp_index p, pr_conf = round_dec 3 conf, pr_signature = ls_name spec\<rparr>
     else None)"

text \<open>The pages of one file, opened once; a page index beyond the file raises.\<close>

fun confirm_pages :: "locator_spec \<Rightarrow> (page_view \<Rightarrow> rat) \<Rightarrow> page_view list \<Rightarrow> page_profile list \<Rightarrow> exn + page_ref list" where
  "confirm_pages spec conf pages [] = Inr []"
| "confirm_pages spec conf pages (p # ps) =
     (if pp_index p \<ge> int (length pages) then Inl (Exn ''IndexError'' ''list index out of range'')
      else (case confirm_pages spec conf pages ps of
          Inl e \<Rightarrow> Inl e
        | Inr rs \<Rightarrow> (case page_ref_of spec p (conf (pages ! nat (pp_index p))) of
            None \<Rightarrow> Inr rs | Some r \<Rightarrow> Inr (r # rs))))"

fun confirm_files :: "(string \<Rightarrow> exn + page_view list) \<Rightarrow> (string, string) dict \<Rightarrow> locator_spec \<Rightarrow>
    (page_view \<Rightarrow> rat) \<Rightarrow> page_profile list \<Rightarrow> string list \<Rightarrow> exn + page_ref list" where
  "confirm_files open_pages paths spec conf cands [] = Inr []"
| "confirm_files open_pages paths spec conf cands (f # fs) =
     (case map_of paths f of
        None \<Rightarrow> Inl (Exn ''KeyError'' f)
      | Some path \<Rightarrow> (case open_pages path of
          Inl e \<Rightarrow> Inl e
        | Inr pages \<Rightarrow> (case confirm_pages spec conf pages (sort_key pp_index (filter (\<lambda>p. pp_file p = f) cands)) of
            Inl e \<Rightarrow> Inl e
          | Inr rs \<Rightarrow> (case confirm_files open_pages paths spec conf cands fs of
              Inl e \<Rightarrow> Inl e | Inr qs \<Rightarrow> Inr (rs @ qs)))))"

definition locate_refs :: "(string \<Rightarrow> exn + page_view list) \<Rightarrow> file_ref list \<Rightarrow> page_profile list \<Rightarrow> region list \<Rightarrow>
    locator_spec \<Rightarrow> exn + page_ref list" where
  "locate_refs open_pages files profiles rs spec =
     (let paths = dict_of (map (\<lambda>f. (fr_id f, fr_path f)) files); cands = candidates spec profiles rs in
      case ls_confirm spec of
        OnPage conf \<Rightarrow> confirm_files open_pages paths spec conf cands (files_of pp_file cands)
      | OnProfile conf \<Rightarrow> Inr (List.map_filter (\<lambda>p. page_ref_of spec p (conf p)) cands))"

fun locate_specs :: "(string \<Rightarrow> exn + page_view list) \<Rightarrow> file_ref list \<Rightarrow> page_profile list \<Rightarrow> region list \<Rightarrow>
    locator_spec list \<Rightarrow> exn + located list" where
  "locate_specs open_pages files profiles rs [] = Inr []"
| "locate_specs open_pages files profiles rs (s # ss) =
     (case locate_refs open_pages files profiles rs s of
        Inl e \<Rightarrow> Inl e
      | Inr refs \<Rightarrow> (case locate_specs open_pages files profiles rs ss of
          Inl e \<Rightarrow> Inl e
        | Inr as \<Rightarrow> Inr (assemble_located s refs (region_present rs (ls_region s)) # as)))"

definition locate_all :: "(string \<Rightarrow> exn + page_view list) \<Rightarrow> file_ref list \<Rightarrow> page_profile list \<Rightarrow> region list \<Rightarrow>
    exn + (string, located) dict" where
  "locate_all open_pages files profiles rs =
     (case locate_specs open_pages files profiles rs locators of
        Inl e \<Rightarrow> Inl e | Inr as \<Rightarrow> Inr (dict_of (map (\<lambda>a. (la_name a, a)) as)))"

section \<open>The document map\<close>

definition artifact_region :: "(string \<times> string) list" where
  "artifact_region = [(''spec_toc'', ''manual''), (''spec_section'', ''manual''), (''drawing_index'', ''drawings''),
     (''door_schedule'', ''drawings''), (''finish_schedule'', ''drawings''), (''abbreviations'', ''drawings'')]"

record completeness_out =
  co_score :: rat
  co_expected :: "string list"
  co_found :: "string list"
  co_missing :: "string list"
  co_not_applicable :: "string list"
  co_low_confidence :: "string list"

definition expected_in :: "region list \<Rightarrow> string \<Rightarrow> bool" where
  "expected_in rs n = (case map_of artifact_region n of None \<Rightarrow> False | Some k \<Rightarrow> region_present rs k)"

definition completeness :: "(string, located) dict \<Rightarrow> region list \<Rightarrow> completeness_out" where
  "completeness arts rs =
     (let present = filter (\<lambda>(n, a). expected_in rs n) arts;
          found = filter (\<lambda>(n, a). la_found a) present in
      \<lparr>co_score = (if present = [] then 0 else round_dec 3 (of_nat (length found) / of_nat (length present))),
       co_expected = map fst present, co_found = map fst found,
       co_missing = map fst (filter (\<lambda>(n, a). la_status a = Absent) present),
       co_not_applicable = map fst (filter (\<lambda>(n, a). \<not> expected_in rs n) arts),
       co_low_confidence = map fst (filter (\<lambda>(n, a). la_status a = LowConfidence) arts)\<rparr>)"

record document_map =
  dm_files :: "file_ref list"
  dm_profiles :: "page_profile list"
  dm_regions :: "region list"
  dm_artifacts :: "(string, located) dict"
  dm_completeness :: completeness_out

definition build_document_map :: "(string \<Rightarrow> exn + fitz_page list) \<Rightarrow> (string \<Rightarrow> exn + string) \<Rightarrow>
    (string \<Rightarrow> exn + page_view list) \<Rightarrow> string list \<Rightarrow> exn + document_map" where
  "build_document_map open_pdf checksum open_pages paths =
     (case intake_package open_pdf checksum paths of
        Inl e \<Rightarrow> Inl e
      | Inr files \<Rightarrow> (case profile_package open_pdf files of
          Inl e \<Rightarrow> Inl e
        | Inr profiles \<Rightarrow> (case segment_package profiles default_min_run of
            Inl e \<Rightarrow> Inl e
          | Inr rs \<Rightarrow> (case locate_all open_pages files profiles rs of
              Inl e \<Rightarrow> Inl e
            | Inr arts \<Rightarrow> Inr \<lparr>dm_files = files, dm_profiles = profiles, dm_regions = rs,
                dm_artifacts = arts, dm_completeness = completeness arts rs\<rparr>))))"

text \<open>\<open>DocumentMap.locate\<close>, \<open>regions_of\<close>, \<open>has_region\<close>, \<open>profiles_in\<close>, \<open>LocatedArtifact.best\<close>\<close>

definition dm_locate :: "document_map \<Rightarrow> string \<Rightarrow> located option" where
  "dm_locate dm n = map_of (dm_artifacts dm) n"

definition regions_of :: "document_map \<Rightarrow> string \<Rightarrow> region list" where
  "regions_of dm kind = filter (\<lambda>r. rg_kind r = kind) (dm_regions dm)"

definition has_region :: "document_map \<Rightarrow> string \<Rightarrow> bool" where
  "has_region dm kind = region_present (dm_regions dm) kind"

definition profiles_in :: "document_map \<Rightarrow> region \<Rightarrow> page_profile list" where
  "profiles_in dm r = filter (\<lambda>p. region_contains r (pp_file p) (pp_index p)) (dm_profiles dm)"

definition best_page :: "located \<Rightarrow> page_ref option" where
  "best_page a = py_max pr_conf (la_pages a)"

record extraction_hints =
  eh_toc_start :: "int option"
  eh_section_start :: int
  eh_drawing_index :: "int option"
  eh_door_schedule :: "int option"
  eh_finish_schedule :: "int option"
  eh_abbreviations :: "int option"

definition located_pages :: "document_map \<Rightarrow> string \<Rightarrow> int list" where
  "located_pages dm n = (case dm_locate dm n of None \<Rightarrow> [] | Some a \<Rightarrow> map pr_page (la_pages a))"

definition first_page :: "document_map \<Rightarrow> string \<Rightarrow> int option" where
  "first_page dm n = first_of (located_pages dm n)"

definition extraction_pages :: "document_map \<Rightarrow> extraction_hints" where
  "extraction_pages dm =
     (let toc = located_pages dm ''spec_toc'' in
      \<lparr>eh_toc_start = first_of toc, eh_section_start = (if toc = [] then 0 else last toc + 1),
       eh_drawing_index = first_page dm ''drawing_index'', eh_door_schedule = first_page dm ''door_schedule'',
       eh_finish_schedule = first_page dm ''finish_schedule'', eh_abbreviations = first_page dm ''abbreviations''\<rparr>)"

section \<open>Runs of pages\<close>

text \<open>Consecutive pages of one file.\<close>

definition consecutive :: "page_ref list \<Rightarrow> bool" where
  "consecutive rs \<longleftrightarrow> (case rs of [] \<Rightarrow> True | r # _ \<Rightarrow>
     map pr_page rs = map (\<lambda>i. pr_page r + int i) [0..<length rs] \<and> list_all (\<lambda>x. pr_file x = pr_file r) rs)"

lemma consecutive_single [simp]: "consecutive [r]" "consecutive []"
  by (simp_all add: consecutive_def)

lemma consecutive_Cons:
  assumes "consecutive (s # rs)" "pr_page s = pr_page r + 1" "pr_file s = pr_file r"
  shows "consecutive (r # s # rs)"
proof -
  have "map pr_page (s # rs) = map (\<lambda>i. pr_page r + int i) (map Suc [0..<length (s # rs)])"
    using assms(1,2) by (simp add: consecutive_def comp_def del: upt_Suc)
  then have "map pr_page (r # s # rs) = map (\<lambda>i. pr_page r + int i) (0 # map Suc [0..<length (s # rs)])" by simp
  moreover have "0 # map Suc [0..<n] = [0..<Suc n]" for n by (metis map_Suc_upt upt_rec zero_less_Suc)
  ultimately show ?thesis using assms(1,3) by (simp add: consecutive_def del: upt_Suc)
qed

lemma page_runs_spec:
  "list_all (\<lambda>x. pr_file x = f) rs \<Longrightarrow>
   concat (page_runs rs) = rs \<and> list_all (\<lambda>run. run \<noteq> [] \<and> consecutive run) (page_runs rs) \<and>
   (rs = [] \<longleftrightarrow> page_runs rs = []) \<and>
   (case page_runs rs of [] \<Rightarrow> True | x # _ \<Rightarrow> hd x = hd rs)"
proof (induction rs rule: page_runs.induct)
  case (3 r s rs)
  then have IH: "concat (page_runs (s # rs)) = s # rs" "list_all (\<lambda>run. run \<noteq> [] \<and> consecutive run) (page_runs (s # rs))"
    "page_runs (s # rs) \<noteq> []" "case page_runs (s # rs) of [] \<Rightarrow> True | x # _ \<Rightarrow> hd x = s" by (simp_all cong: list.case_cong)
  obtain x xs where x: "page_runs (s # rs) = x # xs" using IH(3) by (cases "page_runs (s # rs)") auto
  with IH obtain zs where zs: "x = s # zs" by (cases x) auto
  have fs: "pr_file s = pr_file r" using 3(2) by simp
  show ?case using IH x zs fs consecutive_Cons[of s zs r] by auto
qed simp_all

lemma file_run_spec:
  assumes "f \<in> pr_file ` set refs"
  shows "file_run refs f \<noteq> [] \<and> consecutive (file_run refs f) \<and> set (file_run refs f) \<subseteq> set refs"
proof -
  let ?own = "sort_key pr_page (filter (\<lambda>r. pr_file r = f) refs)"
  have f: "list_all (\<lambda>x. pr_file x = f) ?own" by (simp add: list_all_iff)
  have "filter (\<lambda>r. pr_file r = f) refs \<noteq> []" using assms by (auto simp: filter_empty_conv)
  then have ne: "?own \<noteq> []" by (metis length_0_conv length_sort)
  then obtain run where run: "py_max run_key (page_runs ?own) = Some run"
    using page_runs_spec[OF f] by (cases "py_max run_key (page_runs ?own)") auto
  have r: "run \<in> set (page_runs ?own)" using py_max_Some[OF run] by blast
  then have "set run \<subseteq> set (concat (page_runs ?own))" by auto
  then have "set run \<subseteq> set refs" using page_runs_spec[OF f] by auto
  with r page_runs_spec[OF f] run show ?thesis by (auto simp: file_run_def list_all_iff)
qed

lemma longest_run_spec:
  assumes "refs \<noteq> []"
  shows "longest_run refs \<noteq> [] \<and> consecutive (longest_run refs) \<and> set (longest_run refs) \<subseteq> set refs \<and>
    (\<forall>f \<in> pr_file ` set refs. run_key (file_run refs f) \<le> run_key (longest_run refs))"
proof -
  let ?good = "\<lambda>run. run \<noteq> [] \<and> consecutive run \<and> set run \<subseteq> set refs"
  let ?step = "\<lambda>best cand. if best = [] \<or> run_key cand > run_key best then cand else best"
  have fold: "(b = [] \<or> ?good b) \<Longrightarrow> (\<And>c. c \<in> set cs \<Longrightarrow> ?good c) \<Longrightarrow>
      (foldl ?step b cs = [] \<longleftrightarrow> b = [] \<and> cs = []) \<and> (foldl ?step b cs = [] \<or> ?good (foldl ?step b cs)) \<and>
      (\<forall>c \<in> set cs. run_key c \<le> run_key (foldl ?step b cs)) \<and> (b \<noteq> [] \<longrightarrow> run_key b \<le> run_key (foldl ?step b cs))" for b cs
  proof (induction cs arbitrary: b)
    case (Cons c cs)
    have "?step b c \<noteq> []" using Cons.prems by auto
    moreover have "?good (?step b c)" using Cons.prems by auto
    moreover note Cons.IH[of "?step b c"] Cons.prems
    ultimately show ?case by (auto intro: order_trans less_imp_le split: if_splits)
  qed simp
  have fs: "set (files_of pr_file refs) = pr_file ` set refs"
    using set_dedup_first_keys[of id "{}" "map pr_file refs"] by (simp add: files_of_def)
  have "files_of pr_file refs \<noteq> []" using fs assms by (metis image_is_empty set_empty)
  moreover have "?good c" if "c \<in> set (map (file_run refs) (files_of pr_file refs))" for c
    using that fs file_run_spec by auto
  ultimately show ?thesis
    using fold[of "[]" "map (file_run refs) (files_of pr_file refs)"] fs by (auto simp: longest_run_def)
qed

lemma set_sort_refs [simp]: "set (sort_refs rs) = set rs"
proof -
  have "set (insert_ref r xs) = insert r (set xs)" for r xs by (induction xs) auto
  then show ?thesis by (induction rs) auto
qed

lemma consecutive_nth:
  assumes "consecutive rs" "i < length rs"
  shows "pr_page (rs ! i) = pr_page (hd rs) + int i \<and> pr_file (rs ! i) = pr_file (hd rs)"
proof -
  have "map pr_page rs = map (\<lambda>i. pr_page (hd rs) + int i) [0..<length rs]" "list_all (\<lambda>x. pr_file x = pr_file (hd rs)) rs"
    using assms by (cases rs; simp add: consecutive_def)+
  from arg_cong[OF this(1), of "\<lambda>xs. xs ! i"] this(2) assms(2) show ?thesis by (simp add: list_all_length)
qed

lemma sort_refs_consecutive: "consecutive rs \<Longrightarrow> sort_refs rs = rs"
proof -
  have "sorted_wrt ref_le xs \<Longrightarrow> sort_refs xs = xs" for xs
  proof (induction xs)
    case (Cons x xs)
    then show ?case by (cases xs) auto
  qed simp
  moreover have "sorted_wrt ref_le rs" if "consecutive rs"
    using consecutive_nth[OF that] by (simp add: sorted_wrt_iff_nth_less ref_le_def)
  ultimately show "consecutive rs \<Longrightarrow> sort_refs rs = rs" by blast
qed

section \<open>What a locator finds\<close>

text \<open>The confidence a page has for a locator, read from the file it belongs to.\<close>

definition confidence_of :: "(string \<Rightarrow> exn + page_view list) \<Rightarrow> file_ref list \<Rightarrow> locator_spec \<Rightarrow> page_profile \<Rightarrow> rat" where
  "confidence_of open_pages files spec p =
     (case ls_confirm spec of
        OnProfile conf \<Rightarrow> conf p
      | OnPage conf \<Rightarrow> (case map_of (map (\<lambda>f. (fr_id f, fr_path f)) files) (pp_file p) of
          None \<Rightarrow> 0
        | Some path \<Rightarrow> (case open_pages path of Inl e \<Rightarrow> 0 | Inr pages \<Rightarrow> conf (pages ! nat (pp_index p)))))"

definition confirmed :: "(string \<Rightarrow> exn + page_view list) \<Rightarrow> file_ref list \<Rightarrow> locator_spec \<Rightarrow> page_profile list \<Rightarrow> page_profile set" where
  "confirmed open_pages files spec cands = {p \<in> set cands. 0 < confidence_of open_pages files spec p}"

text \<open>The files the profiles came from, opened by the second library with as many pages.\<close>

definition same_documents :: "(string \<Rightarrow> exn + fitz_page list) \<Rightarrow> (string \<Rightarrow> exn + page_view list) \<Rightarrow> bool" where
  "same_documents open_pdf open_pages \<longleftrightarrow>
     (\<forall>path ps. open_pdf path = Inr ps \<longrightarrow> (\<exists>pages. open_pages path = Inr pages \<and> length pages = length ps))"

lemma confirm_pages_ok:
  assumes "list_all (\<lambda>p. pp_index p < int (length pages)) ps"
  shows "confirm_pages spec conf pages ps =
    Inr (List.map_filter (\<lambda>p. page_ref_of spec p (conf (pages ! nat (pp_index p)))) ps)"
  using assms by (induction ps) (auto simp: map_filter_simps split: option.split)

lemma confirm_files_ok:
  assumes "\<And>f. f \<in> set fs \<Longrightarrow> \<exists>path pages. map_of paths f = Some path \<and> open_pages path = Inr pages \<and>
      list_all (\<lambda>p. pp_index p < int (length pages)) (filter (\<lambda>p. pp_file p = f) cands)"
  shows "\<exists>refs. confirm_files open_pages paths spec conf cands fs = Inr refs \<and>
    (\<forall>r. r \<in> set refs \<longleftrightarrow> (\<exists>p \<in> set cands. pp_file p \<in> set fs \<and> (\<exists>path pages. map_of paths (pp_file p) = Some path \<and>
      open_pages path = Inr pages \<and> page_ref_of spec p (conf (pages ! nat (pp_index p))) = Some r)))"
  using assms
proof (induction fs)
  case (Cons f fs)
  obtain path pages where f: "map_of paths f = Some path" "open_pages path = Inr pages"
    "list_all (\<lambda>p. pp_index p < int (length pages)) (filter (\<lambda>p. pp_file p = f) cands)" using Cons.prems[of f] by auto
  obtain refs where refs: "confirm_files open_pages paths spec conf cands fs = Inr refs"
    "\<forall>r. r \<in> set refs \<longleftrightarrow> (\<exists>p \<in> set cands. pp_file p \<in> set fs \<and> (\<exists>path pages. map_of paths (pp_file p) = Some path \<and>
      open_pages path = Inr pages \<and> page_ref_of spec p (conf (pages ! nat (pp_index p))) = Some r))"
    using Cons by auto
  let ?own = "List.map_filter (\<lambda>p. page_ref_of spec p (conf (pages ! nat (pp_index p)))) (sort_key pp_index (filter (\<lambda>p. pp_file p = f) cands))"
  have "confirm_files open_pages paths spec conf cands (f # fs) = Inr (?own @ refs)"
    using f refs(1) confirm_pages_ok[of pages "sort_key pp_index (filter (\<lambda>p. pp_file p = f) cands)" spec conf]
    by (simp add: list_all_iff)
  moreover have "r \<in> set ?own \<longleftrightarrow> (\<exists>p \<in> set cands. pp_file p = f \<and> page_ref_of spec p (conf (pages ! nat (pp_index p))) = Some r)" for r
    by (auto simp: in_map_filter)
  ultimately show ?case using refs(2) f(1,2) by (intro exI[of _ "?own @ refs"]) (simp, fastforce)
qed simp

lemma page_ref_of_Some: "page_ref_of spec p c = Some r \<longleftrightarrow> 0 < c \<and>
   r = \<lparr>pr_file = pp_file p, pr_page = pp_index p, pr_conf = round_dec 3 c, pr_signature = ls_name spec\<rparr>"
  by (auto simp: page_ref_of_def)

lemma map_of_file: "distinct (map fr_id files) \<Longrightarrow> f \<in> set files \<Longrightarrow>
   map_of (map (\<lambda>f. (fr_id f, fr_path f)) files) (fr_id f) = Some (fr_path f)"
  by (rule map_of_is_SomeI) (auto simp: comp_def)

lemma profile_index_bound:
  assumes "profile_package open_pdf files = Inr profiles" "distinct (map fr_id files)" "p \<in> set profiles"
  shows "\<exists>f ps. f \<in> set files \<and> pp_file p = fr_id f \<and> open_pdf (fr_path f) = Inr ps \<and> pp_index p < int (length ps)"
proof -
  obtain f ps where f: "f \<in> set files" "pp_file p = fr_id f" "open_pdf (fr_path f) = Inr ps"
    using file_of_profile[OF assms(1,3)] by blast
  have "p \<in> set (filter (\<lambda>p. pp_file p = fr_id f) profiles)" using assms(3) f(2) by simp
  then have "p \<in> set (profile_file (fr_id f) ps)" unfolding profiles_of_file[OF assms(1,2) f(1,3)] .
  then have "pp_index p < int (length ps)" by (auto simp: profile_file_def profile_page_def Let_def)
  with f show ?thesis by blast
qed

text \<open>The references a locator collects are its confirmed candidates.\<close>

lemma locate_refs_ok:
  assumes "profile_package open_pdf files = Inr profiles" and "distinct (map fr_id files)"
    and "same_documents open_pdf open_pages"
  shows "\<exists>refs. locate_refs open_pages files profiles rs spec = Inr refs \<and>
    set refs = (\<lambda>p. \<lparr>pr_file = pp_file p, pr_page = pp_index p,
      pr_conf = round_dec 3 (confidence_of open_pages files spec p), pr_signature = ls_name spec\<rparr>) `
      confirmed open_pages files spec (candidates spec profiles rs)"
proof (cases "ls_confirm spec")
  case (OnProfile conf)
  then show ?thesis
    by (auto simp: locate_refs_def confirmed_def confidence_of_def in_map_filter page_ref_of_Some image_iff Let_def)
next
  case (OnPage conf)
  let ?cands = "candidates spec profiles rs"
  let ?paths = "map (\<lambda>f. (fr_id f, fr_path f)) files"
  have d: "dict_of ?paths = ?paths" by (rule dict_of_id) (use assms(2) in \<open>simp add: comp_def\<close>)
  have opened: "\<exists>path pages. map_of ?paths (pp_file p) = Some path \<and> open_pages path = Inr pages \<and>
      pp_index p < int (length pages)" if "p \<in> set ?cands" for p
  proof -
    from that have "p \<in> set profiles" by (simp add: candidates_def Let_def)
    from profile_index_bound[OF assms(1,2) this] obtain f ps where f: "f \<in> set files" "pp_file p = fr_id f"
      "open_pdf (fr_path f) = Inr ps" "pp_index p < int (length ps)" by blast
    with assms(3) obtain pages where "open_pages (fr_path f) = Inr pages" "length pages = length ps"
      unfolding same_documents_def by blast
    with f map_of_file[OF assms(2) f(1)] show ?thesis by simp
  qed
  have "\<exists>path pages. map_of ?paths f = Some path \<and> open_pages path = Inr pages \<and>
      list_all (\<lambda>p. pp_index p < int (length pages)) (filter (\<lambda>p. pp_file p = f) ?cands)" if "f \<in> set (files_of pp_file ?cands)" for f
  proof -
    from that obtain p where p: "p \<in> set ?cands" "f = pp_file p"
      using set_dedup_first_keys[of id "{}" "map pp_file ?cands"] by (auto simp: files_of_def)
    from opened[OF p(1)] obtain path pages where o: "map_of ?paths f = Some path" "open_pages path = Inr pages"
      using p(2) by blast
    have "pp_index q < int (length pages)" if "q \<in> set ?cands" "pp_file q = f" for q
      using opened[OF that(1)] o that(2) by simp
    with o show ?thesis by (auto simp: list_all_iff)
  qed
  from confirm_files_ok[OF this, where conf = conf and spec = spec] obtain refs where
    refs: "confirm_files open_pages ?paths spec conf ?cands (files_of pp_file ?cands) = Inr refs"
    "\<forall>r. r \<in> set refs \<longleftrightarrow> (\<exists>p \<in> set ?cands. pp_file p \<in> set (files_of pp_file ?cands) \<and> (\<exists>path pages. map_of ?paths (pp_file p) = Some path \<and>
      open_pages path = Inr pages \<and> page_ref_of spec p (conf (pages ! nat (pp_index p))) = Some r))" by blast
  have fs: "pp_file p \<in> set (files_of pp_file ?cands)" if "p \<in> set ?cands" for p
    using set_dedup_first_keys[of id "{}" "map pp_file ?cands"] that by (auto simp: files_of_def)
  have c: "(\<exists>path pages. map_of ?paths (pp_file p) = Some path \<and> open_pages path = Inr pages \<and>
      page_ref_of spec p (conf (pages ! nat (pp_index p))) = Some r) \<longleftrightarrow>
      page_ref_of spec p (confidence_of open_pages files spec p) = Some r" if "p \<in> set ?cands" for p r
    using opened[OF that] OnPage by (auto simp: confidence_of_def)
  have "r \<in> set refs \<longleftrightarrow> (\<exists>p \<in> set ?cands. page_ref_of spec p (confidence_of open_pages files spec p) = Some r)" for r
    unfolding refs(2)[rule_format] using fs c by blast
  then have "set refs = (\<lambda>p. \<lparr>pr_file = pp_file p, pr_page = pp_index p,
      pr_conf = round_dec 3 (confidence_of open_pages files spec p), pr_signature = ls_name spec\<rparr>) `
      confirmed open_pages files spec ?cands"
    by (auto simp: page_ref_of_Some confirmed_def image_iff)
  with refs(1) show ?thesis using OnPage d by (auto simp: locate_refs_def Let_def)
qed

section \<open>The verdict\<close>

text \<open>The page signatures only pass pages well above the threshold of a found artifact.\<close>

lemma door_confidence: "confirm_door_schedule p = 0 \<or> 3/4 \<le> confirm_door_schedule p"
  by (simp add: confirm_door_schedule_def Let_def)

lemma finish_confidence: "finish_table_conf ts \<in> {0, 7/10, 1}"
  by (induction ts) auto

lemma page_confidence:
  assumes "spec \<in> set locators" "ls_confirm spec = OnPage conf" "0 < conf p"
  shows "ls_min_conf spec \<le> round_dec 3 (conf p)"
proof -
  have m: "ls_min_conf spec = 6/10" and c: "conf \<in> {confirm_toc, confirm_drawing_index, confirm_door_schedule, confirm_finish_schedule}"
    using assms(1,2) by (auto simp: locators_def)
  have "7/10 \<le> conf p" using c assms(3) door_confidence[of p] finish_confidence[of "pv_tables p"]
    by (auto simp: confirm_toc_def confirm_drawing_index_def confirm_finish_schedule_def split: if_splits)
  then have "round_dec 3 (7/10) \<le> round_dec 3 (conf p)" by (rule round_dec_mono)
  moreover have "round_dec 3 (7/10) = 7/10" using round_half_even_int[of 700] by (simp add: round_dec_def)
  ultimately show ?thesis by (simp add: m)
qed

lemma only_abbreviations_on_profile: "spec \<in> set locators \<Longrightarrow> ls_name spec \<noteq> ''abbreviations'' \<Longrightarrow> \<exists>conf. ls_confirm spec = OnPage conf"
  by (auto simp: locators_def)

definition artifact_ok :: "(string \<Rightarrow> exn + page_view list) \<Rightarrow> document_map \<Rightarrow> locator_spec \<Rightarrow> located \<Rightarrow> bool" where
  "artifact_ok open_pages dm spec a \<longleftrightarrow>
     (let hits = confirmed open_pages (dm_files dm) spec (candidates spec (dm_profiles dm) (dm_regions dm)) in
      if \<not> has_region dm (ls_region spec) then la_status a = NotApplicable \<and> la_pages a = []
      else if hits = {} then la_status a = Absent \<and> la_pages a = []
      else la_pages a \<noteq> [] \<and> consecutive (la_pages a) \<and>
        (\<lambda>r. (pr_file r, pr_page r)) ` set (la_pages a) \<subseteq> (\<lambda>p. (pp_file p, pp_index p)) ` hits \<and>
        la_status a \<in> (if ls_name spec = ''abbreviations'' then {Found, LowConfidence} else {Found}))"

lemma assemble_located_pages:
  assumes "refs \<noteq> []"
  obtains pages where "assemble_located spec refs True =
      \<lparr>la_name = ls_name spec, la_status = (if Max (set (map pr_conf pages)) \<ge> ls_min_conf spec then Found else LowConfidence),
       la_region = ls_region spec, la_pages = pages\<rparr>"
    "pages \<noteq> []" "consecutive pages" "set pages \<subseteq> set refs"
proof (cases "ls_run spec")
  case True
  let ?run = "longest_run refs"
  have "assemble_located spec refs True =
      \<lparr>la_name = ls_name spec, la_status = (if Max (set (map pr_conf ?run)) \<ge> ls_min_conf spec then Found else LowConfidence),
       la_region = ls_region spec, la_pages = ?run\<rparr>"
    using True assms longest_run_spec[OF assms] sort_refs_consecutive[of ?run] by (simp add: assemble_located_def Let_def)
  with longest_run_spec[OF assms] show ?thesis by (intro that[of ?run]) auto
next
  case False
  obtain r where r: "py_max pr_conf refs = Some r" using assms by (cases "py_max pr_conf refs") auto
  have "assemble_located spec refs True =
      \<lparr>la_name = ls_name spec, la_status = (if Max (set (map pr_conf [r])) \<ge> ls_min_conf spec then Found else LowConfidence),
       la_region = ls_region spec, la_pages = [r]\<rparr>"
    using False assms r by (simp add: assemble_located_def Let_def)
  with py_max_Some[OF r] show ?thesis by (intro that[of "[r]"]) auto
qed

lemma artifact_ok_assemble_located:
  assumes "spec \<in> set locators"
    and "set refs = (\<lambda>p. \<lparr>pr_file = pp_file p, pr_page = pp_index p,
      pr_conf = round_dec 3 (confidence_of open_pages (dm_files dm) spec p), pr_signature = ls_name spec\<rparr>) `
      confirmed open_pages (dm_files dm) spec (candidates spec (dm_profiles dm) (dm_regions dm))"
  shows "artifact_ok open_pages dm spec (assemble_located spec refs (region_present (dm_regions dm) (ls_region spec)))"
proof -
  let ?hits = "confirmed open_pages (dm_files dm) spec (candidates spec (dm_profiles dm) (dm_regions dm))"
  have e: "refs = [] \<longleftrightarrow> ?hits = {}" by (subst set_empty[symmetric], subst assms(2)) simp
  consider "\<not> has_region dm (ls_region spec)" | "has_region dm (ls_region spec)" "refs = []"
    | "has_region dm (ls_region spec)" "refs \<noteq> []" by blast
  then show ?thesis
  proof cases
    case 3
    then have h: "region_present (dm_regions dm) (ls_region spec) = True" by (simp add: has_region_def)
    obtain pages where p: "assemble_located spec refs True =
        \<lparr>la_name = ls_name spec, la_status = (if Max (set (map pr_conf pages)) \<ge> ls_min_conf spec then Found else LowConfidence),
         la_region = ls_region spec, la_pages = pages\<rparr>" "pages \<noteq> []" "consecutive pages" "set pages \<subseteq> set refs"
      using assemble_located_pages[OF 3(2)] by blast
    have "ls_min_conf spec \<le> Max (set (map pr_conf pages))" if na: "ls_name spec \<noteq> ''abbreviations''"
    proof -
      obtain conf where conf: "ls_confirm spec = OnPage conf" using only_abbreviations_on_profile[OF assms(1) na] by blast
      obtain r where r: "r \<in> set pages" using p(2) by (cases pages) auto
      with p(4) have "r \<in> set refs" by blast
      then obtain q where q: "q \<in> ?hits" "pr_conf r = round_dec 3 (confidence_of open_pages (dm_files dm) spec q)"
        unfolding assms(2) by auto
      from q(1) have "0 < confidence_of open_pages (dm_files dm) spec q" by (simp add: confirmed_def)
      then obtain v where "confidence_of open_pages (dm_files dm) spec q = conf v" "0 < conf v"
        unfolding confidence_of_def conf by (auto split: option.splits sum.splits)
      with page_confidence[OF assms(1) conf] q(2) have "ls_min_conf spec \<le> pr_conf r" by simp
      also have "pr_conf r \<le> Max (set (map pr_conf pages))" using r by simp
      finally show ?thesis .
    qed
    moreover have "(\<lambda>r. (pr_file r, pr_page r)) ` set pages \<subseteq> (\<lambda>p. (pp_file p, pp_index p)) ` ?hits"
      using p(4) unfolding assms(2) by auto
    ultimately show ?thesis using 3 e p h unfolding artifact_ok_def Let_def by (simp add: has_region_def)
  qed (use e in \<open>simp_all add: artifact_ok_def assemble_located_def Let_def has_region_def\<close>)
qed

lemma locate_specs_ok:
  assumes "\<And>s. s \<in> set ss \<Longrightarrow> \<exists>refs. locate_refs open_pages files profiles rs s = Inr refs \<and> Q s refs"
  shows "\<exists>as. locate_specs open_pages files profiles rs ss = Inr as \<and>
    list_all2 (\<lambda>s a. \<exists>refs. Q s refs \<and> a = assemble_located s refs (region_present rs (ls_region s))) ss as"
  using assms
proof (induction ss)
  case (Cons s ss)
  obtain refs where "locate_refs open_pages files profiles rs s = Inr refs" "Q s refs" using Cons.prems[of s] by auto
  moreover obtain as where "locate_specs open_pages files profiles rs ss = Inr as"
    "list_all2 (\<lambda>s a. \<exists>refs. Q s refs \<and> a = assemble_located s refs (region_present rs (ls_region s))) ss as" using Cons by auto
  ultimately show ?case by auto
qed simp

lemma assemble_located_name: "la_name (assemble_located s refs b) = ls_name s"
  by (simp add: assemble_located_def Let_def)

lemma intake_opens:
  "intake_package open_pdf checksum paths = Inr files \<Longrightarrow> f \<in> set files \<Longrightarrow> \<exists>ps. open_pdf (fr_path f) = Inr ps"
  by (induction paths arbitrary: files) (auto simp: intake_file_def split: sum.splits)

lemma profiles_exist:
  "(\<And>f. f \<in> set files \<Longrightarrow> \<exists>ps. open_pdf (fr_path f) = Inr ps) \<Longrightarrow> \<exists>profiles. profile_package open_pdf files = Inr profiles"
proof (induction files)
  case (Cons f files)
  then obtain ps qs where "open_pdf (fr_path f) = Inr ps" "profile_package open_pdf files = Inr qs"
    by (metis list.set_intros)
  then show ?case by simp
qed simp

lemma locators_distinct: "distinct (map ls_name locators)"
  by (simp add: locators_def)

lemma locate_all_ok:
  assumes "profile_package open_pdf files = Inr profiles" and "distinct (map fr_id files)"
    and "same_documents open_pdf open_pages"
    and "dm_files dm = files" "dm_profiles dm = profiles" "dm_regions dm = rs"
  shows "\<exists>arts. locate_all open_pages files profiles rs = Inr arts \<and> map fst arts = map ls_name locators \<and>
    list_all2 (\<lambda>s a. fst a = la_name (snd a) \<and> artifact_ok open_pages dm s (snd a)) locators arts"
proof -
  let ?Q = "\<lambda>s refs. set refs = (\<lambda>p. \<lparr>pr_file = pp_file p, pr_page = pp_index p,
      pr_conf = round_dec 3 (confidence_of open_pages files s p), pr_signature = ls_name s\<rparr>) `
      confirmed open_pages files s (candidates s profiles rs)"
  obtain as where as: "locate_specs open_pages files profiles rs locators = Inr as"
    "list_all2 (\<lambda>s a. \<exists>refs. ?Q s refs \<and> a = assemble_located s refs (region_present rs (ls_region s))) locators as"
    using locate_specs_ok[of locators open_pages files profiles rs ?Q] locate_refs_ok[OF assms(1-3)] by blast
  have ok: "la_name a = ls_name s \<and> artifact_ok open_pages dm s a"
    if "s \<in> set locators" "\<exists>refs. ?Q s refs \<and> a = assemble_located s refs (region_present rs (ls_region s))" for s a
    using that artifact_ok_assemble_located[OF that(1), of _ open_pages dm] by (auto simp: assms(4-6) assemble_located_name)
  have n: "list_all2 (\<lambda>s a. la_name a = ls_name s \<and> artifact_ok open_pages dm s a) locators as"
    by (rule list.rel_mono_strong[OF as(2)]) (use ok in blast)
  have names: "map la_name as = map ls_name locators"
    using n by (induction rule: list_all2_induct) auto
  have "locate_all open_pages files profiles rs = Inr (map (\<lambda>a. (la_name a, a)) as)"
    using locators_distinct names by (simp add: locate_all_def as(1) dict_of_id comp_def)
  moreover have "list_all2 (\<lambda>s a. fst a = la_name (snd a) \<and> artifact_ok open_pages dm s (snd a)) locators (map (\<lambda>a. (la_name a, a)) as)"
    unfolding list_all2_map2 by (rule list.rel_mono_strong[OF n]) simp
  ultimately show ?thesis using names by (simp add: comp_def)
qed

text \<open>
  C32.  Discovery degrades and never raises: for files that can be opened, with distinct ids and the
  same page counts in both PDF libraries, the document map is built and has one entry per
  locator.  An artifact whose region kind is nowhere is not applicable, one without a confirmed
  candidate page is absent; otherwise its pages are consecutive confirmed pages of one file that
  lie in a region of its kind, and only the abbreviation list can be of low confidence.
\<close>

theorem discovery_degrades_and_never_raises:
  assumes "intake_package open_pdf checksum paths = Inr files" and "distinct (map fr_id files)"
    and "same_documents open_pdf open_pages"
  shows "\<exists>dm. build_document_map open_pdf checksum open_pages paths = Inr dm \<and> dm_files dm = files \<and>
    list_all2 (\<lambda>spec a. fst a = ls_name spec \<and> artifact_ok open_pages dm spec (snd a)) locators (dm_artifacts dm)"
proof -
  obtain profiles where profiles: "profile_package open_pdf files = Inr profiles"
    using profiles_exist[of files open_pdf] intake_opens[OF assms(1)] by blast
  obtain rs where rs: "segment_package profiles default_min_run = Inr rs"
    using segment_package_ok[OF profiles assms(2)] by blast
  let ?dm = "\<lambda>arts. \<lparr>dm_files = files, dm_profiles = profiles, dm_regions = rs, dm_artifacts = arts, dm_completeness = completeness arts rs\<rparr>"
  obtain arts where arts: "locate_all open_pages files profiles rs = Inr arts" "map fst arts = map ls_name locators"
    "list_all2 (\<lambda>s a. fst a = la_name (snd a) \<and> artifact_ok open_pages (?dm []) s (snd a)) locators arts"
    using locate_all_ok[OF profiles assms(2,3), of "?dm []" rs] by auto
  have keep: "artifact_ok open_pages (?dm []) s a = artifact_ok open_pages (?dm arts) s a" for s a
    by (simp add: artifact_ok_def has_region_def)
  have "build_document_map open_pdf checksum open_pages paths = Inr (?dm arts)"
    by (simp add: build_document_map_def assms(1) profiles rs arts(1))
  moreover have "list_all2 (\<lambda>spec a. fst a = ls_name spec \<and> artifact_ok open_pages (?dm arts) spec (snd a)) locators arts"
  proof (rule list_all2_all_nthI)
    show "length locators = length arts" using arts(2) by (metis length_map)
    fix i assume i: "i < length locators"
    show "fst (arts ! i) = ls_name (locators ! i) \<and> artifact_ok open_pages (?dm arts) (locators ! i) (snd (arts ! i))"
      using list_all2_nthD[OF arts(3) i] arg_cong[OF arts(2), of "\<lambda>xs. xs ! i"] i list_all2_lengthD[OF arts(3)]
      by (simp add: keep)
  qed
  ultimately show ?thesis by (intro exI[of _ "?dm arts"]) simp
qed

definition blank_view :: page_view where
  "blank_view = \<lparr>pv_text = '''', pv_tables = [], pv_words = [], pv_width = 0, pv_height = 0\<rparr>"

theorem discovery_degrades_and_never_raises_witness:
  "\<exists>dm. build_document_map (\<lambda>_. Inr sample_pages) (\<lambda>_. Inr '''') (\<lambda>_. Inr (replicate 7 blank_view)) [''set.pdf''] = Inr dm \<and>
     map fst (dm_artifacts dm) = map ls_name locators"
proof -
  have i: "intake_package (\<lambda>_. Inr sample_pages) (\<lambda>_. Inr '''') [''set.pdf''] =
      Inr [\<lparr>fr_id = path_stem ''set.pdf'', fr_path = ''set.pdf'', fr_checksum = '''', fr_pages = length sample_pages, fr_format = detect_format sample_pages\<rparr>]"
    by (simp add: intake_file_def)
  have s: "same_documents (\<lambda>_. Inr sample_pages) (\<lambda>_. Inr (replicate 7 blank_view))"
    by (simp add: same_documents_def sample_pages_def)
  obtain dm where dm: "build_document_map (\<lambda>_. Inr sample_pages) (\<lambda>_. Inr '''') (\<lambda>_. Inr (replicate 7 blank_view)) [''set.pdf''] = Inr dm"
    "list_all2 (\<lambda>spec a. fst a = ls_name spec \<and> artifact_ok (\<lambda>_. Inr (replicate 7 blank_view)) dm spec (snd a)) locators (dm_artifacts dm)"
    using discovery_degrades_and_never_raises[OF i _ s] by auto
  from dm(2) have "map fst (dm_artifacts dm) = map ls_name locators" by (induction rule: list_all2_induct) auto
  with dm(1) show ?thesis by blast
qed

section \<open>Completeness\<close>

text \<open>An artifact is in the expected part exactly when its region is present, and what is expected is found or missing.\<close>

lemma expected_region: "spec \<in> set locators \<Longrightarrow> expected_in rs (ls_name spec) \<longleftrightarrow> region_present rs (ls_region spec)"
  by (auto simp: locators_def expected_in_def artifact_region_def)

lemma completeness_partition:
  assumes "list_all (\<lambda>(n, a). if expected_in rs n then la_status a \<noteq> NotApplicable else la_status a = NotApplicable) arts"
    and "distinct (map fst arts)"
  shows "set (co_expected (completeness arts rs)) = set (co_found (completeness arts rs)) \<union> set (co_missing (completeness arts rs))"
    "set (co_found (completeness arts rs)) \<inter> set (co_missing (completeness arts rs)) = {}"
proof -
  have st: "la_found a \<or> la_status a = Absent" if "(n, a) \<in> set arts" "expected_in rs n" for n a
    using assms(1) that by (cases "la_status a") (auto simp: list_all_iff la_found_def)
  show "set (co_expected (completeness arts rs)) = set (co_found (completeness arts rs)) \<union> set (co_missing (completeness arts rs))"
    using st by (auto simp: completeness_def Let_def image_iff)
  show "set (co_found (completeness arts rs)) \<inter> set (co_missing (completeness arts rs)) = {}"
    using assms(2) by (auto simp: completeness_def Let_def la_found_def dest: eq_key_imp_eq_value)
qed

end
