(* ===== verification/GraphBuilder.thy ===== *)
theory GraphBuilder
  imports KnowledgeGraph SectionResolver Locator
begin

text \<open>
  Graph assembly (\<open>pipeline/phase5_graph_builder.py\<close>): the parsed sections, sheets, rooms and doors
  of a package become nodes, and the schedules and section references become edges.

  Parameters: the documents of the package as the PDF libraries give them; \<open>order\<close> is the order
  in which Python iterates over a set of texts, about which only that it lists each element once
  is ever assumed; the section client and \<open>to_float\<close> are those of the section resolver.
\<close>

section \<open>Constants\<close>

definition manual_file :: string where "manual_file = ''project_manual.pdf''"
definition drawings_file :: string where "drawings_file = ''drawings.pdf''"

definition material_section :: "(string, string) dict" where
  "material_section = [(''HM'', ''081113''), (''WD'', ''081416''), (''AL'', ''084113''), (''AL & G'', ''084113'')]"

definition hardware_section :: string where "hardware_section = ''087100''"
definition glazing_section :: string where "glazing_section = ''088000''"

definition finish_section :: "(string, string) dict" where
  "finish_section = [(''CPT'', ''096813''), (''P'', ''099123''), (''MWP'', ''099123''), (''WP'', ''099123''),
     (''ACT'', ''095113''), (''WB'', ''096513''), (''RB'', ''096513''), (''CONC'', ''033500''), (''CON'', ''033500''),
     (''T'', ''093013''), (''GYP'', ''092900'')]"

text \<open>\<open>[A-Z]{1,4}-\d+[A-Z]?\<close> and \<open>Section\s+(0\d{5})\<close>\<close>

definition finish_code_re :: rx where
  "finish_code_re = cats [times 1 4 (Chr is_upper), lit ''-'', Many True 1 is_digit, opt (Chr is_upper)]"

definition section_ref_re :: rx where
  "section_ref_re = cats [lit ''Section'', spaces1, Grp 1 (Cat (lit ''0'') (times 5 5 digit))]"

definition trace_sections :: "string list" where
  "trace_sections = [''081113'', ''081416'', ''087100'']"

definition sid :: "string \<Rightarrow> string" where
  "sid num = ''section:'' @ num"

definition sheet_id :: "string \<Rightarrow> string" where
  "sheet_id s = ''sheet:'' @ s"

definition abbr_id :: "string \<Rightarrow> string" where
  "abbr_id s = ''abbr:'' @ s"

definition room_id :: "string \<Rightarrow> string" where
  "room_id s = ''room:'' @ s"

definition link_section :: "(string, section_link) dict \<Rightarrow> string \<Rightarrow> string option" where
  "link_section links key = (case map_of links key of None \<Rightarrow> None | Some l \<Rightarrow> sl_section l)"

text \<open>\<open>([NS]\d{3})\<close>\<close>

definition room_of_re :: rx where
  "room_of_re = Grp 1 (Cat (Chr (one_of ''NS'')) (times 3 3 digit))"

definition room_of :: "string \<Rightarrow> string" where
  "room_of mark = (case re_match room_of_re mark of None \<Rightarrow> mark | Some m \<Rightarrow> group 1 m)"

text \<open>\<open>s.split(" ")[0]\<close>\<close>

definition base_code :: "string \<Rightarrow> string" where
  "base_code s = hd (split_on (CHR '' '') [] s)"

definition text_or_null :: "string option \<Rightarrow> json" where
  "text_or_null v = (case v of None \<Rightarrow> JNull | Some s \<Rightarrow> JStr s)"

section \<open>The parsed package\<close>

record parsed_package =
  pk_manual :: "string list"
  pk_section_hint :: nat
  pk_toc :: spec_toc
  pk_registry :: "sheet_entry list"
  pk_doors :: "door_entry list"
  pk_rooms :: "finish_entry list"
  pk_abbrev :: "(string, string) dict"
  pk_applied :: "(string, string) dict"

text \<open>\<open>pdf.pages[i]\<close>, and a parser that runs only when the artifact was located.\<close>

definition page_at :: "page_view list \<Rightarrow> int \<Rightarrow> exn + page_view" where
  "page_at pages i = (if nat i < length pages then Inr (pages ! nat i)
     else Inl (Exn ''IndexError'' ''list index out of range''))"

definition on_page :: "(string \<Rightarrow> exn + page_view list) \<Rightarrow> string \<Rightarrow> int option \<Rightarrow> 'a \<Rightarrow> (page_view \<Rightarrow> exn + 'a) \<Rightarrow> exn + 'a" where
  "on_page open_pages path i absent parse = (case i of
     None \<Rightarrow> Inr absent
   | Some k \<Rightarrow> (case open_pages path of
       Inl e \<Rightarrow> Inl e
     | Inr pages \<Rightarrow> (case page_at pages k of Inl e \<Rightarrow> Inl e | Inr p \<Rightarrow> parse p)))"

definition parse_package :: "(string \<Rightarrow> exn + page_view list) \<Rightarrow> string \<Rightarrow> string \<Rightarrow> extraction_hints \<Rightarrow> exn + parsed_package" where
  "parse_package open_pages manual drawings pg =
     (case open_pages manual of Inl e \<Rightarrow> Inl e | Inr mp \<Rightarrow>
      let texts = map pv_text mp;
          toc = parse_spec_toc texts (case eh_toc_start pg of None \<Rightarrow> 0 | Some i \<Rightarrow> nat i) in
      (case on_page open_pages drawings (eh_drawing_index pg) [] (\<lambda>p. Inr (parse_drawing_index (pv_tables p))) of
         Inl e \<Rightarrow> Inl e | Inr registry \<Rightarrow>
      (case on_page open_pages drawings (eh_door_schedule pg) [] (\<lambda>p. parse_door_schedule (pv_tables p)) of
         Inl e \<Rightarrow> Inl e | Inr doors \<Rightarrow>
      (case on_page open_pages drawings (eh_finish_schedule pg) [] (\<lambda>p. Inr (parse_finish_schedule (pv_tables p))) of
         Inl e \<Rightarrow> Inl e | Inr rooms \<Rightarrow>
      (case on_page open_pages drawings (eh_abbreviations pg) [] (\<lambda>p. Inr (abbreviations_as_dict (parse_abbreviations (pv_words p)))) of
         Inl e \<Rightarrow> Inl e | Inr abbrev \<Rightarrow>
      (case on_page open_pages drawings (eh_finish_schedule pg) [] (\<lambda>p. Inr (parse_applied_finish_list 1620 (pv_words p))) of
         Inl e \<Rightarrow> Inl e | Inr applied \<Rightarrow>
         Inr \<lparr>pk_manual = texts, pk_section_hint = nat (eh_section_start pg), pk_toc = toc, pk_registry = registry,
           pk_doors = doors, pk_rooms = rooms, pk_abbrev = abbrev, pk_applied = applied\<rparr>))))))"

definition door_confidence_of :: "door_entry list \<Rightarrow> rat" where
  "door_confidence_of doors = (if doors = [] then 0 else round_dec 3 (extraction_confidence doors))"

section \<open>Nodes\<close>

definition toc_sections :: "spec_toc \<Rightarrow> (string \<times> string \<times> string) list" where
  "toc_sections toc = concat (map (\<lambda>d. map (\<lambda>(n, t). (dv_number d, n, t)) (dv_sections d)) (st_divisions toc))"

definition section_titles :: "spec_toc \<Rightarrow> (string, string) dict" where
  "section_titles toc = dict_of (map snd (toc_sections toc))"

definition section_node :: "string \<times> string \<times> string \<Rightarrow> graph_node" where
  "section_node = (\<lambda>(dv, n, t). \<lparr>gn_id = sid n, gn_attrs = \<lparr>na_type = ''spec_section'',
     na_props = [(''title'', JStr t), (''division'', JStr dv)], na_file = manual_file, na_page = None, na_conf = 1\<rparr>\<rparr>)"

definition sheet_node :: "sheet_entry \<Rightarrow> graph_node" where
  "sheet_node e = \<lparr>gn_id = sheet_id (se_number e), gn_attrs = \<lparr>na_type = ''sheet'',
     na_props = [(''title'', JStr (se_title e)), (''discipline'', JStr (se_discipline e)), (''type'', text_or_null (se_type e))],
     na_file = drawings_file, na_page = se_page e, na_conf = 1\<rparr>\<rparr>"

definition abbreviation_node :: "string \<Rightarrow> string \<Rightarrow> graph_node" where
  "abbreviation_node base dfn = \<lparr>gn_id = abbr_id base, gn_attrs = \<lparr>na_type = ''abbreviation'',
     na_props = [(''definition'', JStr dfn)], na_file = drawings_file, na_page = Some 6, na_conf = 1\<rparr>\<rparr>"

definition room_node :: "finish_entry \<Rightarrow> graph_node" where
  "room_node r = \<lparr>gn_id = room_id (fe_room_number r), gn_attrs = \<lparr>na_type = ''room'',
     na_props = [(''name'', JStr (fe_room_name r)), (''floor'', JStr (fe_floor r)), (''base'', JStr (fe_base r)),
       (''wall'', JStr (fe_wall r)), (''ceiling'', JStr (fe_ceiling r))],
     na_file = drawings_file, na_page = Some 49, na_conf = 1\<rparr>\<rparr>"

definition stub_room_node :: "rat \<Rightarrow> string \<Rightarrow> graph_node" where
  "stub_room_node conf rid = \<lparr>gn_id = rid, gn_attrs = \<lparr>na_type = ''room'',
     na_props = [(''name'', JNull), (''derived'', JBool True)], na_file = drawings_file, na_page = Some 38, na_conf = conf\<rparr>\<rparr>"

definition door_id :: "door_entry \<Rightarrow> string" where
  "door_id d = ''door:'' @ de_mark d"

definition door_node :: "rat \<Rightarrow> door_entry \<Rightarrow> graph_node" where
  "door_node conf d = \<lparr>gn_id = door_id d, gn_attrs = \<lparr>na_type = ''door'',
     na_props = [(''width'', JStr (de_width d)), (''height'', JStr (de_height d)),
       (''door_material'', JStr (de_material d)), (''door_finish'', JStr (de_finish d)),
       (''frame_material'', JStr (de_frame_material d)), (''hardware_set'', JStr (de_hardware_set d)),
       (''glass_type'', text_or_null (de_glass_type d)), (''building'', JStr (de_building d))],
     na_file = drawings_file, na_page = Some 38, na_conf = conf\<rparr>\<rparr>"

definition add_nodes :: "graph_node list \<Rightarrow> kgraph \<Rightarrow> kgraph" where
  "add_nodes ns kg = foldl kg_add_node kg ns"

text \<open>Changing a node in place: the nodes the builder changes have attributes.\<close>

definition update_attrs :: "string \<Rightarrow> (node_attrs \<Rightarrow> node_attrs) \<Rightarrow> kgraph \<Rightarrow> kgraph" where
  "update_attrs n f kg = kg\<lparr>kg_nodes := map (\<lambda>(k, a). (k, if k = n then map_option f a else a)) (kg_nodes kg)\<rparr>"

definition set_prop :: "string \<Rightarrow> string \<Rightarrow> json \<Rightarrow> kgraph \<Rightarrow> kgraph" where
  "set_prop n k v kg = update_attrs n (\<lambda>a. a\<lparr>na_props := dict_set (na_props a) k v\<rparr>) kg"

section \<open>Trace sections\<close>

definition referenced_sections :: "string \<Rightarrow> string \<Rightarrow> string list" where
  "referenced_sections num raw =
     filter (\<lambda>r. r \<noteq> num) (dedup_first id {} (map (\<lambda>m. group 1 (rm_state m)) (finditer section_ref_re raw)))"

definition trace_section :: "parsed_package \<Rightarrow> kgraph \<times> (string, string list) dict \<Rightarrow> string \<Rightarrow>
    exn + kgraph \<times> (string, string list) dict" where
  "trace_section pk st num =
     (case parse_spec_section (pk_manual pk) num (Some (pk_toc pk)) (pk_section_hint pk) of
        Inl e \<Rightarrow> Inl e
      | Inr sec \<Rightarrow> Inr (
          if kg_has (fst st) (sid num)
          then set_prop (sid num) ''parts'' (JInt (int (length (ss_parts sec))))
            (update_attrs (sid num) (\<lambda>a. a\<lparr>na_page := Some (int (fst (ss_page_range sec)))\<rparr>) (fst st))
          else fst st,
          dict_set (snd st) num (referenced_sections num (ss_raw_text sec))))"

fun trace_all :: "parsed_package \<Rightarrow> kgraph \<times> (string, string list) dict \<Rightarrow> string list \<Rightarrow>
    exn + kgraph \<times> (string, string list) dict" where
  "trace_all pk st [] = Inr st"
| "trace_all pk st (n # ns) = (case trace_section pk st n of Inl e \<Rightarrow> Inl e | Inr st' \<Rightarrow> trace_all pk st' ns)"

section \<open>Doors\<close>

definition edge :: "string \<Rightarrow> string \<Rightarrow> string \<Rightarrow> args option \<Rightarrow> graph_edge" where
  "edge s t r p = \<lparr>ge_source = s, ge_target = t, ge_rel = r, ge_props = p\<rparr>"

text \<open>\<open>sec and kg.find_node(_sid(sec))\<close>\<close>

definition known_section :: "kgraph \<Rightarrow> string option \<Rightarrow> string option" where
  "known_section kg sec = (case sec of None \<Rightarrow> None
     | Some s \<Rightarrow> if s \<noteq> '''' \<and> kg_find kg (sid s) \<noteq> None then Some s else None)"

text \<open>\<open>link_material\<close>: the graph and the unresolved codes of the door.\<close>

definition link_material :: "(string, section_link) dict \<Rightarrow> string \<Rightarrow> string \<Rightarrow> string \<Rightarrow> kgraph \<times> string list \<Rightarrow> kgraph \<times> string list" where
  "link_material links did material rel = (\<lambda>(kg, unresolved).
     case known_section kg (link_section links material) of
       Some s \<Rightarrow>
         (let kg1 = kg_add_edge kg (edge did (sid s) rel (Some [(''material'', JStr material)]));
              abbr = abbr_id (base_code material) in
          (if kg_find kg1 abbr \<noteq> None then kg_add_edge kg1 (edge did abbr ''HAS_MATERIAL'' (Some [(''material'', JStr material)]))
           else kg1, unresolved))
     | None \<Rightarrow> (kg, if material \<noteq> '''' \<and> material \<noteq> ''(E)'' then unresolved @ [material] else unresolved))"

definition link_known :: "string \<Rightarrow> string \<Rightarrow> string \<Rightarrow> args option \<Rightarrow> bool \<Rightarrow> kgraph \<Rightarrow> kgraph" where
  "link_known n target rel props applies kg =
     (if applies \<and> kg_find kg target \<noteq> None then kg_add_edge kg (edge n target rel props) else kg)"

definition names_item :: "string option \<Rightarrow> bool" where
  "names_item v \<longleftrightarrow> (case v of None \<Rightarrow> False | Some s \<Rightarrow> s \<noteq> '''' \<and> py_upper s \<noteq> ''N/A'')"

definition room_stub :: "rat \<Rightarrow> string \<Rightarrow> kgraph \<Rightarrow> kgraph" where
  "room_stub conf rid kg = (if kg_find kg rid = None then kg_add_node kg (stub_room_node conf rid) else kg)"

definition appears_on :: "string \<Rightarrow> string list \<Rightarrow> kgraph \<Rightarrow> kgraph" where
  "appears_on n sheets kg = foldl (\<lambda>kg s. link_known n (sheet_id s) ''APPEARS_ON'' None True kg) kg sheets"

definition record_unresolved :: "string \<Rightarrow> string list \<Rightarrow> kgraph \<Rightarrow> kgraph" where
  "record_unresolved n codes kg = (if codes = [] then kg else set_prop n ''unresolved_codes'' (JList (map JStr codes)) kg)"

definition room_id_of :: "door_entry \<Rightarrow> string" where
  "room_id_of d = room_id (room_of (de_mark d))"

definition door_edges :: "(string, section_link) dict \<Rightarrow> rat \<Rightarrow> door_entry \<Rightarrow> kgraph \<Rightarrow> kgraph \<times> string list" where
  "door_edges links conf d kg =
     (let did = door_id d;
          (kg1, unresolved) = link_material links did (de_frame_material d) ''FRAME_SPECIFIED_IN''
             (link_material links did (de_material d) ''DOOR_SPECIFIED_IN'' (kg, []));
          kg2 = link_known did (sid hardware_section) ''HARDWARE_SPECIFIED_IN''
             (Some [(''hardware_set'', JStr (de_hardware_set d))]) (names_item (Some (de_hardware_set d))) kg1;
          kg3 = link_known did (sid glazing_section) ''GLAZING_SPECIFIED_IN''
             (Some [(''glass_type'', text_or_null (de_glass_type d))]) (names_item (de_glass_type d)) kg2;
          kg4 = kg_add_edge (room_stub conf (room_id_of d) kg3) (edge did (room_id_of d) ''LOCATED_IN'' None)
      in (appears_on did [''A9.3.1'', ''A2.1.1''] kg4, unresolved))"

definition add_door :: "(string, section_link) dict \<Rightarrow> rat \<Rightarrow> kgraph \<Rightarrow> door_entry \<Rightarrow> kgraph" where
  "add_door links conf kg d =
     (case door_edges links conf d (kg_add_node kg (door_node conf d)) of
        (kg', unresolved) \<Rightarrow> record_unresolved (door_id d) unresolved kg')"

section \<open>Rooms\<close>

definition room_codes :: "finish_entry \<Rightarrow> string list" where
  "room_codes r = dedup_first id {} (concat (map (\<lambda>c. map (match_text c) (finditer finish_code_re c))
     [fe_floor r, fe_base r, fe_wall r, fe_ceiling r]))"

text \<open>\<open>re.match(r"[A-Z]+", code)\<close>\<close>

definition code_prefix :: "string \<Rightarrow> string option" where
  "code_prefix code = map_option (\<lambda>t. rev (rs_behind t)) (re_match (Many True 1 is_upper) code)"

definition code_section :: "(string, section_link) dict \<Rightarrow> string \<Rightarrow> string option" where
  "code_section links code = (case code_prefix code of None \<Rightarrow> None | Some p \<Rightarrow> link_section links p)"

definition link_code :: "(string, section_link) dict \<Rightarrow> string \<Rightarrow> kgraph \<times> string list \<Rightarrow> string \<Rightarrow> kgraph \<times> string list" where
  "link_code links rid = (\<lambda>(kg, unresolved) code.
     case known_section kg (code_section links code) of
       Some s \<Rightarrow> (kg_add_edge kg (edge rid (sid s) ''FINISH_SPECIFIED_IN'' (Some [(''code'', JStr code)])), unresolved)
     | None \<Rightarrow> (kg, unresolved @ [code]))"

definition add_room_edges :: "(string list \<Rightarrow> string list) \<Rightarrow> (string, section_link) dict \<Rightarrow> kgraph \<Rightarrow> finish_entry \<Rightarrow> kgraph" where
  "add_room_edges order links kg r =
     (let rid = room_id (fe_room_number r) in
      case foldl (link_code links rid) (kg, []) (order (room_codes r)) of
        (kg1, unresolved) \<Rightarrow>
          (let kg2 = appears_on rid [''AF2.4'', ''A2.1.1''] kg1 in
           if kg_has kg2 rid then record_unresolved rid (sort_strs (dedup_first id {} unresolved)) kg2 else kg2))"

section \<open>The whole graph\<close>

definition add_references :: "(string list \<Rightarrow> string list) \<Rightarrow> kgraph \<Rightarrow> string \<times> string list \<Rightarrow> kgraph" where
  "add_references order = (\<lambda>kg (src, refs).
     foldl (\<lambda>kg tgt. link_known (sid src) (sid tgt) ''REFERENCES'' None True kg) kg (order refs))"

definition abbreviation_nodes :: "(string list \<Rightarrow> string list) \<Rightarrow> (string, string) dict \<Rightarrow> graph_node list" where
  "abbreviation_nodes order abbrev = List.map_filter (\<lambda>code.
     map_option (abbreviation_node (base_code code)) (map_of abbrev (base_code code))) (order (dict_keys material_section))"

definition resolver_for :: "parsed_package \<Rightarrow> string \<Rightarrow> string option \<Rightarrow> (string, string) dict \<Rightarrow> resolver_input" where
  "resolver_for pk kind dv seed = \<lparr>ri_abbrev = pk_abbrev pk, ri_applied = pk_applied pk,
     ri_titles = section_titles (pk_toc pk), ri_kind = kind, ri_division = dv, ri_seed = seed\<rparr>"

definition assemble_graph :: "(string list \<Rightarrow> string list) \<Rightarrow> parsed_package \<Rightarrow> (string, section_link) dict \<Rightarrow>
    (string, section_link) dict \<Rightarrow> exn + kgraph" where
  "assemble_graph order pk mlinks flinks =
     (case trace_all pk (add_nodes (map section_node (toc_sections (pk_toc pk))) empty_graph, []) trace_sections of
        Inl e \<Rightarrow> Inl e
      | Inr (kg, refs) \<Rightarrow>
          (let kg1 = add_nodes (map sheet_node (pk_registry pk) @ abbreviation_nodes order (pk_abbrev pk) @
                 map room_node (pk_rooms pk)) kg;
               kg2 = foldl (add_door mlinks (door_confidence_of (pk_doors pk))) kg1 (pk_doors pk);
               kg3 = foldl (add_room_edges order flinks) kg2 (pk_rooms pk)
           in Inr (foldl (add_references order) kg3 refs)))"

definition graph_of_package :: "(json \<Rightarrow> exn + rat) \<Rightarrow> 'w section_client option \<Rightarrow> (string list \<Rightarrow> string list) \<Rightarrow>
    parsed_package \<Rightarrow> 'w \<Rightarrow> (exn + kgraph) \<times> 'w" where
  "graph_of_package to_float llm order pk w =
     (case build_section_map to_float llm (resolver_for pk ''material'' (Some ''08'') material_section) (dict_keys material_section) w of
        (Inl e, w1) \<Rightarrow> (Inl e, w1)
      | (Inr mlinks, w1) \<Rightarrow>
          (case build_section_map to_float llm (resolver_for pk ''finish'' None finish_section) (dict_keys finish_section) w1 of
             (Inl e, w2) \<Rightarrow> (Inl e, w2)
           | (Inr flinks, w2) \<Rightarrow> (assemble_graph order pk mlinks flinks, w2)))"

record pdf_tools =
  pt_fitz :: "string \<Rightarrow> exn + fitz_page list"
  pt_checksum :: "string \<Rightarrow> exn + string"
  pt_pages :: "string \<Rightarrow> exn + page_view list"

definition package_map :: "pdf_tools \<Rightarrow> string \<Rightarrow> string \<Rightarrow> document_map option \<Rightarrow> exn + document_map" where
  "package_map pt manual drawings dm = (case dm of Some d \<Rightarrow> Inr d
     | None \<Rightarrow> build_document_map (pt_fitz pt) (pt_checksum pt) (pt_pages pt) [drawings, manual])"

definition build_graph :: "pdf_tools \<Rightarrow> (json \<Rightarrow> exn + rat) \<Rightarrow> 'w section_client option \<Rightarrow> (string list \<Rightarrow> string list) \<Rightarrow>
    string \<Rightarrow> string \<Rightarrow> document_map option \<Rightarrow> 'w \<Rightarrow> (exn + kgraph) \<times> 'w" where
  "build_graph pt to_float llm order manual drawings dm w =
     (case package_map pt manual drawings dm of
        Inl e \<Rightarrow> (Inl e, w)
      | Inr d \<Rightarrow> (case parse_package (pt_pages pt) manual drawings (extraction_pages d) of
          Inl e \<Rightarrow> (Inl e, w)
        | Inr pk \<Rightarrow> graph_of_package to_float llm order pk w))"

section \<open>What the builder's steps do to nodes and edges\<close>

text \<open>The keys of the edges, and the identifiers that name what doors and rooms refer to.\<close>

definition ekeys :: "kgraph \<Rightarrow> edge_key set" where
  "ekeys kg = set (dict_keys (kg_edges kg))"

definition known :: "kgraph \<Rightarrow> string \<Rightarrow> bool" where
  "known kg n \<longleftrightarrow> kg_find kg n \<noteq> None"

lemma not_known [simp]: "kg_find kg n = None \<longleftrightarrow> \<not> known kg n"
  by (simp add: known_def)

definition node_kind :: "string \<Rightarrow> string" where
  "node_kind n = takeWhile (\<lambda>c. c \<noteq> CHR '':'') n"

definition reference_id :: "string \<Rightarrow> bool" where
  "reference_id n \<longleftrightarrow> node_kind n \<in> {''section'', ''sheet'', ''abbr''}"

lemma node_kind_simps [simp]:
  "node_kind (sid s) = ''section''" "node_kind (sheet_id s) = ''sheet''" "node_kind (abbr_id s) = ''abbr''"
  "node_kind (room_id s) = ''room''" "node_kind (door_id d) = ''door''" "node_kind (room_id_of d) = ''room''"
  by (simp_all add: node_kind_def sid_def door_id_def room_id_of_def sheet_id_def abbr_id_def room_id_def)

lemma reference_ids [simp]: "reference_id (sid s)" "reference_id (sheet_id s)" "reference_id (abbr_id s)"
  "\<not> reference_id (door_id d)" "\<not> reference_id (room_id_of d)" "\<not> reference_id (room_id s)"
  by (simp_all add: reference_id_def)

lemma kinds_differ [simp]:
  "door_id d \<noteq> room_id_of e" "room_id_of e \<noteq> door_id d" "door_id d \<noteq> room_id s" "room_id s \<noteq> door_id d"
  "sid s \<noteq> door_id d" "sid s \<noteq> room_id_of d" "sheet_id s \<noteq> door_id d" "sheet_id s \<noteq> room_id_of d"
  "abbr_id s \<noteq> door_id d" "abbr_id s \<noteq> room_id_of d"
  by (simp_all add: sid_def sheet_id_def abbr_id_def room_id_def room_id_of_def door_id_def)

lemma ekeys_simps [simp]:
  "ekeys (kg_add_node kg nd) = ekeys kg"
  "ekeys (kg_add_edge kg e) = insert (ge_source e, ge_target e, ge_rel e) (ekeys kg)"
  "ekeys (update_attrs n f kg) = ekeys kg"
  "ekeys (set_prop n k v kg) = ekeys kg"
  "ekeys (room_stub conf rid kg) = ekeys kg"
  "ekeys (record_unresolved n codes kg) = ekeys kg"
  by (simp_all add: ekeys_def kg_add_edge_def update_attrs_def set_prop_def room_stub_def record_unresolved_def)

lemma map_of_update: "map_of (map (\<lambda>(k, a). (k, if k = n then g a else a)) d) x = (if x = n then map_option g (map_of d x) else map_of d x)"
  by (induction d) auto

lemma kg_find_update [simp]: "kg_find (update_attrs n f kg) x = (if x = n then map_option f (kg_find kg x) else kg_find kg x)"
  by (simp add: kg_find_def update_attrs_def map_of_update option.map_comp split: option.split)

lemma known_simps [simp]:
  "known (kg_add_node kg nd) x \<longleftrightarrow> x = gn_id nd \<or> known kg x"
  "known (kg_add_edge kg e) x \<longleftrightarrow> known kg x"
  "known (update_attrs n f kg) x \<longleftrightarrow> known kg x"
  by (simp_all add: known_def del: not_known)

lemma kg_find_set_prop [simp]: "kg_find (set_prop n k v kg) x =
    (if x = n then map_option (\<lambda>a. a\<lparr>na_props := dict_set (na_props a) k v\<rparr>) (kg_find kg x) else kg_find kg x)"
  by (simp add: set_prop_def)

definition with_unresolved :: "string list \<Rightarrow> node_attrs \<Rightarrow> node_attrs" where
  "with_unresolved codes a = (if codes = [] then a
     else a\<lparr>na_props := dict_set (na_props a) ''unresolved_codes'' (JList (map JStr codes))\<rparr>)"

lemma kg_find_record [simp]: "kg_find (record_unresolved n codes kg) x =
    (if x = n then map_option (with_unresolved codes) (kg_find kg x) else kg_find kg x)"
  by (simp add: record_unresolved_def with_unresolved_def option.map_ident cong: option.map_cong)

lemma link_known_simps [simp]:
  "kg_find (link_known n t r p b kg) x = kg_find kg x"
  "known (link_known n t r p b kg) x \<longleftrightarrow> known kg x"
  "ekeys (link_known n t r p b kg) = ekeys kg \<union> (if b \<and> known kg t then {(n, t, r)} else {})"
  by (simp_all add: link_known_def edge_def)

lemma known_stub [simp]: "known (room_stub conf rid kg) x \<longleftrightarrow> x = rid \<or> known kg x"
  by (auto simp: room_stub_def stub_room_node_def)

lemma find_known: "kg_find kg = kg_find kg' \<Longrightarrow> known kg = known kg'"
  by (simp add: known_def fun_eq_iff del: not_known)

lemma link_known_fold:
  "kg_find (foldl (\<lambda>kg s. link_known n (f s) r p True kg) kg ss) = kg_find kg \<and>
   ekeys (foldl (\<lambda>kg s. link_known n (f s) r p True kg) kg ss) = ekeys kg \<union> {(n, f s, r) | s. s \<in> set ss \<and> known kg (f s)}"
proof (induction ss rule: rev_induct)
  case (snoc s ss)
  let ?k = "foldl (\<lambda>kg s. link_known n (f s) r p True kg) kg ss"
  have "kg_find ?k = kg_find kg" using snoc by blast
  from find_known[OF this] snoc show ?case by (auto simp: fun_eq_iff)
qed simp

definition sheet_targets :: "(string \<Rightarrow> bool) \<Rightarrow> string list \<Rightarrow> (string \<times> string) list" where
  "sheet_targets env ss = map (\<lambda>s. (sheet_id s, ''APPEARS_ON'')) (filter (\<lambda>s. env (sheet_id s)) ss)"

lemma appears_on_simps [simp]:
  "kg_find (appears_on n ss kg) x = kg_find kg x"
  "ekeys (appears_on n ss kg) = ekeys kg \<union> Pair n ` set (sheet_targets (known kg) ss)"
  using link_known_fold[of n "\<lambda>s. sheet_id s" "''APPEARS_ON''" None kg ss]
  by (auto simp: appears_on_def sheet_targets_def)

text \<open>What a material code resolves to: a section of the graph, else the code is unresolved.\<close>

definition resolves :: "(string \<Rightarrow> bool) \<Rightarrow> string option \<Rightarrow> string option" where
  "resolves env sec = (case sec of None \<Rightarrow> None | Some s \<Rightarrow> if s \<noteq> '''' \<and> env (sid s) then Some s else None)"

lemma known_section_resolves [simp]: "known_section kg sec = resolves (known kg) sec"
  by (simp add: known_section_def resolves_def split: option.split)

definition material_targets :: "(string \<Rightarrow> bool) \<Rightarrow> (string, section_link) dict \<Rightarrow> string \<Rightarrow> string \<Rightarrow> (string \<times> string) list" where
  "material_targets env links m rel = (case resolves env (link_section links m) of
     None \<Rightarrow> []
   | Some s \<Rightarrow> (sid s, rel) # (if env (abbr_id (base_code m)) then [(abbr_id (base_code m), ''HAS_MATERIAL'')] else []))"

definition unresolved_material :: "(string \<Rightarrow> bool) \<Rightarrow> (string, section_link) dict \<Rightarrow> string \<Rightarrow> bool" where
  "unresolved_material env links m \<longleftrightarrow> m \<noteq> '''' \<and> m \<noteq> ''(E)'' \<and> resolves env (link_section links m) = None"

lemma link_material_spec:
  "link_material links did m rel (kg, us) = (kg', us') \<Longrightarrow>
   kg_find kg' = kg_find kg \<and> ekeys kg' = ekeys kg \<union> Pair did ` set (material_targets (known kg) links m rel) \<and>
   us' = us @ (if unresolved_material (known kg) links m then [m] else [])"
  by (auto simp: link_material_def material_targets_def unresolved_material_def edge_def Let_def fun_eq_iff
      split: option.splits if_splits)

lemma room_stub_find [simp]: "kg_find (room_stub conf rid kg) x =
    (if x = rid \<and> kg_find kg x = None then Some (gn_attrs (stub_room_node conf rid)) else kg_find kg x)"
  by (auto simp: room_stub_def stub_room_node_def)

text \<open>The edges and the unresolved codes of a door, given what the graph knows.\<close>

definition door_targets :: "(string \<Rightarrow> bool) \<Rightarrow> (string, section_link) dict \<Rightarrow> door_entry \<Rightarrow> (string \<times> string) list" where
  "door_targets env links d =
     material_targets env links (de_material d) ''DOOR_SPECIFIED_IN'' @
     material_targets env links (de_frame_material d) ''FRAME_SPECIFIED_IN'' @
     (if names_item (Some (de_hardware_set d)) \<and> env (sid hardware_section) then [(sid hardware_section, ''HARDWARE_SPECIFIED_IN'')] else []) @
     (if names_item (de_glass_type d) \<and> env (sid glazing_section) then [(sid glazing_section, ''GLAZING_SPECIFIED_IN'')] else []) @
     [(room_id_of d, ''LOCATED_IN'')] @ sheet_targets env [''A9.3.1'', ''A2.1.1'']"

definition door_unresolved :: "(string \<Rightarrow> bool) \<Rightarrow> (string, section_link) dict \<Rightarrow> door_entry \<Rightarrow> string list" where
  "door_unresolved env links d = filter (unresolved_material env links) [de_material d, de_frame_material d]"

text \<open>Only what the reference identifiers say matters.\<close>

definition same_refs :: "(string \<Rightarrow> bool) \<Rightarrow> (string \<Rightarrow> bool) \<Rightarrow> bool" where
  "same_refs env env' \<longleftrightarrow> (\<forall>n. reference_id n \<longrightarrow> env n = env' n)"

lemma same_refs_targets:
  assumes "same_refs env env'"
  shows "door_targets env links d = door_targets env' links d" "door_unresolved env links d = door_unresolved env' links d"
    "sheet_targets env ss = sheet_targets env' ss" "resolves env sec = resolves env' sec"
proof -
  have r: "env (sid s) = env' (sid s)" "env (sheet_id s) = env' (sheet_id s)" "env (abbr_id s) = env' (abbr_id s)" for s
    using assms unfolding same_refs_def by (meson reference_ids)+
  show res: "resolves env sec = resolves env' sec" for sec by (simp add: resolves_def r cong: option.case_cong)
  show sh: "sheet_targets env ss = sheet_targets env' ss" for ss by (simp only: sheet_targets_def r)
  have "unresolved_material env links = unresolved_material env' links" by (simp add: fun_eq_iff unresolved_material_def res)
  then show "door_unresolved env links d = door_unresolved env' links d" by (simp only: door_unresolved_def)
  have "material_targets env links m rel = material_targets env' links m rel" for m rel
    by (simp only: material_targets_def res r)
  then show "door_targets env links d = door_targets env' links d" by (simp only: door_targets_def r sh)
qed

lemma add_door_spec:
  "kg_find (add_door links conf kg d) x =
     (if x = door_id d then Some (with_unresolved (door_unresolved (known kg) links d) (gn_attrs (door_node conf d)))
      else if x = room_id_of d \<and> kg_find kg x = None then Some (gn_attrs (stub_room_node conf x))
      else kg_find kg x)"
  "ekeys (add_door links conf kg d) = ekeys kg \<union> Pair (door_id d) ` set (door_targets (known kg) links d)"
proof -
  let ?did = "door_id d" and ?kg = "kg_add_node kg (door_node conf d)"
  obtain k1 u1 where 1: "link_material links ?did (de_material d) ''DOOR_SPECIFIED_IN'' (?kg, []) = (k1, u1)" by (meson surj_pair)
  obtain k2 u2 where 2: "link_material links ?did (de_frame_material d) ''FRAME_SPECIFIED_IN'' (k1, u1) = (k2, u2)" by (meson surj_pair)
  have id: "gn_id (door_node conf d) = ?did" by (simp add: door_node_def)
  have refs: "same_refs (known ?kg) (known kg)" by (auto simp: same_refs_def id)
  note s = same_refs_targets[OF refs]
  note m1 = link_material_spec[OF 1] and m2 = link_material_spec[OF 2]
  have k1: "known k1 = known ?kg" using m1 by (blast intro: find_known)
  have "u2 = door_unresolved (known ?kg) links d" using m1 m2 k1 by (simp add: door_unresolved_def)
  then have u2: "u2 = door_unresolved (known kg) links d" by (simp only: s)
  have e2: "ekeys k2 = ekeys kg \<union> Pair ?did ` (set (material_targets (known ?kg) links (de_material d) ''DOOR_SPECIFIED_IN'') \<union>
      set (material_targets (known ?kg) links (de_frame_material d) ''FRAME_SPECIFIED_IN''))"
    using m1 m2 by (auto simp: k1)
  have f2: "kg_find k2 = kg_find ?kg" using m1 m2 by simp
  have k2: "known k2 = known ?kg" using f2 by (rule find_known)
  have door: "add_door links conf kg d = record_unresolved ?did u2 (appears_on ?did [''A9.3.1'', ''A2.1.1'']
     (kg_add_edge (room_stub conf (room_id_of d)
        (link_known ?did (sid glazing_section) ''GLAZING_SPECIFIED_IN'' (Some [(''glass_type'', text_or_null (de_glass_type d))]) (names_item (de_glass_type d))
          (link_known ?did (sid hardware_section) ''HARDWARE_SPECIFIED_IN'' (Some [(''hardware_set'', JStr (de_hardware_set d))])
            (names_item (Some (de_hardware_set d))) k2))) (edge ?did (room_id_of d) ''LOCATED_IN'' None)))"
    by (simp add: add_door_def door_edges_def Let_def 1 2)
  show "kg_find (add_door links conf kg d) x =
     (if x = ?did then Some (with_unresolved (door_unresolved (known kg) links d) (gn_attrs (door_node conf d)))
      else if x = room_id_of d \<and> kg_find kg x = None then Some (gn_attrs (stub_room_node conf x))
      else kg_find kg x)"
    by (auto simp: door u2[symmetric] id f2 k2)
  have st: "same_refs (known (kg_add_edge (room_stub conf (room_id_of d)
        (link_known ?did (sid glazing_section) ''GLAZING_SPECIFIED_IN'' p b (link_known ?did (sid hardware_section) ''HARDWARE_SPECIFIED_IN'' q c k2))) e)) (known ?kg)"
    for p q b c e
    by (auto simp: same_refs_def k2)
  show "ekeys (add_door links conf kg d) = ekeys kg \<union> Pair ?did ` set (door_targets (known kg) links d)"
    unfolding s(1)[symmetric] door ekeys_simps appears_on_simps same_refs_targets(3)[OF st] link_known_simps e2 k2
    by (auto simp: door_targets_def edge_def)
qed

lemma known_add_door [simp]: "known (add_door links conf kg d) x \<longleftrightarrow> x = door_id d \<or> x = room_id_of d \<or> known kg x"
  by (auto simp: known_def add_door_spec(1) simp del: not_known)

section \<open>All doors, all rooms\<close>

lemma add_doors_refs: "same_refs (known (foldl (add_door links conf) kg ds)) (known kg)"
  by (induction ds rule: rev_induct) (auto simp: same_refs_def)

lemma add_doors_ekeys:
  "ekeys (foldl (add_door links conf) kg ds) = ekeys kg \<union> (\<Union>d \<in> set ds. Pair (door_id d) ` set (door_targets (known kg) links d))"
proof (induction ds rule: rev_induct)
  case (snoc e ds)
  then show ?case by (simp add: add_door_spec(2) same_refs_targets(1)[OF add_doors_refs] Un_ac)
qed simp

lemma add_doors_known: "known (foldl (add_door links conf) kg ds) x \<longleftrightarrow> x \<in> door_id ` set ds \<or> x \<in> room_id_of ` set ds \<or> known kg x"
  by (induction ds rule: rev_induct) auto

lemma add_doors_other: "x \<notin> door_id ` set ds \<Longrightarrow> known kg x \<Longrightarrow> kg_find (foldl (add_door links conf) kg ds) x = kg_find kg x"
  by (induction ds rule: rev_induct) (auto simp: add_door_spec(1) add_doors_known)

text \<open>A row no later row of the same mark replaces.\<close>

lemma add_doors_find:
  assumes "de_mark d \<notin> de_mark ` set ys"
  shows "kg_find (foldl (add_door links conf) kg (xs @ d # ys)) (door_id d) =
    Some (with_unresolved (door_unresolved (known kg) links d) (gn_attrs (door_node conf d)))"
proof -
  let ?k = "foldl (add_door links conf) kg xs"
  have "door_id d \<notin> door_id ` set ys" using assms by (auto simp: door_id_def)
  then have "kg_find (foldl (add_door links conf) (add_door links conf ?k d) ys) (door_id d) = kg_find (add_door links conf ?k d) (door_id d)"
    by (rule add_doors_other) simp
  then show ?thesis by (simp add: add_door_spec(1) same_refs_targets(2)[OF add_doors_refs])
qed

text \<open>The codes of a room: the linked ones and the unresolved ones.\<close>

definition code_resolves :: "(string \<Rightarrow> bool) \<Rightarrow> (string, section_link) dict \<Rightarrow> string \<Rightarrow> string option" where
  "code_resolves env links c = resolves env (code_section links c)"

lemma map_filter_snoc: "List.map_filter f (xs @ [x]) = List.map_filter f xs @ (case f x of None \<Rightarrow> [] | Some y \<Rightarrow> [y])"
  by (induction xs) (auto simp: map_filter_simps split: option.split)

definition finish_targets :: "(string \<Rightarrow> bool) \<Rightarrow> (string, section_link) dict \<Rightarrow> string list \<Rightarrow> (string \<times> string) list" where
  "finish_targets env links cs = map (\<lambda>s. (sid s, ''FINISH_SPECIFIED_IN'')) (List.map_filter (code_resolves env links) cs)"

lemma set_finish_targets: "set cs = set cs' \<Longrightarrow> set (finish_targets env links cs) = set (finish_targets env links cs')"
  by (auto simp: finish_targets_def in_map_filter)

lemma link_codes:
  "foldl (link_code links rid) (kg, us) cs = (kg', us') \<Longrightarrow>
   kg_find kg' = kg_find kg \<and> ekeys kg' = ekeys kg \<union> Pair rid ` set (finish_targets (known kg) links cs) \<and>
   us' = us @ filter (\<lambda>c. code_resolves (known kg) links c = None) cs"
proof (induction cs arbitrary: kg' us' rule: rev_induct)
  case Nil
  then show ?case by (simp add: finish_targets_def map_filter_simps)
next
  case (snoc c cs)
  obtain k u where k: "foldl (link_code links rid) (kg, us) cs = (k, u)" by (meson surj_pair)
  note IH = snoc.IH[OF k]
  then have kn: "known k = known kg" by (blast intro: find_known)
  have step: "link_code links rid (k, u) c = (kg', us')" using snoc.prems k by simp
  show ?case
  proof (cases "code_resolves (known kg) links c")
    case None
    then have "kg' = k" "us' = u @ [c]" using step by (auto simp: link_code_def code_resolves_def kn)
    then show ?thesis using IH None by (simp add: finish_targets_def map_filter_snoc)
  next
    case (Some s)
    then have kg': "kg' = kg_add_edge k (edge rid (sid s) ''FINISH_SPECIFIED_IN'' (Some [(''code'', JStr c)]))" "us' = u"
      using step by (auto simp: link_code_def code_resolves_def kn)
    then have "ekeys kg' = insert (rid, sid s, ''FINISH_SPECIFIED_IN'') (ekeys k)" "kg_find kg' = kg_find k"
      by (simp_all add: edge_def fun_eq_iff)
    then show ?thesis using IH Some kg'(2) by (simp add: finish_targets_def map_filter_snoc)
  qed
qed

definition room_targets :: "(string \<Rightarrow> bool) \<Rightarrow> (string, section_link) dict \<Rightarrow> finish_entry \<Rightarrow> (string \<times> string) list" where
  "room_targets env links r =
     finish_targets env links (room_codes r) @ sheet_targets env [''AF2.4'', ''A2.1.1'']"

definition room_unresolved :: "(string \<Rightarrow> bool) \<Rightarrow> (string, section_link) dict \<Rightarrow> finish_entry \<Rightarrow> string set" where
  "room_unresolved env links r = {c \<in> set (room_codes r). code_resolves env links c = None}"

lemma same_refs_rooms:
  assumes "same_refs env env'"
  shows "room_targets env links r = room_targets env' links r" "room_unresolved env links r = room_unresolved env' links r"
proof -
  have "code_resolves env links = code_resolves env' links"
    by (simp add: fun_eq_iff code_resolves_def same_refs_targets(4)[OF assms])
  then show "room_targets env links r = room_targets env' links r" "room_unresolved env links r = room_unresolved env' links r"
    by (simp_all only: room_targets_def finish_targets_def room_unresolved_def same_refs_targets(3)[OF assms])
qed

lemma set_dedup_id [simp]: "set (dedup_first id {} xs) = set xs"
  using set_dedup_first_keys[of id "{}" xs] by simp

lemma add_room_spec:
  assumes "\<And>xs. set (order xs) = set xs" "known kg (room_id (fe_room_number r))"
  obtains codes where "set codes = room_unresolved (known kg) links r"
    "\<And>x. kg_find (add_room_edges order links kg r) x =
       (if x = room_id (fe_room_number r) then map_option (with_unresolved codes) (kg_find kg x) else kg_find kg x)"
    "ekeys (add_room_edges order links kg r) = ekeys kg \<union> Pair (room_id (fe_room_number r)) ` set (room_targets (known kg) links r)"
proof -
  let ?rid = "room_id (fe_room_number r)"
  obtain k u where k: "foldl (link_code links ?rid) (kg, []) (order (room_codes r)) = (k, u)" by (meson surj_pair)
  note spec = link_codes[OF k]
  then have kn: "known k = known kg" by (blast intro: find_known)
  have kn': "known (appears_on ?rid [''AF2.4'', ''A2.1.1''] k) = known kg" using kn by (simp add: known_def[abs_def] del: not_known)
  let ?codes = "sort_strs (dedup_first id {} u)"
  have "kg_has (appears_on ?rid [''AF2.4'', ''A2.1.1''] k) ?rid"
  proof -
    have "known (appears_on ?rid [''AF2.4'', ''A2.1.1''] k) ?rid" using assms(2) by (simp only: kn')
    then show ?thesis by (meson kg_find_has known_def not_Some_eq)
  qed
  then have r: "add_room_edges order links kg r = record_unresolved ?rid ?codes (appears_on ?rid [''AF2.4'', ''A2.1.1''] k)"
    by (simp add: add_room_edges_def Let_def k)
  have "set ?codes = room_unresolved (known kg) links r" using spec assms(1) by (auto simp: room_unresolved_def)
  moreover have "kg_find (add_room_edges order links kg r) x =
      (if x = ?rid then map_option (with_unresolved ?codes) (kg_find kg x) else kg_find kg x)" for x
    using spec by (simp add: r)
  moreover have "ekeys (add_room_edges order links kg r) = ekeys kg \<union> Pair ?rid ` set (room_targets (known kg) links r)"
    using spec set_finish_targets[OF assms(1)[of "room_codes r"]] by (simp add: r kn room_targets_def image_Un Un_ac)
  ultimately show thesis by (rule that)
qed

lemma known_add_room:
  assumes "\<And>xs. set (order xs) = set xs" "known kg (room_id (fe_room_number r))"
  shows "known (add_room_edges order links kg r) = known kg"
proof -
  obtain codes where "\<And>x. kg_find (add_room_edges order links kg r) x =
       (if x = room_id (fe_room_number r) then map_option (with_unresolved codes) (kg_find kg x) else kg_find kg x)"
    using add_room_spec[where order = order and links = links, OF assms] by metis
  then show ?thesis by (simp add: known_def fun_eq_iff del: not_known)
qed

text \<open>The rooms of the finish schedule, which are nodes by then.\<close>

lemma add_rooms_ekeys:
  assumes "\<And>xs. set (order xs) = set xs" "\<And>r. r \<in> set rs \<Longrightarrow> known kg (room_id (fe_room_number r))"
  shows "known (foldl (add_room_edges order links) kg rs) = known kg \<and>
    ekeys (foldl (add_room_edges order links) kg rs) =
      ekeys kg \<union> (\<Union>r \<in> set rs. Pair (room_id (fe_room_number r)) ` set (room_targets (known kg) links r))"
  using assms(2)
proof (induction rs rule: rev_induct)
  case (snoc e rs)
  let ?k = "foldl (add_room_edges order links) kg rs"
  have kn: "known ?k = known kg" using snoc by simp
  have ke: "known ?k (room_id (fe_room_number e))" using snoc.prems[of e] by (simp add: kn)
  have "ekeys (add_room_edges order links ?k e) = ekeys ?k \<union> Pair (room_id (fe_room_number e)) ` set (room_targets (known kg) links e)"
    using add_room_spec[where order = order and links = links, OF assms(1) ke] unfolding kn by metis
  then show ?case using known_add_room[where order = order and links = links, OF assms(1) ke] snoc kn by (simp add: Un_ac)
qed simp

text \<open>A room listed once keeps its attributes and gets its unresolved codes; other nodes are left alone.\<close>

lemma add_rooms_find:
  assumes "\<And>xs. set (order xs) = set xs" "\<And>r. r \<in> set rs \<Longrightarrow> known kg (room_id (fe_room_number r))"
  shows "(\<forall>x. x \<notin> room_id ` fe_room_number ` set rs \<longrightarrow> kg_find (foldl (add_room_edges order links) kg rs) x = kg_find kg x) \<and>
    (\<forall>r \<in> set rs. count_list (map fe_room_number rs) (fe_room_number r) = 1 \<longrightarrow> (\<exists>codes. set codes = room_unresolved (known kg) links r \<and>
       kg_find (foldl (add_room_edges order links) kg rs) (room_id (fe_room_number r)) =
         map_option (with_unresolved codes) (kg_find kg (room_id (fe_room_number r)))))"
  using assms(2)
proof (induction rs rule: rev_induct)
  case (snoc e rs)
  let ?k = "foldl (add_room_edges order links) kg rs" and ?e = "room_id (fe_room_number e)"
  have kn: "known ?k = known kg"
    using add_rooms_ekeys[where order = order and links = links and kg = kg and rs = rs, OF assms(1)] snoc.prems by simp
  have IH: "\<And>x. x \<notin> room_id ` fe_room_number ` set rs \<Longrightarrow> kg_find ?k x = kg_find kg x"
    "\<And>r. r \<in> set rs \<Longrightarrow> count_list (map fe_room_number rs) (fe_room_number r) = 1 \<Longrightarrow> \<exists>codes. set codes = room_unresolved (known kg) links r \<and>
       kg_find ?k (room_id (fe_room_number r)) = map_option (with_unresolved codes) (kg_find kg (room_id (fe_room_number r)))"
    using snoc by auto
  have ke: "known ?k ?e" using snoc.prems[of e] by (simp add: kn)
  obtain codes where c: "set codes = room_unresolved (known kg) links e"
    "\<And>x. kg_find (add_room_edges order links ?k e) x = (if x = ?e then map_option (with_unresolved codes) (kg_find ?k x) else kg_find ?k x)"
    using add_room_spec[where order = order and links = links, OF assms(1) ke] unfolding kn by metis
  have "\<exists>codes. set codes = room_unresolved (known kg) links r \<and>
       kg_find (foldl (add_room_edges order links) kg (rs @ [e])) (room_id (fe_room_number r)) =
         map_option (with_unresolved codes) (kg_find kg (room_id (fe_room_number r)))"
    if r: "r \<in> set (rs @ [e])" "count_list (map fe_room_number (rs @ [e])) (fe_room_number r) = 1" for r
  proof (cases "fe_room_number r = fe_room_number e")
    case True
    then have "fe_room_number e \<notin> fe_room_number ` set rs" using r(2) by (simp add: count_list_0_iff)
    moreover from this have "r = e" using r(1) True by (metis imageI set_append Un_iff list.set(1,2) singletonD)
    ultimately have "?e \<notin> room_id ` fe_room_number ` set rs" "r = e" by (auto simp: room_id_def)
    then show ?thesis using c IH(1) by auto
  next
    case False
    then have "r \<in> set rs" "count_list (map fe_room_number rs) (fe_room_number r) = 1" using r by auto
    from IH(2)[OF this] False c(2) show ?thesis by (simp add: room_id_def)
  qed
  moreover have "kg_find (foldl (add_room_edges order links) kg (rs @ [e])) x = kg_find kg x"
    if "x \<notin> room_id ` fe_room_number ` set (rs @ [e])" for x
    using that c(2) IH(1) by simp
  ultimately show ?case by blast
qed simp

definition reference_edges :: "(string \<Rightarrow> bool) \<Rightarrow> string \<times> string list \<Rightarrow> edge_key set" where
  "reference_edges env = (\<lambda>(s, ts). {(sid s, sid t, ''REFERENCES'') | t. t \<in> set ts \<and> env (sid t)})"

lemma add_references_spec:
  assumes "\<And>xs. set (order xs) = set xs"
  shows "kg_find (foldl (add_references order) kg refs) = kg_find kg \<and>
    ekeys (foldl (add_references order) kg refs) = ekeys kg \<union> (\<Union>x \<in> set refs. reference_edges (known kg) x)"
proof (induction refs rule: rev_induct)
  case (snoc x refs)
  obtain s ts where x: "x = (s, ts)" by (cases x)
  let ?k = "foldl (add_references order) kg refs"
  have kn: "known ?k = known kg" using snoc by (blast intro: find_known)
  have step: "foldl (add_references order) kg (refs @ [x]) = foldl (\<lambda>kg tgt. link_known (sid s) (sid tgt) ''REFERENCES'' None True kg) ?k (order ts)"
    by (simp add: x add_references_def)
  have "{(sid s, sid t, ''REFERENCES'') | t. t \<in> set (order ts) \<and> known ?k (sid t)} = reference_edges (known kg) x"
    by (simp add: x reference_edges_def kn assms)
  with link_known_fold[of "sid s" sid "''REFERENCES''" None ?k "order ts"] snoc show ?case
    unfolding step by (simp add: Un_ac)
qed simp

section \<open>Well-formed graphs\<close>

text \<open>
  Every edge joins nodes of the graph, identifiers and edge keys are distinct, the kind of an
  identifier is the type of its node, and only the nodes of \<open>bare\<close> can be without attributes.
\<close>

definition type_of_kind :: "string \<Rightarrow> string" where
  "type_of_kind k = (if k = ''section'' then ''spec_section'' else if k = ''abbr'' then ''abbreviation'' else k)"

definition graph_ok :: "string set \<Rightarrow> kgraph \<Rightarrow> bool" where
  "graph_ok bare kg \<longleftrightarrow> distinct (dict_keys (kg_nodes kg)) \<and> distinct (dict_keys (kg_edges kg)) \<and>
     (\<forall>(s, t, r) \<in> ekeys kg. kg_has kg s \<and> kg_has kg t) \<and>
     (\<forall>n. kg_has kg n \<longrightarrow> known kg n \<or> n \<in> bare) \<and>
     (\<forall>n a. kg_find kg n = Some a \<longrightarrow> na_type a = type_of_kind (node_kind n))"

definition node_typed :: "graph_node \<Rightarrow> bool" where
  "node_typed n \<longleftrightarrow> na_type (gn_attrs n) = type_of_kind (node_kind (gn_id n))"

lemma known_has [simp]: "known kg n \<Longrightarrow> kg_has kg n"
  by (metis kg_find_has known_def not_Some_eq)

lemma graph_ok_empty: "graph_ok bare empty_graph"
  by (simp add: graph_ok_def empty_graph_def ekeys_def kg_has_def kg_find_def)

lemma graph_ok_add_node [wf_intros]: "graph_ok bare kg \<Longrightarrow> node_typed n \<Longrightarrow> graph_ok bare (kg_add_node kg n)"
  unfolding graph_ok_def
  by (auto simp: node_typed_def) (auto simp: kg_add_node_def intro: wf_intros)

lemma graph_ok_add_edge [wf_intros]:
  assumes ok: "graph_ok bare kg" and s: "known kg (ge_source e) \<or> ge_source e \<in> bare" and t: "known kg (ge_target e)"
  shows "graph_ok bare (kg_add_edge kg e)"
  unfolding graph_ok_def
proof (intro conjI)
  show "distinct (dict_keys (kg_nodes (kg_add_edge kg e)))" "distinct (dict_keys (kg_edges (kg_add_edge kg e)))"
    using ok by (simp_all add: graph_ok_def kg_add_edge_def wf_intros)
  show "\<forall>(s, t, r) \<in> ekeys (kg_add_edge kg e). kg_has (kg_add_edge kg e) s \<and> kg_has (kg_add_edge kg e) t"
    using ok unfolding graph_ok_def ekeys_simps kg_has_add_edge by blast
  show "\<forall>n. kg_has (kg_add_edge kg e) n \<longrightarrow> known (kg_add_edge kg e) n \<or> n \<in> bare"
    using ok s t unfolding graph_ok_def known_simps kg_has_add_edge by blast
  show "\<forall>n a. kg_find (kg_add_edge kg e) n = Some a \<longrightarrow> na_type a = type_of_kind (node_kind n)"
    using ok unfolding graph_ok_def kg_find_add_edge by blast
qed

lemma graph_ok_update [wf_intros]:
  assumes ok: "graph_ok bare kg" and f: "\<And>a. na_type (f a) = na_type a"
  shows "graph_ok bare (update_attrs n f kg)"
proof -
  have k: "dict_keys (kg_nodes (update_attrs n f kg)) = dict_keys (kg_nodes kg)" "kg_edges (update_attrs n f kg) = kg_edges kg"
    by (auto simp: update_attrs_def)
  then have "kg_has (update_attrs n f kg) = kg_has kg" by (simp add: kg_has_def fun_eq_iff)
  with ok k show ?thesis unfolding graph_ok_def by (auto simp: f)
qed

section \<open>Every step is made of the graph's operations\<close>

text \<open>
  An invariant of adding a typed node, of joining two known nodes and of changing attributes is an
  invariant of everything the builder does for sheets, rooms and doors.
\<close>

locale graph_steps =
  fixes ok :: "kgraph \<Rightarrow> bool"
  assumes add_node: "ok kg \<Longrightarrow> node_typed nd \<Longrightarrow> ok (kg_add_node kg nd)"
    and add_edge: "ok kg \<Longrightarrow> known kg (ge_source e) \<Longrightarrow> known kg (ge_target e) \<Longrightarrow> ok (kg_add_edge kg e)"
    and update: "ok kg \<Longrightarrow> (\<And>a. na_type (f a) = na_type a) \<Longrightarrow> ok (update_attrs n f kg)"
begin

lemma nodes_ok: "ok kg \<Longrightarrow> list_all node_typed ns \<Longrightarrow> ok (add_nodes ns kg)"
  unfolding add_nodes_def by (induction ns arbitrary: kg) (simp_all add: add_node)

lemma prop_ok: "ok kg \<Longrightarrow> ok (set_prop n k v kg)"
  unfolding set_prop_def by (rule update) simp_all

lemma unresolved_ok: "ok kg \<Longrightarrow> ok (record_unresolved n codes kg)"
  by (simp add: record_unresolved_def prop_ok)

lemma link_ok: "ok kg \<Longrightarrow> known kg n \<Longrightarrow> ok (link_known n t r p b kg)"
  by (simp add: link_known_def add_edge edge_def)

lemma sheets_ok: "ok kg \<Longrightarrow> known kg n \<Longrightarrow> ok (appears_on n ss kg)"
  unfolding appears_on_def by (induction ss arbitrary: kg) (simp_all add: link_ok)

lemma material_ok: "ok kg \<Longrightarrow> known kg did \<Longrightarrow> link_material links did m rel (kg, us) = (kg', us') \<Longrightarrow> ok kg' \<and> known kg' did"
  by (auto simp: link_material_def Let_def edge_def resolves_def add_edge split: option.splits if_splits)

lemma stub_ok: "ok kg \<Longrightarrow> ok (room_stub conf (room_id_of d) kg)"
  by (simp add: room_stub_def add_node node_typed_def stub_room_node_def type_of_kind_def)

lemma door_ok:
  assumes "ok kg"
  shows "ok (add_door links conf kg d)"
proof -
  let ?did = "door_id d" and ?kg = "kg_add_node kg (door_node conf d)"
  have 0: "ok ?kg" "known ?kg ?did"
    by (simp_all add: add_node assms node_typed_def door_node_def type_of_kind_def)
  obtain k1 u1 where 1: "link_material links ?did (de_material d) ''DOOR_SPECIFIED_IN'' (?kg, []) = (k1, u1)" by (meson surj_pair)
  obtain k2 u2 where 2: "link_material links ?did (de_frame_material d) ''FRAME_SPECIFIED_IN'' (k1, u1) = (k2, u2)" by (meson surj_pair)
  have k2: "ok k2" "known k2 ?did" using material_ok[OF conjunct1 conjunct2 2] material_ok[OF 0 1] by blast+
  define k4 where "k4 = room_stub conf (room_id_of d)
     (link_known ?did (sid glazing_section) ''GLAZING_SPECIFIED_IN'' (Some [(''glass_type'', text_or_null (de_glass_type d))]) (names_item (de_glass_type d))
       (link_known ?did (sid hardware_section) ''HARDWARE_SPECIFIED_IN'' (Some [(''hardware_set'', JStr (de_hardware_set d))])
         (names_item (Some (de_hardware_set d))) k2))"
  have k4: "ok k4" "known k4 ?did" "known k4 (room_id_of d)" unfolding k4_def using k2 by (simp_all add: stub_ok link_ok)
  have "ok (kg_add_edge k4 (edge ?did (room_id_of d) ''LOCATED_IN'' None))"
    by (rule add_edge) (simp_all add: k4 edge_def)
  then have "ok (appears_on ?did [''A9.3.1'', ''A2.1.1''] (kg_add_edge k4 (edge ?did (room_id_of d) ''LOCATED_IN'' None)))"
    by (rule sheets_ok) (simp add: k4)
  then show ?thesis by (simp add: add_door_def door_edges_def Let_def 1 2 unresolved_ok k4_def[symmetric])
qed

lemma doors_ok: "ok kg \<Longrightarrow> ok (foldl (add_door links conf) kg ds)"
  by (induction ds arbitrary: kg) (simp_all add: door_ok)

lemma codes_ok: "ok kg \<Longrightarrow> known kg rid \<Longrightarrow> foldl (link_code links rid) (kg, us) cs = (kg', us') \<Longrightarrow> ok kg' \<and> known kg' rid"
proof (induction cs arbitrary: kg us)
  case (Cons c cs)
  obtain k u where k: "link_code links rid (kg, us) c = (k, u)" by (meson surj_pair)
  have "ok k \<and> known k rid"
    using k Cons.prems(1,2) by (auto simp: link_code_def edge_def resolves_def add_edge split: option.splits if_splits)
  then show ?case using Cons.IH[of k u] Cons.prems(3) k by simp
qed simp

lemma room_ok:
  assumes "ok kg" "known kg (room_id (fe_room_number r))"
  shows "ok (add_room_edges order links kg r)"
proof -
  let ?rid = "room_id (fe_room_number r)"
  obtain k u where k: "foldl (link_code links ?rid) (kg, []) (order (room_codes r)) = (k, u)" by (meson surj_pair)
  from codes_ok[OF assms k] have "ok (appears_on ?rid [''AF2.4'', ''A2.1.1''] k)" by (simp add: sheets_ok)
  then show ?thesis by (simp add: add_room_edges_def Let_def k unresolved_ok)
qed

lemma rooms_ok:
  assumes "\<And>xs. set (order xs) = set xs" "ok kg" "\<And>r. r \<in> set rs \<Longrightarrow> known kg (room_id (fe_room_number r))"
  shows "ok (foldl (add_room_edges order links) kg rs)"
  using assms(2,3)
proof (induction rs arbitrary: kg)
  case (Cons r rs)
  have k: "known kg (room_id (fe_room_number r))" using Cons.prems(2) by simp
  have "known (add_room_edges order links kg r) = known kg" by (rule known_add_room[where order = order, OF assms(1) k])
  then show ?case using Cons.IH[OF room_ok[OF Cons.prems(1) k]] Cons.prems(2) by simp
qed simp

end

interpretation well_formed: graph_steps "graph_ok bare" for bare
  by unfold_locales (auto intro: wf_intros)

text \<open>The references are the only edges whose source may have to be created.\<close>

lemma graph_ok_references:
  assumes "graph_ok bare kg" "\<And>s ts. (s, ts) \<in> set refs \<Longrightarrow> known kg (sid s) \<or> sid s \<in> bare"
  shows "graph_ok bare (foldl (add_references order) kg refs)"
  using assms
proof (induction refs arbitrary: kg)
  case (Cons x refs)
  obtain s ts where x: "x = (s, ts)" by (cases x)
  have link: "graph_ok bare (foldl (\<lambda>kg t. link_known (sid s) (sid t) ''REFERENCES'' None True kg) kg us)"
    if "graph_ok bare kg" "known kg (sid s) \<or> sid s \<in> bare" for kg us
    using that
  proof (induction us arbitrary: kg)
    case (Cons u us)
    have "graph_ok bare (link_known (sid s) (sid u) ''REFERENCES'' None True kg)"
      using Cons.prems by (auto simp: link_known_def edge_def intro: wf_intros)
    then show ?case using Cons by simp
  qed simp
  have kn: "known (add_references order kg x) = known kg"
    unfolding x add_references_def prod.case using link_known_fold by (blast intro: find_known)
  have "graph_ok bare (add_references order kg x)"
    unfolding x add_references_def prod.case using link[OF Cons.prems(1)] Cons.prems(2)[of s ts] x by simp
  moreover have "known (add_references order kg x) (sid s) \<or> sid s \<in> bare" if "(s, ts) \<in> set refs" for s ts
    unfolding kn using that Cons.prems(2)[of s ts] by simp
  ultimately show ?case using Cons.IH[of "add_references order kg x"] by simp
qed simp

section \<open>The assembled graph\<close>

lemma trace_all_spec:
  "trace_all pk st ns = Inr st' \<Longrightarrow> graph_ok bare (fst st) \<Longrightarrow>
   graph_ok bare (fst st') \<and> known (fst st') = known (fst st) \<and> ekeys (fst st') = ekeys (fst st) \<and>
   set (dict_keys (snd st')) = set (dict_keys (snd st)) \<union> set ns"
proof (induction ns arbitrary: st)
  case (Cons n ns)
  from Cons.prems(1) obtain s1 where s1: "trace_section pk st n = Inr s1" "trace_all pk s1 ns = Inr st'"
    by (auto split: sum.splits)
  from s1(1) obtain sec where "parse_spec_section (pk_manual pk) n (Some (pk_toc pk)) (pk_section_hint pk) = Inr sec"
    by (auto simp: trace_section_def split: sum.splits)
  with s1(1) have sec: "s1 = (if kg_has (fst st) (sid n)
          then set_prop (sid n) ''parts'' (JInt (int (length (ss_parts sec))))
            (update_attrs (sid n) (\<lambda>a. a\<lparr>na_page := Some (int (fst (ss_page_range sec)))\<rparr>) (fst st))
          else fst st, dict_set (snd st) n (referenced_sections n (ss_raw_text sec)))"
    by (simp add: trace_section_def)
  have ok: "graph_ok bare (fst s1)" using Cons.prems(2) by (simp add: sec well_formed.prop_ok graph_ok_update)
  have "known (fst s1) = known (fst st)" by (simp add: sec set_prop_def fun_eq_iff)
  moreover have "ekeys (fst s1) = ekeys (fst st)" "set (dict_keys (snd s1)) = insert n (set (dict_keys (snd st)))"
    by (simp_all add: sec)
  ultimately show ?case using Cons.IH[OF s1(2) ok] by simp
qed simp

lemma known_add_nodes: "known (add_nodes ns kg) x \<longleftrightarrow> x \<in> gn_id ` set ns \<or> known kg x"
  unfolding add_nodes_def by (induction ns arbitrary: kg) auto

lemma ekeys_add_nodes [simp]: "ekeys (add_nodes ns kg) = ekeys kg"
  unfolding add_nodes_def by (induction ns arbitrary: kg) auto

lemma find_add_nodes:
  "n \<in> set ns \<Longrightarrow> count_list (map gn_id ns) (gn_id n) = 1 \<Longrightarrow> kg_find (add_nodes ns kg) (gn_id n) = Some (gn_attrs n)"
  unfolding add_nodes_def
proof (induction ns arbitrary: kg rule: rev_induct)
  case (snoc m ns)
  show ?case
  proof (cases "gn_id n = gn_id m")
    case True
    then have "gn_id n \<notin> gn_id ` set ns" using snoc.prems(2) by (simp add: count_list_0_iff)
    then have "n = m" using snoc.prems(1) by auto
    then show ?thesis by simp
  qed (use snoc in auto)
qed simp

lemma find_add_nodes_other: "x \<notin> gn_id ` set ns \<Longrightarrow> kg_find (add_nodes ns kg) x = kg_find kg x"
  unfolding add_nodes_def by (induction ns arbitrary: kg rule: rev_induct) auto

lemma add_nodes_append: "add_nodes (ms @ ns) kg = add_nodes ns (add_nodes ms kg)"
  by (simp add: add_nodes_def)

text \<open>The nodes the package calls for, and the trace sections its table of contents does not list.\<close>

definition listed_nodes :: "parsed_package \<Rightarrow> string set" where
  "listed_nodes pk = sid ` set (map (\<lambda>(dv, n, t). n) (toc_sections (pk_toc pk))) \<union>
     sheet_id ` set (map se_number (pk_registry pk)) \<union>
     abbr_id ` {base_code c | c. c \<in> set (dict_keys material_section) \<and> base_code c \<in> set (dict_keys (pk_abbrev pk))} \<union>
     room_id ` set (map fe_room_number (pk_rooms pk))"

definition package_nodes :: "parsed_package \<Rightarrow> string set" where
  "package_nodes pk = listed_nodes pk \<union> door_id ` set (pk_doors pk) \<union> room_id_of ` set (pk_doors pk)"

definition unlisted :: "parsed_package \<Rightarrow> string set" where
  "unlisted pk = {sid n | n. n \<in> set trace_sections \<and> n \<notin> set (map (\<lambda>(dv, n, t). n) (toc_sections (pk_toc pk)))}"

lemma section_ids: "gn_id ` section_node ` set xs = sid ` set (map (\<lambda>(dv, n, t). n) xs)"
  by (force simp: section_node_def)

lemma abbreviation_ids:
  assumes "\<And>xs. set (order xs) = set xs"
  shows "gn_id ` set (abbreviation_nodes order abbrev) = abbr_id ` {base_code c | c. c \<in> set (dict_keys material_section) \<and> base_code c \<in> set (dict_keys abbrev)}"
proof (intro equalityI subsetI)
  fix x assume "x \<in> gn_id ` set (abbreviation_nodes order abbrev)"
  then obtain nd where nd: "nd \<in> set (abbreviation_nodes order abbrev)" "x = gn_id nd" by blast
  then obtain c where "c \<in> set (order (dict_keys material_section))"
    "map_option (abbreviation_node (base_code c)) (map_of abbrev (base_code c)) = Some nd"
    unfolding abbreviation_nodes_def in_map_filter by blast
  then obtain d where "c \<in> set (dict_keys material_section)" "map_of abbrev (base_code c) = Some d" "x = abbr_id (base_code c)"
    unfolding assms using nd(2) by (auto simp: abbreviation_node_def)
  moreover from this have "base_code c \<in> set (dict_keys abbrev)" by (force dest: map_of_SomeD)
  ultimately show "x \<in> abbr_id ` {base_code c | c. c \<in> set (dict_keys material_section) \<and> base_code c \<in> set (dict_keys abbrev)}" by blast
next
  fix x assume "x \<in> abbr_id ` {base_code c | c. c \<in> set (dict_keys material_section) \<and> base_code c \<in> set (dict_keys abbrev)}"
  then obtain c where c: "c \<in> set (dict_keys material_section)" "base_code c \<in> set (dict_keys abbrev)" "x = abbr_id (base_code c)" by blast
  then obtain d where "map_of abbrev (base_code c) = Some d" by (metis list.set_map map_of_eq_None_iff option.exhaust)
  then have "abbreviation_node (base_code c) d \<in> set (abbreviation_nodes order abbrev)"
    unfolding abbreviation_nodes_def in_map_filter using c(1) assms by (intro bexI[of _ c]) simp_all
  moreover have "x = gn_id (abbreviation_node (base_code c) d)" by (simp add: c(3) abbreviation_node_def)
  ultimately show "x \<in> gn_id ` set (abbreviation_nodes order abbrev)" by blast
qed

text \<open>The stages of the assembly, with what each leaves.\<close>

lemma assemble_stages:
  assumes "assemble_graph order pk mlinks flinks = Inr kg" and order: "\<And>xs. set (order xs) = set xs"
  obtains kg0 refs kg1 kg2 kg3 where
    "kg1 = add_nodes (map sheet_node (pk_registry pk) @ abbreviation_nodes order (pk_abbrev pk) @ map room_node (pk_rooms pk)) kg0"
    "kg2 = foldl (add_door mlinks (door_confidence_of (pk_doors pk))) kg1 (pk_doors pk)"
    "kg3 = foldl (add_room_edges order flinks) kg2 (pk_rooms pk)"
    "kg = foldl (add_references order) kg3 refs"
    "graph_ok (unlisted pk) kg0" "ekeys kg0 = {}" "set (dict_keys refs) = set trace_sections"
    "\<And>n. known kg0 n \<longleftrightarrow> n \<in> sid ` set (map (\<lambda>(dv, n, t). n) (toc_sections (pk_toc pk)))"
    "\<And>n. known kg1 n \<longleftrightarrow> n \<in> listed_nodes pk"
proof -
  let ?init = "add_nodes (map section_node (toc_sections (pk_toc pk))) empty_graph"
  obtain kg0 refs where t: "trace_all pk (?init, []) trace_sections = Inr (kg0, refs)"
    using assms(1) by (auto simp: assemble_graph_def split: sum.splits)
  have "graph_ok (unlisted pk) ?init"
    by (rule well_formed.nodes_ok[OF graph_ok_empty])
      (auto simp: list_all_iff node_typed_def section_node_def type_of_kind_def)
  note trace = trace_all_spec[OF t, unfolded fst_conv snd_conv, OF this]
  have init: "known ?init n \<longleftrightarrow> n \<in> sid ` set (map (\<lambda>(dv, n, t). n) (toc_sections (pk_toc pk)))" for n
    by (simp add: known_add_nodes section_ids) (simp add: known_def empty_graph_def kg_find_def del: not_known)
  define kg1 where "kg1 = add_nodes (map sheet_node (pk_registry pk) @ abbreviation_nodes order (pk_abbrev pk) @ map room_node (pk_rooms pk)) kg0"
  have ids: "gn_id ` sheet_node ` set es = sheet_id ` set (map se_number es)" "gn_id ` room_node ` set rs = room_id ` set (map fe_room_number rs)" for es rs
    by (auto simp: sheet_node_def room_node_def image_iff)
  have known1: "known kg1 n \<longleftrightarrow> n \<in> listed_nodes pk" for n
    using trace init[of n]
    by (simp add: kg1_def known_add_nodes image_Un ids abbreviation_ids[where order = order, OF order] listed_nodes_def disj_commute disj_left_commute)
  have "kg = foldl (add_references order) (foldl (add_room_edges order flinks)
      (foldl (add_door mlinks (door_confidence_of (pk_doors pk))) kg1 (pk_doors pk)) (pk_rooms pk)) refs"
    using assms(1) t by (simp add: assemble_graph_def kg1_def Let_def)
  note stages = that[OF kg1_def refl refl this]
  have "ekeys empty_graph = {}" by (simp add: ekeys_def empty_graph_def)
  then have "ekeys kg0 = {}" using trace by simp
  moreover have "known kg0 n \<longleftrightarrow> n \<in> sid ` set (map (\<lambda>(dv, n, t). n) (toc_sections (pk_toc pk)))" for n
    using trace init by simp
  moreover have "graph_ok (unlisted pk) kg0" "set (dict_keys refs) = set trace_sections" using trace by simp_all
  ultimately show thesis using known1 by (intro stages)
qed

lemma union_rest: "X = A \<union> C \<Longrightarrow> C \<subseteq> {x. P x} \<Longrightarrow> X = A \<union> {x \<in> X. P x}"
  by blast

lemma triple_set: "{x \<in> X. case x of (s, t, r) \<Rightarrow> P s t r} = {(s, t, r) \<in> X. P s t r}"
  by auto

text \<open>What every assembly gives, whatever the documents say.\<close>

lemma assembled:
  assumes "assemble_graph order pk mlinks flinks = Inr kg" and order: "\<And>xs. set (order xs) = set xs"
  shows "graph_ok (unlisted pk) kg" "known kg n \<longleftrightarrow> n \<in> package_nodes pk"
    "ekeys kg = (\<Union>d \<in> set (pk_doors pk). Pair (door_id d) ` set (door_targets (known kg) mlinks d)) \<union>
       (\<Union>r \<in> set (pk_rooms pk). Pair (room_id (fe_room_number r)) ` set (room_targets (known kg) flinks r)) \<union>
       {(s, t, r) \<in> ekeys kg. r = ''REFERENCES'' \<and> s \<in> sid ` set trace_sections}"
proof -
  obtain kg0 refs kg1 kg2 kg3 where k:
    "kg1 = add_nodes (map sheet_node (pk_registry pk) @ abbreviation_nodes order (pk_abbrev pk) @ map room_node (pk_rooms pk)) kg0"
    "kg2 = foldl (add_door mlinks (door_confidence_of (pk_doors pk))) kg1 (pk_doors pk)"
    "kg3 = foldl (add_room_edges order flinks) kg2 (pk_rooms pk)"
    "kg = foldl (add_references order) kg3 refs"
    and k0: "graph_ok (unlisted pk) kg0" "ekeys kg0 = {}" "set (dict_keys refs) = set trace_sections"
    "\<And>n. known kg0 n \<longleftrightarrow> n \<in> sid ` set (map (\<lambda>(dv, n, t). n) (toc_sections (pk_toc pk)))"
    "\<And>n. known kg1 n \<longleftrightarrow> n \<in> listed_nodes pk"
    using assemble_stages[where order = order, OF assms(1) order] by metis
  have "list_all node_typed (map sheet_node (pk_registry pk) @ abbreviation_nodes order (pk_abbrev pk) @ map room_node (pk_rooms pk))"
    by (auto simp: list_all_iff node_typed_def sheet_node_def room_node_def type_of_kind_def abbreviation_nodes_def in_map_filter
        abbreviation_node_def)
  then have ok2: "graph_ok (unlisted pk) kg2" unfolding k(1,2) by (intro well_formed.doors_ok well_formed.nodes_ok k0(1))
  have kn2: "known kg2 n \<longleftrightarrow> n \<in> package_nodes pk" for n
    unfolding k(2) add_doors_known k0(5) package_nodes_def by blast
  have rooms: "known kg2 (room_id (fe_room_number r))" if "r \<in> set (pk_rooms pk)" for r
    using that unfolding kn2 package_nodes_def listed_nodes_def by auto
  have kn3: "known kg3 = known kg2" and e3: "ekeys kg3 = ekeys kg2 \<union> (\<Union>r \<in> set (pk_rooms pk). Pair (room_id (fe_room_number r)) ` set (room_targets (known kg2) flinks r))"
    unfolding k(3) using add_rooms_ekeys[where order = order and links = flinks and kg = kg2 and rs = "pk_rooms pk", OF order rooms] by simp_all
  have ok3: "graph_ok (unlisted pk) kg3" unfolding k(3) by (rule well_formed.rooms_ok[where order = order, OF order ok2 rooms])
  have kn: "known kg = known kg3" unfolding k(4) using add_references_spec[where order = order, OF order] by (blast intro: find_known)
  show "known kg n \<longleftrightarrow> n \<in> package_nodes pk" by (simp add: kn kn3 kn2)
  show "graph_ok (unlisted pk) kg" unfolding k(4)
  proof (rule graph_ok_references[OF ok3])
    fix s ts assume "(s, ts) \<in> set refs"
    then have s: "s \<in> set trace_sections" unfolding k0(3)[symmetric] by force
    show "known kg3 (sid s) \<or> sid s \<in> unlisted pk"
    proof (cases "s \<in> set (map (\<lambda>(dv, n, t). n) (toc_sections (pk_toc pk)))")
      case True
      then have "sid s \<in> package_nodes pk" unfolding package_nodes_def listed_nodes_def by blast
      then show ?thesis by (simp add: kn3 kn2)
    qed (use s in \<open>auto simp: unlisted_def\<close>)
  qed
  have env: "same_refs (known kg1) (known kg)"
    using add_doors_refs[of mlinks "door_confidence_of (pk_doors pk)" kg1 "pk_doors pk"]
    unfolding k(2)[symmetric] kn kn3 same_refs_def by simp
  have e1: "ekeys kg1 = {}" unfolding k(1) by (simp add: k0(2))
  have e2: "ekeys kg2 = (\<Union>d \<in> set (pk_doors pk). Pair (door_id d) ` set (door_targets (known kg) mlinks d))"
    unfolding k(2) add_doors_ekeys e1 same_refs_targets(1)[OF env] by simp
  have e: "ekeys kg = ekeys kg3 \<union> (\<Union>x \<in> set refs. reference_edges (known kg3) x)"
    unfolding k(4) using add_references_spec[where order = order, OF order] by blast
  have r: "(\<Union>x \<in> set refs. reference_edges (known kg3) x) \<subseteq> {x. case x of (s, t, r) \<Rightarrow> r = ''REFERENCES'' \<and> s \<in> sid ` set trace_sections}"
    unfolding k0(3)[symmetric] by (force simp: reference_edges_def)
  have "ekeys kg3 = (\<Union>d \<in> set (pk_doors pk). Pair (door_id d) ` set (door_targets (known kg) mlinks d)) \<union>
       (\<Union>r \<in> set (pk_rooms pk). Pair (room_id (fe_room_number r)) ` set (room_targets (known kg) flinks r))"
    unfolding e3 e2 kn kn3 by simp
  then show "ekeys kg = (\<Union>d \<in> set (pk_doors pk). Pair (door_id d) ` set (door_targets (known kg) mlinks d)) \<union>
       (\<Union>r \<in> set (pk_rooms pk). Pair (room_id (fe_room_number r)) ` set (room_targets (known kg) flinks r)) \<union>
       {(s, t, r) \<in> ekeys kg. r = ''REFERENCES'' \<and> s \<in> sid ` set trace_sections}"
    using union_rest[OF e r] unfolding triple_set by simp
qed

lemma type_of_door: "type_of_kind k = ''door'' \<Longrightarrow> k = ''door''"
  by (simp add: type_of_kind_def split: if_splits)

lemma door_nodes:
  assumes "graph_ok bare kg" "d \<in> set (nodes_of_type kg ''door'')"
  shows "known kg d \<and> node_kind d = ''door''"
proof -
  from assms(2) obtain a where a: "(d, Some a) \<in> set (kg_nodes kg)" "na_type a = ''door''"
    by (auto simp: nodes_of_type_def)
  then have "kg_find kg d = Some a" using assms(1) by (simp add: kg_find_def graph_ok_def)
  moreover from this have "na_type a = type_of_kind (node_kind d)" using assms(1) unfolding graph_ok_def by blast
  ultimately show ?thesis using a(2) type_of_door[of "node_kind d"] by (simp add: known_def del: not_known)
qed

lemma door_kind_door: "n \<in> package_nodes pk \<Longrightarrow> node_kind n = ''door'' \<Longrightarrow> n \<in> door_id ` set (pk_doors pk)"
  unfolding package_nodes_def listed_nodes_def by auto

lemma edge_out: "(n, t, r) \<in> ekeys kg \<Longrightarrow> kg_has kg n \<Longrightarrow> \<exists>p. (t, r, p) \<in> set (kg_out kg n)"
  by (auto simp: ekeys_def in_kg_out)

lemma graph_has_no_orphans:
  assumes "assemble_graph order pk mlinks flinks = Inr kg" and "\<And>xs. set (order xs) = set xs"
  shows "find_orphan_doors kg = []"
proof -
  note a = assembled[where order = order, OF assms]
  have "list_ex (\<lambda>(t, r, p). r = ''LOCATED_IN'') (kg_out kg n)" if n: "n \<in> set (nodes_of_type kg ''door'')" for n
  proof -
    have "known kg n" "node_kind n = ''door''" using door_nodes[OF a(1) n] by simp_all
    then obtain d where d: "d \<in> set (pk_doors pk)" "n = door_id d" using door_kind_door a(2) by blast
    have "(room_id_of d, ''LOCATED_IN'') \<in> set (door_targets (known kg) mlinks d)" by (simp add: door_targets_def)
    with d have "(n, room_id_of d, ''LOCATED_IN'') \<in> ekeys kg" by (subst a(3)) blast
    from edge_out[OF this] \<open>known kg n\<close> show ?thesis by (force simp: list_ex_iff)
  qed
  then show ?thesis by (simp add: find_orphan_doors_def filter_empty_conv)
qed

text \<open>C34.  The assembled graph is closed: edges join nodes, identifiers and edge keys are unique, the kind of
  an identifier is the type of its node, and no door is an orphan.  The nodes with attributes are exactly
  the sections, sheets, referenced abbreviations, rooms and doors of the package and the rooms of its
  doors.  The only other nodes are bare ones, without attributes, for trace sections the table of
  contents does not list; when it lists them all, every node is a node of the package.\<close>

theorem graph_is_closed:
  assumes "assemble_graph order pk mlinks flinks = Inr kg" and "\<And>xs. set (order xs) = set xs"
  shows "graph_ok (unlisted pk) kg \<and> {n. kg_find kg n \<noteq> None} = package_nodes pk \<and>
    {n. kg_has kg n} \<subseteq> package_nodes pk \<union> unlisted pk \<and>
    (unlisted pk = {} \<longrightarrow> {n. kg_has kg n} = package_nodes pk) \<and> find_orphan_doors kg = []"
proof -
  note a = assembled(1,2)[where order = order, OF assms]
  have "{n. kg_find kg n \<noteq> None} = package_nodes pk" using a(2) by auto
  moreover have has: "kg_has kg n \<Longrightarrow> n \<in> package_nodes pk \<union> unlisted pk" "n \<in> package_nodes pk \<Longrightarrow> kg_has kg n" for n
    using a unfolding graph_ok_def by auto
  then have "{n. kg_has kg n} \<subseteq> package_nodes pk \<union> unlisted pk" "package_nodes pk \<subseteq> {n. kg_has kg n}" by blast+
  ultimately show ?thesis using a(1) graph_has_no_orphans[where order = order, OF assms] by auto
qed

definition sample_manual_page :: string where
  "sample_manual_page = ''SECTION 081113 - A'' @ newline @ ''SECTION 081416 - B'' @ newline @ ''SECTION 087100 - C''"

definition sample_door :: "string \<Rightarrow> door_entry" where
  "sample_door mark = \<lparr>de_mark = mark, de_fire_rating = None, de_width = '''', de_height = '''', de_elevation = '''',
     de_material = ''HM'', de_finish = '''', de_frame_elevation = None, de_frame_material = ''XX'', de_frame_finish = '''',
     de_hardware_set = ''205'', de_glass_film = None, de_glass_type = None, de_special_notes = None, de_building = ''North''\<rparr>"

definition sample_package :: parsed_package where
  "sample_package = \<lparr>pk_manual = [sample_manual_page], pk_section_hint = 0,
     pk_toc = \<lparr>st_divisions = [\<lparr>dv_number = ''08'', dv_title = ''OPENINGS'', dv_sections = [(''081113'', ''DOORS'')], dv_applicable = True\<rparr>],
       st_total = 1\<rparr>, pk_registry = [], pk_doors = [sample_door ''N101A'', sample_door ''N102A''],
     pk_rooms = [\<lparr>fe_room_number = ''N101'', fe_room_name = ''LAB'', fe_floor = ''CPT-1'', fe_base = '''', fe_wall = '''',
       fe_ceiling = '''', fe_comments = None\<rparr>], pk_abbrev = [], pk_applied = []\<rparr>"

lemma sample_headers: "page_header ''081113'' sample_manual_page = Some ''A''" "page_header ''081416'' sample_manual_page = Some ''B''"
  "page_header ''087100'' sample_manual_page = Some ''C''"
  by code_simp+

lemma sample_graph_toc: "\<exists>kg. assemble_graph id (sample_package\<lparr>pk_toc := toc\<rparr>) ml fl = Inr kg"
proof -
  have parse: "\<exists>s. parse_spec_section [sample_manual_page] num (Some toc) 0 = Inr s" if "page_header num sample_manual_page = Some t" for num toc t
    using that by (simp add: parse_spec_section_def extract_section_text_def Let_def map_filter_simps)
  have "\<exists>t. page_header num sample_manual_page = Some t" if "num \<in> set trace_sections" for num
    using that sample_headers unfolding trace_sections_def by auto
  with parse have p: "\<exists>s. parse_spec_section [sample_manual_page] num (Some toc) 0 = Inr s" if "num \<in> set trace_sections" for num toc
    using that by blast
  have t: "\<exists>st'. trace_section (sample_package\<lparr>pk_toc := toc\<rparr>) st num = Inr st'" if "num \<in> set trace_sections" for num st
    using p[OF that, of toc] by (auto simp: trace_section_def sample_package_def)
  have "\<exists>kg refs. trace_all (sample_package\<lparr>pk_toc := toc\<rparr>) st ns = Inr (kg, refs)" if "set ns \<subseteq> set trace_sections" for st ns
    using that
  proof (induction ns arbitrary: st)
    case (Cons n ns)
    obtain st' where "trace_section (sample_package\<lparr>pk_toc := toc\<rparr>) st n = Inr st'" using t[of n st] Cons.prems by auto
    with Cons show ?case by simp
  qed simp
  then show ?thesis unfolding assemble_graph_def by (metis (no_types, lifting) order_refl old.sum.simps(6) prod.case)
qed

lemma sample_graph: "\<exists>kg. assemble_graph id sample_package ml fl = Inr kg"
  using sample_graph_toc[of "pk_toc sample_package" ml fl] by simp

theorem graph_is_closed_witness:
  "\<exists>kg. assemble_graph id sample_package [] [] = Inr kg \<and> find_orphan_doors kg = []"
proof -
  obtain kg where kg: "assemble_graph id sample_package [] [] = Inr kg" using sample_graph by blast
  with graph_is_closed[OF kg] show ?thesis by simp
qed

section \<open>Nothing is lost\<close>

definition out_keys :: "kgraph \<Rightarrow> string \<Rightarrow> (string \<times> string) set" where
  "out_keys kg n = (\<lambda>(t, r, p). (t, r)) ` set (kg_out kg n)"

lemma in_out_keys: "kg_has kg n \<Longrightarrow> (t, r) \<in> out_keys kg n \<longleftrightarrow> (n, t, r) \<in> ekeys kg"
proof
  assume "kg_has kg n" "(t, r) \<in> out_keys kg n"
  then obtain p where "(t, r, p) \<in> set (kg_out kg n)" by (auto simp: out_keys_def)
  then show "(n, t, r) \<in> ekeys kg" by (force simp: in_kg_out ekeys_def)
next
  assume "kg_has kg n" "(n, t, r) \<in> ekeys kg"
  then obtain p where "(t, r, p) \<in> set (kg_out kg n)" using edge_out by blast
  then show "(t, r) \<in> out_keys kg n" unfolding out_keys_def by (force simp: image_iff)
qed

lemma ids_injective [simp]: "door_id d = door_id e \<longleftrightarrow> de_mark d = de_mark e" "room_id a = room_id b \<longleftrightarrow> a = b"
  "sid s \<noteq> room_id a" "room_id a \<noteq> sid s" "door_id d \<noteq> sid s"
  by (simp_all add: door_id_def room_id_def sid_def)

lemma door_out:
  assumes a: "assemble_graph order pk mlinks flinks = Inr kg" "\<And>xs. set (order xs) = set xs" and d: "d \<in> set (pk_doors pk)"
  shows "out_keys kg (door_id d) = (\<Union>d' \<in> {d' \<in> set (pk_doors pk). de_mark d' = de_mark d}. set (door_targets (known kg) mlinks d'))"
proof -
  note e = assembled(3)[where order = order, OF a]
  have "known kg (door_id d)" using assembled(2)[where order = order, OF a] d by (simp add: package_nodes_def)
  then have k: "(t, r) \<in> out_keys kg (door_id d) \<longleftrightarrow> (door_id d, t, r) \<in> ekeys kg" for t r by (simp add: in_out_keys)
  have "(door_id d, t, r) \<in> ekeys kg \<longleftrightarrow> (\<exists>d' \<in> set (pk_doors pk). de_mark d' = de_mark d \<and> (t, r) \<in> set (door_targets (known kg) mlinks d'))" for t r
  proof
    assume "(door_id d, t, r) \<in> ekeys kg"
    then have "(door_id d, t, r) \<in> (\<Union>d \<in> set (pk_doors pk). Pair (door_id d) ` set (door_targets (known kg) mlinks d))"
      by (subst (asm) e) auto
    then show "\<exists>d' \<in> set (pk_doors pk). de_mark d' = de_mark d \<and> (t, r) \<in> set (door_targets (known kg) mlinks d')" by auto
  next
    assume "\<exists>d' \<in> set (pk_doors pk). de_mark d' = de_mark d \<and> (t, r) \<in> set (door_targets (known kg) mlinks d')"
    then obtain d' where "d' \<in> set (pk_doors pk)" "door_id d' = door_id d" "(t, r) \<in> set (door_targets (known kg) mlinks d')" by auto
    then show "(door_id d, t, r) \<in> ekeys kg" by (subst e) (metis (no_types, lifting) UN_I UnI1 image_eqI)
  qed
  with k show ?thesis by auto
qed

lemma room_out:
  assumes a: "assemble_graph order pk mlinks flinks = Inr kg" "\<And>xs. set (order xs) = set xs" and r: "r \<in> set (pk_rooms pk)"
  shows "out_keys kg (room_id (fe_room_number r)) =
    (\<Union>r' \<in> {r' \<in> set (pk_rooms pk). fe_room_number r' = fe_room_number r}. set (room_targets (known kg) flinks r'))"
proof -
  let ?rid = "room_id (fe_room_number r)"
  note e = assembled(3)[where order = order, OF a]
  have "known kg ?rid" using assembled(2)[where order = order, OF a] r by (simp add: package_nodes_def listed_nodes_def)
  then have k: "(t, l) \<in> out_keys kg ?rid \<longleftrightarrow> (?rid, t, l) \<in> ekeys kg" for t l by (simp add: in_out_keys)
  have "(?rid, t, l) \<in> ekeys kg \<longleftrightarrow>
      (\<exists>r' \<in> set (pk_rooms pk). fe_room_number r' = fe_room_number r \<and> (t, l) \<in> set (room_targets (known kg) flinks r'))" for t l
  proof
    assume "(?rid, t, l) \<in> ekeys kg"
    then have "(?rid, t, l) \<in> (\<Union>r \<in> set (pk_rooms pk). Pair (room_id (fe_room_number r)) ` set (room_targets (known kg) flinks r))"
      by (subst (asm) e) auto
    then show "\<exists>r' \<in> set (pk_rooms pk). fe_room_number r' = fe_room_number r \<and> (t, l) \<in> set (room_targets (known kg) flinks r')" by auto
  next
    assume "\<exists>r' \<in> set (pk_rooms pk). fe_room_number r' = fe_room_number r \<and> (t, l) \<in> set (room_targets (known kg) flinks r')"
    then obtain r' where "r' \<in> set (pk_rooms pk)" "room_id (fe_room_number r') = ?rid" "(t, l) \<in> set (room_targets (known kg) flinks r')" by auto
    then show "(?rid, t, l) \<in> ekeys kg" by (subst e) (metis (no_types, lifting) UN_I UnI1 UnI2 image_eqI)
  qed
  with k show ?thesis by auto
qed

lemma assembled_nodes:
  assumes a: "assemble_graph order pk mlinks flinks = Inr kg" and order: "\<And>xs. set (order xs) = set xs"
  shows "pk_doors pk = xs @ d # ys \<Longrightarrow> de_mark d \<notin> de_mark ` set ys \<Longrightarrow> kg_find kg (door_id d) =
      Some (with_unresolved (door_unresolved (known kg) mlinks d) (gn_attrs (door_node (door_confidence_of (pk_doors pk)) d)))"
    and "r \<in> set (pk_rooms pk) \<Longrightarrow> count_list (map fe_room_number (pk_rooms pk)) (fe_room_number r) = 1 \<Longrightarrow>
      \<exists>codes. set codes = room_unresolved (known kg) flinks r \<and>
        kg_find kg (room_id (fe_room_number r)) = Some (with_unresolved codes (gn_attrs (room_node r)))"
proof -
  let ?conf = "door_confidence_of (pk_doors pk)"
  obtain kg0 refs kg1 kg2 kg3 where k:
    "kg1 = add_nodes (map sheet_node (pk_registry pk) @ abbreviation_nodes order (pk_abbrev pk) @ map room_node (pk_rooms pk)) kg0"
    "kg2 = foldl (add_door mlinks ?conf) kg1 (pk_doors pk)"
    "kg3 = foldl (add_room_edges order flinks) kg2 (pk_rooms pk)"
    "kg = foldl (add_references order) kg3 refs"
    and known1: "\<And>n. known kg1 n \<longleftrightarrow> n \<in> listed_nodes pk"
    using assemble_stages[where order = order, OF a order] by metis
  have rooms1: "known kg1 (room_id (fe_room_number r))" if "r \<in> set (pk_rooms pk)" for r
    using that unfolding known1 listed_nodes_def by auto
  then have rooms2: "known kg2 (room_id (fe_room_number r))" if "r \<in> set (pk_rooms pk)" for r
    using that unfolding k(2) add_doors_known by simp
  note rooms = add_rooms_find[where order = order and links = flinks and kg = kg2 and rs = "pk_rooms pk", OF order rooms2, folded k(3)]
  have find: "kg_find kg = kg_find kg3" unfolding k(4) using add_references_spec[where order = order, OF order] by blast
  have "known kg3 = known kg2" unfolding k(3)
    using add_rooms_ekeys[where order = order and links = flinks and kg = kg2 and rs = "pk_rooms pk", OF order rooms2] by blast
  with find_known[OF find] have kn2: "known kg = known kg2" by simp
  have env: "same_refs (known kg1) (known kg)"
    using add_doors_refs[of mlinks ?conf kg1 "pk_doors pk"] unfolding k(2)[symmetric] kn2 same_refs_def by simp
  show "kg_find kg (door_id d) = Some (with_unresolved (door_unresolved (known kg) mlinks d) (gn_attrs (door_node ?conf d)))"
    if "pk_doors pk = xs @ d # ys" "de_mark d \<notin> de_mark ` set ys"
  proof -
    have "door_id d \<notin> room_id ` fe_room_number ` set (pk_rooms pk)" by auto
    then have "kg_find kg (door_id d) = kg_find kg2 (door_id d)" unfolding find using rooms by blast
    moreover have "kg2 = foldl (add_door mlinks ?conf) kg1 (xs @ d # ys)" by (simp only: k(2) that(1))
    ultimately show ?thesis using add_doors_find[OF that(2), of mlinks ?conf kg1 xs] unfolding same_refs_targets(2)[OF env] by simp
  qed
  show "\<exists>codes. set codes = room_unresolved (known kg) flinks r \<and>
      kg_find kg (room_id (fe_room_number r)) = Some (with_unresolved codes (gn_attrs (room_node r)))"
    if r: "r \<in> set (pk_rooms pk)" and once: "count_list (map fe_room_number (pk_rooms pk)) (fe_room_number r) = 1"
  proof -
    let ?rid = "room_id (fe_room_number r)"
    have "count_list (map gn_id (map room_node rs)) ?rid = count_list (map fe_room_number rs) (fe_room_number r)" for rs
      by (induction rs) (simp_all add: room_node_def)
    from find_add_nodes[of "room_node r" "map room_node (pk_rooms pk)"] this[of "pk_rooms pk"] r once
    have "kg_find kg1 ?rid = Some (gn_attrs (room_node r))"
      unfolding k(1) add_nodes_append by (simp add: room_node_def)
    moreover have "kg_find kg2 ?rid = kg_find kg1 ?rid"
      unfolding k(2) by (rule add_doors_other) (use rooms1[OF r] in auto)
    ultimately have "kg_find kg2 ?rid = Some (gn_attrs (room_node r))" by simp
    moreover obtain codes where "set codes = room_unresolved (known kg2) flinks r"
      "kg_find kg3 ?rid = map_option (with_unresolved codes) (kg_find kg2 ?rid)"
      using rooms r once by blast
    ultimately show ?thesis unfolding find kn2 by (intro exI[of _ codes]) simp
  qed
qed

text \<open>C33.  No link a schedule calls for is lost or invented: the edges of a door are exactly, over the rows
  with its mark, its room, its known sheets, and the sections the row's material, frame, hardware and
  glazing resolve to in the graph; and the edges of a room are exactly, over the rows with its number,
  its known sheets and the sections of its finish codes.  The node of a door holds its last row, with the
  material and frame codes of that row that have no such section listed as unresolved (so those of an
  earlier row with the same mark are not listed); the node of a room listed once holds its row, with
  its finish codes that have no section.\<close>

theorem graph_accounts_for_codes:
  assumes "assemble_graph order pk mlinks flinks = Inr kg" and "\<And>xs. set (order xs) = set xs"
  shows "list_all (\<lambda>d. out_keys kg (door_id d) =
      (\<Union>d' \<in> {d' \<in> set (pk_doors pk). de_mark d' = de_mark d}. set (door_targets (known kg) mlinks d'))) (pk_doors pk) \<and>
    (\<forall>xs d ys. pk_doors pk = xs @ d # ys \<and> de_mark d \<notin> de_mark ` set ys \<longrightarrow>
      kg_find kg (door_id d) = Some (with_unresolved (door_unresolved (known kg) mlinks d)
        (gn_attrs (door_node (door_confidence_of (pk_doors pk)) d)))) \<and>
    list_all (\<lambda>r. out_keys kg (room_id (fe_room_number r)) =
      (\<Union>r' \<in> {r' \<in> set (pk_rooms pk). fe_room_number r' = fe_room_number r}. set (room_targets (known kg) flinks r')) \<and>
      (count_list (map fe_room_number (pk_rooms pk)) (fe_room_number r) = 1 \<longrightarrow>
        (\<exists>codes. set codes = room_unresolved (known kg) flinks r \<and>
          kg_find kg (room_id (fe_room_number r)) = Some (with_unresolved codes (gn_attrs (room_node r)))))) (pk_rooms pk)"
proof (intro conjI)
  show "\<forall>xs d ys. pk_doors pk = xs @ d # ys \<and> de_mark d \<notin> de_mark ` set ys \<longrightarrow>
      kg_find kg (door_id d) = Some (with_unresolved (door_unresolved (known kg) mlinks d)
        (gn_attrs (door_node (door_confidence_of (pk_doors pk)) d)))"
    by (intro allI impI, elim conjE) (rule assembled_nodes(1)[where order = order, OF assms])
next
  show "list_all (\<lambda>d. out_keys kg (door_id d) =
      (\<Union>d' \<in> {d' \<in> set (pk_doors pk). de_mark d' = de_mark d}. set (door_targets (known kg) mlinks d'))) (pk_doors pk)"
    unfolding list_all_iff by (intro ballI) (rule door_out[where order = order, OF assms])
next
  show "list_all (\<lambda>r. out_keys kg (room_id (fe_room_number r)) =
      (\<Union>r' \<in> {r' \<in> set (pk_rooms pk). fe_room_number r' = fe_room_number r}. set (room_targets (known kg) flinks r')) \<and>
      (count_list (map fe_room_number (pk_rooms pk)) (fe_room_number r) = 1 \<longrightarrow>
        (\<exists>codes. set codes = room_unresolved (known kg) flinks r \<and>
          kg_find kg (room_id (fe_room_number r)) = Some (with_unresolved codes (gn_attrs (room_node r)))))) (pk_rooms pk)"
    unfolding list_all_iff
    by (intro ballI conjI impI room_out[where order = order, OF assms] assembled_nodes(2)[where order = order, OF assms])
qed

theorem graph_accounts_for_codes_witness:
  "\<exists>kg. assemble_graph id sample_package [(''HM'', link_of (Some ''081113'') 1 DerivedLexical None)] [] = Inr kg \<and>
     kg_find kg ''door:N101A'' = Some (with_unresolved [''XX''] (gn_attrs (door_node (door_confidence_of (pk_doors sample_package)) (sample_door ''N101A'')))) \<and>
     (sid ''081113'', ''DOOR_SPECIFIED_IN'') \<in> out_keys kg ''door:N101A''"
proof -
  let ?ml = "[(''HM'', link_of (Some ''081113'') 1 DerivedLexical None)]"
  obtain kg where kg: "assemble_graph id sample_package ?ml [] = Inr kg" using sample_graph by blast
  have "known kg (sid ''081113'')" using assembled(2)[OF kg]
    by (simp add: package_nodes_def listed_nodes_def toc_sections_def sample_package_def)
  then have res: "resolves (known kg) (link_section ?ml ''HM'') = Some ''081113''" "resolves (known kg) (link_section ?ml ''XX'') = None"
    by (simp_all add: resolves_def link_section_def link_of_def)
  have ds: "pk_doors sample_package = [] @ sample_door ''N101A'' # [sample_door ''N102A'']" by (simp add: sample_package_def)
  have last: "de_mark (sample_door ''N101A'') \<notin> de_mark ` set [sample_door ''N102A'']" by (simp add: sample_door_def)
  have id: "(\<And>xs. set (id xs) = set xs)" by simp
  from graph_accounts_for_codes[OF kg id] have all:
    "list_all (\<lambda>d. out_keys kg (door_id d) =
      (\<Union>d' \<in> {d' \<in> set (pk_doors sample_package). de_mark d' = de_mark d}. set (door_targets (known kg) ?ml d'))) (pk_doors sample_package)"
    "\<And>xs d ys. pk_doors sample_package = xs @ d # ys \<Longrightarrow> de_mark d \<notin> de_mark ` set ys \<Longrightarrow>
      kg_find kg (door_id d) = Some (with_unresolved (door_unresolved (known kg) ?ml d)
        (gn_attrs (door_node (door_confidence_of (pk_doors sample_package)) d)))" by blast+
  have "out_keys kg (door_id (sample_door ''N101A'')) \<supseteq> set (door_targets (known kg) ?ml (sample_door ''N101A''))"
    using all(1) unfolding ds by auto
  moreover note all(2)[OF ds last]
  moreover have "door_unresolved (known kg) ?ml (sample_door ''N101A'') = [''XX'']"
    by (simp add: door_unresolved_def unresolved_material_def res sample_door_def)
  moreover have "(sid ''081113'', ''DOOR_SPECIFIED_IN'') \<in> set (door_targets (known kg) ?ml (sample_door ''N101A''))"
    by (simp add: door_targets_def material_targets_def res sample_door_def)
  moreover have "door_id (sample_door ''N101A'') = ''door:N101A''" by (simp add: door_id_def sample_door_def)
  ultimately show ?thesis using kg by auto
qed

end
