(* ===== verification/Gates.thy ===== *)
theory Gates
  imports GraphBuilder
begin

text \<open>
  The validation gates and domain rules over the graph (\<open>validation/gates.py\<close>,
  \<open>validation/domain_rules.py\<close>) and the report that collects them.  Reading \<open>node_type\<close> or
  \<open>confidence\<close> of a bare node raises, and so does the minimum over no node at all.
\<close>

section \<open>Gates\<close>

record gate =
  gt_name :: string
  gt_passed :: bool
  gt_detail :: string
  gt_metric :: "rat option"

definition gate_of :: "string \<Rightarrow> bool \<Rightarrow> string \<Rightarrow> rat option \<Rightarrow> gate" where
  "gate_of name passed detail metric = \<lparr>gt_name = name, gt_passed = passed, gt_detail = detail, gt_metric = metric\<rparr>"

definition count_gate :: "string \<Rightarrow> nat \<Rightarrow> string \<Rightarrow> gate" where
  "count_gate name n what = gate_of name (n > 0) (show_nat n @ what) (Some (of_nat n))"

definition check_phase2 :: "spec_toc \<Rightarrow> nat \<Rightarrow> nat \<Rightarrow> nat \<Rightarrow> gate list" where
  "check_phase2 toc doors rooms abbrevs =
     [gate_of ''spec_toc_parsed'' (length (st_divisions toc) > 0)
        (show_nat (length (st_divisions toc)) @ '' divisions, '' @ show_nat (st_total toc) @ '' sections'') (Some (of_nat (st_total toc))),
      count_gate ''door_schedule_parsed'' doors '' doors'',
      count_gate ''finish_schedule_parsed'' rooms '' rooms'',
      count_gate ''abbreviations_parsed'' abbrevs '' abbreviations'']"

definition share_text :: "nat \<Rightarrow> nat \<Rightarrow> string" where
  "share_text n whole = show_nat n @ ''/'' @ show_nat whole"

definition check_phase3 :: "sheet_entry list \<Rightarrow> sheet_check list \<Rightarrow> gate list" where
  "check_phase3 registry rows =
     (let disciplines = length (dedup_first id {} (map se_discipline registry)) in
      [count_gate ''sheets_registered'' (length registry) '' sheets'',
       count_gate ''disciplines_identified'' disciplines '' disciplines represented'',
       gate_of ''sample_sheets_classified'' (list_all sk_in_registry rows)
         (share_text (length (filter sk_in_registry rows)) (length rows) @ '' sample sheets in registry'') None,
       gate_of ''sample_page_numbers_verified'' (list_all sk_page_matches rows)
         (share_text (length (filter sk_page_matches rows)) (length rows) @ '' sample page numbers match'') None])"

section \<open>The graph\<close>

definition typed_ids :: "(string \<times> node_attrs) list \<Rightarrow> string \<Rightarrow> string list" where
  "typed_ids ns ty = map fst (filter (\<lambda>(n, a). na_type a = ty) ns)"

definition has_rel :: "kgraph \<Rightarrow> string list \<Rightarrow> string \<Rightarrow> bool" where
  "has_rel kg rels n \<longleftrightarrow> list_ex (\<lambda>(t, r, p). r \<in> set rels) (kg_out kg n)"

text \<open>\<open>_rate\<close>, on the nodes once they are known to have attributes.\<close>

definition resolved_count :: "kgraph \<Rightarrow> (string \<times> node_attrs) list \<Rightarrow> string \<Rightarrow> string list \<Rightarrow> nat \<times> nat" where
  "resolved_count kg ns ty rels = (let ids = typed_ids ns ty in (length (filter (has_rel kg rels) ids), length ids))"

definition rate :: "nat \<times> nat \<Rightarrow> rat" where
  "rate c = (if snd c = 0 then 0 else of_nat (fst c) / of_nat (snd c))"

text \<open>\<open>f"{x:.1%}"\<close> of a value between 0 and 1.\<close>

definition percent_text :: "rat \<Rightarrow> string" where
  "percent_text x = (let n = nat (round_half_even (x * 1000)) in show_nat (n div 10) @ ''.'' @ show_nat (n mod 10) @ ''%'')"

definition door_rels :: "string list" where
  "door_rels = [''DOOR_SPECIFIED_IN'', ''FRAME_SPECIFIED_IN'', ''HARDWARE_SPECIFIED_IN'', ''GLAZING_SPECIFIED_IN'']"

definition rate_gate :: "string \<Rightarrow> nat \<times> nat \<Rightarrow> string \<Rightarrow> gate" where
  "rate_gate name c what = gate_of name (rate c \<ge> 9/10)
     (share_text (fst c) (snd c) @ what @ '' ('' @ percent_text (rate c) @ '')'') (Some (round_dec 3 (rate c)))"

definition isolated :: "kgraph \<Rightarrow> string list \<Rightarrow> string list" where
  "isolated kg ids = filter (\<lambda>n. kg_degree kg n = 0) ids"

definition check_phase5 :: "kgraph \<Rightarrow> exn + gate list" where
  "check_phase5 kg = (case typed_nodes kg of
     Inl e \<Rightarrow> Inl e
   | Inr ns \<Rightarrow>
       (let doors = resolved_count kg ns ''door'' door_rels;
            rooms = resolved_count kg ns ''room'' [''FINISH_SPECIFIED_IN''];
            elements = map fst (filter (\<lambda>(n, a). na_type a \<in> {''door'', ''room''}) ns);
            lonely = isolated kg elements
        in Inr [gate_of ''element_connectivity'' (lonely = [])
             (show_nat (length lonely) @ '' isolated element nodes ('' @ show_nat (length (isolated kg (dict_keys (kg_nodes kg)))) @
              '' isolated nodes total, mostly unreferenced specs/sheets)'') (Some (of_nat (length lonely))),
           rate_gate ''door_to_spec_rate'' doors '' doors resolve to a spec'',
           rate_gate ''room_to_finish_rate'' rooms '' rooms resolve finishes'']))"

section \<open>Confidence\<close>

definition confidence_bucket :: "rat \<Rightarrow> string" where
  "confidence_bucket c = (if c \<ge> 999/1000 then ''1.0'' else if c \<ge> 9/10 then ''0.9-1.0'' else ''<0.9'')"

record confidence_summary =
  cs_min :: rat
  cs_max :: rat
  cs_mean :: rat
  cs_buckets :: "(string, nat) dict"

definition confidence_distribution :: "kgraph \<Rightarrow> exn + confidence_summary" where
  "confidence_distribution kg =
     (if list_ex (\<lambda>(n, a). a = None) (kg_nodes kg) then Inl (Exn ''KeyError'' (py_repr ''confidence''))
      else (let confs = map (\<lambda>(n, a). na_conf (the a)) (kg_nodes kg) in
        if confs = [] then Inl (Exn ''ValueError'' ''min() arg is an empty sequence'')
        else Inr \<lparr>cs_min = round_dec 3 (Min (set confs)), cs_max = round_dec 3 (Max (set confs)),
          cs_mean = round_dec 3 (sum_list confs / of_nat (length confs)), cs_buckets = counter (map confidence_bucket confs)\<rparr>))"

section \<open>Domain rules\<close>

definition json_get :: "args \<Rightarrow> string \<Rightarrow> json" where
  "json_get p k = (case map_of p k of None \<Rightarrow> JNull | Some j \<Rightarrow> j)"

definition graph_doors :: "(string \<times> node_attrs) list \<Rightarrow> args list" where
  "graph_doors ns = map (\<lambda>(n, a). na_props a) (filter (\<lambda>(n, a). na_type a = ''door'') ns)"

definition graph_rooms :: "(string \<times> node_attrs) list \<Rightarrow> args list" where
  "graph_rooms ns = map (\<lambda>(n, a). na_props a)
     (filter (\<lambda>(n, a). na_type a = ''room'' \<and> \<not> json_truthy (json_get (na_props a) ''derived'')) ns)"

text \<open>The builder writes the hardware set as a text; it alone has the \<open>upper\<close> the rule calls.\<close>

definition has_hardware :: "args \<Rightarrow> bool" where
  "has_hardware p \<longleftrightarrow> (case json_get p ''hardware_set'' of JStr s \<Rightarrow> s \<noteq> '''' \<and> py_upper s \<noteq> ''N/A'' | _ \<Rightarrow> False)"

definition rule_gate :: "string \<Rightarrow> (args \<Rightarrow> bool) \<Rightarrow> args list \<Rightarrow> string \<Rightarrow> gate" where
  "rule_gate name P es what = rate_gate name (length (filter P es), length es) what"

definition check_domain_rules :: "kgraph \<Rightarrow> exn + gate list" where
  "check_domain_rules kg = (case typed_nodes kg of
     Inl e \<Rightarrow> Inl e
   | Inr ns \<Rightarrow>
       (let doors = graph_doors ns; rooms = graph_rooms ns in Inr (
          (if doors = [] then [] else
            [rule_gate ''doors_have_hardware_set'' has_hardware doors '' doors have a hardware set'',
             rule_gate ''doors_have_frame_material'' (\<lambda>p. json_truthy (json_get p ''frame_material'')) doors '' doors specify a frame material'']) @
          (if rooms = [] then [] else
            [rule_gate ''rooms_have_floor_finish'' (\<lambda>p. json_truthy (json_get p ''floor'')) rooms '' rooms have a floor finish'']))))"

section \<open>The report\<close>

record validation_report =
  vr_passed :: bool
  vr_gates :: "(string \<times> gate) list"
  vr_stats :: graph_stats
  vr_door_rate :: rat
  vr_room_rate :: rat
  vr_orphan_doors :: "string list"
  vr_orphan_spec_count :: nat
  vr_orphan_spec_sample :: "string list"
  vr_missing :: "(string \<times> string \<times> json) list"
  vr_confidence :: confidence_summary

definition build_report :: "kgraph \<Rightarrow> spec_toc \<Rightarrow> sheet_entry list \<Rightarrow> nat \<Rightarrow> nat \<Rightarrow> nat \<Rightarrow> sheet_check list \<Rightarrow> exn + validation_report" where
  "build_report kg toc registry doors rooms abbrevs rows =
     (case check_phase5 kg of Inl e \<Rightarrow> Inl e | Inr p5 \<Rightarrow>
      (case check_domain_rules kg of Inl e \<Rightarrow> Inl e | Inr rules \<Rightarrow>
      (case typed_nodes kg of Inl e \<Rightarrow> Inl e | Inr ns \<Rightarrow>
      (case kg_stats kg of Inl e \<Rightarrow> Inl e | Inr stats \<Rightarrow>
      (case confidence_distribution kg of Inl e \<Rightarrow> Inl e | Inr conf \<Rightarrow>
         (let gates = map (Pair ''phase2'') (check_phase2 toc doors rooms abbrevs) @
                map (Pair ''phase3'') (check_phase3 registry rows) @ map (Pair ''phase5'') p5 @ map (Pair ''domain'') rules;
              orphans = find_orphan_specs kg
          in Inr \<lparr>vr_passed = list_all (\<lambda>(p, g). gt_passed g) gates, vr_gates = gates, vr_stats = stats,
            vr_door_rate = round_dec 3 (rate (resolved_count kg ns ''door'' door_rels)),
            vr_room_rate = round_dec 3 (rate (resolved_count kg ns ''room'' [''FINISH_SPECIFIED_IN''])),
            vr_orphan_doors = find_orphan_doors kg, vr_orphan_spec_count = length orphans,
            vr_orphan_spec_sample = take 10 orphans, vr_missing = find_missing_connections kg, vr_confidence = conf\<rparr>))))))"

text \<open>
  \<open>run_all\<close>: the parsed package, the title blocks of the sample pages, the graph, the report.  It
  parses what the graph builder parses but the applied finish list, whose page was read for the
  rooms by then, so that list cannot raise.
\<close>

definition sheet_words :: "pdf_tools \<Rightarrow> string \<Rightarrow> int \<Rightarrow> exn + word list" where
  "sheet_words pt drawings i = (case pt_pages pt drawings of
     Inl e \<Rightarrow> Inl e
   | Inr pages \<Rightarrow> (case page_at pages i of Inl e \<Rightarrow> Inl e | Inr p \<Rightarrow> Inr (pv_words p)))"

definition abbreviation_count :: "pdf_tools \<Rightarrow> string \<Rightarrow> extraction_hints \<Rightarrow> exn + nat" where
  "abbreviation_count pt drawings pg =
     on_page (pt_pages pt) drawings (eh_abbreviations pg) 0 (\<lambda>p. Inr (length (parse_abbreviations (pv_words p))))"

definition run_all :: "pdf_tools \<Rightarrow> (json \<Rightarrow> exn + rat) \<Rightarrow> (string list \<Rightarrow> string list) \<Rightarrow> string \<Rightarrow> string \<Rightarrow>
    document_map option \<Rightarrow> 'w \<Rightarrow> (exn + validation_report) \<times> 'w" where
  "run_all pt to_float order manual drawings dm w =
     (case package_map pt manual drawings dm of Inl e \<Rightarrow> (Inl e, w) | Inr d \<Rightarrow>
      (case parse_package (pt_pages pt) manual drawings (extraction_pages d) of Inl e \<Rightarrow> (Inl e, w) | Inr pk \<Rightarrow>
      (case abbreviation_count pt drawings (extraction_pages d) of Inl e \<Rightarrow> (Inl e, w) | Inr n \<Rightarrow>
      (case classify_sheets (sheet_words pt drawings) sample_page_indices of Inl e \<Rightarrow> (Inl e, w) | Inr md \<Rightarrow>
      (case build_graph pt to_float None order manual drawings (Some d) w of
         (Inl e, w') \<Rightarrow> (Inl e, w')
       | (Inr kg, w') \<Rightarrow> (build_report kg (pk_toc pk) (pk_registry pk) (length (pk_doors pk)) (length (pk_rooms pk)) n
            (reconcile_sheets md (pk_registry pk)), w'))))))"

section \<open>Reports on assembled graphs\<close>

lemma typed_nodes_known:
  assumes "graph_ok {} kg"
  shows "typed_nodes kg = Inr (map (\<lambda>(n, a). (n, the a)) (kg_nodes kg))"
    "\<And>n a. (n, a) \<in> set (kg_nodes kg) \<Longrightarrow> kg_find kg n = a \<and> a \<noteq> None"
proof -
  show f: "kg_find kg n = a \<and> a \<noteq> None" if "(n, a) \<in> set (kg_nodes kg)" for n a
  proof -
    have "kg_has kg n" using that by (force simp: kg_has_def)
    moreover have "kg_find kg n = a" using that assms by (simp add: kg_find_def graph_ok_def split: option.split)
    ultimately show ?thesis using assms unfolding graph_ok_def known_def by (metis empty_iff)
  qed
  show "typed_nodes kg = Inr (map (\<lambda>(n, a). (n, the a)) (kg_nodes kg))"
    using f by (auto simp: typed_nodes_def list_ex_iff)
qed

lemma typed_ids_kind:
  assumes ok: "graph_ok {} kg" and ty: "\<And>k. type_of_kind k = ty \<longleftrightarrow> k = kind"
  shows "distinct (typed_ids (map (\<lambda>(n, a). (n, the a)) (kg_nodes kg)) ty)"
    "n \<in> set (typed_ids (map (\<lambda>(n, a). (n, the a)) (kg_nodes kg)) ty) \<longleftrightarrow> known kg n \<and> node_kind n = kind"
proof -
  have "typed_ids (map (\<lambda>(n, a). (n, the a)) ns) ty = map fst (filter (\<lambda>(n, a). na_type (the a) = ty) ns)" for ns
    by (induction ns) (auto simp: typed_ids_def)
  note eq = this[of "kg_nodes kg"]
  show "distinct (typed_ids (map (\<lambda>(n, a). (n, the a)) (kg_nodes kg)) ty)"
    unfolding eq using ok by (simp add: graph_ok_def distinct_map_filter_pred)
  show "n \<in> set (typed_ids (map (\<lambda>(n, a). (n, the a)) (kg_nodes kg)) ty) \<longleftrightarrow> known kg n \<and> node_kind n = kind"
  proof
    assume "n \<in> set (typed_ids (map (\<lambda>(n, a). (n, the a)) (kg_nodes kg)) ty)"
    then obtain a where a: "(n, a) \<in> set (kg_nodes kg)" "na_type (the a) = ty" unfolding eq by auto
    from typed_nodes_known(2)[OF ok a(1)] a(2) obtain x where "kg_find kg n = Some x" "na_type x = ty" by (cases a) simp_all
    moreover from this have "na_type x = type_of_kind (node_kind n)" using ok unfolding graph_ok_def by blast
    ultimately show "known kg n \<and> node_kind n = kind" using ty by (simp add: known_def del: not_known)
  next
    assume n: "known kg n \<and> node_kind n = kind"
    then obtain x where x: "kg_find kg n = Some x" by (auto simp: known_def simp del: not_known)
    then have "na_type x = type_of_kind (node_kind n)" using ok unfolding graph_ok_def by blast
    then have "na_type x = ty" using n ty[of kind] by simp
    moreover have "map_of (kg_nodes kg) n = Some (Some x)" using x unfolding kg_find_def by (simp split: option.splits)
    then have "(n, Some x) \<in> set (kg_nodes kg)" by (rule map_of_SomeD)
    ultimately have "(n, Some x) \<in> set (filter (\<lambda>(n, a). na_type (the a) = ty) (kg_nodes kg))" by simp
    from imageI[OF this, of fst] show "n \<in> set (typed_ids (map (\<lambda>(n, a). (n, the a)) (kg_nodes kg)) ty)"
      unfolding eq set_map fst_conv .
  qed
qed

lemma length_filter_image:
  assumes "distinct xs" "distinct (map f ys)" "set xs = f ` set ys"
  shows "length (filter P xs) = length (filter (P \<circ> f) ys)"
proof -
  have d: "distinct ys" "inj_on f (set ys)" using assms(2) by (simp_all add: distinct_map)
  have "length (filter P xs) = card {x \<in> f ` set ys. P x}"
    using assms(1,3) distinct_card[of "filter P xs"] by simp
  also have "{x \<in> f ` set ys. P x} = f ` {y \<in> set ys. P (f y)}" by auto
  also have "card \<dots> = card {y \<in> set ys. P (f y)}" by (rule card_image) (rule inj_on_subset[OF d(2)], blast)
  also have "\<dots> = length (filter (P \<circ> f) ys)" using distinct_card[of "filter (P \<circ> f) ys"] d(1) by simp
  finally show ?thesis .
qed

definition has_spec :: "(string \<Rightarrow> bool) \<Rightarrow> (string, section_link) dict \<Rightarrow> door_entry \<Rightarrow> bool" where
  "has_spec env links d \<longleftrightarrow> list_ex (\<lambda>(t, r). r \<in> set door_rels) (door_targets env links d)"

text \<open>The doors the rate counts as resolved are the rows with a specification edge.\<close>

lemma resolved_doors:
  assumes a: "assemble_graph order pk mlinks flinks = Inr kg" "\<And>xs. set (order xs) = set xs"
    and ok: "graph_ok {} kg" and d: "distinct (map de_mark (pk_doors pk))"
  shows "resolved_count kg (map (\<lambda>(n, a). (n, the a)) (kg_nodes kg)) ''door'' door_rels =
    (length (filter (has_spec (known kg) mlinks) (pk_doors pk)), length (pk_doors pk))"
proof -
  let ?ids = "typed_ids (map (\<lambda>(n, a). (n, the a)) (kg_nodes kg)) ''door''"
  have ty: "type_of_kind k = ''door'' \<longleftrightarrow> k = ''door''" for k by (simp add: type_of_kind_def)
  note ids = typed_ids_kind[OF ok ty]
  have "set ?ids = door_id ` set (pk_doors pk)"
  proof (intro equalityI subsetI)
    fix n assume "n \<in> set ?ids"
    then show "n \<in> door_id ` set (pk_doors pk)"
      unfolding ids(2) assembled(2)[where order = order, OF a] using door_kind_door by blast
  next
    fix n assume "n \<in> door_id ` set (pk_doors pk)"
    then show "n \<in> set ?ids" unfolding ids(2) assembled(2)[where order = order, OF a] package_nodes_def by auto
  qed
  moreover have "distinct (map door_id (pk_doors pk))" using d by (simp add: distinct_map inj_on_def)
  ultimately have len: "length (filter P ?ids) = length (filter (P \<circ> door_id) (pk_doors pk))" for P
    by (intro length_filter_image ids(1))
  have "has_rel kg door_rels (door_id x) = has_spec (known kg) mlinks x" if x: "x \<in> set (pk_doors pk)" for x
  proof -
    have "{y \<in> set (pk_doors pk). de_mark y = de_mark x} = {x}" using d x by (auto simp: distinct_map inj_on_def)
    with door_out[where order = order, OF a x] have o: "out_keys kg (door_id x) = set (door_targets (known kg) mlinks x)" by simp
    show ?thesis unfolding has_spec_def list_ex_iff o[symmetric] by (simp add: has_rel_def out_keys_def list_ex_iff case_prod_unfold)
  qed
  then have "filter (has_rel kg door_rels \<circ> door_id) (pk_doors pk) = filter (has_spec (known kg) mlinks) (pk_doors pk)"
    by (simp cong: filter_cong)
  with len[of "has_rel kg door_rels"] len[of "\<lambda>_. True"] show ?thesis by (simp add: resolved_count_def Let_def)
qed

text \<open>C35.  For a package whose trace sections are listed and that has doors, with distinct marks, the report never raises, and its
  verdict can be trusted: when all gates pass, there are divisions, rooms, sheets and abbreviations, every
  sampled sheet is registered under its page, at least nine in ten rows of the door schedule have an edge to
  a specification section, and no room of the finish schedule is isolated.\<close>

theorem report_verdict_is_sound:
  assumes a: "assemble_graph order pk mlinks flinks = Inr kg" "\<And>xs. set (order xs) = set xs"
    and listed: "unlisted pk = {}" and d: "distinct (map de_mark (pk_doors pk))" "pk_doors pk \<noteq> []"
  shows "\<exists>rep. build_report kg (pk_toc pk) (pk_registry pk) (length (pk_doors pk)) (length (pk_rooms pk)) n rows = Inr rep \<and>
    vr_orphan_doors rep = [] \<and>
    (vr_passed rep \<longrightarrow> st_divisions (pk_toc pk) \<noteq> [] \<and> pk_rooms pk \<noteq> [] \<and> pk_registry pk \<noteq> [] \<and> 0 < n \<and>
       list_all (\<lambda>c. sk_in_registry c \<and> sk_page_matches c) rows \<and>
       9 * length (pk_doors pk) \<le> 10 * length (filter (has_spec (known kg) mlinks) (pk_doors pk)) \<and>
       list_all (\<lambda>r. kg_degree kg (room_id (fe_room_number r)) \<noteq> 0) (pk_rooms pk))"
proof -
  let ?ns = "map (\<lambda>(n, a). (n, the a)) (kg_nodes kg)"
  have ok: "graph_ok {} kg" using assembled(1)[where order = order, OF a] listed by simp
  note nodes = typed_nodes_known[OF ok]
  have kn: "known kg n \<longleftrightarrow> n \<in> package_nodes pk" for n by (rule assembled(2)[where order = order, OF a])
  from d(2) have "known kg (door_id (hd (pk_doors pk)))" unfolding kn package_nodes_def by simp
  then have ne: "kg_nodes kg \<noteq> []" by (auto simp: known_def kg_find_def)
  obtain st where st: "kg_stats kg = Inr st" by (simp add: kg_stats_def nodes(1))
  have "\<not> list_ex (\<lambda>(n, a). a = None) (kg_nodes kg)" using nodes(2) by (auto simp: list_ex_iff)
  then obtain cs where cs: "confidence_distribution kg = Inr cs" using ne by (simp add: confidence_distribution_def Let_def)
  obtain rules where rules: "check_domain_rules kg = Inr rules" by (simp add: check_domain_rules_def nodes(1) Let_def)
  obtain p5 where p5: "check_phase5 kg = Inr p5" by (simp add: check_phase5_def nodes(1) Let_def)
  obtain rep where rep: "build_report kg (pk_toc pk) (pk_registry pk) (length (pk_doors pk)) (length (pk_rooms pk)) n rows = Inr rep"
    and orphans: "vr_orphan_doors rep = find_orphan_doors kg"
    and passed: "vr_passed rep \<longleftrightarrow> list_all gt_passed (check_phase2 (pk_toc pk) (length (pk_doors pk)) (length (pk_rooms pk)) n @
        check_phase3 (pk_registry pk) rows @ p5 @ rules)"
    by (simp add: build_report_def p5 rules nodes(1) st cs Let_def list.pred_map comp_def list_all_append)
  show ?thesis
  proof (intro exI[of _ rep] conjI impI)
    show "build_report kg (pk_toc pk) (pk_registry pk) (length (pk_doors pk)) (length (pk_rooms pk)) n rows = Inr rep" by (rule rep)
    show "vr_orphan_doors rep = []" using orphans graph_has_no_orphans[where order = order, OF a] by simp
    assume "vr_passed rep"
    then have p: "list_all gt_passed (check_phase2 (pk_toc pk) (length (pk_doors pk)) (length (pk_rooms pk)) n)"
      "list_all gt_passed (check_phase3 (pk_registry pk) rows)" "list_all gt_passed p5" by (simp_all add: passed)
    from p(1) show "st_divisions (pk_toc pk) \<noteq> []" "pk_rooms pk \<noteq> []" "0 < n"
      by (simp_all add: check_phase2_def gate_of_def count_gate_def)
    from p(2) show "pk_registry pk \<noteq> []" by (simp add: check_phase3_def gate_of_def count_gate_def Let_def)
    from p(2) show "list_all (\<lambda>c. sk_in_registry c \<and> sk_page_matches c) rows"
      by (simp add: check_phase3_def gate_of_def count_gate_def Let_def list_all_iff)
    from p(3) p5 have g: "rate (resolved_count kg ?ns ''door'' door_rels) \<ge> 9/10"
      and lonely: "isolated kg (map fst (filter (\<lambda>(n, a). na_type a \<in> {''door'', ''room''}) ?ns)) = []"
      by (auto simp: check_phase5_def nodes(1) Let_def gate_of_def rate_gate_def)
    from d(2) have pos: "0 < length (pk_doors pk)" by simp
    show "9 * length (pk_doors pk) \<le> 10 * length (filter (has_spec (known kg) mlinks) (pk_doors pk))"
    proof -
      have "9 * of_nat (length (pk_doors pk)) \<le> (10 * of_nat (length (filter (has_spec (known kg) mlinks) (pk_doors pk))) :: rat)"
        using g pos unfolding resolved_doors[OF a ok d(1)] rate_def by (simp add: field_simps)
      then have "(of_nat (9 * length (pk_doors pk)) :: rat) \<le> of_nat (10 * length (filter (has_spec (known kg) mlinks) (pk_doors pk)))" by simp
      then show ?thesis by (simp only: of_nat_le_iff)
    qed
    show "list_all (\<lambda>r. kg_degree kg (room_id (fe_room_number r)) \<noteq> 0) (pk_rooms pk)"
      unfolding list_all_iff
    proof
      fix r assume r: "r \<in> set (pk_rooms pk)"
      let ?rid = "room_id (fe_room_number r)"
      have "known kg ?rid" using r unfolding kn package_nodes_def listed_nodes_def by auto
      then have "?rid \<in> set (typed_ids ?ns ''room'')" using typed_ids_kind(2)[OF ok, of "''room''" "''room''"] by (simp add: type_of_kind_def)
      then have "?rid \<in> set (map fst (filter (\<lambda>(n, a). na_type a \<in> {''door'', ''room''}) ?ns))" by (auto simp: typed_ids_def)
      with lonely show "kg_degree kg ?rid \<noteq> 0" unfolding isolated_def filter_empty_conv by blast
    qed
  qed
qed

text \<open>The sample package with the other two trace sections listed.\<close>

definition listed_package :: parsed_package where
  "listed_package = sample_package\<lparr>pk_toc := \<lparr>st_divisions = [\<lparr>dv_number = ''08'', dv_title = ''OPENINGS'',
     dv_sections = [(''081113'', ''DOORS''), (''081416'', ''WOOD DOORS''), (''087100'', ''HARDWARE'')], dv_applicable = True\<rparr>], st_total = 3\<rparr>\<rparr>"

theorem report_verdict_is_sound_witness:
  "\<exists>kg rep. assemble_graph id listed_package [] [] = Inr kg \<and>
     build_report kg (pk_toc listed_package) [] 2 1 0 [] = Inr rep \<and> vr_orphan_doors rep = [] \<and> \<not> vr_passed rep"
proof -
  obtain kg where kg: "assemble_graph id listed_package [] [] = Inr kg"
    using sample_graph_toc unfolding listed_package_def by blast
  have "unlisted listed_package = {}" "distinct (map de_mark (pk_doors listed_package))" "pk_doors listed_package \<noteq> []"
    "pk_registry listed_package = []" "length (pk_doors listed_package) = 2" "length (pk_rooms listed_package) = 1"
    by (auto simp: unlisted_def trace_sections_def listed_package_def toc_sections_def sample_package_def sample_door_def)
  with report_verdict_is_sound[OF kg, of 0 "[]"] kg show ?thesis by auto
qed

end
