(* ===== verification/BidStructure.thy ===== *)
theory BidStructure
  imports KnowledgeGraph
begin

text \<open>
  The bid structure of the project manual (\<open>pipeline/bid_structure.py\<close>): alternates, unit prices and
  allowances read from the Division 01 pricing sections.  A document is the list of its page texts.
\<close>

section \<open>Sections\<close>

text \<open>\<open>SECTION\s+(\d{6})\s*[-\<close> or an en dash, the latter as its UTF-8 bytes.\<close>

definition bid_header_re :: rx where
  "bid_header_re = cats [lit ''SECTION'', spaces1, Grp 1 (times 6 6 digit), spaces,
     alts [lit ''-'', lit [CHR 0xE2, CHR 0x80, CHR 0x93]]]"

definition head_of :: "string \<Rightarrow> string" where
  "head_of text = py_upper (py_join '' '' (take 8 (filter (\<lambda>l. l \<noteq> '''') (map py_strip (splitlines text)))))"

definition header_number :: "string \<Rightarrow> string option" where
  "header_number head = map_option (\<lambda>m. group 1 (rm_state m)) (re_search bid_header_re head)"

fun body_pages :: "string \<Rightarrow> bool \<Rightarrow> string list \<Rightarrow> string list" where
  "body_pages num first [] = []"
| "body_pages num first (t # ts) =
     (if \<not> first \<and> (case header_number (head_of t) of None \<Rightarrow> False | Some n \<Rightarrow> n \<noteq> num) then []
      else t # body_pages num False ts)"

definition section_body :: "string list \<Rightarrow> nat \<Rightarrow> string \<Rightarrow> nat \<Rightarrow> string" where
  "section_body pages start num max_pages = py_join newline (body_pages num True (take max_pages (drop start pages)))"

definition locate_step :: "string list \<Rightarrow> string list \<Rightarrow> (string, nat) dict \<Rightarrow> nat \<Rightarrow> (string, nat) dict" where
  "locate_step pages wanted starts i = (let head = head_of (pages ! i) in
     if py_contains head ''TABLE OF CONTENTS'' then starts
     else (case header_number head of
        None \<Rightarrow> starts
      | Some n \<Rightarrow> if n \<in> set wanted \<and> n \<notin> set (dict_keys starts) then dict_set starts n i else starts))"

definition locate_sections :: "string list \<Rightarrow> string list \<Rightarrow> (string, nat) dict" where
  "locate_sections pages wanted = foldl (locate_step pages wanted) [] [0..<length pages]"

definition section_text :: "string list \<Rightarrow> string \<Rightarrow> nat \<Rightarrow> (string \<times> nat) option" where
  "section_text pages num max_pages = (case map_of (locate_sections pages [num]) num of
     None \<Rightarrow> None
   | Some s \<Rightarrow> Some (section_body pages s num max_pages, s + 1))"

section \<open>Items\<close>

record bid_item =
  bi_kind :: string
  bi_number :: string
  bi_title :: string
  bi_basis :: string
  bi_description :: string
  bi_unit :: "string option"
  bi_source :: args

text \<open>\<open>WORD\s+No\.?\s*(\d+)\s*:\s*([^\n]+)\<close> and \<open>LABEL\s*:\s*([^\n]+)\<close>, both under \<open>re.I\<close>\<close>

definition item_re :: "string \<Rightarrow> rx" where
  "item_re word = cats [lit_i word, spaces1, lit_i ''No'', opt (lit ''.''), spaces, Grp 1 (Many True 1 is_digit),
     spaces, lit '':'', spaces, Grp 2 (Many True 1 any_char)]"

definition field_line_re :: "string \<Rightarrow> rx" where
  "field_line_re label = cats [lit_i label, spaces, lit '':'', spaces, Grp 1 (Many True 1 any_char)]"

definition alternate_re :: rx where "alternate_re = item_re ''Alternate''"
definition unit_price_re :: rx where "unit_price_re = item_re ''Unit Price''"
definition allowance_re :: rx where "allowance_re = item_re ''Allowance''"
definition base_bid_re :: rx where "base_bid_re = field_line_re ''Base Bid''"
definition description_re :: rx where "description_re = field_line_re ''Description''"
definition unit_re :: rx where "unit_re = field_line_re ''Unit of Measurement''"

definition deduct_re :: rx where
  "deduct_re = cats [lit_i ''Deductive'', spaces1, lit_i ''Alternate'']"

definition add_re :: rx where
  "add_re = cats [lit_i ''Add'', opt (Grp 1 (lit_i ''itive'')), spaces1, lit_i ''Alternate'']"

fun item_spans :: "rx_match list \<Rightarrow> string \<Rightarrow> (rx_match \<times> string) list" where
  "item_spans [] text = []"
| "item_spans (m # ms) text =
     (m, take ((case ms of [] \<Rightarrow> length text | n # _ \<Rightarrow> rm_start n) - rm_end m) (drop (rm_end m) text)) # item_spans ms text"

definition clean_text :: "string \<Rightarrow> string" where
  "clean_text s = py_strip (re_sub spaces1 '' '' s)"

definition item_number :: "rx_match \<Rightarrow> string" where
  "item_number m = group 1 (rm_state m)"

definition item_title :: "rx_match \<Rightarrow> string" where
  "item_title m = rstrip_chars ''.'' (py_strip (group 2 (rm_state m)))"

definition field_text :: "rx \<Rightarrow> string \<Rightarrow> string option" where
  "field_text r body = map_option (\<lambda>m. clean_text (group 1 (rm_state m))) (re_search r body)"

definition field_300 :: "rx \<Rightarrow> string \<Rightarrow> string" where
  "field_300 r body = (case field_text r body of None \<Rightarrow> '''' | Some t \<Rightarrow> take 300 t)"

definition alternate_item :: "args \<Rightarrow> rx_match \<times> string \<Rightarrow> bid_item" where
  "alternate_item src = (\<lambda>(m, body). \<lparr>bi_kind = ''alternate'', bi_number = item_number m, bi_title = item_title m,
     bi_basis = (if re_search deduct_re body \<noteq> None then ''deduct'' else if re_search add_re body \<noteq> None then ''add'' else ''unknown''),
     bi_description = field_300 base_bid_re body, bi_unit = None, bi_source = src\<rparr>)"

definition unit_price_item :: "args \<Rightarrow> rx_match \<times> string \<Rightarrow> bid_item" where
  "unit_price_item src = (\<lambda>(m, body). \<lparr>bi_kind = ''unit_price'', bi_number = item_number m, bi_title = item_title m,
     bi_basis = ''unit'', bi_description = field_300 description_re body,
     bi_unit = map_option (rstrip_chars ''.'') (field_text unit_re body), bi_source = src\<rparr>)"

definition allowance_item :: "args \<Rightarrow> rx_match \<times> string \<Rightarrow> bid_item" where
  "allowance_item src = (\<lambda>(m, body). \<lparr>bi_kind = ''allowance'', bi_number = item_number m, bi_title = item_title m,
     bi_basis = ''lump_sum'', bi_description = field_300 description_re body, bi_unit = None, bi_source = src\<rparr>)"

definition parse_alternates :: "string \<Rightarrow> args \<Rightarrow> bid_item list" where
  "parse_alternates text src = map (alternate_item src) (item_spans (finditer alternate_re text) text)"

definition parse_unit_prices :: "string \<Rightarrow> args \<Rightarrow> bid_item list" where
  "parse_unit_prices text src = map (unit_price_item src) (item_spans (finditer unit_price_re text) text)"

definition parse_allowances :: "string \<Rightarrow> args \<Rightarrow> bid_item list" where
  "parse_allowances text src = map (allowance_item src) (item_spans (finditer allowance_re text) text)"

section \<open>The whole structure\<close>

definition bid_registry :: "(string \<times> string \<times> (string \<Rightarrow> args \<Rightarrow> bid_item list)) list" where
  "bid_registry = [(''012300'', ''alternate'', parse_alternates), (''012200'', ''unit_price'', parse_unit_prices),
     (''012100'', ''allowance'', parse_allowances)]"

definition bid_source :: "string \<Rightarrow> nat \<Rightarrow> string \<Rightarrow> args" where
  "bid_source fid s num = [(''file_id'', JStr fid), (''page'', JInt (int s + 1)), (''section'', JStr num)]"

definition extract_kind :: "string \<Rightarrow> string list \<Rightarrow> (string, nat) dict \<Rightarrow> bid_item list \<times> (string, string) dict \<Rightarrow>
    string \<times> string \<times> (string \<Rightarrow> args \<Rightarrow> bid_item list) \<Rightarrow> bid_item list \<times> (string, string) dict" where
  "extract_kind fid pages starts acc entry = (case entry of (num, kind, parser) \<Rightarrow>
     (case map_of starts num of
        Some s \<Rightarrow> (fst acc @ parser (section_body pages s num 6) (bid_source fid s num), dict_set (snd acc) kind ''found'')
      | None \<Rightarrow> (fst acc, dict_set (snd acc) kind ''absent'')))"

definition extract_bid_structure :: "string \<Rightarrow> string list \<Rightarrow> bid_item list \<times> (string, string) dict" where
  "extract_bid_structure fid pages =
     (let starts = locate_sections pages (map fst bid_registry) in foldl (extract_kind fid pages starts) ([], []) bid_registry)"

record bid_summary =
  bs_located :: "(string, string) dict"
  bs_counts :: "(string, nat) dict"
  bs_total :: nat

definition summarize_bids :: "bid_item list \<Rightarrow> (string, string) dict \<Rightarrow> bid_summary" where
  "summarize_bids items located = \<lparr>bs_located = located, bs_counts = counter (map bi_kind items), bs_total = length items\<rparr>"

definition build_bid_structure :: "string \<Rightarrow> string list \<Rightarrow> bid_summary \<times> bid_item list" where
  "build_bid_structure fid pages = (case extract_bid_structure fid pages of (items, located) \<Rightarrow>
     (summarize_bids items located, items))"

section \<open>What is located\<close>

text \<open>The page where a section starts: the first outside the table of contents whose head names it.\<close>

definition page_section :: "string \<Rightarrow> string option" where
  "page_section text = (let head = head_of text in
     if py_contains head ''TABLE OF CONTENTS'' then None else header_number head)"

definition bid_start :: "string list \<Rightarrow> string \<Rightarrow> nat option" where
  "bid_start pages num = find (\<lambda>i. page_section (pages ! i) = Some num) [0..<length pages]"

lemma locate_fold:
  "num \<in> set wanted \<Longrightarrow> map_of (foldl (locate_step pages wanted) starts is) num =
     (case map_of starts num of Some i \<Rightarrow> Some i | None \<Rightarrow> find (\<lambda>i. page_section (pages ! i) = Some num) is)"
proof (induction "is" arbitrary: starts)
  case (Cons i "is")
  let ?s = "locate_step pages wanted starts i"
  have keys: "num \<notin> set (dict_keys starts) \<longleftrightarrow> map_of starts num = None" by (simp add: map_of_eq_None_iff)
  have "map_of ?s num = (case map_of starts num of Some j \<Rightarrow> Some j
      | None \<Rightarrow> if page_section (pages ! i) = Some num then Some i else None)"
    using Cons.prems keys by (auto simp: locate_step_def page_section_def Let_def split: option.split)
  then show ?case using Cons.IH[OF Cons.prems, of ?s] by (simp split: option.split)
qed (simp split: option.split)

lemma locate_sections_start: "num \<in> set wanted \<Longrightarrow> map_of (locate_sections pages wanted) num = bid_start pages num"
  by (simp add: locate_sections_def locate_fold bid_start_def)

section \<open>What an item is\<close>

lemma outcomes_Grp_Many: "t \<in> set (outcomes (Grp i (Many g lo P)) s) \<Longrightarrow> list_all P (group i t) \<and> lo \<le> length (group i t)"
proof -
  assume "t \<in> set (outcomes (Grp i (Many g lo P)) s)"
  then obtain k where k: "lo \<le> k" "k \<le> length (takeWhile P (rs_ahead s))"
    "t = (advance k s)\<lparr>rs_groups := dict_set (rs_groups (advance k s)) i (consumed s (advance k s))\<rparr>"
    by (auto simp: Let_def less_Suc_eq_le split: if_splits)
  have "k \<le> length (rs_ahead s)" using k(2) length_takeWhile_le order_trans by blast
  then have g: "group i t = take k (rs_ahead s)" by (simp add: k(3) group_def consumed_def advance_def)
  have "take k (rs_ahead s) = take k (takeWhile P (rs_ahead s))" using k(2) by (metis takeWhile_eq_take take_take min.absorb1)
  then have "set (group i t) \<subseteq> set (takeWhile P (rs_ahead s))" using g by (metis set_take_subset)
  then have "list_all P (group i t)" by (auto simp: list_all_iff dest: set_takeWhileD)
  with g k(1) \<open>k \<le> length (rs_ahead s)\<close> show ?thesis by simp
qed

lemma item_groups:
  assumes "t \<in> set (outcomes (item_re word) s)"
  shows "list_all is_digit (group 1 t) \<and> group 1 t \<noteq> '''' \<and> list_all any_char (group 2 t)"
proof -
  let ?tail = "cats [spaces, lit '':'', spaces, Grp 2 (Many True 1 any_char)]"
  from assms obtain u v where u: "v \<in> set (outcomes (Grp 1 (Many True 1 is_digit)) u)" "t \<in> set (outcomes ?tail v)"
    unfolding item_re_def cats.simps in_Cat by blast
  from u(2) obtain w where w: "t \<in> set (outcomes (Grp 2 (Many True 1 any_char)) w)" unfolding cats.simps in_Cat by blast
  have "group 1 t = group 1 v" by (rule outcomes_keep_group[OF u(2)]) simp
  with outcomes_Grp_Many[OF u(1)] outcomes_Grp_Many[OF w] show ?thesis by auto
qed

lemma search_from_in: "search_from r s i = Some m \<Longrightarrow> \<exists>s'. rm_state m \<in> set (outcomes r s')"
proof -
  assume "search_from r s i = Some m"
  then obtain j where "search_at r s j = Some m" unfolding search_from_def using first_in in_map_filter by metis
  then obtain t where "first_of (outcomes r (advance j (rx_start s))) = Some t" "rm_state m = t"
    by (auto simp: search_at_def split: option.splits)
  then have "rm_state m \<in> set (outcomes r (advance j (rx_start s)))" by (auto dest: first_in)
  then show ?thesis ..
qed

lemma finditer_in: "m \<in> set (finditer_from r s i) \<Longrightarrow> \<exists>s'. rm_state m \<in> set (outcomes r s')"
proof (induction r s i rule: finditer_from.induct)
  case (1 r s i)
  show ?case
  proof (cases "search_from r s i")
    case None
    then show ?thesis using 1(2) by (subst (asm) finditer_from.simps) (simp split: if_splits)
  next
    case (Some m')
    with 1(2) have "\<not> length s < i" "m = m' \<or> m \<in> set (finditer_from r s (max (Suc i) (max (rm_end m') (Suc (rm_start m')))))"
      by (subst (asm) finditer_from.simps, simp split: if_splits)+
    then show ?thesis using "1.IH"[OF _ Some] search_from_in[OF Some] by blast
  qed
qed

lemma in_item_spans: "(m, b) \<in> set (item_spans ms s) \<Longrightarrow> m \<in> set ms"
  by (induction ms s rule: item_spans.induct) auto

definition item_wf :: "bid_item \<Rightarrow> bool" where
  "item_wf it \<longleftrightarrow> bi_number it \<noteq> '''' \<and> list_all is_digit (bi_number it) \<and> CHR 10 \<notin> set (bi_title it) \<and> length (bi_description it) \<le> 300"

lemma set_strip: "set (py_strip s) \<subseteq> set s"
  unfolding py_strip_def py_lstrip_def by (auto dest!: set_dropWhileD)

lemma set_rstrip: "set (rstrip_chars cs s) \<subseteq> set s"
  unfolding rstrip_chars_def by (auto dest!: set_dropWhileD)

lemma item_match_wf:
  assumes "(m, b) \<in> set (item_spans (finditer (item_re word) text) text)"
  shows "item_number m \<noteq> '''' \<and> list_all is_digit (item_number m) \<and> CHR 10 \<notin> set (item_title m)"
proof -
  obtain s where "rm_state m \<in> set (outcomes (item_re word) s)"
    using in_item_spans[OF assms] finditer_in unfolding finditer_def by blast
  note g = item_groups[OF this]
  have "set (item_title m) \<subseteq> set (group 2 (rm_state m))" unfolding item_title_def using set_strip set_rstrip by blast
  with g show ?thesis by (auto simp: item_number_def list_all_iff any_char_def)
qed

lemma field_300_length: "length (field_300 r b) \<le> 300"
  by (simp add: field_300_def split: option.split)

lemma parser_items:
  assumes "(num, kind, parser) \<in> set bid_registry" "it \<in> set (parser text src)"
  shows "bi_kind it = kind \<and> bi_source it = src \<and> item_wf it"
  using assms
  by (auto simp: bid_registry_def parse_alternates_def parse_unit_prices_def parse_allowances_def alternate_re_def unit_price_re_def
      allowance_re_def alternate_item_def unit_price_item_def allowance_item_def item_wf_def field_300_length dest!: item_match_wf)

definition sourced :: "string \<Rightarrow> string list \<Rightarrow> bid_item \<Rightarrow> bool" where
  "sourced fid pages it \<longleftrightarrow> list_ex (\<lambda>(num, kind, parser). bi_kind it = kind \<and>
     (case bid_start pages num of None \<Rightarrow> False | Some s \<Rightarrow> bi_source it = bid_source fid s num)) bid_registry"

lemma extract_fold:
  assumes "set es \<subseteq> set bid_registry" "distinct (map (fst \<circ> snd) es)"
  shows "list_all (\<lambda>it. item_wf it \<and> sourced fid pages it) (fst (foldl (extract_kind fid pages (locate_sections pages (map fst bid_registry))) ([], []) es)) \<and>
    snd (foldl (extract_kind fid pages (locate_sections pages (map fst bid_registry))) ([], []) es) =
      map (\<lambda>(num, kind, parser). (kind, if bid_start pages num = None then ''absent'' else ''found'')) es"
  using assms
proof (induction es rule: rev_induct)
  case (snoc e es)
  obtain num kind parser where e: "e = (num, kind, parser)" by (cases e)
  then have reg: "(num, kind, parser) \<in> set bid_registry" using snoc.prems by simp
  then have start: "map_of (locate_sections pages (map fst bid_registry)) num = bid_start pages num"
    by (intro locate_sections_start) force
  define acc where "acc = foldl (extract_kind fid pages (locate_sections pages (map fst bid_registry))) ([], []) es"
  have IH: "list_all (\<lambda>it. item_wf it \<and> sourced fid pages it) (fst acc)"
    "snd acc = map (\<lambda>(num, kind, parser). (kind, if bid_start pages num = None then ''absent'' else ''found'')) es"
    using snoc unfolding acc_def by auto
  have new: "dict_set (snd acc) kind v = snd acc @ [(kind, v)]" for v
  proof (rule dict_set_new)
    have "kind \<notin> (fst \<circ> snd) ` set es" using snoc.prems(2) e by simp
    moreover have "fst ` set (snd acc) = (fst \<circ> snd) ` set es" unfolding IH(2) set_map image_image comp_def by (rule image_cong) auto
    ultimately show "kind \<notin> fst ` set (snd acc)" by simp
  qed
  have items: "list_all (\<lambda>it. item_wf it \<and> sourced fid pages it) (parser b (bid_source fid s num))" if s: "bid_start pages num = Some s" for b s
    unfolding list_all_iff
  proof
    fix it assume "it \<in> set (parser b (bid_source fid s num))"
    from parser_items[OF reg this] have i: "bi_kind it = kind" "bi_source it = bid_source fid s num" "item_wf it" by blast+
    have "sourced fid pages it" unfolding sourced_def list_ex_iff by (rule bexI[OF _ reg]) (simp add: i s)
    with i(3) show "item_wf it \<and> sourced fid pages it" ..
  qed
  have step: "foldl (extract_kind fid pages (locate_sections pages (map fst bid_registry))) ([], []) (es @ [e]) =
      extract_kind fid pages (locate_sections pages (map fst bid_registry)) acc e" by (simp add: acc_def)
  show ?case
  proof (cases "bid_start pages num")
    case None
    then show ?thesis unfolding step using IH by (simp add: extract_kind_def e start new[unfolded IH(2)])
  next
    case (Some s)
    then show ?thesis unfolding step using IH items[OF Some] by (simp add: extract_kind_def e start new[unfolded IH(2)])
  qed
qed simp

text \<open>C37.  The bid structure is never made up: each kind is reported found exactly when a page outside the table of
  contents is headed by its section, and every item has a printed number, a one-line title, a bounded
  description, the kind of a located section and that section's first page as its source.\<close>

theorem bid_items_are_sourced:
  "snd (extract_bid_structure fid pages) =
      map (\<lambda>(num, kind, parser). (kind, if bid_start pages num = None then ''absent'' else ''found'')) bid_registry \<and>
   list_all (\<lambda>it. item_wf it \<and> sourced fid pages it) (fst (extract_bid_structure fid pages))"
proof -
  have "distinct (map (fst \<circ> snd) bid_registry)" by (simp add: bid_registry_def)
  from extract_fold[OF subset_refl this, of fid pages] show ?thesis by (simp add: extract_bid_structure_def Let_def)
qed

end
