(* ===== verification/DrawingLayer.thy ===== *)
theory DrawingLayer
  imports Sheets KnowledgeGraph
begin

text \<open>
  The drawing layer of a sheet: its scale (\<open>takeoff/scale_resolver.py\<close>) and what the binary layer
  yields (\<open>takeoff/binary_extractor.py\<close>), with their records (\<open>models/drawing.py\<close>).  A page is the
  dictionary PyMuPDF gives, as records; \<open>degrees\<close> is \<open>math.degrees(math.atan2(y, x))\<close> and \<open>hypot\<close>
  is \<open>math.hypot\<close>.
\<close>

section \<open>A page of PyMuPDF\<close>

type_synonym box = "rat \<times> rat \<times> rat \<times> rat"

record text_span =
  ts_text :: string
  ts_box :: box
  ts_font :: string
  ts_size :: rat

record text_line =
  tl_dir :: "rat \<times> rat"
  tl_box :: box
  tl_spans :: "text_span list"

record text_block =
  tb_type :: int
  tb_lines :: "text_line list"

type_synonym point = "rat \<times> rat"

datatype path_item = LineTo point point | CurveTo point point point point | RectItem box | QuadItem box | OtherItem string

record vector_path =
  vp_width :: "rat option"
  vp_items :: "path_item list"

record fitz_layer =
  fl_blocks :: "text_block list"
  fl_paths :: "vector_path list"
  fl_width :: rat
  fl_height :: rat

section \<open>The scale of a sheet\<close>

text \<open>\<open>(\d{1,2})(?:\s*/\s*(\d{1,3}))?\s*"\s*=\s*(\d{1,3})\s*['\<close> or a prime, as its UTF-8 bytes.\<close>

definition scale_re :: rx where
  "scale_re = cats [Grp 1 (times 1 2 digit), opt (cats [spaces, lit ''/'', spaces, Grp 2 (times 1 3 digit)]), spaces,
     lit [CHR 34], spaces, lit ''='', spaces, Grp 3 (times 1 3 digit), spaces,
     alts [lit [CHR 39], lit [CHR 0xE2, CHR 0x80, CHR 0xB2]]]"

definition parse_scale :: "string \<Rightarrow> exn + rat option" where
  "parse_scale text = (case re_search scale_re text of
     None \<Rightarrow> Inr None
   | Some m \<Rightarrow>
       (let num = digits_value (group 1 (rm_state m));
            den = (if group 2 (rm_state m) = '''' then 1 else digits_value (group 2 (rm_state m)));
            real_feet = digits_value (group 3 (rm_state m))
        in if den = 0 then Inl (Exn ''ZeroDivisionError'' ''division by zero'')
           else (let paper = of_nat num / of_nat den in
             if paper \<le> 0 then Inr None else Inr (Some (round_dec 4 (of_nat (real_feet * 12) / paper))))))"

definition canonical_scale :: "string \<Rightarrow> string" where
  "canonical_scale text = re_sub spaces1 '''' text"

definition line_text :: "text_line \<Rightarrow> string" where
  "line_text l = concat (map ts_text (tl_spans l))"

definition scale_strings :: "fitz_layer \<Rightarrow> (string \<times> rat \<times> rat) list" where
  "scale_strings page = concat (map (\<lambda>l. map (\<lambda>m. (match_text (line_text l) m, fst (tl_box l), fst (snd (tl_box l))))
     (finditer scale_re (line_text l))) (concat (map tb_lines (fl_blocks page))))"

record sheet_scale =
  sh_page :: int
  sh_factor :: "rat option"
  sh_text :: string
  sh_confidence :: rat
  sh_ambiguous :: bool
  sh_all :: "string list"

definition resolve_sheet_scale :: "fitz_layer \<Rightarrow> int \<Rightarrow> exn + sheet_scale" where
  "resolve_sheet_scale page number =
     (let found = scale_strings page;
          labels = map snd (foldl (\<lambda>d (t, x, y). dict_setdefault d (canonical_scale t) t) [] found)
      in if found = [] then Inr \<lparr>sh_page = number, sh_factor = None, sh_text = '''', sh_confidence = 0, sh_ambiguous = False, sh_all = []\<rparr>
         else (case labels of
             [l] \<Rightarrow> (case parse_scale l of Inl e \<Rightarrow> Inl e
               | Inr f \<Rightarrow> Inr \<lparr>sh_page = number, sh_factor = f, sh_text = l, sh_confidence = 1, sh_ambiguous = False, sh_all = labels\<rparr>)
           | _ \<Rightarrow> Inr \<lparr>sh_page = number, sh_factor = None, sh_text = '''', sh_confidence = 4/10, sh_ambiguous = True, sh_all = labels\<rparr>))"

section \<open>Text objects\<close>

definition grid_re :: rx where
  "grid_re = alts [cats [Chr (one_of ''NS''), lit ''-'', times 1 2 (Chr (\<lambda>c. is_upper c \<or> is_digit c))],
     Chr (one_of ''ABCDEFGHIJK''), Chr (one_of ''12345678'')]"

definition plan_door_re :: rx where
  "plan_door_re = cats [LineStart False, Chr (one_of ''NS''), times 3 3 digit, opt (Chr is_upper), LineEnd False]"

text \<open>
  \<open>^(?:SHEET\s+)?[A-Z]{1,3}\d+\.\d+(?:\.\d+)*$\<close>: some way to match the front leaves one or more
  dotted numbers and nothing else.
\<close>

definition sheet_ref_front :: rx where
  "sheet_ref_front = cats [LineStart False, opt (Cat (lit ''SHEET'') spaces1), times 1 3 (Chr is_upper), Many True 1 is_digit]"

function dotted_numbers :: "string \<Rightarrow> bool" where
  "dotted_numbers [] = False"
| "dotted_numbers (c # cs) \<longleftrightarrow> c = CHR ''.'' \<and> takeWhile is_digit cs \<noteq> [] \<and>
     (dropWhile is_digit cs = [] \<or> dropWhile is_digit cs = newline \<or> dotted_numbers (dropWhile is_digit cs))"
  by pat_completeness auto

termination dotted_numbers
  by (relation "measure length") (auto intro: le_imp_less_Suc length_dropWhile_le)

definition is_sheet_ref :: "string \<Rightarrow> bool" where
  "is_sheet_ref t \<longleftrightarrow> list_ex (\<lambda>r. dotted_numbers (rs_ahead r)) (outcomes sheet_ref_front (rx_start t))"

definition dimension_re :: rx where
  "dimension_re = Cat (Many True 1 is_digit) (lit [CHR 39])"

definition room_name_re :: rx where
  "room_name_re = cats [LineStart False, Chr is_upper,
     Many True 2 (\<lambda>c. is_upper c \<or> is_digit c \<or> one_of '' &/().-'' c), LineEnd False]"

definition classify_text :: "string \<Rightarrow> string" where
  "classify_text text = (let t = py_strip text in
     if t = '''' then ''blank''
     else if re_fullmatch grid_re t \<noteq> None then ''grid_label''
     else if re_match plan_door_re t \<noteq> None then ''door_mark''
     else if is_sheet_ref t then ''sheet_reference''
     else if re_search dimension_re t \<noteq> None then ''dimension''
     else if re_match room_name_re t \<noteq> None then ''room_name''
     else ''unknown'')"

definition rotation_of :: "(rat \<times> rat \<Rightarrow> rat) \<Rightarrow> rat \<times> rat \<Rightarrow> int" where
  "rotation_of degrees d = (round_half_even (degrees d / 90) * 90) mod 360"

record text_object =
  to_text :: string
  to_box :: box
  to_font :: string
  to_size :: rat
  to_rotation :: int
  to_class :: string

definition span_object :: "int \<Rightarrow> text_span \<Rightarrow> text_object option" where
  "span_object rotation s = (if py_strip (ts_text s) = '''' then None
     else Some \<lparr>to_text = py_strip (ts_text s), to_box = ts_box s, to_font = ts_font s, to_size = round_dec 2 (ts_size s),
       to_rotation = rotation, to_class = classify_text (ts_text s)\<rparr>)"

definition extract_text_objects :: "(rat \<times> rat \<Rightarrow> rat) \<Rightarrow> fitz_layer \<Rightarrow> text_object list" where
  "extract_text_objects degrees page =
     concat (map (\<lambda>l. List.map_filter (span_object (rotation_of degrees (tl_dir l))) (tl_spans l))
       (concat (map tb_lines (filter (\<lambda>b. tb_type b = 0) (fl_blocks page)))))"

section \<open>Geometry\<close>

record primitive =
  gp_kind :: string
  gp_box :: box
  gp_width :: "rat option"

definition bounding_box :: "point list \<Rightarrow> box" where
  "bounding_box ps = (Min (set (map fst ps)), Min (set (map snd ps)), Max (set (map fst ps)), Max (set (map snd ps)))"

definition path_primitive :: "rat option \<Rightarrow> path_item \<Rightarrow> primitive option" where
  "path_primitive w i = (case i of
     LineTo p q \<Rightarrow> Some \<lparr>gp_kind = ''line'', gp_box = bounding_box [p, q], gp_width = w\<rparr>
   | CurveTo a b c d \<Rightarrow> Some \<lparr>gp_kind = ''curve'', gp_box = bounding_box [a, b, c, d], gp_width = w\<rparr>
   | RectItem r \<Rightarrow> Some \<lparr>gp_kind = ''rect'', gp_box = r, gp_width = w\<rparr>
   | QuadItem r \<Rightarrow> Some \<lparr>gp_kind = ''quad'', gp_box = r, gp_width = w\<rparr>
   | OtherItem op \<Rightarrow> None)"

definition extract_geometry :: "fitz_layer \<Rightarrow> primitive list" where
  "extract_geometry page = concat (map (\<lambda>p. List.map_filter (path_primitive (vp_width p)) (vp_items p)) (fl_paths page))"

fun box_width :: "box \<Rightarrow> rat" where "box_width (x0, y0, x1, y1) = x1 - x0"
fun box_height :: "box \<Rightarrow> rat" where "box_height (x0, y0, x1, y1) = y1 - y0"
fun round_box :: "box \<Rightarrow> int \<times> int \<times> int \<times> int" where
  "round_box (x0, y0, x1, y1) = (round_half_even x0, round_half_even y0, round_half_even x1, round_half_even y1)"

definition box_area :: "box \<Rightarrow> rat" where
  "box_area b = \<bar>box_width b\<bar> * \<bar>box_height b\<bar>"

definition border_step :: "rat \<Rightarrow> rat \<times> (int \<times> int \<times> int \<times> int) option \<Rightarrow> primitive \<Rightarrow> rat \<times> (int \<times> int \<times> int \<times> int) option" where
  "border_step page_area acc p =
     (if gp_kind p \<in> {''rect'', ''quad''} \<and> box_area (gp_box p) > 6/10 * page_area \<and> box_area (gp_box p) > fst acc
      then (box_area (gp_box p), Some (round_box (gp_box p))) else acc)"

record geometry_summary =
  gy_total :: nat
  gy_by_kind :: "(string, nat) dict"
  gy_long_lines :: nat
  gy_axis_aligned :: nat
  gy_border :: "(int \<times> int \<times> int \<times> int) option"

definition analyze_geometry :: "(rat \<Rightarrow> rat \<Rightarrow> rat) \<Rightarrow> primitive list \<Rightarrow> rat \<Rightarrow> rat \<Rightarrow> geometry_summary" where
  "analyze_geometry hypot prims width height =
     (let span = min width height; lines = filter (\<lambda>p. gp_kind p = ''line'') prims in
      \<lparr>gy_total = length prims, gy_by_kind = counter (map gp_kind prims),
       gy_long_lines = length (filter (\<lambda>p. hypot (box_width (gp_box p)) (box_height (gp_box p)) > 6/10 * span) lines),
       gy_axis_aligned = length (filter (\<lambda>p. \<bar>box_width (gp_box p)\<bar> < 1 \<or> \<bar>box_height (gp_box p)\<bar> < 1) lines),
       gy_border = snd (foldl (border_step (width * height)) (0, None) prims)\<rparr>)"

definition extract_page_layer :: "(string \<Rightarrow> int \<Rightarrow> exn + fitz_layer) \<Rightarrow> (rat \<times> rat \<Rightarrow> rat) \<Rightarrow> (rat \<Rightarrow> rat \<Rightarrow> rat) \<Rightarrow>
    string \<Rightarrow> int \<Rightarrow> exn + text_object list \<times> primitive list \<times> geometry_summary" where
  "extract_page_layer open_page degrees hypot path i = (case open_page path i of
     Inl e \<Rightarrow> Inl e
   | Inr page \<Rightarrow> (let prims = extract_geometry page in
       Inr (extract_text_objects degrees page, prims, analyze_geometry hypot prims (fl_width page) (fl_height page))))"

section \<open>Facts\<close>

text \<open>The labels kept for a sheet: one per canonical form, in the order of their first occurrence.\<close>

lemma first_labels:
  "list_all (\<lambda>(k, t). k = f t) d \<Longrightarrow> distinct (dict_keys d) \<Longrightarrow>
   (let r = foldl (\<lambda>d (t, x, y). dict_setdefault d (f t) t) d ts in
    list_all (\<lambda>(k, t). k = f t) r \<and> distinct (dict_keys r) \<and> set (dict_keys r) = set (dict_keys d) \<union> f ` fst ` set ts)"
proof (induction ts arbitrary: d)
  case (Cons a ts)
  obtain t x y where a: "a = (t, x, y)" by (cases a)
  have new: "list_all (\<lambda>(k, t). k = f t) (dict_setdefault d (f t) t)" "distinct (dict_keys (dict_setdefault d (f t) t))"
    using Cons.prems by (auto simp: dict_setdefault_def dict_set_new wf_intros)
  from Cons.IH[OF this] show ?case by (simp add: a Let_def)
qed simp

lemma labels_canonical:
  assumes "labels = map snd (foldl (\<lambda>d (t, x, y). dict_setdefault d (canonical_scale t) t) [] found)"
  shows "distinct (map canonical_scale labels)" "set (map canonical_scale labels) = canonical_scale ` fst ` set found"
proof -
  let ?d = "foldl (\<lambda>d (t, x, y). dict_setdefault d (canonical_scale t) t) [] found"
  have d: "list_all (\<lambda>(k, t). k = canonical_scale t) ?d" "distinct (dict_keys ?d)" "set (dict_keys ?d) = canonical_scale ` fst ` set found"
    using first_labels[of canonical_scale "[]" found] by (simp_all add: Let_def)
  have "map canonical_scale labels = dict_keys ?d" unfolding assms using d(1) by (auto simp: list_all_iff)
  then show "distinct (map canonical_scale labels)" "set (map canonical_scale labels) = canonical_scale ` fst ` set found"
    using d by simp_all
qed

definition scale_ok :: "fitz_layer \<Rightarrow> sheet_scale \<Rightarrow> bool" where
  "scale_ok page s \<longleftrightarrow> sh_ambiguous s = (2 \<le> length (sh_all s)) \<and> distinct (map canonical_scale (sh_all s)) \<and>
     set (map canonical_scale (sh_all s)) = canonical_scale ` fst ` set (scale_strings page) \<and>
     (case sh_factor s of None \<Rightarrow> True | Some f \<Rightarrow> sh_all s = [sh_text s] \<and> parse_scale (sh_text s) = Inr (Some f))"

text \<open>
  A factor is given exactly for a sheet with one scale, up to white space; several scales are flagged.
  Only a zero denominator raises.
\<close>

lemma scale_resolution:
  "case resolve_sheet_scale page n of Inl e \<Rightarrow> exn_type e = ''ZeroDivisionError'' | Inr s \<Rightarrow> scale_ok page s"
proof -
  define labels where l: "labels = map snd (foldl (\<lambda>d (t, x, y). dict_setdefault d (canonical_scale t) t) [] (scale_strings page))"
  note c = labels_canonical[OF l]
  have zero: "parse_scale t = Inl e \<Longrightarrow> exn_type e = ''ZeroDivisionError''" for t e
    by (auto simp: parse_scale_def Let_def split: option.splits if_splits)
  show ?thesis
  proof (cases "scale_strings page = []")
    case True
    then show ?thesis by (simp add: resolve_sheet_scale_def scale_ok_def Let_def)
  next
    case False
    then have "labels \<noteq> []" using c(2) by auto
    then consider (one) t where "labels = [t]" | (many) t u ts where "labels = t # u # ts" by (metis list.exhaust)
    then show ?thesis
    proof cases
      case one
      then show ?thesis using c zero[of t] False l
        by (auto simp: resolve_sheet_scale_def scale_ok_def Let_def split: sum.split option.split)
    next
      case many
      then have "resolve_sheet_scale page n = Inr \<lparr>sh_page = n, sh_factor = None, sh_text = '''', sh_confidence = 4/10,
          sh_ambiguous = True, sh_all = labels\<rparr>"
        using False l by (simp add: resolve_sheet_scale_def Let_def)
      then show ?thesis using c many by (simp add: scale_ok_def)
    qed
  qed
qed

lemma rotation_quarter: "rotation_of degrees d \<in> {0, 90, 180, 270}"
proof -
  have k: "(k * 90) mod 360 = 90 * (k mod 4)" for k :: int using mult_mod_right[of 90 k 4] by (simp add: mult.commute)
  have "r \<in> {0, 1, 2, 3}" if "r = k mod 4" for r k :: int using pos_mod_bound[of 4 k] pos_mod_sign[of 4 k] that by auto
  then have "round_half_even (degrees d / 90) mod 4 \<in> {0, 1, 2, 3}" by blast
  then show ?thesis unfolding rotation_of_def k by (elim insertE emptyE) simp_all
qed

lemma bounding_box_contains:
  assumes "p \<in> set ps"
  shows "case bounding_box ps of (x0, y0, x1, y1) \<Rightarrow> x0 \<le> fst p \<and> fst p \<le> x1 \<and> y0 \<le> snd p \<and> snd p \<le> y1"
  using assms by (simp add: bounding_box_def)

text \<open>Every text object is visible text with its class, turned by a quarter; every line and curve has an ordered box.\<close>

lemma text_objects_ok:
  assumes "t \<in> set (extract_text_objects degrees page)"
  shows "to_text t \<noteq> '''' \<and> to_class t \<noteq> ''blank'' \<and> to_rotation t \<in> {0, 90, 180, 270}"
proof -
  from assms obtain l :: text_line where "t \<in> set (List.map_filter (span_object (rotation_of degrees (tl_dir l))) (tl_spans l))"
    unfolding extract_text_objects_def by auto
  then obtain s where "span_object (rotation_of degrees (tl_dir l)) s = Some t" unfolding in_map_filter by blast
  then show ?thesis using rotation_quarter[of degrees "tl_dir l"]
    by (auto simp: span_object_def classify_text_def Let_def split: if_splits)
qed

text \<open>The border is a largest rectangle that covers more than sixty per cent of the page.\<close>

lemma border_largest:
  "0 < area \<Longrightarrow> case foldl (border_step area) (0, None) ps of (best, b) \<Rightarrow>
     list_all (\<lambda>p. gp_kind p \<in> {''rect'', ''quad''} \<and> box_area (gp_box p) > 6/10 * area \<longrightarrow> box_area (gp_box p) \<le> best) ps \<and>
     (case b of None \<Rightarrow> best = 0
      | Some r \<Rightarrow> list_ex (\<lambda>p. r = round_box (gp_box p) \<and> box_area (gp_box p) = best \<and> best > 6/10 * area) ps)"
proof (induction ps rule: rev_induct)
  case (snoc p ps)
  obtain best b where f: "foldl (border_step area) (0, None) ps = (best, b)" by (meson surj_pair)
  have IH: "list_all (\<lambda>p. gp_kind p \<in> {''rect'', ''quad''} \<and> box_area (gp_box p) > 6/10 * area \<longrightarrow> box_area (gp_box p) \<le> best) ps"
    "case b of None \<Rightarrow> best = 0
      | Some r \<Rightarrow> list_ex (\<lambda>p. r = round_box (gp_box p) \<and> box_area (gp_box p) = best \<and> best > 6/10 * area) ps"
    using snoc f by simp_all
  show ?case
  proof (cases "gp_kind p \<in> {''rect'', ''quad''} \<and> box_area (gp_box p) > 6/10 * area \<and> box_area (gp_box p) > best")
    case True
    then have "foldl (border_step area) (0, None) (ps @ [p]) = (box_area (gp_box p), Some (round_box (gp_box p)))"
      by (simp add: f border_step_def)
    moreover have "list_all (\<lambda>q. gp_kind q \<in> {''rect'', ''quad''} \<and> box_area (gp_box q) > 6/10 * area \<longrightarrow> box_area (gp_box q) \<le> box_area (gp_box p)) ps"
      using IH(1) True unfolding list_all_iff by (meson dual_order.trans less_imp_le)
    ultimately show ?thesis using True by simp
  next
    case False
    then have "foldl (border_step area) (0, None) (ps @ [p]) = (best, b)" by (auto simp: f border_step_def)
    then show ?thesis using IH False by (auto simp: list_ex_iff split: option.splits)
  qed
qed simp

end
