(* ===== verification/Areas.thy ===== *)
theory Areas
  imports Quantities
begin

text \<open>
  Floor areas from \<open>NNN SF\<close> labels, \<open>src/src/takeoff/area_harvest.py\<close>.

  Coordinates are exact rationals.  \<open>math.hypot\<close> is the parameter \<open>hyp\<close> (an irrational value has
  no rational model); where a lemma needs it, it assumes the distance is not negative.
\<close>

section \<open>Tokens and labels\<close>

type_synonym token = "string \<times> rat \<times> rat"

definition positioned_tokens :: "page_view \<Rightarrow> token list" where
  "positioned_tokens p = map (\<lambda>w. (py_strip (wd_text w), (wd_x0 w + wd_x1 w) / 2, (wd_y0 w + wd_y1 w) / 2))
     (filter (\<lambda>w. py_strip (wd_text w) \<noteq> '''') (pv_words p))"

definition num_token :: "string \<Rightarrow> bool" where
  "num_token t \<longleftrightarrow> 2 \<le> length t \<and> length t \<le> 5 \<and> list_all is_digit t"

definition sf_unit :: "string \<Rightarrow> bool" where
  "sf_unit t \<longleftrightarrow> py_upper t \<in> {''SF'', ''S.F'', ''SF.'', ''S.F.''}"

definition joined_label :: "string \<Rightarrow> nat option" where
  "joined_label t = (let ds = takeWhile is_digit t in
     if 2 \<le> length ds \<and> length ds \<le> 5 \<and> sf_unit (dropWhile is_digit t) then Some (digits_value ds) else None)"

fun sf_labels :: "token list \<Rightarrow> (rat \<times> rat \<times> rat) list" where
  "sf_labels [] = []"
| "sf_labels ((t, x, y) # toks) =
     (if num_token t
      then (if sf_unit (case toks of [] \<Rightarrow> '''' | (n, _) # _ \<Rightarrow> n) then [(of_nat (digits_value t), x, y)] else [])
      else (case joined_label t of None \<Rightarrow> [] | Some v \<Rightarrow> [(of_nat v, x, y)])) @ sf_labels toks"

definition room_tokens :: "token list \<Rightarrow> string set \<Rightarrow> token list" where
  "room_tokens toks known = filter (\<lambda>(t, x, y). t \<in> known) toks"

definition locate_area_plans :: "(int \<times> token list) list \<Rightarrow> string set \<Rightarrow> nat \<Rightarrow> nat \<Rightarrow> int list" where
  "locate_area_plans pages known min_labels min_rooms =
     map fst (filter (\<lambda>(i, toks). length (sf_labels toks) \<ge> min_labels \<and> length (room_tokens toks known) \<ge> min_rooms) pages)"

section \<open>Joining labels to rooms\<close>

record room_area =
  ra_room :: string
  ra_area :: rat
  ra_confidence :: rat
  ra_basis :: string
  ra_page :: "int option"

text \<open>The nearest room within \<open>max_dist\<close> of a label: the first of the nearest ones.\<close>

fun nearest_room :: "(rat \<Rightarrow> rat \<Rightarrow> rat) \<Rightarrow> rat \<Rightarrow> rat \<Rightarrow> rat \<Rightarrow> token list \<Rightarrow> (rat \<times> string) option \<Rightarrow> (rat \<times> string) option" where
  "nearest_room hyp max_dist lx ly [] best = best"
| "nearest_room hyp max_dist lx ly ((rm, rx, ry) # rooms) best =
     (let d = hyp (rx - lx) (ry - ly) in
      if d \<le> max_dist \<and> (case best of None \<Rightarrow> True | Some (bd, _) \<Rightarrow> d < bd)
      then nearest_room hyp max_dist lx ly rooms (Some (d, rm))
      else nearest_room hyp max_dist lx ly rooms best)"

definition label_pairs :: "(rat \<Rightarrow> rat \<Rightarrow> rat) \<Rightarrow> token list \<Rightarrow> (rat \<times> rat \<times> rat) list \<Rightarrow> rat \<Rightarrow> rat \<Rightarrow> (rat \<times> string \<times> rat) list" where
  "label_pairs hyp rooms labels max_dist max_sf =
     List.map_filter (\<lambda>(a, lx, ly). map_option (\<lambda>(d, rm). (d, rm, a)) (nearest_room hyp max_dist lx ly rooms None))
       (filter (\<lambda>(a, x, y). a \<le> max_sf) labels)"

definition area_of_pair :: "rat \<Rightarrow> rat \<times> string \<times> rat \<Rightarrow> room_area" where
  "area_of_pair max_dist p = (case p of (d, rm, a) \<Rightarrow> \<lparr>ra_room = rm, ra_area = a,
     ra_confidence = max 0 (round_dec 3 (1 - d / max_dist)), ra_basis = ''area_label_join'', ra_page = None\<rparr>)"

definition join_areas :: "(rat \<Rightarrow> rat \<Rightarrow> rat) \<Rightarrow> token list \<Rightarrow> (rat \<times> rat \<times> rat) list \<Rightarrow> rat \<Rightarrow> rat \<Rightarrow> room_area list" where
  "join_areas hyp rooms labels max_dist max_sf =
     map (area_of_pair max_dist)
       (dedup_first (\<lambda>(d, rm, a). rm) {} (sort_key (\<lambda>(d, rm, a). d) (label_pairs hyp rooms labels max_dist max_sf)))"

section \<open>The driver\<close>

fun load_tokens :: "doc_view \<Rightarrow> int list \<Rightarrow> exn + (int \<times> token list) list" where
  "load_tokens doc [] = Inr []"
| "load_tokens doc (i # is) = (case dv_page doc i of Inl e \<Rightarrow> Inl e
     | Inr p \<Rightarrow> (case load_tokens doc is of Inl e \<Rightarrow> Inl e
         | Inr ts \<Rightarrow> Inr ((i, positioned_tokens p) # ts)))"

fun harvest_pages :: "(rat \<Rightarrow> rat \<Rightarrow> rat) \<Rightarrow> (int, token list) dict \<Rightarrow> string set \<Rightarrow> rat \<Rightarrow> rat \<Rightarrow> int list \<Rightarrow> room_area list" where
  "harvest_pages hyp toks known max_dist max_sf [] = []"
| "harvest_pages hyp toks known max_dist max_sf (i # is) =
     (let ts = (case map_of toks i of None \<Rightarrow> [] | Some ts \<Rightarrow> ts) in
      map (\<lambda>ra. ra\<lparr>ra_page := Some i\<rparr>) (join_areas hyp (room_tokens ts known) (sf_labels ts) max_dist max_sf)
      @ harvest_pages hyp toks known max_dist max_sf is)"

definition harvest_room_areas :: "(rat \<Rightarrow> rat \<Rightarrow> rat) \<Rightarrow> doc_view \<Rightarrow> string set \<Rightarrow> int list option \<Rightarrow> exn + room_area list" where
  "harvest_room_areas hyp doc known page_range =
     (case load_tokens doc (case page_range of Some r \<Rightarrow> r | None \<Rightarrow> [0..dv_page_count doc - 1]) of
        Inl e \<Rightarrow> Inl e
      | Inr pts \<Rightarrow> Inr (dedup_first ra_room {}
          (harvest_pages hyp (dict_of pts) known 100 20000 (locate_area_plans pts known 3 3))))"

section \<open>Facts\<close>

lemma nearest_room_sound:
  assumes "nearest_room hyp md lx ly rooms best = Some (d, rm)"
  shows "best = Some (d, rm) \<or> (\<exists>rx ry. (rm, rx, ry) \<in> set rooms \<and> d = hyp (rx - lx) (ry - ly) \<and> d \<le> md)"
  using assms
proof (induction rooms arbitrary: best)
  case (Cons room rooms)
  obtain r x y where room: "room = (r, x, y)" by (cases room)
  show ?case
  proof (cases "hyp (x - lx) (y - ly) \<le> md \<and> (case best of None \<Rightarrow> True | Some (bd, _) \<Rightarrow> hyp (x - lx) (y - ly) < bd)")
    case True
    with Cons.prems have "nearest_room hyp md lx ly rooms (Some (hyp (x - lx) (y - ly), r)) = Some (d, rm)"
      by (simp add: room Let_def)
    from Cons.IH[OF this] True show ?thesis by (auto simp: room)
  next
    case False
    then have "nearest_room hyp md lx ly (room # rooms) best = nearest_room hyp md lx ly rooms best"
      unfolding room by (simp only: nearest_room.simps Let_def if_False)
    with Cons.prems Cons.IH show ?thesis by (auto simp: room)
  qed
qed simp

lemma nearest_room_keeps:
  "\<exists>d rm. nearest_room hyp md lx ly rooms (Some (bd, brm)) = Some (d, rm) \<and> d \<le> bd"
proof (induction rooms arbitrary: bd brm)
  case (Cons room rooms)
  obtain r x y where room: "room = (r, x, y)" by (cases room)
  show ?case
  proof (cases "hyp (x - lx) (y - ly) \<le> md \<and> hyp (x - lx) (y - ly) < bd")
    case True
    then show ?thesis using Cons.IH[of "hyp (x - lx) (y - ly)" r] by (fastforce simp: room Let_def)
  next
    case False
    then show ?thesis using Cons.IH[of bd brm] by (auto simp: room Let_def)
  qed
qed simp

lemma nearest_room_least:
  assumes "(rm, rx, ry) \<in> set rooms" and "hyp (rx - lx) (ry - ly) \<le> md"
  shows "\<exists>d rm'. nearest_room hyp md lx ly rooms best = Some (d, rm') \<and> d \<le> hyp (rx - lx) (ry - ly)"
  using assms(1)
proof (induction rooms arbitrary: best)
  case (Cons room rooms)
  obtain r x y where room: "room = (r, x, y)" by (cases room)
  have step: "\<exists>best'. nearest_room hyp md lx ly (room # rooms) best = nearest_room hyp md lx ly rooms best' \<and>
      (hyp (x - lx) (y - ly) \<le> md \<longrightarrow> (\<exists>bd brm. best' = Some (bd, brm) \<and> bd \<le> hyp (x - lx) (y - ly)))"
  proof (cases "hyp (x - lx) (y - ly) \<le> md \<and> (case best of None \<Rightarrow> True | Some (bd, _) \<Rightarrow> hyp (x - lx) (y - ly) < bd)")
    case True
    then have "nearest_room hyp md lx ly (room # rooms) best =
        nearest_room hyp md lx ly rooms (Some (hyp (x - lx) (y - ly), r))" by (simp add: room Let_def)
    then show ?thesis by auto
  next
    case False
    then have e: "nearest_room hyp md lx ly (room # rooms) best = nearest_room hyp md lx ly rooms best"
      unfolding room by (simp only: nearest_room.simps Let_def if_False)
    have "hyp (x - lx) (y - ly) \<le> md \<longrightarrow> (\<exists>bd brm. best = Some (bd, brm) \<and> bd \<le> hyp (x - lx) (y - ly))"
      using False by (auto split: option.splits)
    with e show ?thesis by blast
  qed
  then obtain best' where b: "nearest_room hyp md lx ly (room # rooms) best = nearest_room hyp md lx ly rooms best'"
    "hyp (x - lx) (y - ly) \<le> md \<longrightarrow> (\<exists>bd brm. best' = Some (bd, brm) \<and> bd \<le> hyp (x - lx) (y - ly))" by blast
  show ?case
  proof (cases "(rm, rx, ry) \<in> set rooms")
    case True
    from Cons.IH[OF this, of best'] show ?thesis unfolding b(1) .
  next
    case False
    with Cons.prems room have e: "x = rx" "y = ry" by auto
    with b(2) assms(2) obtain bd brm where bd: "best' = Some (bd, brm)" "bd \<le> hyp (rx - lx) (ry - ly)" by auto
    from nearest_room_keeps[of hyp md lx ly rooms bd brm] bd show ?thesis unfolding b(1) by force
  qed
qed simp

lemma label_pairs_sound:
  assumes "(d, rm, a) \<in> set (label_pairs hyp rooms labels md ms)"
  shows "\<exists>lx ly rx ry. (a, lx, ly) \<in> set labels \<and> (rm, rx, ry) \<in> set rooms \<and> a \<le> ms \<and>
    d = hyp (rx - lx) (ry - ly) \<and> d \<le> md \<and>
    (\<forall>(rm', rx', ry') \<in> set rooms. d \<le> hyp (rx' - lx) (ry' - ly))"
proof -
  from assms obtain lx ly where l: "(a, lx, ly) \<in> set labels" "a \<le> ms"
    "nearest_room hyp md lx ly rooms None = Some (d, rm)"
    by (auto simp: label_pairs_def List.map_filter_def)
  from nearest_room_sound[OF l(3)] obtain rx ry where r: "(rm, rx, ry) \<in> set rooms" "d = hyp (rx - lx) (ry - ly)" "d \<le> md"
    by auto
  have "d \<le> hyp (rx' - lx) (ry' - ly)" if m: "(rm', rx', ry') \<in> set rooms" for rm' rx' ry'
  proof (cases "hyp (rx' - lx) (ry' - ly) \<le> md")
    case True
    from nearest_room_least[where hyp = hyp and lx = lx and ly = ly and rooms = rooms and best = None, OF m True] l(3)
    show ?thesis by auto
  next
    case False
    with r(3) show ?thesis by linarith
  qed
  with l r show ?thesis by blast
qed

lemma dedup_first_sorted_least:
  assumes "sorted (map g xs)" and "x \<in> set (dedup_first key seen xs)" and "y \<in> set xs" and "key y = key x"
  shows "g x \<le> g y"
  using assms
proof (induction xs arbitrary: seen)
  case (Cons z zs)
  show ?case
  proof (cases "key z \<in> seen")
    case True
    have "key x \<notin> seen"
      using Cons.prems(2) set_dedup_first_keys[of key seen "z # zs"] by auto
    with True Cons show ?thesis by auto
  next
    case False
    from Cons.prems(2) False consider "x = z" | "x \<in> set (dedup_first key (insert (key z) seen) zs)" by auto
    then show ?thesis
    proof cases
      case 1
      with Cons.prems show ?thesis by auto
    next
      case 2
      have "key x \<noteq> key z" using 2 set_dedup_first_keys[of key "insert (key z) seen" zs] by auto
      with 2 Cons show ?thesis by auto
    qed
  qed
qed simp

text \<open>
  The join: one area per room; it comes from a label within reach whose nearest room this is, and
  no label bound to the room is closer.
\<close>

lemma join_areas_distinct: "distinct (map ra_room (join_areas hyp rooms labels md ms))"
proof -
  have "map ra_room (join_areas hyp rooms labels md ms) =
      map (\<lambda>(d, rm, a). rm) (dedup_first (\<lambda>(d, rm, a). rm) {} (sort_key (\<lambda>(d, rm, a). d) (label_pairs hyp rooms labels md ms)))"
    by (simp add: join_areas_def area_of_pair_def case_prod_beta o_def)
  then show ?thesis using distinct_dedup_first[of "\<lambda>(d, rm, a). rm"] by simp
qed

lemma join_areas_sound:
  assumes "ra \<in> set (join_areas hyp rooms labels md ms)"
  shows "\<exists>d lx ly rx ry. (ra_area ra, lx, ly) \<in> set labels \<and> (ra_room ra, rx, ry) \<in> set rooms \<and>
    ra_area ra \<le> ms \<and> d = hyp (rx - lx) (ry - ly) \<and> d \<le> md \<and>
    (\<forall>(rm', rx', ry') \<in> set rooms. d \<le> hyp (rx' - lx) (ry' - ly)) \<and>
    ra_confidence ra = max 0 (round_dec 3 (1 - d / md)) \<and>
    (\<forall>d' a'. (d', ra_room ra, a') \<in> set (label_pairs hyp rooms labels md ms) \<longrightarrow> d \<le> d')"
proof -
  let ?ps = "label_pairs hyp rooms labels md ms"
  let ?sorted = "sort_key (\<lambda>(d, rm, a). d) ?ps"
  from assms obtain d rm a where p: "(d, rm, a) \<in> set (dedup_first (\<lambda>(d, rm, a). rm) {} ?sorted)"
    and ra: "ra = area_of_pair md (d, rm, a)"
    by (auto simp: join_areas_def)
  have "(d, rm, a) \<in> set ?ps" using set_dedup_first[of "\<lambda>(d, rm, a). rm" "{}" ?sorted] p by auto
  from label_pairs_sound[OF this] obtain lx ly rx ry where w: "(a, lx, ly) \<in> set labels" "(rm, rx, ry) \<in> set rooms"
    "a \<le> ms" "d = hyp (rx - lx) (ry - ly)" "d \<le> md" "\<forall>(rm', rx', ry') \<in> set rooms. d \<le> hyp (rx' - lx) (ry' - ly)"
    by blast
  have least: "d \<le> d'" if "(d', rm, a') \<in> set ?ps" for d' a'
    using dedup_first_sorted_least[of "\<lambda>(d, rm, a). d" ?sorted "(d, rm, a)" "\<lambda>(d, rm, a). rm" "{}" "(d', rm, a')"] p that
    by simp
  show ?thesis
    by (rule exI[of _ d], rule exI[of _ lx], rule exI[of _ ly], rule exI[of _ rx], rule exI[of _ ry])
      (use w least in \<open>simp add: ra area_of_pair_def\<close>)
qed

lemma join_areas_confidence:
  assumes "ra \<in> set (join_areas hyp rooms labels md ms)" and "0 < md" and "\<And>x y. 0 \<le> hyp x y"
  shows "0 \<le> ra_confidence ra \<and> ra_confidence ra \<le> 1"
proof -
  from join_areas_sound[OF assms(1)] obtain d where d: "\<exists>x y. d = hyp x y" "d \<le> md"
    "ra_confidence ra = max 0 (round_dec 3 (1 - d / md))" by blast
  from d(1) assms(3) have "0 \<le> d" by auto
  with d(2) assms(2) have "0 \<le> 1 - d / md" "1 - d / md \<le> 1" by (simp_all add: divide_le_eq)
  from round_dec_unit[OF this, of 3] show ?thesis by (simp add: d(3))
qed

lemma harvest_distinct:
  "harvest_room_areas hyp doc known rng = Inr ras \<Longrightarrow> distinct (map ra_room ras)"
  by (auto simp: harvest_room_areas_def distinct_dedup_first split: sum.splits)

lemma room_tokens_known: "(rm, x, y) \<in> set (room_tokens toks known) \<Longrightarrow> rm \<in> known"
  by (simp add: room_tokens_def)

lemma harvest_pages_known:
  "ra \<in> set (harvest_pages hyp toks known md ms is) \<Longrightarrow> ra_room ra \<in> known"
proof (induction hyp toks known md ms "is" rule: harvest_pages.induct)
  case (2 hyp toks known md ms i "is")
  let ?ts = "case map_of toks i of None \<Rightarrow> [] | Some ts \<Rightarrow> ts"
  from "2.prems" consider "ra \<in> set (harvest_pages hyp toks known md ms is)"
    | ra' where "ra' \<in> set (join_areas hyp (room_tokens ?ts known) (sf_labels ?ts) md ms)" "ra = ra'\<lparr>ra_page := Some i\<rparr>"
    by (auto simp: Let_def)
  then show ?case
  proof cases
    case 2
    from join_areas_sound[OF 2(1)] obtain rx ry where "(ra_room ra', rx, ry) \<in> set (room_tokens ?ts known)" by blast
    from room_tokens_known[OF this] 2(2) show ?thesis by simp
  qed (use "2.IH" in simp)
qed simp

text \<open>Only rooms of the finish schedule get an area.\<close>

lemma harvest_known:
  "harvest_room_areas hyp doc known rng = Inr ras \<Longrightarrow> ra \<in> set ras \<Longrightarrow> ra_room ra \<in> known"
  by (auto simp: harvest_room_areas_def split: sum.splits
      dest!: subsetD[OF set_dedup_first] intro: harvest_pages_known)

section \<open>Properties of the join\<close>

text \<open>
  C18.  The area join gives each room at most one area, from a label whose nearest room it is and
  which is the closest of the labels that have it as nearest; the area is at most the cap and the
  distance within the limit; the confidence falls linearly with that distance.
\<close>

theorem area_join_sound:
  assumes "ra \<in> set (join_areas hyp rooms labels md ms)"
  shows "distinct (map ra_room (join_areas hyp rooms labels md ms)) \<and>
    (\<exists>d lx ly rx ry. (ra_area ra, lx, ly) \<in> set labels \<and> (ra_room ra, rx, ry) \<in> set rooms \<and>
      ra_area ra \<le> ms \<and> d = hyp (rx - lx) (ry - ly) \<and> d \<le> md \<and>
      (\<forall>(rm', rx', ry') \<in> set rooms. d \<le> hyp (rx' - lx) (ry' - ly)) \<and>
      ra_confidence ra = max 0 (round_dec 3 (1 - d / md)) \<and>
      (\<forall>d' a'. (d', ra_room ra, a') \<in> set (label_pairs hyp rooms labels md ms) \<longrightarrow> d \<le> d'))"
  using join_areas_distinct join_areas_sound[OF assms] by blast

theorem area_join_sound_witness:
  "map (\<lambda>ra. (ra_room ra, ra_area ra)) (join_areas (\<lambda>x y. abs x + abs y) [(''101'', 0, 0), (''102'', 50, 0)]
      [(120, 10, 0), (90, 5, 0)] 100 5000) = [(''101'', 90)] \<and>
   distinct (map ra_room (join_areas (\<lambda>x y. abs x + abs y) [(''101'', 0, 0), (''102'', 50, 0)]
      [(120, 10, 0), (90, 5, 0)] 100 5000))"
proof -
  let ?j = "join_areas (\<lambda>x y. abs x + abs y) [(''101'', 0, 0), (''102'', 50, 0)] [(120, 10, 0), (90, 5, 0)] 100 5000"
  have v: "map (\<lambda>ra. (ra_room ra, ra_area ra)) ?j = [(''101'', 90)]" by code_simp
  then obtain ra where "ra \<in> set ?j" by (cases ?j) auto
  from area_join_sound[OF this] v show ?thesis by blast
qed

end
