(* ===== verification/Counts.thy ===== *)
theory Counts
  imports Areas
begin

text \<open>
  Fixture counting and its verification: \<open>src/src/takeoff/fixture_counts.py\<close> (tags on the plan
  sheets) and the pure part of \<open>src/src/takeoff/count_verifier.py\<close> (verdicts, merge, reconcile, the
  flip of catalog items).

  The vision model behind the verifier is the parameter \<open>client\<close>; Python's \<open>int()\<close>,
  \<open>float()\<close> and \<open>str()\<close> conversions of what it answers are \<open>to_int\<close>, \<open>to_float\<close> and
  \<open>to_str\<close>.  Rendering and the recording of responses are not modelled.
\<close>

section \<open>Tags on a page\<close>

record count_result =
  cr_symbol :: string
  cr_page :: int
  cr_count :: nat
  cr_confidence :: rat
  cr_source :: string
  cr_verified :: bool
  cr_boxes :: "(rat \<times> rat) list"

definition spread_threshold :: rat where
  "spread_threshold = 35/100"

definition min_tags :: nat where
  "min_tags = 3"

definition word_center :: "word \<Rightarrow> rat \<times> rat" where
  "word_center w = ((wd_x0 w + wd_x1 w) / 2, (wd_y0 w + wd_y1 w) / 2)"

fun tag_spans_loop :: "string set \<Rightarrow> word list \<Rightarrow> (string, (rat \<times> rat) list) dict \<Rightarrow> (string, (rat \<times> rat) list) dict" where
  "tag_spans_loop tags [] out = out"
| "tag_spans_loop tags (wd # wds) out =
     (let w = py_strip (wd_text wd) in
      if w \<in> tags
      then tag_spans_loop tags wds
             (dict_set out w ((case map_of out w of None \<Rightarrow> [] | Some ps \<Rightarrow> ps) @ [word_center wd]))
      else tag_spans_loop tags wds out)"

definition tag_spans :: "page_view \<Rightarrow> string set \<Rightarrow> (string, (rat \<times> rat) list) dict" where
  "tag_spans p tags = tag_spans_loop tags (pv_words p) []"

definition extent :: "rat list \<Rightarrow> rat" where
  "extent xs = Max (set xs) - Min (set xs)"

definition spread_fraction :: "(rat \<times> rat) list \<Rightarrow> rat \<Rightarrow> rat \<Rightarrow> rat" where
  "spread_fraction pts width height = max (extent (map fst pts) / width) (extent (map snd pts) / height)"

datatype page_kind = Sparse | InstancePlan | LegendBlock

text \<open>A page of no width or height is a division by zero.\<close>

definition classify_page :: "(rat \<times> rat) list \<Rightarrow> rat \<Rightarrow> rat \<Rightarrow> exn + page_kind" where
  "classify_page pts width height =
     (if length pts < min_tags then Inr Sparse
      else if width = 0 \<or> height = 0 then Inl (Exn ''ZeroDivisionError'' ''float division by zero'')
      else Inr (if spread_fraction pts width height \<ge> spread_threshold then InstancePlan else LegendBlock))"

definition page_counts :: "int \<Rightarrow> (string, (rat \<times> rat) list) dict \<Rightarrow> count_result list" where
  "page_counts i spans = map (\<lambda>(tag, pts). \<lparr>cr_symbol = tag, cr_page = i + 1, cr_count = length pts,
     cr_confidence = 7/10, cr_source = ''text_tag'', cr_verified = False,
     cr_boxes = map (\<lambda>(x, y). (round_dec 1 x, round_dec 1 y)) pts\<rparr>) spans"

fun extract_counts :: "doc_view \<Rightarrow> string set \<Rightarrow> int set \<Rightarrow> int list \<Rightarrow> exn + count_result list" where
  "extract_counts doc tags skip [] = Inr []"
| "extract_counts doc tags skip (i # is) =
     (if i \<in> skip then extract_counts doc tags skip is
      else (case dv_page doc i of Inl e \<Rightarrow> Inl e
        | Inr p \<Rightarrow> (let spans = tag_spans p tags; pts = concat (map snd spans) in
           case classify_page pts (pv_width p) (pv_height p) of Inl e \<Rightarrow> Inl e
           | Inr kind \<Rightarrow> (case extract_counts doc tags skip is of Inl e \<Rightarrow> Inl e
               | Inr rest \<Rightarrow> Inr ((if kind = InstancePlan then page_counts i spans else []) @ rest)))))"

text \<open>The summary: per-symbol candidate totals, not de-duplicated, with the sheets they come from.\<close>

record symbol_summary =
  ss_total :: nat
  ss_sheets :: "(int \<times> nat) list"

definition add_count :: "(string, symbol_summary) dict \<Rightarrow> count_result \<Rightarrow> (string, symbol_summary) dict" where
  "add_count d c = (let e = (case map_of d (cr_symbol c) of None \<Rightarrow> \<lparr>ss_total = 0, ss_sheets = []\<rparr> | Some e \<Rightarrow> e) in
     dict_set d (cr_symbol c) \<lparr>ss_total = ss_total e + cr_count c, ss_sheets = ss_sheets e @ [(cr_page c, cr_count c)]\<rparr>)"

record count_summary =
  cs_symbols :: nat
  cs_instance_sheets :: "int list"
  cs_dedup_status :: string
  cs_by_symbol :: "(string, symbol_summary) dict"

definition summarize_counts :: "count_result list \<Rightarrow> count_summary" where
  "summarize_counts cs = (let d = foldl add_count [] cs in
     \<lparr>cs_symbols = length d, cs_instance_sheets = sort (remdups (map cr_page cs)),
      cs_dedup_status = ''pending_verification'', cs_by_symbol = d\<rparr>)"

section \<open>Verification\<close>

record verification =
  vf_symbol :: string
  vf_verified :: bool
  vf_agrees :: bool
  vf_count :: "int option"
  vf_confidence :: rat
  vf_notes :: string

record converters =
  to_int :: "json \<Rightarrow> exn + int"
  to_float :: "json \<Rightarrow> exn + rat"
  to_str :: "json \<Rightarrow> string"

definition caught_count_error :: "exn \<Rightarrow> bool" where
  "caught_count_error e \<longleftrightarrow> is_exception e \<and> exn_type e \<in> {''KeyError'', ''TypeError'', ''ValueError''}"

text \<open>
  The response is a dictionary; a failing conversion of the count is caught, one of the confidence
  is not.
\<close>

definition verify :: "converters \<Rightarrow> (count_result \<Rightarrow> exn + args) \<Rightarrow> count_result \<Rightarrow> exn + verification" where
  "verify cv client r =
     (case client r of
        Inl e \<Rightarrow> if is_exception e
          then Inr \<lparr>vf_symbol = cr_symbol r, vf_verified = False, vf_agrees = False, vf_count = None,
                    vf_confidence = 0, vf_notes = ''verifier_error''\<rparr>
          else Inl e
      | Inr resp \<Rightarrow>
          (case (case map_of resp ''verified_count'' of None \<Rightarrow> Inr None
                 | Some j \<Rightarrow> (case to_int cv j of Inr n \<Rightarrow> Inr (Some n)
                     | Inl e \<Rightarrow> if caught_count_error e then Inr None else Inl e)) of
             Inl e \<Rightarrow> Inl e
           | Inr vc \<Rightarrow>
              (let cj = (case map_of resp ''confidence'' of None \<Rightarrow> JFloat ''0.0'' | Some j \<Rightarrow> j) in
               case to_float cv (if json_truthy cj then cj else JFloat ''0.0'') of
                 Inl e \<Rightarrow> Inl e
               | Inr c \<Rightarrow> Inr \<lparr>vf_symbol = cr_symbol r, vf_verified = True,
                   vf_agrees = (vc \<noteq> None \<and> (case map_of resp ''agrees'' of None \<Rightarrow> False | Some j \<Rightarrow> json_truthy j)),
                   vf_count = vc, vf_confidence = min 1 (max 0 c),
                   vf_notes = (case map_of resp ''notes'' of None \<Rightarrow> '''' | Some j \<Rightarrow> to_str cv j)\<rparr>)))"

definition merge_verdict :: "count_result \<Rightarrow> verification \<Rightarrow> count_result" where
  "merge_verdict r v =
     (if \<not> vf_verified v then r
      else (let r = r\<lparr>cr_verified := True\<rparr> in
        if vf_agrees v then r\<lparr>cr_confidence := max (cr_confidence r) (vf_confidence v)\<rparr>
        else r\<lparr>cr_confidence := round_dec 3 (min (cr_confidence r) (vf_confidence v) * (1/2))\<rparr>))"

text \<open>
  \<open>AnthropicVerifierClient\<close> after the API call: the input of the first tool use, else its fall-back
  (\<open>None\<close>: the model answered without the tool).  \<open>StubVerifierClient\<close>: canned verdicts.
\<close>

definition anthropic_response :: "args option \<Rightarrow> count_result \<Rightarrow> args" where
  "anthropic_response tool_use r =
     (case tool_use of Some a \<Rightarrow> a
      | None \<Rightarrow> [(''verified_count'', JInt (int (cr_count r))), (''agrees'', JBool True),
                 (''confidence'', JFloat ''0.0''), (''notes'', JStr ''no tool use'')])"

definition stub_response :: "(string, args) dict \<Rightarrow> bool \<Rightarrow> count_result \<Rightarrow> args" where
  "stub_response verdicts default_agrees r =
     (case map_of verdicts (cr_symbol r) of Some a \<Rightarrow> a
      | None \<Rightarrow> [(''verified_count'', JInt (int (cr_count r))), (''agrees'', JBool default_agrees),
                 (''confidence'', JFloat (if default_agrees then ''0.9'' else ''0.4'')), (''notes'', JStr ''stub'')])"

fun verify_counts :: "converters \<Rightarrow> (count_result \<Rightarrow> exn + args) \<Rightarrow> count_result list \<Rightarrow> exn + count_result list" where
  "verify_counts cv client [] = Inr []"
| "verify_counts cv client (c # cs) = (case verify cv client c of Inl e \<Rightarrow> Inl e
     | Inr v \<Rightarrow> (case verify_counts cv client cs of Inl e \<Rightarrow> Inl e | Inr out \<Rightarrow> Inr (merge_verdict c v # out)))"

record reconciled =
  rc_total :: nat
  rc_verified :: bool
  rc_confidence :: rat
  rc_sheets :: "(int \<times> nat) list"
  rc_disagreement :: bool

definition group_counts :: "count_result list \<Rightarrow> (string, count_result list) dict" where
  "group_counts rs = foldl (\<lambda>d r. dict_set d (cr_symbol r)
     ((case map_of d (cr_symbol r) of None \<Rightarrow> [] | Some xs \<Rightarrow> xs) @ [r])) [] rs"

definition reconcile_symbol :: "count_result list \<Rightarrow> reconciled" where
  "reconcile_symbol rs = (let counts = map cr_count rs in
     \<lparr>rc_total = Max (set counts), rc_verified = list_all cr_verified rs,
      rc_confidence = round_dec 3 (Min (set (map cr_confidence rs))),
      rc_sheets = map (\<lambda>r. (cr_page r, cr_count r)) rs,
      rc_disagreement = (card (set counts) > 1)\<rparr>)"

definition reconcile :: "count_result list \<Rightarrow> (string, reconciled) dict" where
  "reconcile rs = map (\<lambda>(sym, xs). (sym, reconcile_symbol xs)) (group_counts rs)"

text \<open>
  The flip of a catalog item.  The attribute \<open>plan_count_confidence\<close> is added with the
  confidence's text (\<open>show_conf\<close>).
\<close>

definition flip_item :: "(rat \<Rightarrow> string) \<Rightarrow> (string, reconciled) dict \<Rightarrow> schedule_item \<Rightarrow> schedule_item" where
  "flip_item show_conf rec it =
     (case map_of rec (si_mark it) of
        None \<Rightarrow> it
      | Some r \<Rightarrow>
          if si_basis it = UnknownPlanCount \<and> rc_verified r
          then it\<lparr>si_quantity := Some (of_nat (rc_total r)), si_unit := Some ''EA'', si_basis := PlanCount,
                  si_attributes := dict_set (si_attributes it) ''plan_count_confidence'' (show_conf (rc_confidence r))\<rparr>
          else it)"

definition flip_fixture_items :: "(rat \<Rightarrow> string) \<Rightarrow> schedule_item list \<Rightarrow> (string, reconciled) dict \<Rightarrow> schedule_item list" where
  "flip_fixture_items show_conf items rec = map (flip_item show_conf rec) items"

section \<open>What is counted\<close>

abbreviation tagged :: "string \<Rightarrow> word list \<Rightarrow> word list" where
  "tagged t ws \<equiv> filter (\<lambda>w. py_strip (wd_text w) = t) ws"

lemma tag_spans_loop_map:
  "map_of (tag_spans_loop tags ws out) t =
     (if t \<in> tags \<and> tagged t ws \<noteq> []
      then Some ((case map_of out t of None \<Rightarrow> [] | Some ps \<Rightarrow> ps) @ map word_center (tagged t ws))
      else map_of out t)"
proof (induction tags ws out rule: tag_spans_loop.induct)
  case (2 tags wd wds out)
  show ?case
  proof (cases "py_strip (wd_text wd) \<in> tags")
    case True
    from "2.IH"(1)[OF refl True] show ?thesis
      using True by (cases "py_strip (wd_text wd) = t") (auto simp: Let_def)
  next
    case False
    from "2.IH"(2)[OF refl False] show ?thesis
      using False by (cases "py_strip (wd_text wd) = t") (auto simp: Let_def)
  qed
qed simp

text \<open>A tag's span is its occurrences on the page, in reading order.\<close>

lemma tag_spans_spec:
  "map_of (tag_spans p tags) t =
     (if t \<in> tags \<and> tagged t (pv_words p) \<noteq> [] then Some (map word_center (tagged t (pv_words p))) else None)"
  by (simp add: tag_spans_def tag_spans_loop_map)

lemma tag_spans_loop_distinct:
  "distinct (dict_keys out) \<Longrightarrow> distinct (dict_keys (tag_spans_loop tags ws out))"
  by (induction tags ws out rule: tag_spans_loop.induct) (auto simp: Let_def distinct_keys_dict_set)

lemma tag_spans_distinct: "distinct (dict_keys (tag_spans p tags))"
  by (simp add: tag_spans_def tag_spans_loop_distinct)

lemma page_counts_spec:
  assumes "c \<in> set (page_counts i (tag_spans p tags))"
  shows "cr_page c = i + 1" "cr_symbol c \<in> tags" "cr_count c = length (tagged (cr_symbol c) (pv_words p))"
    "0 < cr_count c" "length (cr_boxes c) = cr_count c" "\<not> cr_verified c"
proof -
  from assms obtain t pts where m: "(t, pts) \<in> set (tag_spans p tags)" and c: "cr_page c = i + 1" "cr_symbol c = t"
    "cr_count c = length pts" "length (cr_boxes c) = length pts" "\<not> cr_verified c"
    by (auto simp: page_counts_def)
  from m have "map_of (tag_spans p tags) t = Some pts"
    using tag_spans_distinct by (simp add: map_of_eq_Some_iff)
  then have "t \<in> tags" "tagged t (pv_words p) \<noteq> []" "pts = map word_center (tagged t (pv_words p))"
    by (auto simp: tag_spans_spec split: if_splits)
  with c show "cr_page c = i + 1" "cr_symbol c \<in> tags" "cr_count c = length (tagged (cr_symbol c) (pv_words p))"
    "0 < cr_count c" "length (cr_boxes c) = cr_count c" "\<not> cr_verified c" by auto
qed

text \<open>
  A count is the number of the tag's occurrences on a sheet of the range that is not excluded and
  is an instance plan.
\<close>

lemma extract_counts_spec:
  assumes "extract_counts doc tags skip rng = Inr cs" and "c \<in> set cs"
  shows "\<exists>i p. i \<in> set rng \<and> i \<notin> skip \<and> dv_page doc i = Inr p \<and> cr_page c = i + 1 \<and> cr_symbol c \<in> tags \<and>
    classify_page (concat (map snd (tag_spans p tags))) (pv_width p) (pv_height p) = Inr InstancePlan \<and>
    cr_count c = length (tagged (cr_symbol c) (pv_words p)) \<and> 0 < cr_count c"
  using assms
proof (induction rng arbitrary: cs)
  case (Cons i rng)
  show ?case
  proof (cases "i \<in> skip")
    case True
    with Cons.prems have "extract_counts doc tags skip rng = Inr cs" by simp
    from Cons.IH[OF this Cons.prems(2)] show ?thesis by auto
  next
    case False
    with Cons.prems(1) obtain p kind rest where p: "dv_page doc i = Inr p"
      "classify_page (concat (map snd (tag_spans p tags))) (pv_width p) (pv_height p) = Inr kind"
      "extract_counts doc tags skip rng = Inr rest"
      "cs = (if kind = InstancePlan then page_counts i (tag_spans p tags) else []) @ rest"
      by (auto simp: Let_def split: sum.splits)
    show ?thesis
    proof (cases "c \<in> set rest")
      case True
      from Cons.IH[OF p(3) True] show ?thesis by auto
    next
      case f: False
      with Cons.prems(2) p(4) have "kind = InstancePlan" "c \<in> set (page_counts i (tag_spans p tags))"
        by (auto split: if_splits)
      with page_counts_spec[OF this(2)] p False show ?thesis by auto
    qed
  qed
qed simp

section \<open>What verification may change\<close>

definition count_facts :: "count_result \<Rightarrow> string \<times> int \<times> nat \<times> (rat \<times> rat) list" where
  "count_facts r = (cr_symbol r, cr_page r, cr_count r, cr_boxes r)"

lemma merge_verdict_facts: "count_facts (merge_verdict r v) = count_facts r"
  by (simp add: merge_verdict_def count_facts_def Let_def)

lemma merge_verdict_verified: "cr_verified (merge_verdict r v) \<longleftrightarrow> cr_verified r \<or> vf_verified v"
  by (simp add: merge_verdict_def Let_def)

lemma verify_counts_facts:
  "verify_counts cv client cs = Inr out \<Longrightarrow> map count_facts out = map count_facts cs"
  by (induction cs arbitrary: out) (auto simp: merge_verdict_facts split: sum.splits)

text \<open>A client that raises leaves the count as it was.\<close>

lemma verify_error_untouched:
  assumes "client r = Inl e" and "is_exception e"
  shows "\<exists>v. verify cv client r = Inr v \<and> merge_verdict r v = r"
  using assms by (simp add: verify_def merge_verdict_def)

lemma verify_confidence: "verify cv client r = Inr v \<Longrightarrow> 0 \<le> vf_confidence v \<and> vf_confidence v \<le> 1"
  by (auto simp: verify_def Let_def split: sum.splits if_splits)

lemma group_counts_fold:
  "map_of (foldl (\<lambda>d r. dict_set d (cr_symbol r) ((case map_of d (cr_symbol r) of None \<Rightarrow> [] | Some xs \<Rightarrow> xs) @ [r])) d rs) s =
     (if filter (\<lambda>r. cr_symbol r = s) rs = [] then map_of d s
      else Some ((case map_of d s of None \<Rightarrow> [] | Some xs \<Rightarrow> xs) @ filter (\<lambda>r. cr_symbol r = s) rs))"
  by (induction rs arbitrary: d) (auto split: option.splits)

lemma group_counts_spec:
  "map_of (group_counts rs) s = (let xs = filter (\<lambda>r. cr_symbol r = s) rs in if xs = [] then None else Some xs)"
  by (simp add: group_counts_def group_counts_fold Let_def)

lemma reconcile_spec:
  "map_of (reconcile rs) s =
     (let xs = filter (\<lambda>r. cr_symbol r = s) rs in if xs = [] then None else Some (reconcile_symbol xs))"
proof -
  have "map_of (map (\<lambda>(sym, xs). (sym, reconcile_symbol xs)) d) s = map_option reconcile_symbol (map_of d s)" for d
    by (induction d) auto
  then show ?thesis by (simp add: reconcile_def group_counts_spec Let_def)
qed

text \<open>The building total is the largest sheet count, never the sum.\<close>

lemma reconcile_total:
  assumes "map_of (reconcile rs) s = Some rc"
  shows "\<forall>r \<in> set rs. cr_symbol r = s \<longrightarrow> cr_count r \<le> rc_total rc"
    and "\<exists>r \<in> set rs. cr_symbol r = s \<and> cr_count r = rc_total rc"
    and "rc_verified rc \<longleftrightarrow> (\<forall>r \<in> set rs. cr_symbol r = s \<longrightarrow> cr_verified r)"
    and "rc_disagreement rc \<longleftrightarrow> (\<exists>r \<in> set rs. \<exists>r' \<in> set rs. cr_symbol r = s \<and> cr_symbol r' = s \<and> cr_count r \<noteq> cr_count r')"
proof -
  let ?xs = "filter (\<lambda>r. cr_symbol r = s) rs"
  from assms have ne: "?xs \<noteq> []" and rc: "rc = reconcile_symbol ?xs"
    by (auto simp: reconcile_spec Let_def split: if_splits)
  let ?C = "cr_count ` set ?xs"
  have fin: "finite ?C" and nonempty: "?C \<noteq> {}" using ne by (auto simp del: set_filter)
  have tot: "rc_total rc = Max ?C" by (simp add: rc reconcile_symbol_def Let_def)
  show "\<forall>r \<in> set rs. cr_symbol r = s \<longrightarrow> cr_count r \<le> rc_total rc"
    unfolding tot using fin by (auto intro!: Max_ge)
  show "\<exists>r \<in> set rs. cr_symbol r = s \<and> cr_count r = rc_total rc"
    using Max_in[OF fin nonempty] unfolding tot by auto
  show "rc_verified rc \<longleftrightarrow> (\<forall>r \<in> set rs. cr_symbol r = s \<longrightarrow> cr_verified r)"
    by (auto simp: rc reconcile_symbol_def Let_def list_all_iff)
  have "rc_disagreement rc \<longleftrightarrow> card ?C > 1" by (simp add: rc reconcile_symbol_def Let_def)
  also have "\<dots> \<longleftrightarrow> (\<exists>a \<in> ?C. \<exists>b \<in> ?C. a \<noteq> b)"
  proof
    assume "card ?C > 1"
    then have "\<not> card ?C \<le> Suc 0" by simp
    then show "\<exists>a \<in> ?C. \<exists>b \<in> ?C. a \<noteq> b" unfolding card_le_Suc0_iff_eq[OF fin] by blast
  next
    assume "\<exists>a \<in> ?C. \<exists>b \<in> ?C. a \<noteq> b"
    then have "\<not> card ?C \<le> Suc 0" unfolding card_le_Suc0_iff_eq[OF fin] by blast
    then show "card ?C > 1" by simp
  qed
  finally show "rc_disagreement rc \<longleftrightarrow>
      (\<exists>r \<in> set rs. \<exists>r' \<in> set rs. cr_symbol r = s \<and> cr_symbol r' = s \<and> cr_count r \<noteq> cr_count r')" by auto
qed

text \<open>The flip touches only pending items whose symbol was verified.\<close>

lemma flip_item_spec:
  "flip_item sc rec it = it \<or>
     (si_basis it = UnknownPlanCount \<and> (\<exists>r. map_of rec (si_mark it) = Some r \<and> rc_verified r \<and>
        si_basis (flip_item sc rec it) = PlanCount \<and> si_quantity (flip_item sc rec it) = Some (of_nat (rc_total r))))"
  by (auto simp: flip_item_def split: option.splits)

lemma flip_item_key [simp]:
  "si_mark (flip_item sc rec it) = si_mark it" "si_schedule (flip_item sc rec it) = si_schedule it"
  by (auto simp: flip_item_def split: option.splits)

lemma flip_item_ok: "item_ok it \<Longrightarrow> item_ok (flip_item sc rec it)"
  by (auto simp: flip_item_def item_ok_def split: option.splits)

section \<open>Properties of the counts\<close>

text \<open>
  C19.  A fixture count is the number of words on its sheet that are exactly the tag, on a sheet
  of the range that is not one of the schedule's own pages and is classified as an instance plan;
  it is never zero and never marked verified.
\<close>

theorem count_is_occurrences:
  assumes "extract_counts doc tags skip rng = Inr cs" and "c \<in> set cs"
  shows "\<exists>i p. i \<in> set rng \<and> i \<notin> skip \<and> dv_page doc i = Inr p \<and> cr_page c = i + 1 \<and> cr_symbol c \<in> tags \<and>
    classify_page (concat (map snd (tag_spans p tags))) (pv_width p) (pv_height p) = Inr InstancePlan \<and>
    cr_count c = length (tagged (cr_symbol c) (pv_words p)) \<and> 0 < cr_count c"
  by (rule extract_counts_spec[OF assms])

definition plan_doc :: doc_view where
  "plan_doc = \<lparr>dv_file_id = ''d'', dv_page_count = 1, dv_page = (\<lambda>i. Inr \<lparr>pv_text = '''', pv_tables = [],
     pv_words = map (\<lambda>k. \<lparr>wd_x0 = of_int (10 * k), wd_y0 = of_int (10 * k), wd_x1 = of_int (10 * k), wd_y1 = of_int (10 * k),
        wd_text = ''P1''\<rparr>) [0..9], pv_width = 100, pv_height = 100\<rparr>)\<rparr>"

theorem count_is_occurrences_witness:
  "case extract_counts plan_doc {''P1''} {} [0] of
     Inr cs \<Rightarrow> map cr_count cs = [10] \<and> list_all (\<lambda>c. cr_symbol c = ''P1'') cs
   | Inl e \<Rightarrow> False"
proof -
  let ?o = "extract_counts plan_doc {''P1''} {} [0]"
  have v: "case ?o of Inr cs \<Rightarrow> map cr_count cs = [10] | Inl e \<Rightarrow> False" by code_simp
  then obtain cs where cs: "?o = Inr cs" by (auto split: sum.splits)
  have "cr_symbol c = ''P1''" if "c \<in> set cs" for c using count_is_occurrences[OF cs that] by auto
  with v cs show ?thesis by (simp add: list_all_iff)
qed

text \<open>
  Verification never changes what was counted: symbol, sheet, count and boxes of every
  result are what the text gave, whatever the vision model answers, and a verifier that raises
  leaves its result untouched.
\<close>

theorem verification_keeps_counts:
  assumes "verify_counts cv client cs = Inr out"
  shows "map (\<lambda>r. (cr_symbol r, cr_page r, cr_count r, cr_boxes r)) out =
     map (\<lambda>r. (cr_symbol r, cr_page r, cr_count r, cr_boxes r)) cs \<and>
   (\<forall>i < length cs. (\<exists>t m. client (cs ! i) = Inl (Exn t m)) \<longrightarrow> out ! i = cs ! i)"
proof
  show "map (\<lambda>r. (cr_symbol r, cr_page r, cr_count r, cr_boxes r)) out =
     map (\<lambda>r. (cr_symbol r, cr_page r, cr_count r, cr_boxes r)) cs"
    using verify_counts_facts[OF assms] unfolding count_facts_def .
  show "\<forall>i < length cs. (\<exists>t m. client (cs ! i) = Inl (Exn t m)) \<longrightarrow> out ! i = cs ! i"
    using assms
  proof (induction cs arbitrary: out)
    case (Cons c cs)
    from Cons.prems obtain v rest where v: "verify cv client c = Inr v" "verify_counts cv client cs = Inr rest"
      "out = merge_verdict c v # rest" by (auto split: sum.splits)
    have "merge_verdict c v = c" if "client c = Inl (Exn t m)" for t m
      using verify_error_untouched[of client c "Exn t m" cv] that v(1) by auto
    with Cons.IH[OF v(2)] v(3) show ?case by (auto simp: nth_Cons split: nat.splits)
  qed simp
qed

definition pending_count :: count_result where
  "pending_count = \<lparr>cr_symbol = ''P1'', cr_page = 1, cr_count = 4, cr_confidence = 7/10, cr_source = ''text_tag'',
     cr_verified = False, cr_boxes = []\<rparr>"

theorem verification_keeps_counts_witness:
  "\<forall>cv. \<exists>out. verify_counts cv (\<lambda>r. Inl (Exn ''TimeoutError'' '''')) [pending_count] = Inr out \<and> out ! 0 = pending_count"
proof
  fix cv
  have "verify_counts cv (\<lambda>r. Inl (Exn ''TimeoutError'' '''')) [pending_count] = Inr [pending_count]"
    by (simp add: verify_def merge_verdict_def)
  from verification_keeps_counts[OF this] this
  show "\<exists>out. verify_counts cv (\<lambda>r. Inl (Exn ''TimeoutError'' '''')) [pending_count] = Inr out \<and> out ! 0 = pending_count"
    by simp
qed

text \<open>
  The building total of a symbol is the largest of its sheet counts, never their sum; it is
  verified iff every sheet is, and sheets that disagree are flagged.
\<close>

theorem reconciled_total_is_max:
  assumes "map_of (reconcile rs) s = Some rc"
  shows "rc_total rc = Max {cr_count r |r. r \<in> set rs \<and> cr_symbol r = s} \<and>
    (rc_verified rc \<longleftrightarrow> (\<forall>r \<in> set rs. cr_symbol r = s \<longrightarrow> cr_verified r)) \<and>
    (rc_disagreement rc \<longleftrightarrow> (\<exists>r \<in> set rs. \<exists>r' \<in> set rs. cr_symbol r = s \<and> cr_symbol r' = s \<and> cr_count r \<noteq> cr_count r'))"
proof -
  have "Max {cr_count r |r. r \<in> set rs \<and> cr_symbol r = s} = rc_total rc"
  proof (rule Max_eqI)
    have "{cr_count r |r. r \<in> set rs \<and> cr_symbol r = s} \<subseteq> cr_count ` set rs" by auto
    then show "finite {cr_count r |r. r \<in> set rs \<and> cr_symbol r = s}" by (rule finite_subset) simp
    show "n \<le> rc_total rc" if "n \<in> {cr_count r |r. r \<in> set rs \<and> cr_symbol r = s}" for n
      using that reconcile_total(1)[OF assms] by auto
    obtain r where "r \<in> set rs" "cr_symbol r = s" "cr_count r = rc_total rc"
      using reconcile_total(2)[OF assms] by blast
    then show "rc_total rc \<in> {cr_count r |r. r \<in> set rs \<and> cr_symbol r = s}" by (metis (mono_tags) mem_Collect_eq)
  qed
  with reconcile_total(3,4)[OF assms] show ?thesis by simp
qed

theorem reconciled_total_is_max_witness:
  "case map_of (reconcile (map (\<lambda>(p, n). \<lparr>cr_symbol = ''P1'', cr_page = p, cr_count = n, cr_confidence = 7/10,
      cr_source = ''text_tag'', cr_verified = False, cr_boxes = []\<rparr>) [(3, 4), (5, 6)])) ''P1'' of
     Some rc \<Rightarrow> rc_total rc = 6 \<and> \<not> rc_verified rc
   | None \<Rightarrow> False"
proof -
  let ?rs = "map (\<lambda>(p, n). \<lparr>cr_symbol = ''P1'', cr_page = p, cr_count = n, cr_confidence = 7/10,
      cr_source = ''text_tag'', cr_verified = False, cr_boxes = []\<rparr>) [(3, 4), (5, 6)]"
  have v: "case map_of (reconcile ?rs) ''P1'' of Some rc \<Rightarrow> rc_total rc = 6 | None \<Rightarrow> False" by code_simp
  then obtain rc where rc: "map_of (reconcile ?rs) ''P1'' = Some rc" by (auto split: option.splits)
  from reconciled_total_is_max[OF rc] v rc show ?thesis by simp
qed

section \<open>Recorded verdicts\<close>

text \<open>
  The key of a request over the bytes of its image, the offline client that replays recorded
  responses by key, and what the recording client adds to the file.
\<close>

definition verdict_key :: "(string \<Rightarrow> string) \<Rightarrow> string \<Rightarrow> count_result \<Rightarrow> string" where
  "verdict_key sha256 png r = take 16 (sha256 (dumps_sorted
     [(''symbol_id'', JStr (cr_symbol r)), (''sheet_page'', JInt (cr_page r)),
      (''deterministic_count'', JInt (int (cr_count r))), (''image_sha'', JStr (take 16 (sha256 png)))]))"

definition replay_verdict :: "(string \<Rightarrow> string) \<Rightarrow> (string, args) dict \<Rightarrow> string \<Rightarrow> count_result \<Rightarrow> exn + args" where
  "replay_verdict sha256 data png r = (let key = verdict_key sha256 png r in
     case map_of data key of
       None \<Rightarrow> Inl (Exn ''KeyError'' (''no recorded fixture for '' @ py_repr (cr_symbol r) @ '' ('' @ key @ '')''))
     | Some resp \<Rightarrow> Inr resp)"

definition record_verdict :: "(string \<Rightarrow> string) \<Rightarrow> (count_result \<Rightarrow> exn + args) \<Rightarrow> string \<Rightarrow> count_result \<Rightarrow> (string, args) dict \<Rightarrow>
    (exn + args) \<times> (string, args) dict" where
  "record_verdict sha256 inner png r data = (case inner r of
     Inl e \<Rightarrow> (Inl e, data)
   | Inr resp \<Rightarrow> (Inr resp, dict_set data (verdict_key sha256 png r) resp))"

lemma recorded_verdict_replays:
  "record_verdict sha256 inner png r data = (Inr resp, data') \<Longrightarrow> replay_verdict sha256 data' png r = Inr resp"
  by (auto simp: record_verdict_def replay_verdict_def Let_def split: sum.splits)

end
