(* ===== verification/TakeoffBuild.thy ===== *)
theory TakeoffBuild
  imports Counts
begin

text \<open>
  The artifact: \<open>src/src/takeoff/build_schedule_items.py\<close> (coverage, counted catalogs, assembly, the
  serial builder) and the seam \<open>src/service/takeoff/pipeline_adapter.py\<close> with the report the reduce
  assembles from merged items.

  A partial goes through JSON between the map and the reduce; items come back unchanged
  (\<open>to_dict\<close>, \<open>json\<close>, \<open>ScheduleItem(**d)\<close>), so the model passes them on.  The manifest's
  timings and checksum are not modelled.
\<close>

section \<open>Assembly\<close>

record area_coverage =
  ac_finish_rooms :: nat
  ac_with_area :: nat
  ac_coverage :: rat

definition area_coverage_of :: "room_area list \<Rightarrow> string set \<Rightarrow> area_coverage" where
  "area_coverage_of ras finish =
     (let n = card finish; k = card (set (map ra_room ras) \<inter> finish) in
      \<lparr>ac_finish_rooms = n, ac_with_area = k,
       ac_coverage = (if n = 0 then 0 else round_dec 3 (of_nat k / of_nat n))\<rparr>)"

record report =
  rp_summary :: items_summary
  rp_coverage :: area_coverage
  rp_count_summary :: count_summary
  rp_items :: "schedule_item list"
  rp_room_areas :: "room_area list"
  rp_fixture_counts :: "count_result list"

definition assemble :: "schedule_item list \<Rightarrow> room_area list \<Rightarrow> string set \<Rightarrow> count_result list \<Rightarrow> report" where
  "assemble items ras finish counts = \<lparr>rp_summary = summarize items, rp_coverage = area_coverage_of ras finish,
     rp_count_summary = summarize_counts counts, rp_items = items, rp_room_areas = ras, rp_fixture_counts = counts\<rparr>"

definition counted_catalogs :: "string list" where
  "counted_catalogs = [''plumbing_fixture'', ''lighting_fixture'']"

definition page_indices :: "doc_view \<Rightarrow> int list option \<Rightarrow> int list" where
  "page_indices doc rng = (case rng of Some r \<Rightarrow> r | None \<Rightarrow> [0..dv_page_count doc - 1])"

fun count_kinds :: "doc_view \<Rightarrow> schedule_item list \<Rightarrow> int list option \<Rightarrow> string list \<Rightarrow> exn + count_result list" where
  "count_kinds doc items rng [] = Inr []"
| "count_kinds doc items rng (kind # kinds) =
     (let cat = filter (\<lambda>i. si_schedule i = kind) items in
      if cat = [] then count_kinds doc items rng kinds
      else (case extract_counts doc (set (map si_mark cat)) (set (List.map_filter si_page cat)) (page_indices doc rng) of
          Inl e \<Rightarrow> Inl e
        | Inr cs \<Rightarrow> (case count_kinds doc items rng kinds of Inl e \<Rightarrow> Inl e | Inr rest \<Rightarrow> Inr (cs @ rest))))"

definition count_fixtures :: "doc_view \<Rightarrow> schedule_item list \<Rightarrow> int list option \<Rightarrow> exn + count_result list" where
  "count_fixtures doc items rng = count_kinds doc items rng counted_catalogs"

definition finish_rooms :: "schedule_item list \<Rightarrow> string set" where
  "finish_rooms items = set (map si_mark (filter (\<lambda>i. si_schedule i = ''finish'') items))"

text \<open>The second wave over given items: areas, counts, assembly.\<close>

definition assemble_report :: "(rat \<Rightarrow> rat \<Rightarrow> rat) \<Rightarrow> doc_view \<Rightarrow> schedule_item list \<Rightarrow> int list option \<Rightarrow> exn + report" where
  "assemble_report hyp doc items rng =
     (case harvest_room_areas hyp doc (finish_rooms items) rng of Inl e \<Rightarrow> Inl e
      | Inr ras \<Rightarrow> (case count_fixtures doc items rng of Inl e \<Rightarrow> Inl e
          | Inr counts \<Rightarrow> Inr (assemble items ras (finish_rooms items) counts)))"

definition build_schedule_items :: "(rat \<Rightarrow> rat \<Rightarrow> rat) \<Rightarrow> doc_view \<Rightarrow> int list option \<Rightarrow> exn + report" where
  "build_schedule_items hyp doc rng =
     (case extract_schedule_items doc (page_indices doc rng) schedule_registry of Inl e \<Rightarrow> Inl e
      | Inr items \<Rightarrow> assemble_report hyp doc items rng)"

section \<open>The adapter\<close>

text \<open>The stored configuration; \<open>pr\<close> is its \<open>page_range\<close>.\<close>

definition config_range :: "(int \<times> int) option \<Rightarrow> int list option" where
  "config_range pr = map_option (\<lambda>(a, b). [a..b - 1]) pr"

definition run_takeoff :: "(rat \<Rightarrow> rat \<Rightarrow> rat) \<Rightarrow> doc_view \<Rightarrow> (int \<times> int) option \<Rightarrow> exn + report" where
  "run_takeoff hyp doc pr = build_schedule_items hyp doc (config_range pr)"

text \<open>What the reduce of a sharded job persists.\<close>

definition sharded_takeoff :: "(rat \<Rightarrow> rat \<Rightarrow> rat) \<Rightarrow> doc_view \<Rightarrow> (int \<times> int) option \<Rightarrow> schedule_item list list \<Rightarrow> exn + report" where
  "sharded_takeoff hyp doc pr parts =
     assemble_report hyp doc (merge_partials si_schedule si_mark parts) (config_range pr)"

section \<open>Facts\<close>

lemma area_coverage_unit: "0 \<le> ac_coverage (area_coverage_of ras finish) \<and> ac_coverage (area_coverage_of ras finish) \<le> 1"
proof (cases "card finish = 0")
  case False
  then have fin: "finite finish" by (rule card_ge_0_finite[OF neq0_conv[THEN iffD1]])
  have "card (set (map ra_room ras) \<inter> finish) \<le> card finish" using fin by (intro card_mono) auto
  with False have "0 \<le> (of_nat (card (set (map ra_room ras) \<inter> finish)) / of_nat (card finish) :: rat)"
    "(of_nat (card (set (map ra_room ras) \<inter> finish)) / of_nat (card finish) :: rat) \<le> 1"
    by (simp_all add: divide_le_eq)
  from round_dec_unit[OF this, of 3] False show ?thesis by (simp add: area_coverage_of_def Let_def)
qed (simp add: area_coverage_of_def Let_def)

text \<open>No count comes from a page of the catalog's own schedule.\<close>

lemma count_kinds_spec:
  assumes "count_kinds doc items rng kinds = Inr cs" and "c \<in> set cs"
  shows "\<exists>kind \<in> set kinds. \<exists>it \<in> set items. si_schedule it = kind \<and> si_mark it = cr_symbol c \<and>
    (\<forall>it' \<in> set items. si_schedule it' = kind \<longrightarrow> si_page it' \<noteq> Some (cr_page c - 1)) \<and>
    cr_page c - 1 \<in> set (page_indices doc rng)"
  using assms
proof (induction kinds arbitrary: cs)
  case (Cons kind kinds)
  let ?cat = "filter (\<lambda>i. si_schedule i = kind) items"
  let ?ex = "extract_counts doc (set (map si_mark ?cat)) (set (List.map_filter si_page ?cat)) (page_indices doc rng)"
  show ?case
  proof (cases "?cat = []")
    case True
    with Cons.prems(1) have "count_kinds doc items rng kinds = Inr cs" by (simp add: Let_def)
    from Cons.IH[OF this Cons.prems(2)] show ?thesis by auto
  next
    case False
    with Cons.prems(1) obtain cs1 rest where e: "?ex = Inr cs1" "count_kinds doc items rng kinds = Inr rest" "cs = cs1 @ rest"
      by (auto simp: Let_def split: sum.splits)
    from Cons.prems(2) e(3) consider "c \<in> set cs1" | "c \<in> set rest" by auto
    then show ?thesis
    proof cases
      case 1
      from extract_counts_spec[OF e(1) 1] obtain i where i: "i \<in> set (page_indices doc rng)"
        "i \<notin> set (List.map_filter si_page ?cat)" "cr_page c = i + 1" "cr_symbol c \<in> set (map si_mark ?cat)" by blast
      have skip: "si_page it' \<noteq> Some i" if "it' \<in> set items" "si_schedule it' = kind" for it'
        using i(2) that by (force simp: List.map_filter_def)
      from i(4) obtain it where "it \<in> set items" "si_schedule it = kind" "si_mark it = cr_symbol c" by auto
      with i(1,3) skip show ?thesis by (intro bexI[of _ kind] bexI[of _ it]) auto
    next
      case 2
      from Cons.IH[OF e(2) 2] show ?thesis by auto
    qed
  qed
qed simp

text \<open>
  The artifact of a sharded job whose shards all succeeded is the artifact of the serial build.
\<close>

lemma sharded_report_is_serial:
  assumes plan: "plan_shard_windows cs (dv_page_count doc) cap ps pe = Inr ws"
    and range: "(pr = None \<and> ps = 0 \<and> pe = None) \<or> (pr = Some (ps, b) \<and> pe = Some b \<and> 0 \<le> ps \<and> b \<le> dv_page_count doc)"
    and loads: "\<And>i. range_lo ps \<le> i \<Longrightarrow> i < range_hi pe (dv_page_count doc) \<Longrightarrow> \<exists>p. dv_page doc i = Inr p"
    and parts: "map (\<lambda>w. extract_shard doc (win_start w, win_end w)) ws = map Inr parts"
  shows "sharded_takeoff hyp doc pr parts = run_takeoff hyp doc pr"
proof -
  obtain parts' where p: "map (\<lambda>w. extract_shard doc (win_start w, win_end w)) ws = map Inr parts'"
    and e: "extract_shard doc (range_lo ps, range_hi pe (dv_page_count doc)) = Inr (merge_partials si_schedule si_mark parts')"
    using sharded_is_serial[OF plan loads] by blast
  from p parts have "map (Inr :: _ \<Rightarrow> exn + _) parts' = map Inr parts" by simp
  then have "parts' = parts" by (rule map_injective) (simp add: inj_def)
  moreover have "page_indices doc (config_range pr) = [range_lo ps..range_hi pe (dv_page_count doc) - 1]"
    using range by (auto simp: page_indices_def config_range_def range_lo_def range_hi_def)
  ultimately show ?thesis
    using e by (simp add: sharded_takeoff_def run_takeoff_def build_schedule_items_def extract_shard_def)
qed

section \<open>The map-reduce property\<close>

text \<open>The partials exist on a document whose pages load, and give the serial artifact.\<close>

lemma map_reduce_is_serial_parts:
  assumes "plan_shard_windows cs (dv_page_count doc) cap ps pe = Inr ws"
    and "(pr = None \<and> ps = 0 \<and> pe = None) \<or> (pr = Some (ps, b) \<and> pe = Some b \<and> 0 \<le> ps \<and> b \<le> dv_page_count doc)"
    and "\<forall>i. 0 \<le> i \<and> i < dv_page_count doc \<longrightarrow> (\<exists>p. dv_page doc i = Inr p)"
  shows "\<exists>parts. map (\<lambda>w. extract_shard doc (win_start w, win_end w)) ws = map Inr parts \<and>
    sharded_takeoff hyp doc pr parts = run_takeoff hyp doc pr"
proof -
  have l: "\<exists>p. dv_page doc i = Inr p" if "range_lo ps \<le> i" "i < range_hi pe (dv_page_count doc)" for i
    using that assms(3) by (auto simp: range_lo_def range_hi_def)
  from sharded_is_serial[OF assms(1) l] obtain parts where
    p: "map (\<lambda>w. extract_shard doc (win_start w, win_end w)) ws = map Inr parts" by blast
  with sharded_report_is_serial[OF assms(1,2) l p] show ?thesis by blast
qed

text \<open>
  C6.  Map-reduce equals the serial run: for any plan of the page range into shard windows, the
  artifact assembled from the merged shard partials is the artifact of the single serial build,
  on every document whose pages load.
\<close>

theorem map_reduce_is_serial:
  assumes "plan_shard_windows cs (dv_page_count doc) cap ps pe = Inr ws"
    and "(pr = None \<and> ps = 0 \<and> pe = None) \<or> (pr = Some (ps, b) \<and> pe = Some b \<and> 0 \<le> ps \<and> b \<le> dv_page_count doc)"
    and "\<forall>i. 0 \<le> i \<and> i < dv_page_count doc \<longrightarrow> (\<exists>p. dv_page doc i = Inr p)"
  shows "\<exists>parts. map (\<lambda>w. extract_shard doc (win_start w, win_end w)) ws = map Inr parts \<and>
    sharded_takeoff hyp doc pr parts = run_takeoff hyp doc pr"
  by (rule map_reduce_is_serial_parts[OF assms])

theorem map_reduce_is_serial_witness:
  "\<exists>parts. length parts = 3 \<and>
     sharded_takeoff (\<lambda>x y. abs x + abs y) sample_doc None parts = run_takeoff (\<lambda>x y. abs x + abs y) sample_doc None"
proof -
  have n: "dv_page_count sample_doc = 4" by (simp add: sample_doc_def)
  have "case plan_shard_windows [1, 2] 4 1 0 None of Inr ws \<Rightarrow> length ws = 3 | Inl e \<Rightarrow> False" by code_simp
  then obtain ws where ws: "plan_shard_windows [1, 2] (dv_page_count sample_doc) 1 0 None = Inr ws" "length ws = 3"
    by (auto simp: n split: sum.splits)
  have loads: "\<forall>i. 0 \<le> i \<and> i < dv_page_count sample_doc \<longrightarrow> (\<exists>p. dv_page sample_doc i = Inr p)"
    by (simp add: sample_doc_def)
  from map_reduce_is_serial[OF ws(1) _ loads, of None 0 "\<lambda>x y. abs x + abs y"] obtain parts where
    p: "map (\<lambda>w. extract_shard sample_doc (win_start w, win_end w)) ws = map Inr parts"
       "sharded_takeoff (\<lambda>x y. abs x + abs y) sample_doc None parts = run_takeoff (\<lambda>x y. abs x + abs y) sample_doc None"
    by auto
  have "length ws = length parts" using arg_cong[OF p(1), of length] by simp
  with ws(2) p(2) show ?thesis by auto
qed

end
