(* ===== verification/Jobs.thy ===== *)
theory Jobs
  imports TakeoffBuild Systems
begin

text \<open>
  Job orchestration: \<open>src/service/jobs/orchestrator.py\<close> (plan, shards, completion counter, reduce),
  \<open>src/service/jobs/worker.py\<close> (the single build), the statuses of \<open>src/service/core/models.py\<close>
  and the derived limit of \<open>src/service/core/config.py\<close>.

  One job and its shard rows.  Every \<open>with session_scope()\<close> block is one atomic function; between
  them other workers may run, so a shard delivery is a sequence of three steps (begin, finish,
  finalize) and the interleavings of the deliveries are the relation \<open>shard_step\<close>.  A failed,
  non-terminal attempt raises and RQ delivers it again.  What a download, an extraction and an
  upload do is the outcome of the step: an exception or the partial.
\<close>

section \<open>Rows\<close>

datatype job_status = JQueued | JRunning | JPlanning | JMapping | JReducing | JSucceeded | JFailed | JDead

record shard_row =
  sh_window :: shard_window
  sh_status :: job_status
  sh_attempts :: nat
  sh_partial :: "schedule_item list option"
  sh_error :: "(string \<times> string) option"

record manifest =
  mf_sharded :: bool
  mf_shard_count :: nat
  mf_shards_merged :: nat
  mf_total_items :: nat
  mf_failed :: "(nat \<times> (int \<times> int) \<times> (string \<times> string) option) list"

definition mf_incomplete :: "manifest \<Rightarrow> bool" where
  "mf_incomplete m \<longleftrightarrow> mf_failed m \<noteq> []"

record job_row =
  jb_status :: job_status
  jb_sharded :: bool
  jb_attempts :: nat
  jb_shard_count :: nat
  jb_completed :: nat
  jb_error :: "(string \<times> string) option"
  jb_artifact :: "report option"
  jb_manifest :: "manifest option"

text \<open>
  Where the delivery of a shard task is: in the queue, in the try block, before the counter, done;
  or lost, its worker killed with no delivery left.
\<close>

datatype phase = Waiting | Working | Closing | Closed | Lost

record job_state =
  js_job :: job_row
  js_shards :: "(phase \<times> shard_row) list"
  js_reduces :: nat

definition new_job :: job_row where
  "new_job = \<lparr>jb_status = JQueued, jb_sharded = False, jb_attempts = 0, jb_shard_count = 0, jb_completed = 0,
     jb_error = None, jb_artifact = None, jb_manifest = None\<rparr>"

definition new_shard :: "shard_window \<Rightarrow> phase \<times> shard_row" where
  "new_shard w = (Waiting, \<lparr>sh_window = w, sh_status = JQueued, sh_attempts = 0, sh_partial = None, sh_error = None\<rparr>)"

definition error_record :: "exn \<Rightarrow> string \<times> string" where
  "error_record e = ((case e of Cancelled \<Rightarrow> ''CancelledError'' | Exn t m \<Rightarrow> t), take 2000 (exn_str e))"

definition max_candidates_per_shard :: "int \<Rightarrow> int \<Rightarrow> int" where
  "max_candidates_per_shard budget_mb mb_per_candidate = max 1 (budget_mb div mb_per_candidate)"

section \<open>The single build\<close>

definition process_job :: "(exn + report \<times> manifest) \<Rightarrow> job_row \<Rightarrow> (exn + job_status) \<times> job_row" where
  "process_job out j =
     (let j = j\<lparr>jb_status := JRunning, jb_attempts := Suc (jb_attempts j)\<rparr> in
      case out of
        Inl e \<Rightarrow> (Inl e, if is_exception e then j\<lparr>jb_status := JFailed, jb_error := Some (error_record e)\<rparr> else j)
      | Inr (rep, m) \<Rightarrow> (Inr JSucceeded, j\<lparr>jb_status := JSucceeded, jb_artifact := Some rep, jb_manifest := Some m\<rparr>))"

section \<open>Planning\<close>

text \<open>\<open>gate\<close> is the outcome of the download and the text gate; \<open>pr\<close> the configured page range.\<close>

definition plan_and_dispatch :: "int \<Rightarrow> (exn + int list \<times> int) \<Rightarrow> (int \<times> int) option \<Rightarrow> (exn + report \<times> manifest) \<Rightarrow>
    job_state \<Rightarrow> (exn + job_status) \<times> job_state" where
  "plan_and_dispatch cap gate pr single s =
     (let s = s\<lparr>js_job := (js_job s)\<lparr>jb_status := JPlanning\<rparr>\<rparr> in
      case gate of
        Inl e \<Rightarrow> (Inl e, s)
      | Inr (cands, total_pages) \<Rightarrow>
          (let (page_start, page_end) = (case pr of None \<Rightarrow> (0, None) | Some (a, b) \<Rightarrow> (a, Some b)) in
           case plan_shard_windows cands total_pages cap page_start page_end of
             Inl e \<Rightarrow> (Inl e, s)
           | Inr ws \<Rightarrow>
               if length ws \<le> 1
               then (let (r, j) = process_job single ((js_job s)\<lparr>jb_sharded := False\<rparr>) in (r, s\<lparr>js_job := j\<rparr>))
               else (Inr JMapping,
                     s\<lparr>js_job := (js_job s)\<lparr>jb_sharded := True, jb_shard_count := length ws, jb_status := JMapping\<rparr>,
                       js_shards := map new_shard ws\<rparr>)))"

section \<open>Shards\<close>

definition set_shard :: "nat \<Rightarrow> phase \<Rightarrow> shard_row \<Rightarrow> job_state \<Rightarrow> job_state" where
  "set_shard i p r s = s\<lparr>js_shards := (js_shards s)[i := (p, r)]\<rparr>"

definition shard_begin :: "nat \<Rightarrow> job_state \<Rightarrow> job_state" where
  "shard_begin i s = (let r = snd (js_shards s ! i) in
     set_shard i Working (r\<lparr>sh_status := JRunning, sh_attempts := Suc (sh_attempts r)\<rparr>) s)"

text \<open>
  The except branch or the success transaction; a non-terminal failure goes back to the queue.  A
  kill is no \<open>Exception\<close>: the row keeps its status and the task is delivered again while deliveries
  are left.
\<close>

definition shard_finish :: "nat \<Rightarrow> nat \<Rightarrow> (exn + schedule_item list) \<Rightarrow> job_state \<Rightarrow> job_state" where
  "shard_finish max_attempts i out s = (let r = snd (js_shards s ! i) in
     case out of
       Inl e \<Rightarrow> (let terminal = (sh_attempts r \<ge> max_attempts) in
         if is_exception e
         then set_shard i (if terminal then Closing else Waiting)
           (r\<lparr>sh_status := (if terminal then JDead else JFailed), sh_error := Some (error_record e)\<rparr>) s
         else set_shard i (if terminal then Lost else Waiting) r s)
     | Inr part \<Rightarrow> set_shard i Closing (r\<lparr>sh_status := JSucceeded, sh_partial := Some part\<rparr>) s)"

text \<open>
  The counter: one UPDATE ... RETURNING, and the reduce enqueued on equality.  The model takes the
  commit and the enqueue as one step: a worker killed between the two (the reduce is then never
  enqueued), or killed after the counter and delivered again (the shard is then counted twice),
  is not represented.
\<close>

definition finalize_shard :: "nat \<Rightarrow> job_state \<Rightarrow> job_state" where
  "finalize_shard i s =
     (let j = js_job s; finished = Suc (jb_completed j);
          s = (set_shard i Closed (snd (js_shards s ! i)) s)\<lparr>js_job := j\<lparr>jb_completed := finished\<rparr>\<rparr>
      in if finished = jb_shard_count j then s\<lparr>js_reduces := Suc (js_reduces s)\<rparr> else s)"

section \<open>The reduce\<close>

definition shard_rows :: "job_state \<Rightarrow> shard_row list" where
  "shard_rows s = map snd (js_shards s)"

definition partials_of :: "shard_row list \<Rightarrow> schedule_item list list" where
  "partials_of rows = List.map_filter (\<lambda>r. if sh_status r = JSucceeded then sh_partial r else None) rows"

definition failed_of :: "shard_row list \<Rightarrow> (nat \<times> (int \<times> int) \<times> (string \<times> string) option) list" where
  "failed_of rows = map (\<lambda>r. (win_index (sh_window r), (win_start (sh_window r), win_end (sh_window r)), sh_error r))
     (filter (\<lambda>r. sh_status r = JDead) rows)"

text \<open>\<open>assemble_out\<close> is the outcome of the download and \<open>assemble_report\<close> on the merged items.\<close>

definition reduce_job :: "(schedule_item list \<Rightarrow> exn + report) \<Rightarrow> job_state \<Rightarrow> (exn + job_status) \<times> job_state" where
  "reduce_job assemble_out s =
     (let s = s\<lparr>js_job := (js_job s)\<lparr>jb_status := JReducing\<rparr>\<rparr>; rows = shard_rows s; parts = partials_of rows in
      case assemble_out (merge_partials si_schedule si_mark parts) of
        Inl e \<Rightarrow> (Inl e, s)
      | Inr rep \<Rightarrow>
          (Inr JSucceeded, s\<lparr>js_job := (js_job s)\<lparr>jb_status := JSucceeded, jb_artifact := Some rep,
             jb_manifest := Some \<lparr>mf_sharded = True, mf_shard_count = jb_shard_count (js_job s),
               mf_shards_merged = length parts, mf_total_items = sm_total (rp_summary rep),
               mf_failed = failed_of rows\<rparr>\<rparr>\<rparr>))"

section \<open>Interleavings\<close>

text \<open>\<open>ext i out\<close>: an attempt on shard \<open>i\<close> can have this outcome (cancellation kills the worker).\<close>

inductive shard_step :: "nat \<Rightarrow> (nat \<Rightarrow> (exn + schedule_item list) \<Rightarrow> bool) \<Rightarrow> job_state \<Rightarrow> job_state \<Rightarrow> bool"
  for maxa ext where
  begin_attempt: "i < length (js_shards s) \<Longrightarrow> fst (js_shards s ! i) = Waiting \<Longrightarrow>
    shard_step maxa ext s (shard_begin i s)"
| finish_attempt: "i < length (js_shards s) \<Longrightarrow> fst (js_shards s ! i) = Working \<Longrightarrow> ext i out \<Longrightarrow>
    shard_step maxa ext s (shard_finish maxa i out s)"
| finalize: "i < length (js_shards s) \<Longrightarrow> fst (js_shards s ! i) = Closing \<Longrightarrow>
    shard_step maxa ext s (finalize_shard i s)"

inductive_cases shard_stepE: "shard_step maxa ext s s'"

abbreviation shards_reach :: "nat \<Rightarrow> (nat \<Rightarrow> (exn + schedule_item list) \<Rightarrow> bool) \<Rightarrow> job_state \<Rightarrow> job_state \<Rightarrow> bool" where
  "shards_reach maxa ext \<equiv> (shard_step maxa ext)\<^sup>*\<^sup>*"

definition count_phase :: "phase \<Rightarrow> job_state \<Rightarrow> nat" where
  "count_phase p s = length (filter (\<lambda>x. fst x = p) (js_shards s))"

text \<open>What each phase says of the row.\<close>

fun row_ok :: "nat \<Rightarrow> ((exn + schedule_item list) \<Rightarrow> bool) \<Rightarrow> phase \<times> shard_row \<Rightarrow> bool" where
  "row_ok maxa ext (Waiting, r) \<longleftrightarrow> sh_status r \<in> {JQueued, JFailed, JRunning} \<and> sh_attempts r < max 1 maxa \<and> sh_partial r = None"
| "row_ok maxa ext (Working, r) \<longleftrightarrow> sh_status r = JRunning \<and> sh_attempts r \<le> max 1 maxa \<and> 0 < sh_attempts r \<and> sh_partial r = None"
| "row_ok maxa ext (Lost, r) \<longleftrightarrow> sh_status r = JRunning \<and> sh_attempts r \<le> max 1 maxa \<and> sh_partial r = None \<and> ext (Inl Cancelled)"
| "row_ok maxa ext (_, r) \<longleftrightarrow> sh_attempts r \<le> max 1 maxa \<and>
     ((sh_status r = JSucceeded \<and> (\<exists>p. sh_partial r = Some p \<and> ext (Inr p))) \<or>
      (sh_status r = JDead \<and> maxa \<le> sh_attempts r \<and> sh_partial r = None \<and> (\<exists>e. ext (Inl e))))"

definition shards_inv :: "nat \<Rightarrow> (nat \<Rightarrow> (exn + schedule_item list) \<Rightarrow> bool) \<Rightarrow> job_state \<Rightarrow> bool" where
  "shards_inv maxa ext s \<longleftrightarrow>
     length (js_shards s) = jb_shard_count (js_job s) \<and> jb_completed (js_job s) = count_phase Closed s \<and>
     js_reduces s = (if jb_completed (js_job s) = jb_shard_count (js_job s) \<and> 0 < jb_shard_count (js_job s) then 1 else 0) \<and>
     (\<forall>i < length (js_shards s). row_ok maxa (ext i) (js_shards s ! i))"

lemma set_shard_simps [simp]:
  "js_shards (set_shard i p r s) = (js_shards s)[i := (p, r)]" "js_job (set_shard i p r s) = js_job s"
  "js_reduces (set_shard i p r s) = js_reduces s"
  by (simp_all add: set_shard_def)

lemma count_phase_set:
  "i < length (js_shards s) \<Longrightarrow> js_shards s' = (js_shards s)[i := (p, r)] \<Longrightarrow>
   count_phase q s' + (if fst (js_shards s ! i) = q then 1 else 0) = count_phase q s + (if p = q then 1 else 0)"
  using length_filter_update[of i "js_shards s" "\<lambda>x. fst x = q" "(p, r)"] by (simp add: count_phase_def)

lemma count_phase_le: "count_phase p s \<le> length (js_shards s)"
  by (simp add: count_phase_def)

text \<open>A step that does not reach the counter keeps the invariant.\<close>

lemma shards_inv_set:
  assumes "shards_inv maxa ext s" and "i < length (js_shards s)" and "fst (js_shards s ! i) \<noteq> Closed" "p \<noteq> Closed"
    and "row_ok maxa (ext i) (p, r)"
  shows "shards_inv maxa ext (set_shard i p r s)"
proof -
  have "count_phase Closed (set_shard i p r s) = count_phase Closed s"
    using count_phase_set[of i s "set_shard i p r s" p r Closed] assms(2-4) by simp
  with assms show ?thesis by (auto simp: shards_inv_def nth_list_update)
qed

lemma shards_inv_begin:
  assumes "shards_inv maxa ext s" and "i < length (js_shards s)" and "fst (js_shards s ! i) = Waiting"
  shows "shards_inv maxa ext (shard_begin i s)"
proof -
  obtain r where r: "js_shards s ! i = (Waiting, r)" using assms(3) by (cases "js_shards s ! i") auto
  have "row_ok maxa (ext i) (Waiting, r)" using assms(1,2) r by (auto simp: shards_inv_def)
  then show ?thesis
    unfolding shard_begin_def Let_def by (intro shards_inv_set[OF assms(1,2)]) (auto simp: r)
qed

lemma shards_inv_finish:
  assumes "shards_inv maxa ext s" and "i < length (js_shards s)" and "fst (js_shards s ! i) = Working" and "ext i out"
  shows "shards_inv maxa ext (shard_finish maxa i out s)"
proof -
  obtain r where r: "js_shards s ! i = (Working, r)" using assms(3) by (cases "js_shards s ! i") auto
  have ok: "row_ok maxa (ext i) (Working, r)" using assms(1,2) r by (auto simp: shards_inv_def)
  show ?thesis
  proof (cases out)
    case (Inl e)
    then have c: "\<not> is_exception e \<Longrightarrow> ext i (Inl Cancelled)" using assms(4) by (cases e) simp_all
    show ?thesis
    proof (cases "maxa \<le> sh_attempts r")
      case True
      with ok Inl assms(4) c show ?thesis
        unfolding shard_finish_def Let_def by (auto simp: r intro!: shards_inv_set[OF assms(1,2)])
    next
      case False
      with ok Inl assms(4) show ?thesis
        unfolding shard_finish_def Let_def by (auto simp: r intro!: shards_inv_set[OF assms(1,2)])
    qed
  next
    case (Inr part)
    with ok assms(4) show ?thesis
      unfolding shard_finish_def Let_def by (auto simp: r intro!: shards_inv_set[OF assms(1,2)])
  qed
qed

lemma shards_inv_finalize:
  assumes inv: "shards_inv maxa ext s" and i: "i < length (js_shards s)" and c: "fst (js_shards s ! i) = Closing"
  shows "shards_inv maxa ext (finalize_shard i s)"
proof -
  obtain r where r: "js_shards s ! i = (Closing, r)" using c by (cases "js_shards s ! i") auto
  have "row_ok maxa (ext i) (js_shards s ! i)" using inv i by (simp add: shards_inv_def)
  then have ok: "row_ok maxa (ext i) (Closed, r)" by (simp add: r)
  have sh: "js_shards (finalize_shard i s) = (js_shards s)[i := (Closed, r)]"
    by (simp add: finalize_shard_def Let_def r)
  have cnt: "count_phase Closed (finalize_shard i s) = Suc (count_phase Closed s)"
    using count_phase_set[OF i sh, of Closed] r by simp
  have "count_phase Closed (finalize_shard i s) \<le> length (js_shards s)"
    using count_phase_le[of Closed "finalize_shard i s"] by (simp add: sh)
  with cnt have lt: "jb_completed (js_job s) < jb_shard_count (js_job s)"
    using inv by (simp add: shards_inv_def)
  have rows: "\<forall>k < length (js_shards s). row_ok maxa (ext k) (((js_shards s)[i := (Closed, r)]) ! k)"
    using inv i ok by (auto simp: shards_inv_def nth_list_update)
  have jobs: "jb_completed (js_job (finalize_shard i s)) = Suc (jb_completed (js_job s))"
    "jb_shard_count (js_job (finalize_shard i s)) = jb_shard_count (js_job s)"
    "js_reduces (finalize_shard i s) = (if Suc (jb_completed (js_job s)) = jb_shard_count (js_job s) then Suc (js_reduces s) else js_reduces s)"
    by (simp_all add: finalize_shard_def Let_def)
  show ?thesis
    unfolding shards_inv_def sh jobs using inv lt rows cnt by (simp add: shards_inv_def)
qed

lemma shards_inv_step: "shard_step maxa ext s s' \<Longrightarrow> shards_inv maxa ext s \<Longrightarrow> shards_inv maxa ext s'"
  by (erule shard_stepE) (simp_all add: shards_inv_begin shards_inv_finish shards_inv_finalize)

lemma shards_reach_inv: "shards_reach maxa ext s s' \<Longrightarrow> shards_inv maxa ext s \<Longrightarrow> shards_inv maxa ext s'"
  by (induction rule: rtranclp_induct) (auto intro: shards_inv_step)

section \<open>Progress and termination\<close>

text \<open>
  While a shard is open a step is enabled, provided an attempt has some outcome; and every step
  lowers the remaining work, so the map phase ends.
\<close>

lemma shard_progress:
  assumes "i < length (js_shards s)" and "fst (js_shards s ! i) \<notin> {Closed, Lost}" and "\<And>i. \<exists>out. ext i out"
  shows "\<exists>s'. shard_step maxa ext s s'"
  using assms by (cases "fst (js_shards s ! i)") (blast intro: shard_step.intros)+

fun shard_work :: "nat \<Rightarrow> phase \<times> shard_row \<Rightarrow> nat" where
  "shard_work maxa (Waiting, r) = 2 * (max 1 maxa - sh_attempts r) + 2"
| "shard_work maxa (Working, r) = 2 * (max 1 maxa - sh_attempts r) + 3"
| "shard_work maxa (Closing, r) = 1"
| "shard_work maxa (Closed, r) = 0"
| "shard_work maxa (Lost, r) = 0"

definition job_work :: "nat \<Rightarrow> job_state \<Rightarrow> nat" where
  "job_work maxa s = sum_list (map (shard_work maxa) (js_shards s))"

lemma job_work_set:
  assumes "i < length (js_shards s)" and "js_shards s' = (js_shards s)[i := x]"
    and "shard_work maxa x < shard_work maxa (js_shards s ! i)"
  shows "job_work maxa s' < job_work maxa s"
proof -
  have "sum_list (map f (xs[i := x])) < sum_list (map f xs)" if "i < length xs" "f x < f (xs ! i)"
    for f :: "phase \<times> shard_row \<Rightarrow> nat" and xs
    using that
  proof (induction xs arbitrary: i)
    case (Cons y ys)
    then show ?case by (cases i) auto
  qed simp
  from this[of "js_shards s" "shard_work maxa"] assms show ?thesis by (simp add: job_work_def)
qed

lemma shard_step_decreases:
  assumes "shard_step maxa ext s s'" and "shards_inv maxa ext s"
  shows "job_work maxa s' < job_work maxa s"
  using assms(1)
proof cases
  case (begin_attempt i)
  obtain r where r: "js_shards s ! i = (Waiting, r)" using begin_attempt by (cases "js_shards s ! i") auto
  have "row_ok maxa (ext i) (js_shards s ! i)" using assms(2) begin_attempt by (simp add: shards_inv_def)
  then have "sh_attempts r < max 1 maxa" by (simp add: r)
  then show ?thesis
    unfolding begin_attempt(1) by (intro job_work_set[OF begin_attempt(2)]) (auto simp: shard_begin_def Let_def r)
next
  case (finish_attempt i out)
  obtain r where r: "js_shards s ! i = (Working, r)" using finish_attempt by (cases "js_shards s ! i") auto
  show ?thesis
  proof (cases out)
    case (Inl e)
    then show ?thesis
      unfolding finish_attempt(1) by (cases "is_exception e"; cases "maxa \<le> sh_attempts r";
        intro job_work_set[OF finish_attempt(2)]) (auto simp: shard_finish_def Let_def r)
  next
    case (Inr p)
    then show ?thesis
      unfolding finish_attempt(1) by (intro job_work_set[OF finish_attempt(2)]) (auto simp: shard_finish_def Let_def r)
  qed
next
  case (finalize i)
  obtain r where r: "js_shards s ! i = (Closing, r)" using finalize by (cases "js_shards s ! i") auto
  show ?thesis
    unfolding finalize(1) by (intro job_work_set[OF finalize(2)]) (auto simp: finalize_shard_def Let_def r)
qed

section \<open>The reduce runs once, over every shard\<close>

lemma all_closed_iff: "count_phase Closed s = length (js_shards s) \<longleftrightarrow> (\<forall>i < length (js_shards s). fst (js_shards s ! i) = Closed)"
  unfolding count_phase_def filter_length_eq_iff by (auto simp: all_set_conv_all_nth)

text \<open>The reduce is enqueued at most once, and exactly when every shard is terminal.\<close>

lemma reduce_once:
  assumes "shards_inv maxa ext s" and "js_shards s \<noteq> []"
  shows "js_reduces s = (if \<forall>i < length (js_shards s). fst (js_shards s ! i) = Closed then 1 else 0)"
proof -
  have "js_reduces s = (if count_phase Closed s = length (js_shards s) then 1 else 0)"
    using assms by (auto simp: shards_inv_def)
  then show ?thesis unfolding all_closed_iff .
qed

lemma closed_row:
  assumes "shards_inv maxa ext s" and "i < length (js_shards s)" and "fst (js_shards s ! i) = Closed"
  shows "(sh_status (snd (js_shards s ! i)) = JSucceeded \<and> (\<exists>p. sh_partial (snd (js_shards s ! i)) = Some p \<and> ext i (Inr p))) \<or>
    (sh_status (snd (js_shards s ! i)) = JDead \<and> maxa \<le> sh_attempts (snd (js_shards s ! i)) \<and> (\<exists>e. ext i (Inl e)))"
proof -
  obtain r where r: "js_shards s ! i = (Closed, r)" using assms(3) by (cases "js_shards s ! i") auto
  have "row_ok maxa (ext i) (js_shards s ! i)" using assms by (simp add: shards_inv_def)
  then show ?thesis by (auto simp: r)
qed

text \<open>Windows and job parameters do not change while the shards run.\<close>

lemma shard_windows_set:
  "i < length xs \<Longrightarrow> sh_window r = sh_window (snd (xs ! i)) \<Longrightarrow>
   map (\<lambda>x. sh_window (snd x)) (xs[i := (p, r)]) = map (\<lambda>x. sh_window (snd x)) xs"
  by (simp add: map_update list_update_same_conv)

lemma shard_step_frame:
  assumes "shard_step maxa ext s s'"
  shows "map (\<lambda>x. sh_window (snd x)) (js_shards s') = map (\<lambda>x. sh_window (snd x)) (js_shards s) \<and>
     jb_status (js_job s') = jb_status (js_job s) \<and> jb_shard_count (js_job s') = jb_shard_count (js_job s)"
  using assms
proof cases
  case (begin_attempt i)
  then show ?thesis by (simp add: shard_begin_def Let_def shard_windows_set)
next
  case (finish_attempt i out)
  then show ?thesis by (cases out) (simp_all add: shard_finish_def Let_def shard_windows_set)
next
  case (finalize i)
  then show ?thesis by (simp add: finalize_shard_def Let_def shard_windows_set)
qed

lemma shards_reach_frame:
  "shards_reach maxa ext s s' \<Longrightarrow>
     map (\<lambda>x. sh_window (snd x)) (js_shards s') = map (\<lambda>x. sh_window (snd x)) (js_shards s) \<and>
     jb_shard_count (js_job s') = jb_shard_count (js_job s)"
  by (induction rule: rtranclp_induct) (auto dest: shard_step_frame)

text \<open>A fresh plan satisfies the invariant.\<close>

lemma plan_dispatch_sharded:
  assumes "plan_and_dispatch cap gate pr single s = (Inr JMapping, s')"
    and "jb_completed (js_job s) = 0" "js_reduces s = 0"
  obtains cands n ws ps pe where "gate = Inr (cands, n)" "plan_shard_windows cands n cap ps pe = Inr ws" "2 \<le> length ws"
    "(ps, pe) = (case pr of None \<Rightarrow> (0, None) | Some (a, b) \<Rightarrow> (a, Some b))"
    "js_shards s' = map new_shard ws" "shards_inv maxa ext s'"
proof -
  obtain ps pe where pp: "(case pr of None \<Rightarrow> (0, None) | Some (a, b) \<Rightarrow> (a, Some b)) = (ps, pe)" by force
  from assms(1) obtain cands n where g: "gate = Inr (cands, n)"
    by (cases gate) (auto simp: plan_and_dispatch_def)
  from assms(1) obtain ws where w: "plan_shard_windows cands n cap ps pe = Inr ws" "\<not> length ws \<le> 1"
    by (cases "plan_shard_windows cands n cap ps pe")
      (auto simp: plan_and_dispatch_def g pp Let_def process_job_def split: sum.splits prod.splits if_splits)
  then have s': "s' = s\<lparr>js_job := (js_job s)\<lparr>jb_sharded := True, jb_shard_count := length ws, jb_status := JMapping\<rparr>,
      js_shards := map new_shard ws\<rparr>"
    using assms(1) by (simp add: plan_and_dispatch_def g pp Let_def)
  have "count_phase Closed s' = 0" by (simp add: s' count_phase_def new_shard_def filter_empty_conv)
  then have "shards_inv maxa ext s'"
    using assms(2,3) w(2) by (auto simp: shards_inv_def s' new_shard_def)
  with that[OF g w(1)] w(2) pp show thesis by (simp add: s')
qed

text \<open>The manifest is flagged incomplete exactly when a shard died, and then nothing is hidden.\<close>

lemma reduce_job_spec:
  assumes "reduce_job asm s = (Inr JSucceeded, s')"
  obtains rep m where "asm (merge_partials si_schedule si_mark (partials_of (shard_rows s))) = Inr rep"
    "jb_status (js_job s') = JSucceeded" "jb_artifact (js_job s') = Some rep" "jb_manifest (js_job s') = Some m"
    "mf_incomplete m \<longleftrightarrow> (\<exists>r \<in> set (shard_rows s). sh_status r = JDead)"
    "length (mf_failed m) = length (filter (\<lambda>r. sh_status r = JDead) (shard_rows s))"
    "mf_shards_merged m = length (partials_of (shard_rows s))"
  using assms by (cases "asm (merge_partials si_schedule si_mark (partials_of (shard_rows s)))")
    (auto simp: reduce_job_def Let_def shard_rows_def mf_incomplete_def failed_of_def filter_empty_conv)

lemma partials_all_succeeded:
  assumes "length rows = length parts"
    and "\<And>i. i < length rows \<Longrightarrow> sh_status (rows ! i) = JSucceeded \<and> sh_partial (rows ! i) = Some (parts ! i)"
  shows "partials_of rows = parts"
  using assms
proof (induction rows parts rule: list_induct2)
  case (Cons r rows p parts)
  from Cons.prems[of 0] have "sh_status r = JSucceeded" "sh_partial r = Some p" by auto
  moreover have "partials_of rows = parts"
    by (rule Cons.IH) (use Cons.prems in \<open>force\<close>)
  ultimately show ?case by (simp add: partials_of_def map_filter_simps)
qed (simp add: partials_of_def map_filter_simps)

text \<open>The single build is terminal on every branch; its failure is recorded and raised.\<close>

lemma process_job_spec:
  "process_job out j = (r, j') \<Longrightarrow> (\<And>e. out = Inl e \<Longrightarrow> is_exception e) \<Longrightarrow>
     jb_status j' \<in> {JSucceeded, JFailed} \<and> jb_attempts j' = Suc (jb_attempts j) \<and>
     (jb_status j' = JSucceeded \<longleftrightarrow> (\<exists>x. out = Inr x)) \<and>
     (jb_status j' = JFailed \<longrightarrow> jb_error j' \<noteq> None \<and> (\<exists>e. r = Inl e \<and> out = Inl e))"
  by (auto simp: process_job_def Let_def split: sum.splits)

section \<open>The shards as a terminating system\<close>

text \<open>
  The invariant holds for any outcome relation; termination needs workers that answer: an attempt
  on a shard has some outcome.  A deterministic extraction is such a worker.
\<close>

interpretation shards: invariant_system "shard_step maxa ext" "shards_inv maxa ext" for maxa ext
  by unfold_locales (rule shards_inv_step)

definition all_closed :: "job_state \<Rightarrow> bool" where
  "all_closed s \<longleftrightarrow> list_all (\<lambda>x. fst x = Closed) (js_shards s)"

definition all_ended :: "job_state \<Rightarrow> bool" where
  "all_ended s \<longleftrightarrow> list_all (\<lambda>x. fst x \<in> {Closed, Lost}) (js_shards s)"

locale answering_workers =
  fixes ext :: "nat \<Rightarrow> (exn + schedule_item list) \<Rightarrow> bool"
  assumes answers: "\<exists>out. ext i out"
begin

lemma open_shard_moves: "\<not> all_ended s \<Longrightarrow> \<exists>s'. shard_step maxa ext s s'"
  using shard_progress[of _ s ext maxa] answers by (auto simp: all_ended_def list_all_length)

end

sublocale answering_workers \<subseteq> live: terminating_system "shard_step maxa ext" "shards_inv maxa ext" "job_work maxa" all_ended
  for maxa
  by unfold_locales (auto intro: shard_step_decreases open_shard_moves)

context answering_workers
begin

lemma map_bounded: "(shard_step maxa ext ^^ n) s s' \<Longrightarrow> shards_inv maxa ext s \<Longrightarrow> n \<le> job_work maxa s"
  using live.run_bounded by fastforce

lemma map_finishes: "shards_inv maxa ext s \<Longrightarrow> \<exists>s'. shards_reach maxa ext s s' \<and> all_ended s'"
  by (rule live.reaches_finished)

lemma map_stuck: "shards_reach maxa ext s s' \<Longrightarrow> shards_inv maxa ext s \<Longrightarrow> \<nexists>s''. shard_step maxa ext s' s'' \<Longrightarrow> all_ended s'"
  by (rule live.stuck_finished)

end

definition extraction_of :: "doc_view \<Rightarrow> job_state \<Rightarrow> nat \<Rightarrow> (exn + schedule_item list) \<Rightarrow> bool" where
  "extraction_of doc s i out \<longleftrightarrow>
     out = (let w = sh_window (snd (js_shards s ! i)) in extract_shard doc (win_start w, win_end w))"

interpretation extraction: answering_workers "extraction_of doc s" for doc s
  by unfold_locales (simp add: extraction_of_def)

lemma stuck_if_ended: "all_ended s \<Longrightarrow> \<not> shard_step maxa ext s s'"
  by (auto simp: all_ended_def list_all_length elim!: shard_stepE)

lemma closed_reduces: "shards_inv maxa ext s \<Longrightarrow> js_shards s \<noteq> [] \<Longrightarrow> all_closed s \<Longrightarrow> js_reduces s = 1"
  using reduce_once[of maxa ext s] by (simp add: all_closed_def list_all_length)

text \<open>A shard is lost only to a kill: without one, an ended map phase is a closed one.\<close>

lemma ended_closed:
  assumes "shards_inv maxa ext s" and "all_ended s" and "\<And>i. i < length (js_shards s) \<Longrightarrow> \<not> ext i (Inl Cancelled)"
  shows "all_closed s"
  unfolding all_closed_def list_all_length
proof (intro allI impI)
  fix i assume i: "i < length (js_shards s)"
  then have "row_ok maxa (ext i) (js_shards s ! i)" "fst (js_shards s ! i) \<in> {Closed, Lost}"
    using assms(1,2) by (auto simp: shards_inv_def all_ended_def list_all_length)
  with assms(3)[OF i] show "fst (js_shards s ! i) = Closed" by (cases "js_shards s ! i") auto
qed

lemma closed_statuses:
  assumes "shards_inv maxa ext s" and "all_closed s"
  shows "list_all (\<lambda>r. sh_status r \<in> {JSucceeded, JDead}) (shard_rows s)"
  unfolding list_all_length shard_rows_def length_map
proof (intro allI impI)
  fix i assume i: "i < length (js_shards s)"
  then have "fst (js_shards s ! i) = Closed" using assms(2) by (simp add: all_closed_def list_all_length)
  from closed_row[OF assms(1) i this] i show "sh_status (map snd (js_shards s) ! i) \<in> {JSucceeded, JDead}" by auto
qed

lemma lost_running:
  assumes "shards_inv maxa ext s" and "all_ended s" and "\<not> all_closed s"
  shows "list_ex (\<lambda>r. sh_status r = JRunning) (shard_rows s)"
proof -
  from assms(2,3) obtain i where i: "i < length (js_shards s)" "fst (js_shards s ! i) = Lost"
    by (auto simp: all_ended_def all_closed_def list_all_length)
  then have "row_ok maxa (ext i) (js_shards s ! i)" using assms(1) by (simp add: shards_inv_def)
  with i show ?thesis by (cases "js_shards s ! i") (auto simp: list_ex_length shard_rows_def)
qed

section \<open>Properties of a job\<close>

text \<open>
  C8.  Whatever the interleaving, the failures and the retries of a planned job's shards, the
  counter's transaction and the enqueue that follows it taken as one step: the
  completion counter is the number of terminal shards, the reduce is enqueued at most once and
  exactly when every shard is terminal, and no shard is attempted more than the configured times.
\<close>

theorem reduce_enqueued_exactly_once:
  assumes "plan_and_dispatch cap gate pr single s0 = (Inr JMapping, s1)"
    and "jb_completed (js_job s0) = 0" and "js_reduces s0 = 0"
    and "shards_reach maxa ext s1 s2"
  shows "jb_completed (js_job s2) = count_phase Closed s2 \<and>
    js_reduces s2 = (if all_closed s2 then 1 else 0) \<and>
    list_all (\<lambda>x. sh_attempts (snd x) \<le> max 1 maxa) (js_shards s2)"
proof -
  from assms(1-3) obtain ws :: "shard_window list" where ws: "2 \<le> length ws" "js_shards s1 = map new_shard ws"
    and inv1: "shards_inv maxa ext s1" by (rule plan_dispatch_sharded) blast
  have inv: "shards_inv maxa ext s2" by (rule shards.reach_inv[OF assms(4) inv1])
  have "length (js_shards s2) = length (js_shards s1)"
    using arg_cong[OF conjunct1[OF shards_reach_frame[OF assms(4)]], of length] by simp
  then have ne: "js_shards s2 \<noteq> []" using ws by auto
  have att: "sh_attempts (snd x) \<le> max 1 maxa" if "row_ok maxa e x" for x e
    using that by (cases x; cases "fst x") auto
  have "row_ok maxa (ext i) (js_shards s2 ! i)" if "i < length (js_shards s2)" for i
    using inv that by (simp add: shards_inv_def)
  then have "list_all (\<lambda>x. sh_attempts (snd x) \<le> max 1 maxa) (js_shards s2)"
    unfolding list_all_length using att by blast
  moreover have "js_reduces s2 = (if all_closed s2 then 1 else 0)"
    using reduce_once[OF inv ne] by (simp add: all_closed_def list_all_length)
  ultimately show ?thesis using inv by (simp add: shards_inv_def)
qed

text \<open>The windows whose shard succeeded, in plan order, and the reading of the terminal rows.\<close>

definition surviving_windows :: "job_state \<Rightarrow> shard_window list" where
  "surviving_windows s = map sh_window (filter (\<lambda>r. sh_status r = JSucceeded) (shard_rows s))"

lemma terminal_rows_split:
  "(\<And>r. r \<in> set rows \<Longrightarrow> sh_status r \<in> {JSucceeded, JDead}) \<Longrightarrow>
     length (filter (\<lambda>r. sh_status r = JSucceeded) rows) + length (failed_of rows) = length rows"
proof (induction rows)
  case (Cons r rows)
  from Cons.prems[of r] have "sh_status r = JSucceeded \<or> sh_status r = JDead" by simp
  with Cons show ?case by (auto simp: failed_of_def)
qed (simp add: failed_of_def)

lemma surviving_partials:
  "(\<And>r. r \<in> set rows \<Longrightarrow> sh_status r = JSucceeded \<Longrightarrow> \<exists>p. sh_partial r = Some p \<and> f (sh_window r) = Inr p) \<Longrightarrow>
     map f (map sh_window (filter (\<lambda>r. sh_status r = JSucceeded) rows)) = map Inr (partials_of rows)"
proof (induction rows)
  case (Cons r rows)
  show ?case
  proof (cases "sh_status r = JSucceeded")
    case True
    with Cons.prems[of r] obtain p where "sh_partial r = Some p" "f (sh_window r) = Inr p" by auto
    with Cons True show ?thesis by (simp add: partials_of_def map_filter_simps)
  qed (use Cons in \<open>simp add: partials_of_def map_filter_simps\<close>)
qed (simp add: partials_of_def map_filter_simps)

text \<open>Reading a closed job: who survived, what the partials are, and when nobody failed.\<close>

lemma closed_job_survivors:
  assumes inv: "shards_inv maxa ext s" and c: "all_closed s" and windows: "map sh_window (shard_rows s) = ws"
    and ok: "\<And>i items. i < length ws \<Longrightarrow> ext i (Inr items) \<Longrightarrow> f (ws ! i) = Inr items"
  shows "length (surviving_windows s) + length (failed_of (shard_rows s)) = length ws"
    and "map f (surviving_windows s) = map Inr (partials_of (shard_rows s))"
    and "failed_of (shard_rows s) = [] \<Longrightarrow> surviving_windows s = ws"
    and "(\<And>i e. \<not> ext i (Inl e)) \<Longrightarrow> failed_of (shard_rows s) = []"
proof -
  have len: "length (js_shards s) = length ws" using windows by (auto simp: shard_rows_def)
  have row: "(sh_status r = JSucceeded \<and> (\<exists>p. sh_partial r = Some p \<and> f (sh_window r) = Inr p)) \<or>
      (sh_status r = JDead \<and> (\<exists>i e. ext i (Inl e)))" if "r \<in> set (shard_rows s)" for r
  proof -
    from that obtain i where i: "i < length ws" "r = snd (js_shards s ! i)"
      using len by (auto simp: shard_rows_def in_set_conv_nth)
    have cl: "fst (js_shards s ! i) = Closed" using c i(1) len by (simp add: all_closed_def list_all_length)
    have "sh_window r = ws ! i"
      using arg_cong[OF windows, of "\<lambda>xs. xs ! i"] i len by (simp add: shard_rows_def)
    with closed_row[OF inv _ cl] ok[OF i(1)] show ?thesis unfolding i(2) using i(1) len by metis
  qed
  have "sh_status r \<in> {JSucceeded, JDead}" if "r \<in> set (shard_rows s)" for r using row[OF that] by blast
  from terminal_rows_split[of "shard_rows s", OF this] arg_cong[OF windows, of length]
  show "length (surviving_windows s) + length (failed_of (shard_rows s)) = length ws"
    by (simp add: surviving_windows_def)
  show "map f (surviving_windows s) = map Inr (partials_of (shard_rows s))"
    unfolding surviving_windows_def by (rule surviving_partials, drule row) auto
  show "surviving_windows s = ws" if "failed_of (shard_rows s) = []"
  proof -
    have "sh_status r = JSucceeded" if "r \<in> set (shard_rows s)" for r
      using row[OF that] \<open>failed_of (shard_rows s) = []\<close> that by (auto simp: failed_of_def filter_empty_conv)
    then have "filter (\<lambda>r. sh_status r = JSucceeded) (shard_rows s) = shard_rows s" by (intro filter_True) blast
    then show ?thesis using windows by (simp add: surviving_windows_def)
  qed
  show "failed_of (shard_rows s) = []" if "\<And>i e. \<not> ext i (Inl e)"
  proof -
    have "sh_status r \<noteq> JDead" if "r \<in> set (shard_rows s)" for r
      using row[OF that] \<open>\<And>i e. \<not> ext i (Inl e)\<close> by auto
    then show ?thesis by (simp add: failed_of_def filter_empty_conv)
  qed
qed

definition planned_job :: job_state where
  "planned_job = snd (plan_and_dispatch 1 (Inr ([1, 2], 4)) None (Inl Cancelled)
     \<lparr>js_job = new_job, js_shards = [], js_reduces = 0\<rparr>)"

lemma planned_job_eq:
  "plan_and_dispatch 1 (Inr ([1, 2], 4)) None (Inl Cancelled) \<lparr>js_job = new_job, js_shards = [], js_reduces = 0\<rparr> =
     (Inr JMapping, planned_job)"
proof -
  let ?o = "plan_and_dispatch 1 (Inr ([1, 2], 4)) None (Inl Cancelled) \<lparr>js_job = new_job, js_shards = [], js_reduces = 0\<rparr>"
  have "fst ?o = Inr JMapping" by code_simp
  then show ?thesis unfolding planned_job_def by (cases ?o) simp
qed

theorem reduce_enqueued_exactly_once_witness:
  "js_reduces (shard_begin 0 planned_job) = 0 \<and> jb_completed (js_job (shard_begin 0 planned_job)) = 0"
proof -
  have "shard_step 3 (\<lambda>i out. True) planned_job (shard_begin 0 planned_job)"
    by (rule shard_step.begin_attempt) code_simp+
  then have r: "shards_reach 3 (\<lambda>i out. True) planned_job (shard_begin 0 planned_job)" by blast
  have "\<not> all_closed (shard_begin 0 planned_job)" "count_phase Closed (shard_begin 0 planned_job) = 0" by code_simp+
  with reduce_enqueued_exactly_once[OF planned_job_eq _ _ r] show ?thesis by (simp add: new_job_def)
qed

text \<open>
  C7.  The map phase ends: with workers that answer, no schedule of the shards of a planned job
  is longer than the initial work, and from every reachable state an end can be reached.  A
  schedule that cannot go on has either every shard closed - its row succeeded or dead - and the
  reduce enqueued once, or some shard lost to a kill on its last delivery - its row still running -
  and no reduce; without kills it is always the first.
\<close>

theorem map_phase_terminates:
  assumes "plan_and_dispatch cap gate pr single s0 = (Inr JMapping, s1)"
    and "jb_completed (js_job s0) = 0" and "js_reduces s0 = 0" and "\<forall>i. \<exists>out. ext i out"
    and "(shard_step maxa ext ^^ n) s1 s2"
  shows "n \<le> job_work maxa s1 \<and> (\<exists>s3. shards_reach maxa ext s2 s3 \<and> all_ended s3) \<and>
    ((\<nexists>s3. shard_step maxa ext s2 s3) \<longrightarrow> all_ended s2 \<and>
       ((all_closed s2 \<and> js_reduces s2 = 1 \<and> list_all (\<lambda>r. sh_status r \<in> {JSucceeded, JDead}) (shard_rows s2)) \<or>
        (\<not> all_closed s2 \<and> js_reduces s2 = 0 \<and> list_ex (\<lambda>r. sh_status r = JRunning) (shard_rows s2) \<and>
         (\<exists>i. ext i (Inl Cancelled)))))"
proof -
  have w: "answering_workers ext" by unfold_locales (use assms(4) in blast)
  from assms(1-3) obtain ws :: "shard_window list" where ws: "2 \<le> length ws" "js_shards s1 = map new_shard ws"
    and inv1: "shards_inv maxa ext s1" by (rule plan_dispatch_sharded) blast
  have r: "shards_reach maxa ext s1 s2" using assms(5) by (rule relpowp_imp_rtranclp)
  have inv2: "shards_inv maxa ext s2" by (rule shards.reach_inv[OF r inv1])
  from arg_cong[OF conjunct1[OF shards_reach_frame[OF r]], of length] ws
  have "js_shards s2 \<noteq> []" by auto
  from reduce_once[OF inv2 this]
  have red: "js_reduces s2 = (if all_closed s2 then 1 else 0)" by (simp add: all_closed_def list_all_length)
  have "n \<le> job_work maxa s1" by (rule answering_workers.map_bounded[OF w assms(5) inv1])
  moreover obtain s3 where "shards_reach maxa ext s2 s3" "all_ended s3"
    using answering_workers.map_finishes[OF w inv2] by blast
  moreover have "all_ended s2" if "\<nexists>s3. shard_step maxa ext s2 s3"
    using answering_workers.map_stuck[OF w r inv1 that] .
  moreover have "(all_closed s2 \<and> js_reduces s2 = 1 \<and> list_all (\<lambda>r. sh_status r \<in> {JSucceeded, JDead}) (shard_rows s2)) \<or>
      (\<not> all_closed s2 \<and> js_reduces s2 = 0 \<and> list_ex (\<lambda>r. sh_status r = JRunning) (shard_rows s2) \<and>
       (\<exists>i. ext i (Inl Cancelled)))" if "all_ended s2"
  proof (cases "all_closed s2")
    case True
    with closed_statuses[OF inv2] red show ?thesis by simp
  next
    case False
    with lost_running[OF inv2 that] ended_closed[OF inv2 that] red show ?thesis by auto
  qed
  ultimately show ?thesis by blast
qed

theorem map_phase_terminates_witness:
  "\<exists>s3. shards_reach 3 (extraction_of sample_doc planned_job) planned_job s3 \<and> all_ended s3"
proof -
  have "\<forall>i. \<exists>out. extraction_of sample_doc planned_job i out" by (simp add: extraction_of_def)
  from map_phase_terminates[OF planned_job_eq _ _ this, of 0 3 planned_job] show ?thesis by (simp add: new_job_def)
qed

text \<open>
  C2.  End to end, with failures: on a document whose pages load, let a successful attempt give
  the extraction of its shard's window while any attempt may also fail, be retried, or be killed.
  Once the shards of a planned job cannot go on, either every shard is closed and the reduce has
  been enqueued exactly once, or a shard was lost to a kill and it never is.  In the first case
  each window either survived or is in the failed list; running the reduce assembles the artifact
  from exactly the extractions of the surviving windows, in plan order, and its manifest lists the
  failed ones (or the reduce ends with the error of that assembly).  When none failed - in
  particular when no attempt can fail - the artifact is that of the single serial build.
\<close>

theorem sharded_job_end_to_end:
  fixes hyp pr maxa
  assumes "plan_and_dispatch cap (Inr (cs, dv_page_count doc)) pr single s0 = (Inr JMapping, s1)"
    and "jb_completed (js_job s0) = 0" and "js_reduces s0 = 0"
    and "pr = None \<or> (\<exists>a b. pr = Some (a, b) \<and> 0 \<le> a \<and> b \<le> dv_page_count doc)"
    and "\<forall>i. 0 \<le> i \<and> i < dv_page_count doc \<longrightarrow> (\<exists>p. dv_page doc i = Inr p)"
    and "\<forall>i. \<exists>out. ext i out" and "\<forall>i items. ext i (Inr items) \<longrightarrow> extraction_of doc s1 i (Inr items)"
    and "shards_reach maxa ext s1 s2" and "\<nexists>s3. shard_step maxa ext s2 s3"
  shows "(if all_closed s2
     then js_reduces s2 = 1 \<and>
       length (surviving_windows s2) + length (failed_of (shard_rows s2)) = length (js_shards s1) \<and>
       (\<exists>parts. map (\<lambda>w. extract_shard doc (win_start w, win_end w)) (surviving_windows s2) = map Inr parts \<and>
         (failed_of (shard_rows s2) = [] \<longrightarrow> sharded_takeoff hyp doc pr parts = run_takeoff hyp doc pr) \<and>
         (case sharded_takeoff hyp doc pr parts of
            Inl e \<Rightarrow> fst (reduce_job (\<lambda>items. assemble_report hyp doc items (config_range pr)) s2) = Inl e
          | Inr rep \<Rightarrow> \<exists>s3 m. reduce_job (\<lambda>items. assemble_report hyp doc items (config_range pr)) s2 = (Inr JSucceeded, s3) \<and>
              jb_status (js_job s3) = JSucceeded \<and> jb_artifact (js_job s3) = Some rep \<and>
              jb_manifest (js_job s3) = Some m \<and> mf_failed m = failed_of (shard_rows s2)))
     else js_reduces s2 = 0 \<and> (\<exists>i < length (js_shards s1). ext i (Inl Cancelled))) \<and>
   ((\<forall>i e. \<not> ext i (Inl e)) \<longrightarrow> all_closed s2 \<and> failed_of (shard_rows s2) = [])"
proof -
  let ?asm = "\<lambda>items. assemble_report hyp doc items (config_range pr)" and ?parts = "partials_of (shard_rows s2)"
  have w: "answering_workers ext" by unfold_locales (use assms(6) in blast)
  from assms(1-3) obtain cs' n ws ps pe where g: "(Inr (cs, dv_page_count doc) :: exn + _) = Inr (cs', n)"
    "plan_shard_windows cs' n cap ps pe = Inr ws"
    "2 \<le> length ws" "(ps, pe) = (case pr of None \<Rightarrow> (0, None) | Some (a, b) \<Rightarrow> (a, Some b))"
    "js_shards s1 = map new_shard ws" and inv1: "shards_inv maxa ext s1" by (rule plan_dispatch_sharded)
  have plan: "plan_shard_windows cs (dv_page_count doc) cap ps pe = Inr ws" using g(1,2) by simp
  obtain b where range: "(pr = None \<and> ps = 0 \<and> pe = None) \<or>
      (pr = Some (ps, b) \<and> pe = Some b \<and> 0 \<le> ps \<and> b \<le> dv_page_count doc)"
    using assms(4) g(4) by (cases pr) auto
  have loads: "\<exists>p. dv_page doc i = Inr p" if "range_lo ps \<le> i" "i < range_hi pe (dv_page_count doc)" for i
    using that assms(5) by (auto simp: range_lo_def range_hi_def)
  have inv2: "shards_inv maxa ext s2" by (rule shards.reach_inv[OF assms(8) inv1])
  have ended: "all_ended s2" by (rule answering_workers.map_stuck[OF w assms(8) inv1 assms(9)])
  have windows: "map sh_window (shard_rows s2) = ws"
    using conjunct1[OF shards_reach_frame[OF assms(8)]] by (simp add: g(5) shard_rows_def new_shard_def comp_def)
  then have len: "length (js_shards s2) = length ws" by (auto simp: shard_rows_def)
  with g(3) have ne: "js_shards s2 \<noteq> []" by auto
  have ok: "ext i (Inr items) \<Longrightarrow> extract_shard doc (win_start w, win_end w) = Inr items"
    if "i < length ws" "w = ws ! i" for i items w
    using assms(7)[rule_format, of i items] that by (simp add: extraction_of_def g(5) new_shard_def Let_def)
  have closed: "js_reduces s2 = 1" if "all_closed s2" by (rule closed_reduces[OF inv2 ne that])
  have survivors: "length (surviving_windows s2) + length (failed_of (shard_rows s2)) = length ws"
    "map (\<lambda>w. extract_shard doc (win_start w, win_end w)) (surviving_windows s2) = map Inr ?parts"
    "failed_of (shard_rows s2) = [] \<Longrightarrow> surviving_windows s2 = ws"
    "(\<And>i e. \<not> ext i (Inl e)) \<Longrightarrow> failed_of (shard_rows s2) = []" if "all_closed s2"
    by (rule closed_job_survivors[OF inv2 that windows], erule (1) ok[OF _ refl], assumption?)+
  have serial: "sharded_takeoff hyp doc pr ?parts = run_takeoff hyp doc pr" if "all_closed s2" "failed_of (shard_rows s2) = []"
  proof -
    have "map (\<lambda>w. extract_shard doc (win_start w, win_end w)) ws = map Inr ?parts"
      using survivors(2)[OF that(1)] unfolding survivors(3)[OF that] .
    then show ?thesis by (intro sharded_report_is_serial[OF plan range]) (auto intro: loads)
  qed
  have reduce: "case sharded_takeoff hyp doc pr ?parts of Inl e \<Rightarrow> fst (reduce_job ?asm s2) = Inl e
     | Inr rep \<Rightarrow> \<exists>s3 m. reduce_job ?asm s2 = (Inr JSucceeded, s3) \<and> jb_status (js_job s3) = JSucceeded \<and>
         jb_artifact (js_job s3) = Some rep \<and> jb_manifest (js_job s3) = Some m \<and> mf_failed m = failed_of (shard_rows s2)"
    by (simp add: sharded_takeoff_def reduce_job_def Let_def shard_rows_def split: sum.split)
  have lost: "js_reduces s2 = 0 \<and> (\<exists>i < length ws. ext i (Inl Cancelled))" if c: "\<not> all_closed s2"
    using c reduce_once[OF inv2 ne] ended_closed[OF inv2 ended] len by (auto simp: all_closed_def list_all_length)
  have "length (js_shards s1) = length ws" by (simp add: g(5))
  moreover have "all_closed s2 \<and> failed_of (shard_rows s2) = []" if "\<forall>i e. \<not> ext i (Inl e)"
    using that ended_closed[OF inv2 ended] survivors(4) by blast
  ultimately show ?thesis using closed survivors(1,2) serial reduce lost by (cases "all_closed s2") auto
qed

text \<open>Both shards of the sample plan may fail at any attempt.\<close>

theorem sharded_job_end_to_end_witness:
  "\<exists>s2. shards_reach 3 (\<lambda>i out. out = Inl (Exn ''OSError'' '''') \<or> (\<not> isl out \<and> extraction_of sample_doc planned_job i out)) planned_job s2 \<and>
     js_reduces s2 = 1 \<and> length (surviving_windows s2) + length (failed_of (shard_rows s2)) = length (js_shards planned_job)"
proof -
  let ?ext = "\<lambda>i out. out = Inl (Exn ''OSError'' '''') \<or> (\<not> isl out \<and> extraction_of sample_doc planned_job i out)"
  have n: "dv_page_count sample_doc = 4" by (simp add: sample_doc_def)
  note eq = planned_job_eq[folded n]
  from eq have inv: "shards_inv 3 ?ext planned_job"
    by (rule plan_dispatch_sharded) (simp_all add: new_job_def)
  have ans: "\<forall>i. \<exists>out. ?ext i out" by blast
  then have w: "answering_workers ?ext" by unfold_locales blast
  obtain s2 where s2: "shards_reach 3 ?ext planned_job s2" "all_ended s2"
    using answering_workers.map_finishes[OF w inv] by blast
  have loads: "\<forall>i. 0 \<le> i \<and> i < dv_page_count sample_doc \<longrightarrow> (\<exists>p. dv_page sample_doc i = Inr p)"
    by (simp add: sample_doc_def)
  have right: "\<forall>i items. ?ext i (Inr items) \<longrightarrow> extraction_of sample_doc planned_job i (Inr items)" by simp
  have stuck: "\<nexists>s3. shard_step 3 ?ext s2 s3" using stuck_if_ended[OF s2(2)] by blast
  from sharded_job_end_to_end[OF eq _ _ _ loads ans right s2(1) stuck, of "\<lambda>x y. x + y"]
  have "js_reduces s2 = 1" "length (surviving_windows s2) + length (failed_of (shard_rows s2)) = length (js_shards planned_job)"
    by (auto simp: new_job_def split: if_splits)
  with s2(1) show ?thesis by blast
qed

text \<open>
  The single build is terminal on every branch: it succeeds with the artifact and manifest
  of the build, or fails with the error recorded (type and the first 2000 characters of the
  message) and raised; only a kill leaves the job running.
\<close>

theorem single_build_terminal:
  "case process_job out j of (r, j') \<Rightarrow>
     jb_attempts j' = Suc (jb_attempts j) \<and>
     (case out of
        Inr (rep, m) \<Rightarrow> r = Inr JSucceeded \<and> jb_status j' = JSucceeded \<and> jb_artifact j' = Some rep \<and> jb_manifest j' = Some m
      | Inl (Exn t msg) \<Rightarrow> r = Inl (Exn t msg) \<and> jb_status j' = JFailed \<and> jb_error j' = Some (t, take 2000 msg) \<and>
          jb_artifact j' = jb_artifact j
      | Inl Cancelled \<Rightarrow> r = Inl Cancelled \<and> jb_status j' = JRunning)"
  by (auto simp: process_job_def Let_def error_record_def split: sum.splits prod.splits exn.splits)

end
