(* ===== verification/Submit.thy ===== *)
theory Submit
  imports Jobs
begin

text \<open>
  The submission endpoints: \<open>src/service/api/ingestions.py\<close>, the request schema of
  \<open>src/service/core/schemas.py\<close>, the error type of \<open>src/service/core/errors.py\<close> and the partial
  unique indexes of \<open>src/service/migrations/versions/0004_dedup.py\<close>.

  A submission is validated and normalised by pure functions; what it does to the shared stores
  (job table, object storage, queue) is a sequence of atomic phases, and the phases of any number
  of concurrent submissions interleave with each other and with the workers.
\<close>

section \<open>Validating the upload\<close>

datatype api_error = ApiError (api_status: nat) (api_code: string) (api_message: string)

text \<open>\<open>read\<close>: the file in chunks of a fixed size, the last one shorter.\<close>

function file_chunks :: "nat \<Rightarrow> string \<Rightarrow> string list" where
  "file_chunks n s = (if s = [] \<or> n = 0 then [] else take n s # file_chunks n (drop n s))"
  by auto
termination by (relation "measure (\<lambda>(n, s). length s)") auto

declare file_chunks.simps [simp del]

definition too_large :: "nat \<Rightarrow> api_error" where
  "too_large limit = ApiError 413 ''file_too_large'' (''Drawings PDF exceeds the '' @ show_nat limit @ ''-byte limit.'')"

text \<open>The loop: running size, the first five bytes, and the bytes hashed so far.\<close>

fun hash_loop :: "nat \<Rightarrow> string list \<Rightarrow> nat \<Rightarrow> string \<Rightarrow> string \<Rightarrow> api_error + nat \<times> string \<times> string" where
  "hash_loop limit [] size_so_far head seen = Inr (size_so_far, head, seen)"
| "hash_loop limit (c # cs) size_so_far head seen =
     (let head = (if head = '''' then take 5 c else head); size_so_far = size_so_far + length c in
      if size_so_far > limit
      then Inl (too_large limit)
      else hash_loop limit cs size_so_far head (seen @ c))"

definition pdf_magic :: string where
  "pdf_magic = ''%PDF-''"

definition hash_and_validate :: "(string \<Rightarrow> string) \<Rightarrow> nat \<Rightarrow> nat \<Rightarrow> string \<Rightarrow> api_error + string \<times> nat" where
  "hash_and_validate sha256 csize limit content =
     (case hash_loop limit (file_chunks csize content) 0 '''' '''' of
        Inl e \<Rightarrow> Inl e
      | Inr (size_so_far, head, seen) \<Rightarrow>
          if size_so_far = 0 then Inl (ApiError 400 ''empty_file'' ''The uploaded drawings file is empty.'')
          else if \<not> prefix pdf_magic head
          then Inl (ApiError 415 ''not_a_pdf'' ''The uploaded drawings file is not a PDF.'')
          else Inr (sha256 seen, size_so_far))"

section \<open>The configuration\<close>

record config_in =
  ci_render_dpi :: int
  ci_spread_threshold :: rat
  ci_min_tags :: int
  ci_page_range :: "(int \<times> int) option"

definition default_config :: config_in where
  "default_config = \<lparr>ci_render_dpi = 100, ci_spread_threshold = 35 / 100, ci_min_tags = 3, ci_page_range = None\<rparr>"

text \<open>
  The validation library's coercions of a JSON value to a field type are parameters; the bounds,
  the refusal of unknown fields and the page-range check are the schema's.
\<close>

record coercions =
  as_int :: "json \<Rightarrow> int option"
  as_float :: "json \<Rightarrow> rat option"
  as_int_pair :: "json \<Rightarrow> (int \<times> int) option"

definition config_fields :: "string list" where
  "config_fields = [''render_dpi'', ''spread_threshold'', ''min_tags'', ''page_range'']"

definition field_or :: "args \<Rightarrow> string \<Rightarrow> 'a \<Rightarrow> (json \<Rightarrow> 'a option) \<Rightarrow> 'a option" where
  "field_or a k d coerce = (case map_of a k of None \<Rightarrow> Some d | Some j \<Rightarrow> coerce j)"

definition page_range_field :: "coercions \<Rightarrow> json \<Rightarrow> (int \<times> int) option option" where
  "page_range_field co j = (case j of JNull \<Rightarrow> Some None
     | _ \<Rightarrow> (case as_int_pair co j of None \<Rightarrow> None | Some p \<Rightarrow> Some (Some p)))"

definition config_valid :: "config_in \<Rightarrow> bool" where
  "config_valid c \<longleftrightarrow> 1 \<le> ci_render_dpi c \<and> 0 \<le> ci_spread_threshold c \<and> ci_spread_threshold c \<le> 1 \<and>
     1 \<le> ci_min_tags c \<and> (case ci_page_range c of None \<Rightarrow> True | Some (s, e) \<Rightarrow> \<not> (s < 0 \<or> s \<ge> e))"

definition takeoff_config_in :: "coercions \<Rightarrow> args \<Rightarrow> config_in option" where
  "takeoff_config_in co a =
     (if \<not> list_all (\<lambda>k. k \<in> set config_fields) (dict_keys a) then None
      else (case (field_or a ''render_dpi'' (ci_render_dpi default_config) (as_int co),
             field_or a ''spread_threshold'' (ci_spread_threshold default_config) (as_float co),
             field_or a ''min_tags'' (ci_min_tags default_config) (as_int co),
             field_or a ''page_range'' (ci_page_range default_config) (page_range_field co)) of
          (Some dpi, Some sp, Some mt, Some pr) \<Rightarrow>
            (let c = \<lparr>ci_render_dpi = dpi, ci_spread_threshold = sp, ci_min_tags = mt, ci_page_range = pr\<rparr>
             in if config_valid c then Some c else None)
        | _ \<Rightarrow> None))"

text \<open>\<open>explain\<close> is the validation library's text of the failure.\<close>

definition resolve_config :: "(string \<Rightarrow> json option) \<Rightarrow> coercions \<Rightarrow> (json \<Rightarrow> string) \<Rightarrow> string option \<Rightarrow>
    api_error + config_in" where
  "resolve_config loads co explain config_json =
     (case config_json of
        None \<Rightarrow> Inr default_config
      | Some text \<Rightarrow>
         (case loads text of
            None \<Rightarrow> Inl (ApiError 422 ''invalid_config'' ''config must be valid JSON.'')
          | Some parsed \<Rightarrow>
             (case (case parsed of JObj a \<Rightarrow> takeoff_config_in co a | _ \<Rightarrow> None) of
                None \<Rightarrow> Inl (ApiError 422 ''invalid_config'' (''config failed validation: '' @ explain parsed))
              | Some c \<Rightarrow> Inr c)))"

definition dump_config :: "(rat \<Rightarrow> string) \<Rightarrow> config_in \<Rightarrow> args" where
  "dump_config float_repr c =
     [(''render_dpi'', JInt (ci_render_dpi c)), (''spread_threshold'', JFloat (float_repr (ci_spread_threshold c))),
      (''min_tags'', JInt (ci_min_tags c)),
      (''page_range'', case ci_page_range c of None \<Rightarrow> JNull | Some (s, e) \<Rightarrow> JList [JInt s, JInt e])]"

definition config_hash :: "(string \<Rightarrow> string) \<Rightarrow> (rat \<Rightarrow> string) \<Rightarrow> config_in \<Rightarrow> string" where
  "config_hash sha256 float_repr c = sha256 (dumps_sorted (dump_config float_repr c))"

section \<open>The job table\<close>

text \<open>A job row: what the submission stored, and the part the workers write.\<close>

record takeoff_job =
  tj_id :: string
  tj_key :: "string option"
  tj_sha :: string
  tj_config_hash :: string
  tj_job :: job_row

definition job_active :: "takeoff_job \<Rightarrow> bool" where
  "job_active r \<longleftrightarrow> jb_status (tj_job r) \<noteq> JFailed \<and> jb_status (tj_job r) \<noteq> JDead"

text \<open>The primary key and the two partial unique indexes.\<close>

definition content_index :: "takeoff_job \<Rightarrow> (string \<times> string) option" where
  "content_index r = (if job_active r then Some (tj_sha r, tj_config_hash r) else None)"

definition indexes_ok :: "takeoff_job list \<Rightarrow> bool" where
  "indexes_ok rows \<longleftrightarrow> distinct (map tj_id rows) \<and> distinct (List.map_filter content_index rows) \<and>
     distinct (List.map_filter tj_key rows)"

text \<open>The newest row comes last, so \<open>order_by(created_at.desc())\<close> is the first of the reversed table.\<close>

definition find_existing :: "takeoff_job list \<Rightarrow> string option \<Rightarrow> string \<Rightarrow> string \<Rightarrow> api_error + takeoff_job option" where
  "find_existing rows key sha cfg =
     (let by_content = find (\<lambda>r. tj_sha r = sha \<and> tj_config_hash r = cfg \<and> job_active r) (rev rows) in
      case key of
        None \<Rightarrow> Inr by_content
      | Some k \<Rightarrow>
          if k = '''' then Inr by_content
          else (case find (\<lambda>r. tj_key r = Some k) rows of
              None \<Rightarrow> Inr by_content
            | Some j \<Rightarrow>
                if tj_sha j = sha \<and> tj_config_hash j = cfg then Inr (Some j)
                else Inl (ApiError 409 ''idempotency_key_conflict''
                       ''Idempotency-Key was reused with different content or config.'')))"

definition pdf_object_key :: "string \<Rightarrow> string" where
  "pdf_object_key i = ''uploads/'' @ i @ ''/drawings.pdf''"

section \<open>Submitting\<close>

text \<open>A submission: the digest, the configuration hash, the client's key and the id drawn for a new job.\<close>

record submission =
  sb_sha :: string
  sb_cfg :: string
  sb_key :: "string option"
  sb_id :: string

datatype submit_phase = Arrived | Inserting | Conflicted | Stored | Uploaded
  | Answered string job_status bool | Refused api_error | Crashed exn

record service_state =
  sv_jobs :: "takeoff_job list"
  sv_objects :: "string list"
  sv_queue :: "string list"

definition new_row :: "submission \<Rightarrow> takeoff_job" where
  "new_row q = \<lparr>tj_id = sb_id q, tj_key = sb_key q, tj_sha = sb_sha q, tj_config_hash = sb_cfg q, tj_job = new_job\<rparr>"

definition lookup_phase :: "submit_phase \<Rightarrow> submission \<Rightarrow> service_state \<Rightarrow> submit_phase" where
  "lookup_phase otherwise q s =
     (case find_existing (sv_jobs s) (sb_key q) (sb_sha q) (sb_cfg q) of
        Inl e \<Rightarrow> Refused e
      | Inr (Some j) \<Rightarrow> Answered (tj_id j) (jb_status (tj_job j)) False
      | Inr None \<Rightarrow> otherwise)"

definition integrity_error :: exn where
  "integrity_error = Exn ''IntegrityError'' ''duplicate key value violates unique constraint''"

text \<open>One phase: \<open>out\<close> is the outcome of the upload or of the enqueue.\<close>

definition submit_phase_step :: "exn option \<Rightarrow> submission \<Rightarrow> submit_phase \<Rightarrow> service_state \<Rightarrow> submit_phase \<times> service_state" where
  "submit_phase_step out q p s =
     (case p of
        Arrived \<Rightarrow> (lookup_phase Inserting q s, s)
      | Inserting \<Rightarrow>
          if indexes_ok (sv_jobs s @ [new_row q])
          then (Stored, s\<lparr>sv_jobs := sv_jobs s @ [new_row q]\<rparr>) else (Conflicted, s)
      | Conflicted \<Rightarrow> (lookup_phase (Crashed integrity_error) q s, s)
      | Stored \<Rightarrow>
          (case out of Some e \<Rightarrow> (Crashed e, s)
           | None \<Rightarrow> (Uploaded, s\<lparr>sv_objects := sv_objects s @ [pdf_object_key (sb_id q)]\<rparr>))
      | Uploaded \<Rightarrow>
          (case out of Some e \<Rightarrow> (Crashed e, s)
           | None \<Rightarrow> (Answered (sb_id q) JQueued True, s\<lparr>sv_queue := sv_queue s @ [sb_id q]\<rparr>))
      | _ \<Rightarrow> (p, s))"

text \<open>One submission with nobody else around: all its phases in order.\<close>

fun submit_run :: "nat \<Rightarrow> exn option \<Rightarrow> exn option \<Rightarrow> submission \<Rightarrow> submit_phase \<times> service_state \<Rightarrow> submit_phase \<times> service_state" where
  "submit_run 0 up enq q ps = ps"
| "submit_run (Suc n) up enq q (p, s) =
     submit_run n up enq q (submit_phase_step (if p = Uploaded then enq else up) q p s)"

definition submit :: "exn option \<Rightarrow> exn option \<Rightarrow> submission \<Rightarrow> service_state \<Rightarrow> submit_phase \<times> service_state" where
  "submit up enq q s = submit_run 5 up enq q (Arrived, s)"

definition create_ingestion :: "(string \<Rightarrow> string) \<Rightarrow> (rat \<Rightarrow> string) \<Rightarrow> (string \<Rightarrow> json option) \<Rightarrow> coercions \<Rightarrow>
    (json \<Rightarrow> string) \<Rightarrow> nat \<Rightarrow> nat \<Rightarrow> string \<Rightarrow> string option \<Rightarrow> string option \<Rightarrow> string \<Rightarrow> exn option \<Rightarrow> exn option \<Rightarrow>
    service_state \<Rightarrow> ((api_error + exn) + nat \<times> string \<times> job_status) \<times> service_state" where
  "create_ingestion sha256 float_repr loads co explain csize limit drawings config idempotency_key uuid up enq s =
     (case hash_and_validate sha256 csize limit drawings of
        Inl e \<Rightarrow> (Inl (Inl e), s)
      | Inr (digest, n) \<Rightarrow>
         (case resolve_config loads co explain config of
            Inl e \<Rightarrow> (Inl (Inl e), s)
          | Inr c \<Rightarrow>
             (case submit up enq \<lparr>sb_sha = digest, sb_cfg = config_hash sha256 float_repr c,
                     sb_key = idempotency_key, sb_id = uuid\<rparr> s of
                (Answered i st created, s) \<Rightarrow> (Inr (if created then 202 else 200, i, st), s)
              | (Refused e, s) \<Rightarrow> (Inl (Inl e), s)
              | (Crashed e, s) \<Rightarrow> (Inl (Inr e), s)
              | (_, s) \<Rightarrow> (Inl (Inr (Exn ''RuntimeError'' '''')), s))))"

section \<open>Concurrent submissions\<close>

text \<open>
  Any number of submissions, each in its phase, and the workers: a worker replaces the mutable
  part of a row, and the database keeps the indexes on that write as on an insert.
\<close>

type_synonym service_run = "(submission \<times> submit_phase) list \<times> service_state"

inductive service_step :: "service_run \<Rightarrow> service_run \<Rightarrow> bool" where
  advance: "i < length cl \<Longrightarrow> cl ! i = (q, p) \<Longrightarrow> submit_phase_step out q p s = (p', s') \<Longrightarrow>
    service_step (cl, s) (cl[i := (q, p')], s')"
| work: "k < length (sv_jobs s) \<Longrightarrow> indexes_ok ((sv_jobs s)[k := (sv_jobs s ! k)\<lparr>tj_job := j\<rparr>]) \<Longrightarrow>
    service_step (cl, s) (cl, s\<lparr>sv_jobs := (sv_jobs s)[k := (sv_jobs s ! k)\<lparr>tj_job := j\<rparr>]\<rparr>)"

inductive_cases service_stepE: "service_step sr sr'"

definition ident :: "takeoff_job \<Rightarrow> string \<times> string option \<times> string \<times> string" where
  "ident r = (tj_id r, tj_key r, tj_sha r, tj_config_hash r)"

definition idents :: "service_state \<Rightarrow> (string \<times> string option \<times> string \<times> string) set" where
  "idents s = ident ` set (sv_jobs s)"

definition request :: "submission \<Rightarrow> string \<times> string option \<times> string \<times> string" where
  "request q = (sb_id q, sb_key q, sb_sha q, sb_cfg q)"

definition created :: "submit_phase \<Rightarrow> bool" where
  "created p = (case p of Answered i st b \<Rightarrow> b | _ \<Rightarrow> False)"

text \<open>What the phase of a submission says of the stores.\<close>

definition submission_ok :: "service_state \<Rightarrow> submission \<times> submit_phase \<Rightarrow> bool" where
  "submission_ok s x = (case x of (q, p) \<Rightarrow>
     (p \<in> {Arrived, Inserting, Conflicted} \<longrightarrow> sb_id q \<notin> fst ` idents s) \<and>
     (p \<in> {Stored, Uploaded} \<or> created p \<longrightarrow> request q \<in> idents s) \<and>
     (p = Uploaded \<or> created p \<longrightarrow> pdf_object_key (sb_id q) \<in> set (sv_objects s)) \<and>
     (sb_id q \<in> set (sv_queue s) \<longleftrightarrow> created p) \<and>
     (case p of Answered i st b \<Rightarrow> (b \<longrightarrow> i = sb_id q) \<and> (\<exists>k. (i, k, sb_sha q, sb_cfg q) \<in> idents s) | _ \<Rightarrow> True))"

definition service_inv :: "service_run \<Rightarrow> bool" where
  "service_inv sr = (case sr of (cl, s) \<Rightarrow>
     indexes_ok (sv_jobs s) \<and> distinct (map (sb_id \<circ> fst) cl) \<and> distinct (sv_queue s) \<and>
     (\<forall>x \<in> set cl. submission_ok s x))"

lemma find_existing_sound:
  "find_existing rows key sha cfg = Inr (Some j) \<Longrightarrow> j \<in> set rows \<and> tj_sha j = sha \<and> tj_config_hash j = cfg"
  by (auto simp: find_existing_def Let_def split: option.splits if_splits dest!: find_SomeD)

lemma lookup_phase_cases:
  "lookup_phase d q s = p \<Longrightarrow> (\<And>e. p = Refused e \<Longrightarrow> P) \<Longrightarrow> (p = d \<Longrightarrow> P) \<Longrightarrow>
   (\<And>j. p = Answered (tj_id j) (jb_status (tj_job j)) False \<Longrightarrow> j \<in> set (sv_jobs s) \<Longrightarrow>
     (tj_id j, tj_key j, sb_sha q, sb_cfg q) \<in> idents s \<Longrightarrow> P) \<Longrightarrow> P"
  by (force simp: lookup_phase_def idents_def ident_def dest: find_existing_sound split: sum.splits option.splits)

text \<open>The submissions that do not move are untouched by what another one stores.\<close>

lemma idents_simps [simp]:
  "idents (s\<lparr>sv_objects := ob\<rparr>) = idents s" "idents (s\<lparr>sv_queue := qu\<rparr>) = idents s"
  "idents (s\<lparr>sv_jobs := sv_jobs s @ [r]\<rparr>) = insert (ident r) (idents s)"
  by (simp_all add: idents_def)

lemma ident_new_row [simp]: "ident (new_row q) = request q" "fst (request q) = sb_id q"
  by (simp_all add: ident_def new_row_def request_def)

lemma submission_ok_insert:
  assumes "submission_ok s (q, p)" and "sb_id q \<noteq> sb_id q'"
  shows "submission_ok (s\<lparr>sv_jobs := sv_jobs s @ [new_row q']\<rparr>) (q, p)"
  using assms by (cases p) (auto simp: submission_ok_def)

lemma submission_ok_upload:
  assumes "submission_ok s x"
  shows "submission_ok (s\<lparr>sv_objects := sv_objects s @ [k]\<rparr>) x"
  using assms by (cases x; cases "snd x") (simp_all add: submission_ok_def)

lemma submission_ok_enqueue:
  assumes "submission_ok s (q, p)" and "sb_id q \<noteq> i"
  shows "submission_ok (s\<lparr>sv_queue := sv_queue s @ [i]\<rparr>) (q, p)"
  using assms by (cases p) (simp_all add: submission_ok_def)

lemma submission_ok_work:
  assumes "k < length (sv_jobs s)"
  shows "submission_ok (s\<lparr>sv_jobs := (sv_jobs s)[k := (sv_jobs s ! k)\<lparr>tj_job := j\<rparr>]\<rparr>) x = submission_ok s x"
proof -
  have "map ident ((sv_jobs s)[k := (sv_jobs s ! k)\<lparr>tj_job := j\<rparr>]) = map ident (sv_jobs s)"
    using assms by (simp add: map_update list_update_same_conv ident_def)
  then have "idents (s\<lparr>sv_jobs := (sv_jobs s)[k := (sv_jobs s ! k)\<lparr>tj_job := j\<rparr>]\<rparr>) = idents s"
    unfolding idents_def by (metis list.set_map service_state.select_convs(1) service_state.surjective service_state.update_convs(1))
  then show ?thesis by (cases x; cases "snd x") (simp_all add: submission_ok_def)
qed

text \<open>What one phase does to its own submission, to the others, and to the tables.\<close>

lemma submission_ok_lookup:
  assumes "p \<in> {Arrived, Conflicted}" and "submission_ok s (q, p)" and "d \<in> {Inserting, Crashed integrity_error}"
  shows "submission_ok s (q, lookup_phase d q s)"
proof -
  have own: "sb_id q \<notin> fst ` idents s" "sb_id q \<notin> set (sv_queue s)"
    using assms(1,2) by (cases p; simp add: submission_ok_def created_def)+
  show ?thesis
  proof (rule lookup_phase_cases[OF refl, of d q s])
    fix j assume l: "lookup_phase d q s = Answered (tj_id j) (jb_status (tj_job j)) False"
      and j: "(tj_id j, tj_key j, sb_sha q, sb_cfg q) \<in> idents s"
    from j have "\<exists>k. (tj_id j, k, sb_sha q, sb_cfg q) \<in> idents s" by blast
    with own(2) show ?thesis unfolding l by (simp add: submission_ok_def created_def)
  next
    fix e assume l: "lookup_phase d q s = Refused e"
    show ?thesis unfolding l using own by (simp add: submission_ok_def created_def)
  next
    assume l: "lookup_phase d q s = d"
    show ?thesis unfolding l using own assms(3) by (elim insertE emptyE) (simp_all add: submission_ok_def created_def)
  qed
qed

lemma submission_ok_own_insert:
  "submission_ok s (q, Inserting) \<Longrightarrow> submission_ok (s\<lparr>sv_jobs := sv_jobs s @ [new_row q]\<rparr>) (q, Stored)"
  by (simp add: submission_ok_def created_def request_def idents_def ident_def new_row_def)

lemma submission_ok_own_conflict: "submission_ok s (q, Inserting) \<Longrightarrow> submission_ok s (q, Conflicted)"
  by (simp add: submission_ok_def created_def)

lemma submission_ok_crash:
  "p \<in> {Stored, Uploaded} \<Longrightarrow> submission_ok s (q, p) \<Longrightarrow> submission_ok s (q, Crashed e)"
  by (elim insertE emptyE) (simp_all add: submission_ok_def created_def)

lemma submission_ok_own_upload:
  "submission_ok s (q, Stored) \<Longrightarrow> submission_ok (s\<lparr>sv_objects := sv_objects s @ [pdf_object_key (sb_id q)]\<rparr>) (q, Uploaded)"
  by (simp add: submission_ok_def created_def idents_def)

lemma submission_ok_own_enqueue:
  "submission_ok s (q, Uploaded) \<Longrightarrow>
   submission_ok (s\<lparr>sv_queue := sv_queue s @ [sb_id q]\<rparr>) (q, Answered (sb_id q) JQueued True)"
  by (auto simp: submission_ok_def created_def idents_def request_def)

lemmas submission_ok_moves = submission_ok_lookup submission_ok_own_insert submission_ok_own_conflict
  submission_ok_crash submission_ok_own_upload submission_ok_own_enqueue

lemma submit_phase_own:
  assumes "submit_phase_step out q p s = (p', s')" and "submission_ok s (q, p)"
  shows "submission_ok s' (q, p')"
  using assms
  by (cases p) (auto simp: submit_phase_step_def intro: submission_ok_moves split: if_splits option.splits)

lemma submit_phase_other:
  assumes "submit_phase_step out q p s = (p', s')" and "submission_ok s (q', r)" and "sb_id q' \<noteq> sb_id q"
  shows "submission_ok s' (q', r)"
  using assms
  by (cases p) (auto simp: submit_phase_step_def intro: submission_ok_insert submission_ok_upload submission_ok_enqueue
      split: if_splits option.splits)

lemma submit_phase_tables:
  assumes "submit_phase_step out q p s = (p', s')" and "submission_ok s (q, p)" "indexes_ok (sv_jobs s)" "distinct (sv_queue s)"
  shows "indexes_ok (sv_jobs s') \<and> distinct (sv_queue s')"
  using assms
  by (cases p) (auto simp: submit_phase_step_def submission_ok_def created_def split: if_splits option.splits)

lemma service_inv_step: "service_step sr sr' \<Longrightarrow> service_inv sr \<Longrightarrow> service_inv sr'"
proof (erule service_stepE)
  fix i cl q p out s p' s'
  assume sr: "service_inv sr" "sr = (cl, s)" "sr' = (cl[i := (q, p')], s')"
    and i: "i < length cl" "cl ! i = (q, p)" and st: "submit_phase_step out q p s = (p', s')"
  from sr i have own: "submission_ok s (q, p)" and d: "distinct (map (sb_id \<circ> fst) cl)"
    and tabs: "indexes_ok (sv_jobs s)" "distinct (sv_queue s)" and all: "\<forall>x \<in> set cl. submission_ok s x"
    using nth_mem[OF i(1)] by (auto simp: service_inv_def)
  have "submission_ok s' x" if x: "x \<in> set (cl[i := (q, p')])" for x
  proof -
    from x obtain j where j: "j < length cl" "x = cl[i := (q, p')] ! j" by (auto simp: in_set_conv_nth)
    show ?thesis
    proof (cases "j = i")
      case True
      with j i st own show ?thesis by (simp add: submit_phase_own)
    next
      case False
      obtain q' r where x': "cl ! j = (q', r)" by (cases "cl ! j") blast
      from d False j(1) i have "sb_id q' \<noteq> sb_id q"
        using nth_eq_iff_index_eq[OF d, of j i] x' by simp
      moreover have "submission_ok s (q', r)" using all nth_mem[OF j(1)] x' by simp
      ultimately show ?thesis using submit_phase_other[OF st] False j(2) x' by simp
    qed
  qed
  moreover have "map (sb_id \<circ> fst) (cl[i := (q, p')]) = map (sb_id \<circ> fst) cl"
    using i by (simp add: map_update list_update_same_conv)
  ultimately show ?thesis using submit_phase_tables[OF st own tabs] d sr(3) by (simp add: service_inv_def)
next
  fix k s j cl
  assume "service_inv sr" "sr = (cl, s)" and k: "k < length (sv_jobs s)"
    and "sr' = (cl, s\<lparr>sv_jobs := (sv_jobs s)[k := (sv_jobs s ! k)\<lparr>tj_job := j\<rparr>]\<rparr>)"
    and "indexes_ok ((sv_jobs s)[k := (sv_jobs s ! k)\<lparr>tj_job := j\<rparr>])"
  then show ?thesis by (simp add: service_inv_def submission_ok_work)
qed

interpretation submissions: invariant_system service_step service_inv
  by unfold_locales (rule service_inv_step)

text \<open>Before any of them has started: fresh ids, a sound table, a queue without repetition.\<close>

definition service_start :: "service_run \<Rightarrow> bool" where
  "service_start sr = (case sr of (cl, s) \<Rightarrow>
     indexes_ok (sv_jobs s) \<and> distinct (sv_queue s) \<and> distinct (map (sb_id \<circ> fst) cl) \<and>
     list_all (\<lambda>(q, p). p = Arrived \<and> sb_id q \<notin> set (map tj_id (sv_jobs s)) \<and> sb_id q \<notin> set (sv_queue s)) cl)"

lemma service_start_inv: "service_start sr \<Longrightarrow> service_inv sr"
  by (auto simp: service_start_def service_inv_def list_all_iff submission_ok_def created_def idents_def ident_def)

text \<open>What the indexes give: an indexed value names one row.\<close>

lemma distinct_map_filter_unique:
  "distinct (List.map_filter f xs) \<Longrightarrow> x \<in> set xs \<Longrightarrow> y \<in> set xs \<Longrightarrow> f x = Some k \<Longrightarrow> f y = Some k \<Longrightarrow> x = y"
proof (induction xs)
  case (Cons a xs)
  have mem: "k \<in> set (List.map_filter f xs)" if "z \<in> set xs" "f z = Some k" for z
    using that by (force simp: map_filter_def image_iff)
  show ?case
  proof (cases "f a = Some k")
    case True
    with Cons.prems(1) have "k \<notin> set (List.map_filter f xs)" by (simp add: map_filter_simps)
    with mem Cons.prems show ?thesis by auto
  next
    case False
    with Cons.prems have "x \<in> set xs" "y \<in> set xs" by auto
    moreover have "distinct (List.map_filter f xs)"
      using Cons.prems(1) by (cases "f a") (simp_all add: map_filter_simps)
    ultimately show ?thesis using Cons.IH Cons.prems(4,5) by blast
  qed
qed simp

lemma created_row:
  assumes "service_inv (cl, s)" and "(q, Answered i st True) \<in> set cl"
  obtains r where "r \<in> set (sv_jobs s)" "ident r = request q" "i = sb_id q"
proof -
  from assms have "submission_ok s (q, Answered i st True)" by (auto simp: service_inv_def)
  then have "request q \<in> idents s" "i = sb_id q" by (simp_all add: submission_ok_def created_def)
  with that show thesis by (auto simp: idents_def)
qed

lemma same_row_same_submission:
  assumes "service_inv (cl, s)" and "(q, p) \<in> set cl" "(q', p') \<in> set cl" and "sb_id q = sb_id q'"
  shows "(q, p) = (q', p')"
proof -
  have "inj_on (sb_id \<circ> fst) (set cl)" using assms(1) by (auto simp: service_inv_def distinct_map)
  from inj_onD[OF this, of "(q, p)" "(q', p')"] assms(2-4) show ?thesis by simp
qed

section \<open>Lemmas on the upload and the configuration\<close>

lemma file_chunks_facts:
  assumes "0 < n"
  shows "concat (file_chunks n s) = s" "\<forall>c \<in> set (file_chunks n s). c \<noteq> ''''"
    "s \<noteq> '''' \<Longrightarrow> \<exists>cs. file_chunks n s = take n s # cs"
proof -
  have "concat (file_chunks n s) = s \<and> (\<forall>c \<in> set (file_chunks n s). c \<noteq> '''')"
    using assms
  proof (induction n s rule: file_chunks.induct)
    case (1 n s)
    show ?case
    proof (cases "s = ''''")
      case True
      then show ?thesis by (simp add: file_chunks.simps[of n "[]"])
    next
      case False
      with 1 show ?thesis by (simp add: file_chunks.simps[of n s])
    qed
  qed
  then show "concat (file_chunks n s) = s" "\<forall>c \<in> set (file_chunks n s). c \<noteq> ''''" by blast+
  show "s \<noteq> '''' \<Longrightarrow> \<exists>cs. file_chunks n s = take n s # cs"
    using assms by (subst file_chunks.simps) simp
qed


lemma hash_loop_started:
  "n \<le> limit \<Longrightarrow> h \<noteq> '''' \<Longrightarrow>
   hash_loop limit cs n h seen =
     (if n + length (concat cs) > limit then Inl (too_large limit) else Inr (n + length (concat cs), h, seen @ concat cs))"
  by (induction cs arbitrary: n seen) (auto simp: Let_def)

lemma hash_loop_file:
  assumes "5 \<le> n"
  shows "hash_loop limit (file_chunks n s) 0 '''' '''' =
    (if length s > limit then Inl (too_large limit) else Inr (length s, take 5 s, s))"
proof (cases "s = ''''")
  case True
  then show ?thesis by (simp add: file_chunks.simps)
next
  case False
  have "0 < n" using assms by simp
  note facts = file_chunks_facts[OF this, of s]
  from facts(3)[OF False] obtain c cs where cs: "file_chunks n s = c # cs" and c: "c = take n s" by blast
  have s: "c @ concat cs = s" using facts(1) by (simp add: cs)
  then have len: "length c + length (concat cs) = length s" by (metis length_append)
  have head: "take 5 c = take 5 s" "take 5 s \<noteq> ''''" using assms False by (simp_all add: min_def c)
  have first: "hash_loop limit (c # cs) 0 '''' '''' =
      (if length c > limit then Inl (too_large limit) else hash_loop limit cs (length c) (take 5 c) c)"
    by (simp add: Let_def)
  show ?thesis
  proof (cases "length c \<le> limit")
    case True
    with hash_loop_started[OF this head(2), of cs c] s len show ?thesis
      unfolding cs first head(1) by simp
  next
    case False
    with len show ?thesis unfolding cs first by simp
  qed
qed

section \<open>Properties of submissions\<close>

text \<open>
  The streaming check of an upload is the check of the whole file: read in chunks of at least
  five bytes, it refuses a file over the limit with 413, an empty one with 400, one without the
  PDF magic with 415, in that order, and otherwise returns the digest of exactly the bytes of the
  file and their number.
\<close>

theorem upload_check_streams:
  assumes "5 \<le> csize"
  shows "hash_and_validate sha256 csize limit content =
    (if length content > limit then Inl (too_large limit)
     else if content = '''' then Inl (ApiError 400 ''empty_file'' ''The uploaded drawings file is empty.'')
     else if take 5 content \<noteq> pdf_magic
     then Inl (ApiError 415 ''not_a_pdf'' ''The uploaded drawings file is not a PDF.'')
     else Inr (sha256 content, length content))"
proof -
  have len: "length (take 5 content) \<le> length pdf_magic" by (simp add: pdf_magic_def)
  have "take 5 content = pdf_magic" if p: "prefix pdf_magic (take 5 content)"
  proof -
    from p obtain zs where zs: "take 5 content = pdf_magic @ zs" by (rule prefixE)
    with len show ?thesis unfolding zs by simp
  qed
  then have "prefix pdf_magic (take 5 content) \<longleftrightarrow> take 5 content = pdf_magic" by auto
  then show ?thesis by (simp add: hash_and_validate_def hash_loop_file[OF assms])
qed

theorem upload_check_streams_witness:
  "hash_and_validate (\<lambda>s. s) 5 100 ''%PDF-1.7 body'' = Inr (''%PDF-1.7 body'', 13)"
  using upload_check_streams[of 5 "\<lambda>s. s" 100 "''%PDF-1.7 body''"] by (simp add: pdf_magic_def)

text \<open>
  The configuration is normalised: a configuration that is accepted satisfies every bound of
  the schema, a field the schema does not know refuses it with 422, leaving the field out and
  passing nothing mean the same defaults, and so does spelling the defaults out.
\<close>

theorem config_is_normalised:
  "resolve_config loads co explain None = Inr default_config \<and>
   (case resolve_config loads co explain (Some text) of
      Inl e \<Rightarrow> api_status e = 422 \<and> api_code e = ''invalid_config''
    | Inr c \<Rightarrow> config_valid c \<and> (\<exists>a. loads text = Some (JObj a) \<and> set (dict_keys a) \<subseteq> set config_fields \<and>
        (list_all (\<lambda>(k, f). map_of a k \<in> {None, Some f})
           [(''render_dpi'', JInt 100), (''spread_threshold'', JFloat ''0.35''), (''min_tags'', JInt 3), (''page_range'', JNull)] \<and>
         as_int co (JInt 100) = Some 100 \<and> as_int co (JInt 3) = Some 3 \<and> as_float co (JFloat ''0.35'') = Some (35 / 100)
         \<longrightarrow> c = default_config)))"
proof (cases "resolve_config loads co explain (Some text)")
  case (Inl e)
  then show ?thesis by (auto simp: resolve_config_def split: option.splits json.splits)
next
  case (Inr c)
  then obtain a where a: "loads text = Some (JObj a)" "takeoff_config_in co a = Some c"
    by (auto simp: resolve_config_def split: option.splits json.splits)
  then have "config_valid c" "set (dict_keys a) \<subseteq> set config_fields"
    by (auto simp: takeoff_config_in_def Let_def list_all_iff split: if_splits option.splits)
  moreover have "c = default_config"
    if "list_all (\<lambda>(k, f). map_of a k \<in> {None, Some f})
           [(''render_dpi'', JInt 100), (''spread_threshold'', JFloat ''0.35''), (''min_tags'', JInt 3), (''page_range'', JNull)]"
      "as_int co (JInt 100) = Some 100" "as_int co (JInt 3) = Some 3" "as_float co (JFloat ''0.35'') = Some (35 / 100)"
    using a(2) that
    by (auto simp: takeoff_config_in_def Let_def field_or_def page_range_field_def default_config_def
        split: if_splits option.splits)
  ultimately show ?thesis using Inr a(1) by (simp add: resolve_config_def)
qed

definition plain_coercions :: coercions where
  "plain_coercions = \<lparr>as_int = (\<lambda>j. case j of JInt i \<Rightarrow> Some i | _ \<Rightarrow> None),
     as_float = (\<lambda>j. case j of JFloat r \<Rightarrow> Some (35 / 100) | JInt i \<Rightarrow> Some (of_int i) | _ \<Rightarrow> None),
     as_int_pair = (\<lambda>j. case j of JList [JInt a, JInt b] \<Rightarrow> Some (a, b) | _ \<Rightarrow> None)\<rparr>"

theorem config_is_normalised_witness:
  "resolve_config (\<lambda>_. Some (JObj [(''min_tags'', JInt 3)])) plain_coercions (\<lambda>_. '''') (Some ''{}'') = Inr default_config"
proof -
  let ?r = "resolve_config (\<lambda>_. Some (JObj [(''min_tags'', JInt 3)])) plain_coercions (\<lambda>_. '''') (Some ''{}'')"
  obtain c where c: "?r = Inr c"
    by (simp add: resolve_config_def takeoff_config_in_def config_fields_def field_or_def default_config_def
        config_valid_def plain_coercions_def Let_def)
  have "c = default_config"
    using config_is_normalised[of "\<lambda>_. Some (JObj [(''min_tags'', JInt 3)])" plain_coercions "\<lambda>_. ''''" "''{}''"]
    unfolding c by (auto simp: plain_coercions_def)
  with c show ?thesis by simp
qed

text \<open>
  C20.  However concurrent submissions and workers interleave: no job is enqueued twice, a job of
  these submissions is enqueued exactly when its submission was told it was created, and then its
  PDF is already stored; the table keeps its indexes; and every answer names a job of the table
  with the content and configuration that were submitted.
\<close>

theorem submissions_enqueue_once:
  assumes "service_start (cl0, s0)" and "service_step\<^sup>*\<^sup>* (cl0, s0) (cl, s)"
  shows "distinct (sv_queue s) \<and> indexes_ok (sv_jobs s) \<and>
    list_all (\<lambda>(q, p). (sb_id q \<in> set (sv_queue s)) = created p \<and>
      (if created p then pdf_object_key (sb_id q) \<in> set (sv_objects s) else True) \<and>
      (case p of Answered i st b \<Rightarrow>
         \<exists>r \<in> set (sv_jobs s). tj_id r = i \<and> tj_sha r = sb_sha q \<and> tj_config_hash r = sb_cfg q
       | _ \<Rightarrow> True)) cl"
proof -
  have inv: "service_inv (cl, s)" by (rule submissions.reach_inv[OF assms(2) service_start_inv[OF assms(1)]])
  have "(sb_id q \<in> set (sv_queue s)) = created p \<and>
      (if created p then pdf_object_key (sb_id q) \<in> set (sv_objects s) else True) \<and>
      (case p of Answered i st b \<Rightarrow>
         \<exists>r \<in> set (sv_jobs s). tj_id r = i \<and> tj_sha r = sb_sha q \<and> tj_config_hash r = sb_cfg q
       | _ \<Rightarrow> True)" if "(q, p) \<in> set cl" for q p
  proof -
    from inv that have ok: "submission_ok s (q, p)" by (auto simp: service_inv_def)
    show ?thesis
    proof (cases p)
      case (Answered i st b)
      with ok have "\<exists>k. (i, k, sb_sha q, sb_cfg q) \<in> idents s" by (simp add: submission_ok_def)
      then have "\<exists>r \<in> set (sv_jobs s). tj_id r = i \<and> tj_sha r = sb_sha q \<and> tj_config_hash r = sb_cfg q"
        by (auto simp: idents_def ident_def)
      with ok Answered show ?thesis by (simp add: submission_ok_def)
    qed (use ok in \<open>simp_all add: submission_ok_def\<close>)
  qed
  with inv show ?thesis by (auto simp: service_inv_def list_all_iff)
qed

lemma distinct_map_filterI:
  "distinct xs \<Longrightarrow> (\<And>x y k. x \<in> set xs \<Longrightarrow> y \<in> set xs \<Longrightarrow> f x = Some k \<Longrightarrow> f y = Some k \<Longrightarrow> x = y) \<Longrightarrow>
   distinct (List.map_filter f xs)"
proof (induction xs)
  case (Cons a xs)
  then have IH: "distinct (List.map_filter f xs)" by force
  show ?case
  proof (cases "f a")
    case (Some k)
    have "k \<notin> set (List.map_filter f xs)"
    proof
      assume "k \<in> set (List.map_filter f xs)"
      then obtain y where "y \<in> set xs" "f y = Some k" by (auto simp: map_filter_def)
      with Cons.prems(2)[of a y k] Some Cons.prems(1) show False by auto
    qed
    with IH Some show ?thesis by (simp add: map_filter_simps)
  qed (use IH in \<open>simp add: map_filter_simps\<close>)
qed (simp add: map_filter_simps)

text \<open>Two submissions that created jobs with equal indexed values are one submission.\<close>

lemma created_unique:
  assumes inv: "service_inv (cl, s)" and in1: "(q, p) \<in> set cl" "created p" and in2: "(q', p') \<in> set cl" "created p'"
    and f: "distinct (List.map_filter f (sv_jobs s))"
    and k: "\<And>r. r \<in> set (sv_jobs s) \<Longrightarrow> ident r = request q \<Longrightarrow> f r = Some k"
      "\<And>r. r \<in> set (sv_jobs s) \<Longrightarrow> ident r = request q' \<Longrightarrow> f r = Some k"
  shows "(q, p) = (q', p')"
proof -
  obtain i st i' st' where p: "p = Answered i st True" "p' = Answered i' st' True"
    using in1(2) in2(2) by (auto simp: created_def split: submit_phase.splits)
  obtain r where r: "r \<in> set (sv_jobs s)" "ident r = request q" using created_row[OF inv] in1(1) p by metis
  obtain r' where r': "r' \<in> set (sv_jobs s)" "ident r' = request q'" using created_row[OF inv] in2(1) p by metis
  have "r = r'" by (rule distinct_map_filter_unique[OF f r(1) r'(1) k(1)[OF r] k(2)[OF r']])
  then have "sb_id q = sb_id q'" using r(2) r'(2) by (simp add: ident_def request_def)
  with same_row_same_submission[OF inv in1(1) in2(1)] show ?thesis .
qed

definition has_active_job :: "service_state \<Rightarrow> submission \<Rightarrow> bool" where
  "has_active_job s q \<longleftrightarrow> list_ex (\<lambda>r. tj_id r = sb_id q \<and> job_active r) (sv_jobs s)"

text \<open>
  C22.  However submissions and workers interleave: of the submissions that created a job, no two
  carry the same idempotency key, and no two with an active job have the same content and
  configuration.
\<close>

theorem created_jobs_do_not_duplicate:
  assumes "service_start (cl0, s0)" and "service_step\<^sup>*\<^sup>* (cl0, s0) (cl, s)"
  shows "distinct (List.map_filter (\<lambda>(q, p). if created p then sb_key q else None) cl) \<and>
    distinct (List.map_filter (\<lambda>(q, p). if created p \<and> has_active_job s q then Some (sb_sha q, sb_cfg q) else None) cl)"
proof -
  have inv: "service_inv (cl, s)" by (rule submissions.reach_inv[OF assms(2) service_start_inv[OF assms(1)]])
  then have ix: "distinct (map tj_id (sv_jobs s))" "distinct (List.map_filter content_index (sv_jobs s))"
    "distinct (List.map_filter tj_key (sv_jobs s))" "distinct cl"
    by (simp_all add: service_inv_def indexes_ok_def distinct_map)
  have act: "job_active r" if "has_active_job s q" "r \<in> set (sv_jobs s)" "ident r = request q" for r q
  proof -
    from that(1) obtain r' where r': "r' \<in> set (sv_jobs s)" "tj_id r' = sb_id q" "job_active r'"
      by (auto simp: has_active_job_def list_ex_iff)
    from that(3) have "tj_id r = tj_id r'" using r'(2) by (simp add: ident_def request_def)
    with ix(1) that(2) r'(1) have "r = r'" by (simp add: distinct_map inj_on_def)
    with r'(3) show ?thesis by simp
  qed
  show ?thesis
  proof
    show "distinct (List.map_filter (\<lambda>(q, p). if created p then sb_key q else None) cl)"
    proof (rule distinct_map_filterI[OF ix(4)])
      fix x y k
      assume "x \<in> set cl" "y \<in> set cl" "(case x of (q, p) \<Rightarrow> if created p then sb_key q else None) = Some k"
        "(case y of (q, p) \<Rightarrow> if created p then sb_key q else None) = Some k"
      then obtain q p q' p' where xy: "x = (q, p)" "y = (q', p')" "(q, p) \<in> set cl" "created p" "(q', p') \<in> set cl" "created p'"
        and k: "sb_key q = Some k" "sb_key q' = Some k"
        by (cases x rule: prod.exhaust; cases y rule: prod.exhaust) (simp split: if_split_asm)
      have "tj_key r = Some k" if "ident r = request q \<or> ident r = request q'" for r
        using that k by (auto simp: ident_def request_def)
      with created_unique[OF inv xy(3-6) ix(3)] xy(1,2) show "x = y" by blast
    qed
    show "distinct (List.map_filter (\<lambda>(q, p). if created p \<and> has_active_job s q then Some (sb_sha q, sb_cfg q) else None) cl)"
    proof (rule distinct_map_filterI[OF ix(4)])
      fix x y k
      assume "x \<in> set cl" "y \<in> set cl"
        "(case x of (q, p) \<Rightarrow> if created p \<and> has_active_job s q then Some (sb_sha q, sb_cfg q) else None) = Some k"
        "(case y of (q, p) \<Rightarrow> if created p \<and> has_active_job s q then Some (sb_sha q, sb_cfg q) else None) = Some k"
      then obtain q p q' p' where xy: "x = (q, p)" "y = (q', p')" "(q, p) \<in> set cl" "created p" "(q', p') \<in> set cl" "created p'"
        and a: "has_active_job s q" "has_active_job s q'" and k: "k = (sb_sha q, sb_cfg q)" "k = (sb_sha q', sb_cfg q')"
        by (cases x rule: prod.exhaust; cases y rule: prod.exhaust) (auto split: if_split_asm)
      have "content_index r = Some k" if "r \<in> set (sv_jobs s)" "ident r = request q" for r
        using act[OF a(1) that] that(2) k(1) by (simp add: content_index_def ident_def request_def)
      moreover have "content_index r = Some k" if "r \<in> set (sv_jobs s)" "ident r = request q'" for r
        using act[OF a(2) that] that(2) k(2) by (simp add: content_index_def ident_def request_def)
      ultimately show "x = y" using created_unique[OF inv xy(3-6) ix(2)] xy(1,2) by blast
    qed
  qed
qed

text \<open>Two identical submissions, the second served while the first is still uploading.\<close>

definition sample_submission :: "string \<Rightarrow> submission" where
  "sample_submission i = \<lparr>sb_sha = ''d1'', sb_cfg = ''c1'', sb_key = Some ''k'', sb_id = i\<rparr>"

definition empty_service :: service_state where
  "empty_service = \<lparr>sv_jobs = [], sv_objects = [], sv_queue = []\<rparr>"

definition submitted_once :: service_state where
  "submitted_once = \<lparr>sv_jobs = [new_row (sample_submission ''a'')], sv_objects = [pdf_object_key ''a''], sv_queue = [''a'']\<rparr>"

lemma submit_once: "submit None None (sample_submission ''a'') empty_service = (Answered ''a'' JQueued True, submitted_once)"
  by (simp add: submit_def numeral_eq_Suc submit_phase_step_def lookup_phase_def find_existing_def empty_service_def
      sample_submission_def indexes_ok_def map_filter_simps content_index_def new_row_def submitted_once_def Let_def)

lemma submit_run_reaches:
  "service_step\<^sup>*\<^sup>* ([(q, p)], s) ([(q, fst (submit_run n up enq q (p, s)))], snd (submit_run n up enq q (p, s)))"
proof (induction n arbitrary: p s)
  case (Suc n)
  obtain p' s' where st: "submit_phase_step (if p = Uploaded then enq else up) q p s = (p', s')" by fastforce
  have "service_step ([(q, p)], s) ([(q, p')], s')"
    using service_step.advance[of 0 "[(q, p)]" q p _ s p' s'] st by simp
  then show ?case using Suc.IH[of p' s'] st by (simp add: converse_rtranclp_into_rtranclp)
qed simp

lemma sample_service_start: "service_start ([(sample_submission ''a'', Arrived)], empty_service)"
  by (simp add: service_start_def empty_service_def indexes_ok_def map_filter_simps)

lemma sample_service_run:
  "service_step\<^sup>*\<^sup>* ([(sample_submission ''a'', Arrived)], empty_service)
     ([(sample_submission ''a'', Answered ''a'' JQueued True)], submitted_once)"
  using submit_run_reaches[of "sample_submission ''a''" Arrived empty_service 5 None None]
  by (simp add: submit_once[unfolded submit_def])

theorem submissions_enqueue_once_witness:
  "pdf_object_key ''a'' \<in> set (sv_objects submitted_once) \<and> ''a'' \<in> set (sv_queue submitted_once)"
  using submissions_enqueue_once[OF sample_service_start sample_service_run]
  by (simp add: created_def sample_submission_def)

theorem created_jobs_do_not_duplicate_witness:
  "distinct (List.map_filter (\<lambda>(q, p). if created p then sb_key q else None)
     [(sample_submission ''a'', Answered ''a'' JQueued True)])"
  using created_jobs_do_not_duplicate[OF sample_service_start sample_service_run] by blast

text \<open>
  A sequential submission is all or nothing except for its effects on the outside: a
  duplicate or refused one changes nothing; a created one adds its queued row, the stored PDF and
  one queue entry; but one whose upload or enqueue fails leaves its queued row behind.
\<close>

lemma submit_effects:
  "case submit up enq q s of (p, s') \<Rightarrow>
     (case p of
        Answered i st False \<Rightarrow> s' = s \<and> (\<exists>r \<in> set (sv_jobs s). tj_id r = i \<and> tj_sha r = sb_sha q \<and> tj_config_hash r = sb_cfg q)
      | Answered i st True \<Rightarrow> i = sb_id q \<and> st = JQueued \<and> up = None \<and> enq = None \<and>
          s' = \<lparr>sv_jobs = sv_jobs s @ [new_row q], sv_objects = sv_objects s @ [pdf_object_key (sb_id q)],
                sv_queue = sv_queue s @ [sb_id q]\<rparr>
      | Refused e \<Rightarrow> s' = s \<and> api_status e = 409
      | Crashed e \<Rightarrow> (s' = s \<and> e = integrity_error) \<or>
          (sv_jobs s' = sv_jobs s @ [new_row q] \<and> sv_queue s' = sv_queue s \<and> (up = Some e \<or> enq = Some e))
      | _ \<Rightarrow> False)"
proof -
  have refused: "api_status e = 409" if "find_existing rows key sha cfg = Inl e" for rows key sha cfg e
    using that by (auto simp: find_existing_def Let_def split: option.splits if_splits)
  show ?thesis
  proof (cases "lookup_phase Inserting q s")
    case Inserting
    show ?thesis
    proof (cases "indexes_ok (sv_jobs s @ [new_row q])")
      case True
      with Inserting show ?thesis
        by (cases up; cases enq) (simp_all add: submit_def numeral_eq_Suc submit_phase_step_def)
    next
      case False
      show ?thesis
        by (rule lookup_phase_cases[OF refl, of "Crashed integrity_error" q s])
          (use Inserting False in \<open>auto simp: submit_def numeral_eq_Suc submit_phase_step_def idents_def ident_def lookup_phase_def dest: refused split: sum.splits option.splits\<close>)
    qed
  next
    case (Answered i st b)
    then show ?thesis
      by (auto simp: lookup_phase_def submit_def numeral_eq_Suc submit_phase_step_def dest!: find_existing_sound split: sum.splits option.splits)
  next
    case (Refused e)
    then show ?thesis
      by (auto simp: lookup_phase_def submit_def numeral_eq_Suc submit_phase_step_def dest: refused split: sum.splits option.splits)
  qed (auto simp: lookup_phase_def split: sum.splits option.splits)
qed

text \<open>
  A submission whose upload fails leaves an active row that was never enqueued, and every later
  identical submission is answered with that job and enqueues nothing.
\<close>

theorem failed_upload_strands_duplicates:
  assumes "submit (Some e) enq q s = (Crashed e, s1)" and "e \<noteq> integrity_error"
    and "sb_sha q' = sb_sha q" and "sb_cfg q' = sb_cfg q" and "sb_key q' = None"
  shows "submit up' enq' q' s1 = (Answered (sb_id q) JQueued False, s1) \<and> sv_queue s1 = sv_queue s"
proof -
  have "sv_jobs s1 = sv_jobs s @ [new_row q]" "sv_queue s1 = sv_queue s"
    using submit_effects[where up = "Some e" and enq = enq and q = q and s = s] assms(1,2) by auto
  then show ?thesis using assms(3-5)
    by (simp add: submit_def numeral_eq_Suc submit_phase_step_def lookup_phase_def find_existing_def Let_def
        new_row_def job_active_def new_job_def)
qed

theorem failed_upload_strands_duplicates_witness:
  "submit None None (sample_submission ''b''\<lparr>sb_key := None\<rparr>)
     (snd (submit (Some (Exn ''ClientError'' '''')) None (sample_submission ''a'') empty_service)) =
   (Answered ''a'' JQueued False, snd (submit (Some (Exn ''ClientError'' '''')) None (sample_submission ''a'') empty_service))"
proof -
  let ?o = "submit (Some (Exn ''ClientError'' '''')) None (sample_submission ''a'') empty_service"
  have "fst ?o = Crashed (Exn ''ClientError'' '''')"
    by (simp add: submit_def numeral_eq_Suc submit_phase_step_def lookup_phase_def find_existing_def empty_service_def
        sample_submission_def indexes_ok_def map_filter_simps content_index_def new_row_def Let_def)
  then have "?o = (Crashed (Exn ''ClientError'' ''''), snd ?o)" by (cases ?o) simp
  from failed_upload_strands_duplicates[OF this, of "sample_submission ''b''\<lparr>sb_key := None\<rparr>" None None]
  show ?thesis by (simp add: sample_submission_def integrity_error_def)
qed

text \<open>
  An empty idempotency key is looked up as none but stored as a key: a second submission with it
  and other content passes the lookup, is refused by the index, finds nothing and raises.
\<close>

lemma empty_key_crashes:
  assumes "tj_key r = Some ''''" and "r \<in> set (sv_jobs s)" and "sb_key q = Some ''''"
    and "\<And>r. r \<in> set (sv_jobs s) \<Longrightarrow> tj_sha r \<noteq> sb_sha q"
  shows "submit up enq q s = (Crashed integrity_error, s)"
proof -
  have none: "find_existing (sv_jobs s) (sb_key q) (sb_sha q) (sb_cfg q) = Inr None"
    using assms(3,4) by (auto simp: find_existing_def find_None_iff)
  have "r \<in> set (filter (\<lambda>x. tj_key x \<noteq> None) (sv_jobs s))" "'''' = the (tj_key r)" using assms(1,2) by simp_all
  then have "'''' \<in> set (List.map_filter tj_key (sv_jobs s))"
    by (simp only: map_filter_def set_map) (rule image_eqI, simp_all only: o_apply)
  then have "\<not> distinct (List.map_filter tj_key (sv_jobs s @ [new_row q]))"
    using assms(3) by (simp add: map_filter_def new_row_def)
  then have "\<not> indexes_ok (sv_jobs s @ [new_row q])" by (simp add: indexes_ok_def)
  with none show ?thesis
    by (simp add: submit_def numeral_eq_Suc submit_phase_step_def lookup_phase_def)
qed

section \<open>Reading a job back\<close>

definition load_job :: "takeoff_job list \<Rightarrow> string \<Rightarrow> api_error + takeoff_job" where
  "load_job rows i = (case find (\<lambda>r. tj_id r = i) rows of
     None \<Rightarrow> Inl (ApiError 404 ''job_not_found'' (''No takeoff job with id '' @ i @ ''.''))
   | Some r \<Rightarrow> Inr r)"

record job_view =
  jv_id :: string
  jv_status :: job_status
  jv_content :: string
  jv_attempts :: nat
  jv_sharded :: bool
  jv_shard_count :: nat
  jv_incomplete :: bool
  jv_failed_shards :: "(nat \<times> (int \<times> int) \<times> (string \<times> string) option) list"
  jv_artifact_available :: bool
  jv_error :: "(string \<times> string) option"

definition get_ingestion :: "takeoff_job list \<Rightarrow> string \<Rightarrow> api_error + job_view" where
  "get_ingestion rows i = (case load_job rows i of
     Inl e \<Rightarrow> Inl e
   | Inr r \<Rightarrow> (let j = tj_job r in
       Inr \<lparr>jv_id = tj_id r, jv_status = jb_status j, jv_content = tj_sha r, jv_attempts = jb_attempts j,
         jv_sharded = jb_sharded j, jv_shard_count = jb_shard_count j,
         jv_incomplete = (case jb_manifest j of None \<Rightarrow> False | Some m \<Rightarrow> mf_incomplete m),
         jv_failed_shards = (case jb_manifest j of None \<Rightarrow> [] | Some m \<Rightarrow> mf_failed m),
         jv_artifact_available = (jb_artifact j \<noteq> None), jv_error = jb_error j\<rparr>))"

definition status_name :: "job_status \<Rightarrow> string" where
  "status_name st = (case st of JQueued \<Rightarrow> ''queued'' | JRunning \<Rightarrow> ''running'' | JPlanning \<Rightarrow> ''planning''
     | JMapping \<Rightarrow> ''mapping'' | JReducing \<Rightarrow> ''reducing'' | JSucceeded \<Rightarrow> ''succeeded''
     | JFailed \<Rightarrow> ''failed'' | JDead \<Rightarrow> ''dead'')"

definition get_artifact :: "takeoff_job list \<Rightarrow> string \<Rightarrow> api_error + report" where
  "get_artifact rows i = (case load_job rows i of
     Inl e \<Rightarrow> Inl e
   | Inr r \<Rightarrow> (case jb_artifact (tj_job r) of
       None \<Rightarrow> Inl (ApiError 409 ''artifact_not_ready''
         (''Job '' @ i @ '' is '' @ [CHR 39] @ status_name (jb_status (tj_job r)) @ [CHR 39] @ ''; no artifact yet.''))
     | Some rep \<Rightarrow> Inr rep))"

end
