(* ===== verification/Query.thy ===== *)
theory Query
  imports Submit
begin

text \<open>
  The query endpoints: \<open>src/service/api/query.py\<close>, and the projection of an artifact into entity
  rows: \<open>src/service/takeoff/projection.py\<close> (tables of \<open>src/service/core/models.py\<close>).

  A table is the list of its rows; \<open>ORDER BY ordinal OFFSET .. LIMIT ..\<close> is sorting, dropping and
  taking.  The record of a row's columns is also what an endpoint returns for it.  The file of a
  room area's provenance is not carried by \<open>Areas\<close> and is left out here too.
\<close>

section \<open>Rows\<close>

record 'c entity_row =
  er_job :: string
  er_ordinal :: nat
  er_cols :: 'c

record item_cols =
  ic_schedule :: string
  ic_shape :: string
  ic_mark :: string
  ic_quantity :: "rat option"
  ic_unit :: "string option"
  ic_basis :: string
  ic_description :: string
  ic_attributes :: "(string, string) dict"
  ic_src_file :: "string option"
  ic_src_page :: "int option"

record area_cols =
  arc_room :: string
  arc_area :: rat
  arc_confidence :: rat
  arc_basis :: string
  arc_src_page :: "int option"

record count_cols =
  cc_symbol :: string
  cc_page :: int
  cc_count :: nat
  cc_confidence :: rat
  cc_source :: string
  cc_verified :: bool
  cc_boxes :: "(rat \<times> rat) list"

record entity_tables =
  et_items :: "item_cols entity_row list"
  et_areas :: "area_cols entity_row list"
  et_counts :: "count_cols entity_row list"

section \<open>Projection\<close>

fun basis_name :: "basis \<Rightarrow> string" where
  "basis_name RowCount = ''row_count''"
| "basis_name QtyColumn = ''qty_column''"
| "basis_name UnknownPlanCount = ''unknown_plan_count''"
| "basis_name PlanCount = ''plan_count''"

definition item_row :: "string \<Rightarrow> nat \<Rightarrow> schedule_item \<Rightarrow> item_cols entity_row" where
  "item_row job i d = \<lparr>er_job = job, er_ordinal = i, er_cols =
     \<lparr>ic_schedule = si_schedule d, ic_shape = si_shape d, ic_mark = si_mark d, ic_quantity = si_quantity d,
      ic_unit = si_unit d, ic_basis = basis_name (si_basis d), ic_description = si_description d,
      ic_attributes = si_attributes d, ic_src_file = Some (si_file d), ic_src_page = si_page d\<rparr>\<rparr>"

definition area_row :: "string \<Rightarrow> nat \<Rightarrow> room_area \<Rightarrow> area_cols entity_row" where
  "area_row job i d = \<lparr>er_job = job, er_ordinal = i, er_cols =
     \<lparr>arc_room = ra_room d, arc_area = ra_area d, arc_confidence = ra_confidence d, arc_basis = ra_basis d,
      arc_src_page = ra_page d\<rparr>\<rparr>"

definition count_row :: "string \<Rightarrow> nat \<Rightarrow> count_result \<Rightarrow> count_cols entity_row" where
  "count_row job i d = \<lparr>er_job = job, er_ordinal = i, er_cols =
     \<lparr>cc_symbol = cr_symbol d, cc_page = cr_page d, cc_count = cr_count d, cc_confidence = cr_confidence d,
      cc_source = cr_source d, cc_verified = cr_verified d, cc_boxes = cr_boxes d\<rparr>\<rparr>"

definition enumerated :: "(nat \<Rightarrow> 'a \<Rightarrow> 'b) \<Rightarrow> 'a list \<Rightarrow> 'b list" where
  "enumerated f xs = map (\<lambda>(i, x). f i x) (List.enumerate 0 xs)"

definition project :: "string \<Rightarrow> report \<Rightarrow> entity_tables" where
  "project job rep = \<lparr>et_items = enumerated (item_row job) (rp_items rep),
     et_areas = enumerated (area_row job) (rp_room_areas rep),
     et_counts = enumerated (count_row job) (rp_fixture_counts rep)\<rparr>"

definition delete_job_rows :: "string \<Rightarrow> 'c entity_row list \<Rightarrow> 'c entity_row list" where
  "delete_job_rows job rows = filter (\<lambda>r. er_job r \<noteq> job) rows"

definition shred_entities :: "entity_tables \<Rightarrow> string \<Rightarrow> report \<Rightarrow> entity_tables \<times> (nat \<times> nat \<times> nat)" where
  "shred_entities tabs job rep = (let rows = project job rep in
     (\<lparr>et_items = delete_job_rows job (et_items tabs) @ et_items rows,
       et_areas = delete_job_rows job (et_areas tabs) @ et_areas rows,
       et_counts = delete_job_rows job (et_counts tabs) @ et_counts rows\<rparr>,
      (length (et_items rows), length (et_areas rows), length (et_counts rows))))"

section \<open>Pages\<close>

definition max_page_size :: int where
  "max_page_size = 500"

definition load_queryable :: "takeoff_job list \<Rightarrow> string \<Rightarrow> api_error + takeoff_job" where
  "load_queryable jobs i = (case find (\<lambda>r. tj_id r = i) jobs of
     None \<Rightarrow> Inl (ApiError 404 ''job_not_found'' (''No takeoff job with id '' @ i @ ''.''))
   | Some r \<Rightarrow>
       if jb_status (tj_job r) \<noteq> JSucceeded
       then Inl (ApiError 409 ''job_not_ready'' (''Job '' @ i @ '' status is '' @ [CHR 39] @
              status_name (jb_status (tj_job r)) @ [CHR 39] @ ''; no results to query yet.''))
       else Inr r)"

definition page_offset :: "int \<Rightarrow> int \<Rightarrow> api_error + nat" where
  "page_offset page page_size =
     (if page < 1 then Inl (ApiError 422 ''invalid_page'' ''page must be >= 1'')
      else if \<not> (1 \<le> page_size \<and> page_size \<le> max_page_size)
      then Inl (ApiError 422 ''invalid_page_size'' (''page_size must be 1..'' @ show_int max_page_size))
      else Inr (nat ((page - 1) * page_size)))"

definition total_pages :: "nat \<Rightarrow> int \<Rightarrow> int" where
  "total_pages n page_size = (int n + page_size - 1) div page_size"

definition job_incomplete :: "takeoff_job \<Rightarrow> bool" where
  "job_incomplete r = (case jb_manifest (tj_job r) of None \<Rightarrow> False | Some m \<Rightarrow> mf_incomplete m)"

record 'c page_out =
  pg_data :: "'c list"
  pg_page :: int
  pg_page_size :: int
  pg_total :: nat
  pg_total_pages :: int
  pg_job :: string
  pg_incomplete :: bool

definition page_meta :: "takeoff_job \<Rightarrow> int \<Rightarrow> int \<Rightarrow> nat \<Rightarrow> 'c list \<Rightarrow> 'c page_out" where
  "page_meta r page page_size n data = \<lparr>pg_data = data, pg_page = page, pg_page_size = page_size, pg_total = n,
     pg_total_pages = total_pages n page_size, pg_job = tj_id r, pg_incomplete = job_incomplete r\<rparr>"

definition matching :: "('c \<Rightarrow> bool) \<Rightarrow> string \<Rightarrow> 'c entity_row list \<Rightarrow> 'c entity_row list" where
  "matching P job rows = filter (\<lambda>r. er_job r = job \<and> P (er_cols r)) rows"

definition query_page :: "('c \<Rightarrow> bool) \<Rightarrow> takeoff_job list \<Rightarrow> 'c entity_row list \<Rightarrow> string \<Rightarrow> int \<Rightarrow> int \<Rightarrow>
    api_error + 'c page_out" where
  "query_page P jobs rows i page page_size =
     (case load_queryable jobs i of
        Inl e \<Rightarrow> Inl e
      | Inr r \<Rightarrow>
         (case page_offset page page_size of
            Inl e \<Rightarrow> Inl e
          | Inr off \<Rightarrow>
             (let found = sort_key er_ordinal (matching P i rows) in
              Inr (page_meta r page page_size (length (matching P i rows))
                     (map er_cols (take (nat page_size) (drop off found)))))))"

text \<open>A filter that is not given accepts everything.\<close>

definition given :: "'a option \<Rightarrow> ('a \<Rightarrow> bool) \<Rightarrow> bool" where
  "given f test = (case f of None \<Rightarrow> True | Some x \<Rightarrow> test x)"

definition get_items :: "takeoff_job list \<Rightarrow> entity_tables \<Rightarrow> string \<Rightarrow> string option \<Rightarrow> string option \<Rightarrow>
    string option \<Rightarrow> string option \<Rightarrow> int \<Rightarrow> int \<Rightarrow> api_error + item_cols page_out" where
  "get_items jobs tabs i schedule mark quantity_basis shape page page_size =
     query_page (\<lambda>c. given schedule (\<lambda>x. ic_schedule c = x) \<and> given mark (\<lambda>x. ic_mark c = x) \<and>
       given quantity_basis (\<lambda>x. ic_basis c = x) \<and> given shape (\<lambda>x. ic_shape c = x))
       jobs (et_items tabs) i page page_size"

definition get_fixture_counts :: "takeoff_job list \<Rightarrow> entity_tables \<Rightarrow> string \<Rightarrow> string option \<Rightarrow> bool option \<Rightarrow>
    rat option \<Rightarrow> int \<Rightarrow> int \<Rightarrow> api_error + count_cols page_out" where
  "get_fixture_counts jobs tabs i symbol_id verified min_confidence page page_size =
     query_page (\<lambda>c. given symbol_id (\<lambda>x. cc_symbol c = x) \<and> given verified (\<lambda>x. cc_verified c = x) \<and>
       given min_confidence (\<lambda>x. cc_confidence c \<ge> x))
       jobs (et_counts tabs) i page page_size"

definition get_room_areas :: "takeoff_job list \<Rightarrow> entity_tables \<Rightarrow> string \<Rightarrow> string option \<Rightarrow> rat option \<Rightarrow>
    int \<Rightarrow> int \<Rightarrow> api_error + area_cols page_out" where
  "get_room_areas jobs tabs i room_number min_confidence page page_size =
     query_page (\<lambda>c. given room_number (\<lambda>x. arc_room c = x) \<and> given min_confidence (\<lambda>x. arc_confidence c \<ge> x))
       jobs (et_areas tabs) i page page_size"

section \<open>The summary\<close>

record summary_out =
  so_job :: string
  so_status :: job_status
  so_incomplete :: bool
  so_failed_shards :: "(nat \<times> (int \<times> int) \<times> (string \<times> string) option) list"
  so_summary :: items_summary
  so_coverage :: area_coverage
  so_counts :: count_summary
  so_pending :: nat
  so_unverified :: nat
  so_rooms_without_area :: int

text \<open>The artifact is read from storage; \<open>get_bytes\<close> is its outcome.\<close>

definition get_summary :: "takeoff_job list \<Rightarrow> entity_tables \<Rightarrow> string \<Rightarrow> (report option \<Rightarrow> exn + report) \<Rightarrow>
    (api_error + exn) + summary_out" where
  "get_summary jobs tabs i get_bytes =
     (case load_queryable jobs i of
        Inl e \<Rightarrow> Inl (Inl e)
      | Inr r \<Rightarrow>
         (case get_bytes (jb_artifact (tj_job r)) of
            Inl e \<Rightarrow> Inl (Inr e)
          | Inr rep \<Rightarrow>
             Inr \<lparr>so_job = tj_id r, so_status = jb_status (tj_job r), so_incomplete = job_incomplete r,
               so_failed_shards = (case jb_manifest (tj_job r) of None \<Rightarrow> [] | Some m \<Rightarrow> mf_failed m),
               so_summary = rp_summary rep, so_coverage = rp_coverage rep, so_counts = rp_count_summary rep,
               so_pending = sm_pending (rp_summary rep),
               so_unverified = length (filter (\<lambda>x. er_job x = i \<and> \<not> cc_verified (er_cols x)) (et_counts tabs)),
               so_rooms_without_area = int (ac_finish_rooms (rp_coverage rep)) - int (ac_with_area (rp_coverage rep))\<rparr>))"

section \<open>Lemmas on the projection and the pages\<close>

lemma length_enumerated [simp]: "length (enumerated f xs) = length xs"
  by (simp add: enumerated_def)

lemma enumerated_ordinal:
  "(\<And>i x. er_ordinal (f i x) = i) \<Longrightarrow> map er_ordinal (enumerated f xs) = [0..<length xs]"
  by (rule nth_equalityI) (simp_all add: enumerated_def nth_enumerate_eq case_prod_beta)

lemma map_enumerated: "(\<And>i x. g (f i x) = h x) \<Longrightarrow> map g (enumerated f xs) = map h xs"
  by (rule nth_equalityI) (simp_all add: enumerated_def nth_enumerate_eq case_prod_beta)

lemma sorted_enumerated:
  "(\<And>i x. er_ordinal (f i x) = i) \<Longrightarrow> sort_key er_ordinal (enumerated f xs) = enumerated f xs"
  by (rule sort_key_id_if_sorted) (simp add: enumerated_ordinal)

lemma job_of_enumerated: "(\<And>i x. er_job (f i x) = job) \<Longrightarrow> r \<in> set (enumerated f xs) \<Longrightarrow> er_job r = job"
  by (auto simp: enumerated_def)

lemma delete_job_rows_idem [simp]: "delete_job_rows job (delete_job_rows job rows) = delete_job_rows job rows"
  by (simp add: delete_job_rows_def)

lemma delete_job_rows_own: "(\<And>r. r \<in> set rows \<Longrightarrow> er_job r = job) \<Longrightarrow> delete_job_rows job rows = []"
  by (simp add: delete_job_rows_def filter_empty_conv)

lemma delete_job_rows_append: "delete_job_rows job (xs @ ys) = delete_job_rows job xs @ delete_job_rows job ys"
  by (simp add: delete_job_rows_def)

lemma project_jobs:
  "r \<in> set (et_items (project job rep)) \<Longrightarrow> er_job r = job"
  "a \<in> set (et_areas (project job rep)) \<Longrightarrow> er_job a = job"
  "c \<in> set (et_counts (project job rep)) \<Longrightarrow> er_job c = job"
  by (auto simp: project_def item_row_def area_row_def count_row_def enumerated_def)

lemma matching_own:
  "(\<And>r. r \<in> set own \<Longrightarrow> er_job r = job) \<Longrightarrow>
   matching P job (delete_job_rows job old @ own) = filter (P \<circ> er_cols) own"
  by (simp add: matching_def delete_job_rows_def filter_empty_conv cong: filter_cong)

text \<open>The rows a finished job's endpoint pages through: the artifact's, in the artifact's order.\<close>

definition job_rows :: "('c \<Rightarrow> bool) \<Rightarrow> 'c entity_row list \<Rightarrow> string \<Rightarrow> 'c list" where
  "job_rows P rows i = map er_cols (sort_key er_ordinal (matching P i rows))"

lemma length_job_rows [simp]: "length (job_rows P rows i) = length (matching P i rows)"
  by (simp add: job_rows_def)

lemma query_page_rows:
  assumes "load_queryable jobs i = Inr r" and "1 \<le> p" and "1 \<le> n" and "n \<le> max_page_size"
  shows "query_page P jobs rows i p n =
    Inr (page_meta r p n (length (job_rows P rows i)) (take (nat n) (drop (nat (p - 1) * nat n) (job_rows P rows i))))"
  using assms by (simp add: query_page_def page_offset_def Let_def job_rows_def take_map drop_map nat_mult_distrib)

lemma pages_bound: "0 < n \<Longrightarrow> total_pages k n \<le> p \<longleftrightarrow> int k \<le> p * n"
proof -
  assume n: "0 < n"
  have "total_pages k n \<le> p \<longleftrightarrow> (int k + n - 1) div n < p + 1" by (simp add: total_pages_def)
  also have "\<dots> \<longleftrightarrow> int k + n - 1 < (p + 1) * n"
  proof -
    let ?a = "int k + n - 1"
    have a: "?a = ?a div n * n + ?a mod n" "0 \<le> ?a mod n" "?a mod n < n"
      using n by (simp_all only: div_mult_mod_eq pos_mod_sign pos_mod_bound)
    show ?thesis
    proof
      assume "?a div n < p + 1"
      then have "?a div n * n \<le> p * n" using n by (intro mult_right_mono) simp_all
      moreover have "(p + 1) * n = p * n + n" by (simp add: algebra_simps)
      ultimately show "?a < (p + 1) * n" using a by linarith
    next
      assume l: "?a < (p + 1) * n"
      show "?a div n < p + 1"
      proof (rule ccontr)
        assume "\<not> ?a div n < p + 1"
        then have "(p + 1) * n \<le> ?a div n * n" using n by (intro mult_right_mono) simp_all
        with a l show False by linarith
      qed
    qed
  qed
  also have "\<dots> \<longleftrightarrow> int k \<le> p * n" by (auto simp: algebra_simps)
  finally show ?thesis .
qed

lemma concat_pages: "0 < n \<Longrightarrow> concat (map (\<lambda>k. take n (drop (k * n) xs)) [0..<m]) = take (m * n) xs"
proof (induction m)
  case (Suc m)
  have "take (Suc m * n) xs = take (m * n) xs @ take n (drop (m * n) xs)"
    using take_add[of "m * n" n xs] by (simp add: add.commute)
  with Suc show ?case by simp
qed simp

section \<open>Properties of the query endpoints\<close>

text \<open>
  Shredding replaces exactly one job's rows: the rows of every other job stay as they are,
  the job's own become the artifact's records with their positions, and shredding the same
  artifact again (a redelivered job) changes nothing.
\<close>

theorem shred_replaces_one_job:
  "case shred_entities tabs job rep of (tabs', n) \<Rightarrow>
     delete_job_rows job (et_items tabs') = delete_job_rows job (et_items tabs) \<and>
     delete_job_rows job (et_areas tabs') = delete_job_rows job (et_areas tabs) \<and>
     delete_job_rows job (et_counts tabs') = delete_job_rows job (et_counts tabs) \<and>
     matching (\<lambda>c. True) job (et_items tabs') = et_items (project job rep) \<and>
     matching (\<lambda>c. True) job (et_areas tabs') = et_areas (project job rep) \<and>
     matching (\<lambda>c. True) job (et_counts tabs') = et_counts (project job rep) \<and>
     map er_ordinal (et_items (project job rep)) = [0..<length (rp_items rep)] \<and>
     n = (length (rp_items rep), length (rp_room_areas rep), length (rp_fixture_counts rep)) \<and>
     shred_entities tabs' job rep = (tabs', n)"
proof -
  note own = delete_job_rows_own[of "et_items (project job rep)" job] delete_job_rows_own[of "et_areas (project job rep)" job]
    delete_job_rows_own[of "et_counts (project job rep)" job]
  have lens: "length (et_items (project job rep)) = length (rp_items rep)"
    "length (et_areas (project job rep)) = length (rp_room_areas rep)"
    "length (et_counts (project job rep)) = length (rp_fixture_counts rep)"
    by (simp_all add: project_def)
  have "map er_ordinal (et_items (project job rep)) = [0..<length (rp_items rep)]"
    by (simp add: project_def enumerated_ordinal item_row_def)
  then show ?thesis
    by (simp add: shred_entities_def Let_def delete_job_rows_append own project_jobs matching_own lens)
qed

text \<open>
  C26.  Paging partitions: for any filter of an endpoint and any page size it accepts, the pages
  from one to the reported number of pages together are exactly the matching rows of the job in
  artifact order, no page is longer than the page size, and the total is their number.
\<close>

theorem pages_partition_rows:
  assumes "load_queryable jobs i = Inr r" and "1 \<le> n" and "n \<le> max_page_size"
  shows "\<exists>tp. concat (map (\<lambda>k. case query_page P jobs rows i (int k + 1) n of Inl e \<Rightarrow> [] | Inr pg \<Rightarrow> pg_data pg) [0..<tp]) =
      job_rows P rows i \<and>
    list_all (\<lambda>k. case query_page P jobs rows i (int k + 1) n of Inl e \<Rightarrow> False | Inr pg \<Rightarrow>
      int (length (pg_data pg)) \<le> n \<and> pg_total_pages pg = int tp \<and> pg_total pg = length (job_rows P rows i)) [0..<max 1 tp]"
proof -
  let ?rows = "job_rows P rows i" and ?tp = "nat (total_pages (length (job_rows P rows i)) n)"
  have page: "query_page P jobs rows i (int k + 1) n =
      Inr (page_meta r (int k + 1) n (length ?rows) (take (nat n) (drop (k * nat n) ?rows)))" for k
    using query_page_rows[OF assms(1) _ assms(2,3), of "int k + 1" P rows] by simp
  have tp: "int ?tp = total_pages (length ?rows) n" using assms(2) by (simp add: total_pages_def pos_imp_zdiv_nonneg_iff)
  have "int (length ?rows) \<le> int ?tp * n"
    using pages_bound[of n "length ?rows" "int ?tp"] assms(2) tp by simp
  then have "length ?rows \<le> ?tp * nat n" using assms(2) by (metis nat_int nat_mono nat_mult_distrib of_nat_0_le_iff)
  then have "concat (map (\<lambda>k. take (nat n) (drop (k * nat n) ?rows)) [0..<?tp]) = ?rows"
    using concat_pages[of "nat n" ?rows ?tp] assms(2) by simp
  moreover have "int (min k (nat n)) \<le> n" for k using assms(2) by linarith
  ultimately show ?thesis unfolding page using tp assms(2)
    by (intro exI[of _ ?tp]) (simp add: page_meta_def list_all_iff)
qed

definition sample_job :: takeoff_job where
  "sample_job = \<lparr>tj_id = ''j'', tj_key = None, tj_sha = ''s'', tj_config_hash = ''c'',
     tj_job = new_job\<lparr>jb_status := JSucceeded\<rparr>\<rparr>"

definition sample_areas :: "area_cols entity_row list" where
  "sample_areas = enumerated (area_row ''j'')
     [\<lparr>ra_room = ''101'', ra_area = 120, ra_confidence = 1, ra_basis = ''label'', ra_page = Some 0\<rparr>,
      \<lparr>ra_room = ''102'', ra_area = 80, ra_confidence = 1, ra_basis = ''label'', ra_page = Some 1\<rparr>]"

lemma load_sample_job: "load_queryable [sample_job] ''j'' = Inr sample_job"
  by (simp add: load_queryable_def sample_job_def)

theorem pages_partition_rows_witness:
  "\<exists>tp. concat (map (\<lambda>k. case query_page (\<lambda>c. True) [sample_job] sample_areas ''j'' (int k + 1) 1 of Inl e \<Rightarrow> [] | Inr pg \<Rightarrow> pg_data pg) [0..<tp]) =
     job_rows (\<lambda>c. True) sample_areas ''j''"
  using pages_partition_rows[OF load_sample_job, of 1 "\<lambda>c. True" sample_areas] by (auto simp: max_page_size_def)

section \<open>A finished job is served\<close>

text \<open>
  The last transaction of a build that succeeded: the row becomes terminal with its artifact and
  manifest, and the artifact is shredded.
\<close>

definition complete_job :: "report \<Rightarrow> manifest \<Rightarrow> takeoff_job \<Rightarrow> entity_tables \<Rightarrow> takeoff_job \<times> entity_tables" where
  "complete_job rep m r tabs =
     (r\<lparr>tj_job := (tj_job r)\<lparr>jb_status := JSucceeded, jb_artifact := Some rep, jb_manifest := Some m\<rparr>\<rparr>,
      fst (shred_entities tabs (tj_id r) rep))"

lemma load_completed: "load_queryable (fst (complete_job rep m r tabs) # jobs) (tj_id r) = Inr (fst (complete_job rep m r tabs))"
  by (simp add: load_queryable_def complete_job_def)

lemma completed_rows:
  "job_rows (\<lambda>c. True) (et_items (snd (complete_job rep m r tabs))) (tj_id r) = map (\<lambda>d. er_cols (item_row (tj_id r) 0 d)) (rp_items rep)"
  "job_rows (\<lambda>c. True) (et_areas (snd (complete_job rep m r tabs))) (tj_id r) = map (\<lambda>d. er_cols (area_row (tj_id r) 0 d)) (rp_room_areas rep)"
  "job_rows (\<lambda>c. True) (et_counts (snd (complete_job rep m r tabs))) (tj_id r) = map (\<lambda>d. er_cols (count_row (tj_id r) 0 d)) (rp_fixture_counts rep)"
proof -
  have tabs: "matching (\<lambda>c. True) (tj_id r) (delete_job_rows (tj_id r) xs @ ys) = ys"
    if "\<And>y. y \<in> set ys \<Longrightarrow> er_job y = tj_id r" for xs ys :: "'c entity_row list"
    using matching_own[OF that, of ys "\<lambda>c. True" xs] by simp
  show "job_rows (\<lambda>c. True) (et_items (snd (complete_job rep m r tabs))) (tj_id r) = map (\<lambda>d. er_cols (item_row (tj_id r) 0 d)) (rp_items rep)"
    "job_rows (\<lambda>c. True) (et_areas (snd (complete_job rep m r tabs))) (tj_id r) = map (\<lambda>d. er_cols (area_row (tj_id r) 0 d)) (rp_room_areas rep)"
    "job_rows (\<lambda>c. True) (et_counts (snd (complete_job rep m r tabs))) (tj_id r) = map (\<lambda>d. er_cols (count_row (tj_id r) 0 d)) (rp_fixture_counts rep)"
    by (simp_all add: job_rows_def complete_job_def shred_entities_def Let_def tabs project_jobs)
      (simp_all add: project_def sorted_enumerated item_row_def area_row_def count_row_def map_enumerated)
qed

end
