(* ===== verification/Scratchpad.thy ===== *)
theory Scratchpad
  imports Prelude
begin

text \<open>
  The durable key-value store of the agent: \<open>src/src/harness/tools/scratchpad.py\<close>.  The directory
  is a dictionary from file names to contents.  The contract of such a store is a locale; what a
  history of writes leaves is proved in it and interpreted for the scratchpad.  Keys beyond ASCII
  are not modelled.
\<close>

type_synonym directory = "(string, string) dict"

definition key_char :: "char \<Rightarrow> bool" where
  "key_char c \<longleftrightarrow> is_alnum c \<or> c \<in> set ''-_''"

definition pad_path :: "string \<Rightarrow> exn + string" where
  "pad_path key = (let safe = filter key_char key in
     if safe \<noteq> key then Inl (Exn ''ValueError'' (''invalid key '' @ py_repr key @ '': use [A-Za-z0-9_-]+''))
     else if safe = '''' then Inl (Exn ''ValueError'' ''key cannot be empty'')
     else Inr (safe @ ''.txt''))"

definition pad_write :: "string \<Rightarrow> string \<Rightarrow> directory \<Rightarrow> (exn + string) \<times> directory" where
  "pad_write key content dir = (case pad_path key of
     Inl e \<Rightarrow> (Inl e, dir)
   | Inr p \<Rightarrow> (Inr (''wrote '' @ show_nat (length content) @ '' chars to scratchpad['' @ key @ '']''),
              dict_set dir p content))"

definition pad_missing :: "string \<Rightarrow> exn" where
  "pad_missing key = Exn ''KeyError'' (py_repr (''scratchpad['' @ key @ ''] not found''))"

text \<open>\<open>read_text\<close> opens in text mode: every line end reads as a newline.\<close>

definition pad_read :: "string \<Rightarrow> directory \<Rightarrow> exn + string" where
  "pad_read key dir = (case pad_path key of
     Inl e \<Rightarrow> Inl e
   | Inr p \<Rightarrow> (case map_of dir p of
       None \<Rightarrow> Inl (pad_missing key)
     | Some c \<Rightarrow> Inr (universal_newlines c)))"

text \<open>\<open>glob("*.txt")\<close> and the stems, sorted.\<close>

definition pad_list :: "directory \<Rightarrow> string list" where
  "pad_list dir = sort_strs (map (\<lambda>p. take (length p - 4) p) (filter (suffix ''.txt'') (dict_keys dir)))"

definition scratchpad_list :: "directory \<Rightarrow> string" where
  "scratchpad_list dir = (let keys = pad_list dir in if keys = [] then ''(empty)'' else py_join newline keys)"

section \<open>The contract of a store\<close>

locale key_value_store =
  fixes put :: "'k \<Rightarrow> 'v \<Rightarrow> 's \<Rightarrow> (exn + string) \<times> 's" and get :: "'k \<Rightarrow> 's \<Rightarrow> exn + 'v" and valid :: "'k \<Rightarrow> bool"
    and norm :: "'v \<Rightarrow> 'v"
  assumes get_put: "valid k \<Longrightarrow> get k (snd (put k v s)) = Inr (norm v)"
    and get_other: "valid k \<Longrightarrow> valid k' \<Longrightarrow> k \<noteq> k' \<Longrightarrow> get k' (snd (put k v s)) = get k' s"
    and invalid: "\<not> valid k \<Longrightarrow> snd (put k v s) = s"
begin

definition puts :: "('k \<times> 'v) list \<Rightarrow> 's \<Rightarrow> 's" where
  "puts kvs s = fold (\<lambda>(k, v) s. snd (put k v s)) kvs s"

text \<open>After any history of writes a key reads as the value last written to it, as the store normalises it.\<close>

lemma get_puts:
  "valid k \<Longrightarrow> get k (puts kvs s) = (case map_of (rev kvs) k of None \<Rightarrow> get k s | Some v \<Rightarrow> Inr (norm v))"
proof (induction kvs arbitrary: s)
  case (Cons kv kvs)
  obtain k' v where kv: "kv = (k', v)" by (cases kv)
  have step: "puts ((k', v) # kvs) s = puts kvs (snd (put k' v s))" by (simp add: puts_def)
  have "get k (snd (put k' v s)) = (if k' = k then Inr (norm v) else get k s)"
    using Cons.prems get_put get_other invalid[of k'] by (cases "valid k'") auto
  then show ?case using Cons.IH[OF Cons.prems] by (simp add: step kv map_add_def split: option.splits)
qed (simp add: puts_def)

end

definition pad_key :: "string \<Rightarrow> bool" where
  "pad_key k \<longleftrightarrow> k \<noteq> '''' \<and> list_all key_char k"

lemma pad_path_valid [simp]: "pad_key k \<Longrightarrow> pad_path k = Inr (k @ ''.txt'')"
  by (auto simp: pad_path_def pad_key_def list_all_iff filter_id_conv)

lemma pad_path_invalid: "\<not> pad_key k \<Longrightarrow> \<exists>e. pad_path k = Inl e \<and> exn_type e = ''ValueError''"
  by (auto simp: pad_path_def pad_key_def list_all_iff filter_id_conv Let_def)

interpretation pad: key_value_store pad_write pad_read pad_key universal_newlines
proof
  fix k k' v s
  show "pad_key k \<Longrightarrow> pad_read k (snd (pad_write k v s)) = Inr (universal_newlines v)"
    by (simp add: pad_read_def pad_write_def)
  show "pad_key k \<Longrightarrow> pad_key k' \<Longrightarrow> k \<noteq> k' \<Longrightarrow> pad_read k' (snd (pad_write k v s)) = pad_read k' s"
    by (simp add: pad_read_def pad_write_def)
  show "\<not> pad_key k \<Longrightarrow> snd (pad_write k v s) = s"
    using pad_path_invalid[of k] by (auto simp: pad_write_def)
qed

text \<open>The file of a key, as it is stored.\<close>

definition pad_file :: "string \<Rightarrow> directory \<Rightarrow> string option" where
  "pad_file key dir = map_of dir (key @ ''.txt'')"

lemma pad_file_write: "pad_key k \<Longrightarrow> pad_file k (snd (pad_write k v dir)) = Some v"
  by (simp add: pad_file_def pad_write_def)

lemma pad_read_file: "pad_key k \<Longrightarrow> pad_read k dir =
    (case pad_file k dir of None \<Rightarrow> Inl (pad_missing k) | Some c \<Rightarrow> Inr (universal_newlines c))"
  by (simp add: pad_file_def pad_read_def)

text \<open>Whatever the history of writes, the list is the sorted keys written, each once.\<close>

definition pad_after :: "(string \<times> string) list \<Rightarrow> directory" where
  "pad_after kvs = fold (\<lambda>(k, v) s. snd (pad_write k v s)) kvs []"

lemma fst_set_pad_writes:
  "fst ` set (fold (\<lambda>(k, v) s. snd (pad_write k v s)) kvs dir) =
   fst ` set dir \<union> (\<lambda>k. k @ ''.txt'') ` {k \<in> fst ` set kvs. pad_key k}"
proof (induction kvs arbitrary: dir)
  case (Cons kv kvs)
  obtain k v where kv: "kv = (k, v)" by (cases kv)
  have "fst ` set (snd (pad_write k v dir)) = fst ` set dir \<union> (if pad_key k then {k @ ''.txt''} else {})"
  proof (cases "pad_key k")
    case False
    then show ?thesis using pad_path_invalid[OF False] by (auto simp: pad_write_def)
  qed (simp add: pad_write_def)
  with Cons show ?case by (auto simp: kv)
qed simp

lemma pad_list_after: "set (pad_list (pad_after kvs)) = {k \<in> fst ` set kvs. pad_key k}"
proof -
  have "fst ` set (pad_after kvs) = (\<lambda>k. k @ ''.txt'') ` {k \<in> fst ` set kvs. pad_key k}"
    by (simp add: pad_after_def fst_set_pad_writes)
  then have "set (pad_list (pad_after kvs)) =
      (\<lambda>p. take (length p - 4) p) ` {p \<in> (\<lambda>k. k @ ''.txt'') ` {k \<in> fst ` set kvs. pad_key k}. suffix ''.txt'' p}"
    by (auto simp: pad_list_def)
  also have "{p \<in> (\<lambda>k. k @ ''.txt'') ` {k \<in> fst ` set kvs. pad_key k}. suffix ''.txt'' p} =
      (\<lambda>k. k @ ''.txt'') ` {k \<in> fst ` set kvs. pad_key k}"
    by (rule Collect_conj_eq[THEN trans]) (auto simp: suffix_def)
  finally show ?thesis by (simp only: image_image) simp
qed

section \<open>Properties\<close>

text \<open>
  C31.  The scratchpad is a durable map: after any history of writes from an empty directory a valid
  key reads as the value last written to it with its line ends as newlines - so exactly as it was
  written when it has no carriage return - and is missing (an error) if it never was, the listing
  is exactly the valid keys written, and an invalid key writes nothing and is an error to read.
\<close>

theorem scratchpad_last_write_wins:
  "(if pad_key k
    then pad_read k (pad_after kvs) = (case map_of (rev kvs) k of
           None \<Rightarrow> Inl (pad_missing k)
         | Some v \<Rightarrow> Inr (if CHR 13 \<in> set v then universal_newlines v else v))
    else (case pad_read k (pad_after kvs) of Inl e \<Rightarrow> exn_type e = ''ValueError'' | Inr v \<Rightarrow> False) \<and>
      snd (pad_write k v (pad_after kvs)) = pad_after kvs) \<and>
   set (pad_list (pad_after kvs)) = {k \<in> fst ` set kvs. pad_key k}"
proof (cases "pad_key k")
  case True
  have "(if CHR 13 \<in> set v then universal_newlines v else v) = universal_newlines v" for v
    by (simp add: universal_newlines_id)
  moreover have "pad_read k [] = Inl (pad_missing k)" using True by (simp add: pad_read_def)
  ultimately show ?thesis
    using True pad.get_puts[OF True, of kvs "[]"] pad_list_after[of kvs] unfolding pad.puts_def pad_after_def
    by (simp only: if_True)
next
  case False
  with pad_path_invalid[OF False] pad.invalid[OF False] pad_list_after[of kvs] show ?thesis
    by (auto simp: pad_read_def)
qed

end
