(* ===== verification/TakeoffAgent.thy ===== *)
theory TakeoffAgent
  imports Query Scratchpad Registry Plans
begin

text \<open>
  The takeoff agent's own tools: \<open>src/src/takeoff_agent/\<close> (the API client, the polling loop, the
  cross-tier reconciliation, the report and its escalations, the fixed plan).

  The rows and summaries the API returns are the records of \<open>Query\<close>; an API call returns them or
  the raised \<open>TakeoffApiError\<close>.  Serialising to JSON text is a parameter.
\<close>

section \<open>The client\<close>

record http_response =
  hr_status :: nat
  hr_text :: string
  hr_json :: "json option"

text \<open>
  \<open>py_str\<close> formats a JSON value into a message.  A body that is no JSON object, or whose error is
  none, leaves the defaults.
\<close>

definition client_json :: "(json \<Rightarrow> string) \<Rightarrow> http_response \<Rightarrow> exn + json" where
  "client_json py_str r =
     (if 200 \<le> hr_status r \<and> hr_status r \<le> 299
      then (case hr_json r of None \<Rightarrow> Inl (Exn ''JSONDecodeError'' '''') | Some j \<Rightarrow> Inr j)
      else (let (code, message) =
              (case hr_json r of
                 Some (JObj b) \<Rightarrow>
                   (case (case map_of b ''error'' of None \<Rightarrow> JObj [] | Some e \<Rightarrow> e) of
                      JObj err \<Rightarrow> (case map_of err ''code'' of None \<Rightarrow> ''http_error'' | Some c \<Rightarrow> py_str c,
                                   case map_of err ''message'' of None \<Rightarrow> hr_text r | Some m \<Rightarrow> py_str m)
                    | _ \<Rightarrow> (''http_error'', hr_text r))
               | _ \<Rightarrow> (''http_error'', hr_text r))
            in Inl (Exn ''TakeoffApiError'' (''['' @ show_nat (hr_status r) @ '' '' @ code @ ''] '' @ message))))"

definition drop_none :: "(string \<times> json option) list \<Rightarrow> args" where
  "drop_none kvs = List.map_filter (\<lambda>(k, v). case v of None \<Rightarrow> None | Some j \<Rightarrow> Some (k, j)) kvs"

definition client_exn :: "api_error \<Rightarrow> exn" where
  "client_exn e = Exn ''TakeoffApiError'' (''['' @ show_nat (api_status e) @ '' '' @ api_code e @ ''] '' @ api_message e)"

text \<open>An endpoint as the client sees it: the rows of the page and the number of pages.\<close>

definition client_page :: "api_error + 'c page_out \<Rightarrow> exn + 'c list \<times> int" where
  "client_page out = (case out of Inl e \<Rightarrow> Inl (client_exn e) | Inr p \<Rightarrow> Inr (pg_data p, pg_total_pages p))"

section \<open>Fetching everything\<close>

definition agent_page_size :: int where
  "agent_page_size = 500"

partial_function (option) fetch_pages :: "(int \<Rightarrow> exn + 'c list \<times> int) \<Rightarrow> int \<Rightarrow> 'c list \<Rightarrow> (exn + 'c list) option" where
  "fetch_pages fetch page rows =
     (case fetch page of
        Inl e \<Rightarrow> Some (Inl e)
      | Inr (data, tp) \<Rightarrow>
          if page \<ge> tp then Some (Inr (rows @ data))
          else fetch_pages fetch (page + 1) (rows @ data))"

record takeoff_data =
  td_summary :: summary_out
  td_items :: "item_cols list"
  td_counts :: "count_cols list"
  td_areas :: "area_cols list"

definition fetch_all :: "(exn + summary_out) \<Rightarrow> (int \<Rightarrow> exn + item_cols list \<times> int) \<Rightarrow>
    (int \<Rightarrow> exn + count_cols list \<times> int) \<Rightarrow> (int \<Rightarrow> exn + area_cols list \<times> int) \<Rightarrow> (exn + takeoff_data) option" where
  "fetch_all summary items counts areas =
     (case summary of Inl e \<Rightarrow> Some (Inl e) | Inr sm \<Rightarrow>
      (case fetch_pages items 1 [] of None \<Rightarrow> None | Some (Inl e) \<Rightarrow> Some (Inl e) | Some (Inr its) \<Rightarrow>
       (case fetch_pages counts 1 [] of None \<Rightarrow> None | Some (Inl e) \<Rightarrow> Some (Inl e) | Some (Inr cs) \<Rightarrow>
        (case fetch_pages areas 1 [] of None \<Rightarrow> None | Some (Inl e) \<Rightarrow> Some (Inl e) | Some (Inr ars) \<Rightarrow>
          Some (Inr \<lparr>td_summary = sm, td_items = its, td_counts = cs, td_areas = ars\<rparr>)))))"

section \<open>Reconciliation\<close>

text \<open>\<open>d[key].append(value)\<close> on a \<open>defaultdict(list)\<close>, over a list.\<close>

definition group_append :: "('a \<Rightarrow> 'k) \<Rightarrow> ('a \<Rightarrow> 'v) \<Rightarrow> 'a list \<Rightarrow> ('k, 'v list) dict" where
  "group_append key val xs = foldl (\<lambda>d x. dict_set d (key x)
     ((case map_of d (key x) of None \<Rightarrow> [] | Some ys \<Rightarrow> ys) @ [val x])) [] xs"

record catalog_gap =
  cg_types :: nat
  cg_with_counts :: nat
  cg_without_counts :: "string list"

record double_count =
  dc_symbol :: string
  dc_candidate_total :: nat
  dc_sheets :: "(int \<times> nat) list"

record reconciliation =
  rn_catalog :: "(string, catalog_gap) dict"
  rn_double_counts :: "double_count list"
  rn_unverified :: nat
  rn_finish_rooms :: nat
  rn_with_area :: nat
  rn_without_area :: "string list"
  rn_incomplete :: bool
  rn_failed_shards :: "(nat \<times> (int \<times> int) \<times> (string \<times> string) option) list"
  rn_has_gaps :: bool

definition catalog_gap_of :: "string set \<Rightarrow> string list \<Rightarrow> catalog_gap" where
  "catalog_gap_of counted marks = (let without = sort_strs (filter (\<lambda>m. m \<notin> counted) marks) in
     \<lparr>cg_types = length marks, cg_with_counts = length marks - length without, cg_without_counts = without\<rparr>)"

definition catalog_items :: "item_cols list \<Rightarrow> item_cols list" where
  "catalog_items items = filter (\<lambda>it. ic_shape it = ''catalog'' \<and> ic_mark it \<noteq> '''') items"

definition double_counts :: "count_cols list \<Rightarrow> double_count list" where
  "double_counts counts =
     sort_key (\<lambda>d. - int (dc_candidate_total d))
       (map (\<lambda>(s, sheets). \<lparr>dc_symbol = s, dc_candidate_total = sum_list (map snd sheets),
               dc_sheets = sort_key fst sheets\<rparr>)
         (filter (\<lambda>(s, sheets). length sheets \<ge> 2)
           (group_append cc_symbol (\<lambda>c. (cc_page c, cc_count c)) counts)))"

definition finish_marks :: "item_cols list \<Rightarrow> string list" where
  "finish_marks items = remdups (map ic_mark (filter (\<lambda>it. ic_schedule it = ''finish'' \<and> ic_mark it \<noteq> '''') items))"

definition reconcile_tiers :: "summary_out \<Rightarrow> item_cols list \<Rightarrow> count_cols list \<Rightarrow> area_cols list \<Rightarrow> reconciliation" where
  "reconcile_tiers summary items counts areas =
     (let counted = set (map cc_symbol counts);
          catalog = map (\<lambda>(s, ms). (s, catalog_gap_of counted ms))
                      (group_append ic_schedule ic_mark (catalog_items items));
          doubles = double_counts counts;
          finish = finish_marks items;
          with_area = set (map arc_room areas);
          without = sort_strs (filter (\<lambda>r. r \<notin> with_area) finish)
      in \<lparr>rn_catalog = catalog, rn_double_counts = doubles,
          rn_unverified = length (filter (\<lambda>c. \<not> cc_verified c) counts),
          rn_finish_rooms = length finish, rn_with_area = length (filter (\<lambda>r. r \<in> with_area) finish),
          rn_without_area = without,
          rn_incomplete = so_incomplete summary, rn_failed_shards = so_failed_shards summary,
          rn_has_gaps = (list_ex (\<lambda>(s, g). cg_without_counts g \<noteq> []) catalog \<or> without \<noteq> [] \<or> doubles \<noteq> [])\<rparr>)"

section \<open>The report\<close>

record escalation =
  es_kind :: string
  es_schedule :: "string option"
  es_mark :: "string option"
  es_note :: string

definition escalation_kinds :: "string list" where
  "escalation_kinds = [''uncounted_catalog_type'', ''double_count_risk'', ''room_without_area'',
     ''unverified_counts'', ''manifest_failure'', ''incomplete_job'', ''other'']"

definition named :: "string option \<Rightarrow> bool" where
  "named x = (case x of None \<Rightarrow> False | Some s \<Rightarrow> s \<noteq> '''')"

definition known_schedules :: "item_cols list \<Rightarrow> string list" where
  "known_schedules items = remdups (map ic_schedule items)"

definition known_marks :: "item_cols list \<Rightarrow> count_cols list \<Rightarrow> area_cols list \<Rightarrow> string set" where
  "known_marks items counts areas = set (map ic_mark items) \<union> set (map cc_symbol counts) \<union> set (map arc_room areas)"

definition escalation_errors :: "string list \<Rightarrow> string set \<Rightarrow> nat \<Rightarrow> escalation \<Rightarrow> string list" where
  "escalation_errors schedules marks i e =
     (if named (es_schedule e) \<and> the (es_schedule e) \<notin> set schedules
      then [''escalation['' @ show_nat i @ '']: unknown schedule '' @ py_repr (the (es_schedule e)) @
            ''. Valid schedules: '' @ repr_list (sort_strs schedules) @
            ''. (A fixture symbol or room id goes in '' @ py_repr ''mark'' @ '', not '' @ py_repr ''schedule'' @ ''.)''] else []) @
     (if named (es_mark e) \<and> the (es_mark e) \<notin> marks
      then [''escalation['' @ show_nat i @ '']: mark '' @ py_repr (the (es_mark e)) @
            '' not found in the takeoff data''] else [])"

definition validate_escalations :: "escalation list \<Rightarrow> item_cols list \<Rightarrow> count_cols list \<Rightarrow> area_cols list \<Rightarrow> string list" where
  "validate_escalations escs items counts areas =
     concat (map (\<lambda>(i, e). escalation_errors (known_schedules items) (known_marks items counts areas) i e)
       (List.enumerate 0 escs))"

record agent_artifact =
  aa_job :: string
  aa_status :: job_status
  aa_incomplete :: bool
  aa_summary :: summary_out
  aa_reconciliation :: reconciliation
  aa_checksum :: string
  aa_narrative :: string
  aa_escalations :: "escalation list"

definition build_artifact :: "string \<Rightarrow> takeoff_data \<Rightarrow> job_view \<Rightarrow> reconciliation \<Rightarrow> string \<Rightarrow> escalation list \<Rightarrow> agent_artifact" where
  "build_artifact job d status recon narrative escs =
     \<lparr>aa_job = job, aa_status = so_status (td_summary d), aa_incomplete = so_incomplete (td_summary d),
      aa_summary = td_summary d, aa_reconciliation = recon, aa_checksum = jv_content status,
      aa_narrative = narrative, aa_escalations = escs\<rparr>"

definition report_key :: string where
  "report_key = ''takeoff_report''"

definition finalized_message :: "escalation list \<Rightarrow> reconciliation \<Rightarrow> string" where
  "finalized_message escs recon =
     ''report finalized and written to scratchpad['' @ report_key @ '']. '' @ show_nat (length escs) @
     '' escalations recorded; reconciliation flagged '' @
     show_nat (sum_list (map (\<lambda>(s, g). length (cg_without_counts g)) (rn_catalog recon))) @
     '' uncounted catalog types, '' @ show_nat (length (rn_without_area recon)) @ '' rooms without area, '' @
     show_nat (length (rn_double_counts recon)) @ '' double-count candidates.''"

text \<open>\<open>data\<close> is what \<open>fetch_all\<close> returned, \<open>status\<close> what the status call did.\<close>

definition finalize_report :: "(agent_artifact \<Rightarrow> string) \<Rightarrow> (exn + takeoff_data) \<Rightarrow> (exn + job_view) \<Rightarrow>
    string \<Rightarrow> string \<Rightarrow> escalation list \<Rightarrow> directory \<Rightarrow> (exn + string) \<times> directory" where
  "finalize_report dumps data status job narrative escs dir =
     (case data of Inl e \<Rightarrow> (Inl e, dir) | Inr d \<Rightarrow>
      (case status of Inl e \<Rightarrow> (Inl e, dir) | Inr st \<Rightarrow>
       (let recon = reconcile_tiers (td_summary d) (td_items d) (td_counts d) (td_areas d);
            errors = validate_escalations escs (td_items d) (td_counts d) (td_areas d) in
        if errors \<noteq> []
        then (Inr (''cannot finalize '' @ denied_dash @ '' fix these escalations and retry: '' @ py_join ''; '' errors), dir)
        else (case pad_write report_key (dumps (build_artifact job d st recon narrative escs)) dir of
            (Inl e, dir) \<Rightarrow> (Inl e, dir)
          | (Inr _, dir) \<Rightarrow> (Inr (finalized_message escs recon), dir)))))"

definition cross_check :: "(reconciliation \<Rightarrow> string) \<Rightarrow> (exn + takeoff_data) \<Rightarrow> exn + string" where
  "cross_check dumps data = (case data of Inl e \<Rightarrow> Inl e
     | Inr d \<Rightarrow> Inr (dumps (reconcile_tiers (td_summary d) (td_items d) (td_counts d) (td_areas d))))"

section \<open>Waiting\<close>

definition terminal_statuses :: "string set" where
  "terminal_statuses = {''succeeded'', ''failed'', ''dead''}"

datatype wait_result = Finished string | StillRunning string

text \<open>The polling loop; with a zero interval it may never return.\<close>

partial_function (option) wait_loop :: "('w \<Rightarrow> (exn + string) \<times> 'w) \<Rightarrow> rat \<Rightarrow> rat \<Rightarrow> rat \<Rightarrow> 'w \<Rightarrow>
    ((exn + wait_result) \<times> 'w) option" where
  "wait_loop status poll limit waited w =
     (case status w of
        (Inl e, w) \<Rightarrow> Some (Inl e, w)
      | (Inr st, w) \<Rightarrow>
          if st \<in> terminal_statuses then Some (Inr (Finished st), w)
          else if waited \<ge> limit then Some (Inr (StillRunning st), w)
          else wait_loop status poll limit (waited + poll) w)"

definition wait_for_takeoff :: "('w \<Rightarrow> (exn + string) \<times> 'w) \<Rightarrow> rat \<Rightarrow> rat \<Rightarrow> 'w \<Rightarrow> ((exn + wait_result) \<times> 'w) option" where
  "wait_for_takeoff status poll limit w = wait_loop status poll limit 0 w"

section \<open>Querying\<close>

text \<open>The model's paged reads; the three functions print a page of each entity.\<close>

definition takeoff_query :: "(item_cols page_out \<Rightarrow> string) \<Rightarrow> (count_cols page_out \<Rightarrow> string) \<Rightarrow> (area_cols page_out \<Rightarrow> string) \<Rightarrow>
    takeoff_job list \<Rightarrow> entity_tables \<Rightarrow> string \<Rightarrow> string \<Rightarrow> int \<Rightarrow> int \<Rightarrow> exn + string" where
  "takeoff_query show_items show_counts show_areas jobs tabs job_id entity page page_size =
     (if entity = ''items''
      then map_sum client_exn show_items (get_items jobs tabs job_id None None None None page page_size)
      else if entity = ''fixture_counts''
      then map_sum client_exn show_counts (get_fixture_counts jobs tabs job_id None None None page page_size)
      else if entity = ''room_areas''
      then map_sum client_exn show_areas (get_room_areas jobs tabs job_id None None page page_size)
      else Inr (''unknown entity '' @ py_repr entity @ ''; use '' @ py_repr ''items'' @ '', '' @
             py_repr ''fixture_counts'' @ '', or '' @ py_repr ''room_areas''))"

section \<open>The plan\<close>

definition takeoff_postconditions :: "string list" where
  "takeoff_postconditions =
     [''The takeoff job reached a terminal state and its results were retrieved (summary read).'',
      ''The tiers were cross-checked: uncounted catalog types, double-count risks, and rooms '' @
      ''without area were identified.'',
      ''A grounded report was finalized '' @ denied_dash @ '' every number pipeline-traceable and all gaps recorded '' @
      ''as escalations.'']"

definition takeoff_plan :: plan where
  "takeoff_plan = \<lparr>plan_objective = ''Produce a grounded, reconciled schedule_items takeoff for one drawings PDF.'',
     plan_steps = [],
     plan_postconditions = map (\<lambda>d. \<lparr>pc_description = d, pc_satisfied = False, pc_evidence = None\<rparr>) takeoff_postconditions\<rparr>"

section \<open>Paged endpoints\<close>

text \<open>
  What the loop of \<open>_fetch_pages\<close> relies on: page \<open>p\<close> holds the \<open>p\<close>-th slice of the rows and says
  how many pages there are.  The loop then returns, with every row in order.
\<close>

locale paged_endpoint =
  fixes fetch :: "int \<Rightarrow> exn + 'c list \<times> int" and rows :: "'c list" and size :: int
  assumes size: "0 < size"
    and page: "1 \<le> p \<Longrightarrow> fetch p =
      Inr (take (nat size) (drop (nat (p - 1) * nat size) rows), total_pages (length rows) size)"
begin

lemma fetch_from:
  "fetch_pages fetch (int k + 1) (take (k * nat size) rows) = Some (Inr rows)"
proof (induction "nat (total_pages (length rows) size) - k" arbitrary: k)
  case 0
  then have "total_pages (length rows) size \<le> int k" by simp
  then have tp: "total_pages (length rows) size \<le> int k + 1" by simp
  then have "int (length rows) \<le> (int k + 1) * size" using pages_bound[OF size] by blast
  then have "length rows \<le> Suc k * nat size" using size by (metis nat_int nat_mono nat_mult_distrib of_nat_0_le_iff of_nat_Suc add.commute)
  with tp page[of "int k + 1"] show ?case
    by (subst fetch_pages.simps) (simp add: take_add[symmetric] add.commute)
next
  case (Suc n)
  have slice: "take (k * nat size) rows @ take (nat size) (drop (k * nat size) rows) = take (Suc k * nat size) rows"
    using take_add[of "k * nat size" "nat size" rows] by (simp add: add.commute)
  show ?case
  proof (cases "total_pages (length rows) size \<le> int k + 1")
    case True
    then have "int (length rows) \<le> (int k + 1) * size" using pages_bound[OF size] by blast
    then have "length rows \<le> Suc k * nat size" using size by (metis nat_int nat_mono nat_mult_distrib of_nat_0_le_iff of_nat_Suc add.commute)
    with True page[of "int k + 1"] slice show ?thesis by (subst fetch_pages.simps) simp
  next
    case False
    from Suc.hyps(2) have "n = nat (total_pages (length rows) size) - Suc k" by simp
    from Suc.hyps(1)[OF this] have "fetch_pages fetch (int k + 1 + 1) (take (Suc k * nat size) rows) = Some (Inr rows)"
      by (simp add: add.commute add.left_commute)
    with False page[of "int k + 1"] slice show ?thesis by (subst fetch_pages.simps) simp
  qed
qed

lemma fetches_all: "fetch_pages fetch 1 [] = Some (Inr rows)"
  using fetch_from[of 0] by simp

end

text \<open>A job that can be queried: its three endpoints, read through the client, are paged endpoints.\<close>

locale queryable_job =
  fixes jobs :: "takeoff_job list" and tabs :: entity_tables and i :: string and r :: takeoff_job
  assumes queryable: "load_queryable jobs i = Inr r"
begin

lemma client_page_slice:
  "1 \<le> p \<Longrightarrow> client_page (query_page P jobs rs i p agent_page_size) =
     Inr (take (nat agent_page_size) (drop (nat (p - 1) * nat agent_page_size) (job_rows P rs i)),
          total_pages (length (job_rows P rs i)) agent_page_size)"
  using query_page_rows[OF queryable, of p agent_page_size P rs]
  by (simp add: client_page_def page_meta_def agent_page_size_def max_page_size_def)

end

sublocale queryable_job \<subseteq> item_pages: paged_endpoint
  "\<lambda>p. client_page (get_items jobs tabs i None None None None p agent_page_size)" "job_rows (\<lambda>c. True) (et_items tabs) i" agent_page_size
  by unfold_locales (simp_all only: get_items_def given_def option.case simp_thms client_page_slice, simp add: agent_page_size_def)

sublocale queryable_job \<subseteq> count_pages: paged_endpoint
  "\<lambda>p. client_page (get_fixture_counts jobs tabs i None None None p agent_page_size)" "job_rows (\<lambda>c. True) (et_counts tabs) i" agent_page_size
  by unfold_locales (simp_all only: get_fixture_counts_def given_def option.case simp_thms client_page_slice, simp add: agent_page_size_def)

sublocale queryable_job \<subseteq> area_pages: paged_endpoint
  "\<lambda>p. client_page (get_room_areas jobs tabs i None None p agent_page_size)" "job_rows (\<lambda>c. True) (et_areas tabs) i" agent_page_size
  by unfold_locales (simp_all only: get_room_areas_def given_def option.case simp_thms client_page_slice, simp add: agent_page_size_def)

interpretation served: queryable_job "fst (complete_job rep m r tabs) # jobs" "snd (complete_job rep m r tabs)" "tj_id r"
  "fst (complete_job rep m r tabs)" for rep m r tabs jobs
  by unfold_locales (rule load_completed)

text \<open>Everything the agent fetches of a job, over the endpoints.\<close>

definition stored_artifact :: "report option \<Rightarrow> exn + report" where
  "stored_artifact a = (case a of None \<Rightarrow> Inl (Exn ''ClientError'' ''NoSuchKey'') | Some rep \<Rightarrow> Inr rep)"

definition fetch_job :: "takeoff_job list \<Rightarrow> entity_tables \<Rightarrow> string \<Rightarrow> (exn + takeoff_data) option" where
  "fetch_job jobs tabs i = fetch_all
     (case get_summary jobs tabs i stored_artifact of Inl (Inl e) \<Rightarrow> Inl (client_exn e) | Inl (Inr e) \<Rightarrow> Inl e | Inr s \<Rightarrow> Inr s)
     (\<lambda>p. client_page (get_items jobs tabs i None None None None p agent_page_size))
     (\<lambda>p. client_page (get_fixture_counts jobs tabs i None None None p agent_page_size))
     (\<lambda>p. client_page (get_room_areas jobs tabs i None None p agent_page_size))"

section \<open>Lemmas on the reconciliation\<close>

lemma group_append_fold:
  "map_of (foldl (\<lambda>d x. dict_set d (key x) ((case map_of d (key x) of None \<Rightarrow> [] | Some ys \<Rightarrow> ys) @ [val x])) d xs) k =
     (if filter (\<lambda>x. key x = k) xs = [] then map_of d k
      else Some ((case map_of d k of None \<Rightarrow> [] | Some ys \<Rightarrow> ys) @ map val (filter (\<lambda>x. key x = k) xs)))"
  by (induction xs arbitrary: d) (auto split: option.splits)

lemma group_append_spec:
  "map_of (group_append key val xs) k = (let ys = filter (\<lambda>x. key x = k) xs in if ys = [] then None else Some (map val ys))"
  by (simp add: group_append_def group_append_fold Let_def)

lemma group_append_distinct: "distinct (dict_keys (group_append key val xs))"
proof -
  have "distinct (dict_keys (foldl (\<lambda>d x. dict_set d (key x)
      ((case map_of d (key x) of None \<Rightarrow> [] | Some ys \<Rightarrow> ys) @ [val x])) d xs))" if "distinct (dict_keys d)" for d
    using that by (induction xs arbitrary: d) (simp_all add: distinct_keys_dict_set)
  then show ?thesis by (simp add: group_append_def)
qed

lemma group_append_in:
  "(k, ys) \<in> set (group_append key val xs) \<longleftrightarrow> ys \<noteq> [] \<and> ys = map val (filter (\<lambda>x. key x = k) xs)"
  using map_of_eq_Some_iff[OF group_append_distinct, of key val xs k ys]
  by (auto simp: group_append_spec Let_def split: if_splits)

lemma map_of_catalog:
  "map_of (rn_catalog (reconcile_tiers sm items counts areas)) s =
     (let ms = map ic_mark (filter (\<lambda>it. ic_schedule it = s) (catalog_items items)) in
      if ms = [] then None else Some (catalog_gap_of (set (map cc_symbol counts)) ms))"
proof -
  have "map_of (map (\<lambda>(s, ms). (s, catalog_gap_of C ms)) d) s = map_option (catalog_gap_of C) (map_of d s)" for C d
    by (induction d) auto
  then show ?thesis by (simp add: reconcile_tiers_def Let_def group_append_spec)
qed

lemma set_double_counts:
  "d \<in> set (double_counts counts) \<longleftrightarrow>
     (let rs = filter (\<lambda>c. cc_symbol c = dc_symbol d) counts in
      2 \<le> length rs \<and> dc_candidate_total d = sum_list (map cc_count rs) \<and>
      dc_sheets d = sort_key fst (map (\<lambda>c. (cc_page c, cc_count c)) rs))"
proof -
  have "d \<in> set (double_counts counts) \<longleftrightarrow>
      (\<exists>s sheets. (s, sheets) \<in> set (group_append cc_symbol (\<lambda>c. (cc_page c, cc_count c)) counts) \<and> 2 \<le> length sheets \<and>
         d = \<lparr>dc_symbol = s, dc_candidate_total = sum_list (map snd sheets), dc_sheets = sort_key fst sheets\<rparr>)"
    by (auto simp: double_counts_def image_iff)
  also have "\<dots> \<longleftrightarrow> (let rs = filter (\<lambda>c. cc_symbol c = dc_symbol d) counts in
      2 \<le> length rs \<and> dc_candidate_total d = sum_list (map cc_count rs) \<and>
      dc_sheets d = sort_key fst (map (\<lambda>c. (cc_page c, cc_count c)) rs))"
    unfolding group_append_in Let_def by (cases d) (auto simp: comp_def)
  finally show ?thesis .
qed

lemma length_filter_not_map: "length (filter (\<lambda>x. \<not> f x) xs) = length (filter Not (map f xs))"
  by (simp add: filter_map comp_def)

lemma completed_unverified:
  "length (filter (\<lambda>x. er_job x = tj_id r \<and> \<not> cc_verified (er_cols x)) (et_counts (snd (complete_job rep m r tabs)))) =
   length (filter (\<lambda>c. \<not> cr_verified c) (rp_fixture_counts rep))"
proof -
  let ?own = "enumerated (count_row (tj_id r)) (rp_fixture_counts rep)"
  have own: "er_job x = tj_id r" if "x \<in> set ?own" for x
    by (rule job_of_enumerated[OF _ that]) (simp add: count_row_def)
  have rows: "et_counts (snd (complete_job rep m r tabs)) = delete_job_rows (tj_id r) (et_counts tabs) @ ?own"
    by (simp add: complete_job_def shred_entities_def project_def Let_def)
  have "filter (\<lambda>x. er_job x = tj_id r \<and> \<not> cc_verified (er_cols x)) (delete_job_rows (tj_id r) (et_counts tabs)) = []"
    by (simp add: delete_job_rows_def filter_empty_conv)
  moreover have "filter (\<lambda>x. er_job x = tj_id r \<and> \<not> cc_verified (er_cols x)) ?own = filter (\<lambda>x. \<not> cc_verified (er_cols x)) ?own"
    by (rule filter_cong) (simp_all add: own)
  moreover have "map (\<lambda>x. cc_verified (er_cols x)) ?own = map cr_verified (rp_fixture_counts rep)"
    by (rule map_enumerated) (simp add: count_row_def)
  ultimately show ?thesis unfolding rows filter_append length_append
    using length_filter_not_map[of "\<lambda>x. cc_verified (er_cols x)" ?own]
      length_filter_not_map[of cr_verified "rp_fixture_counts rep"] by simp
qed

text \<open>The loop of \<open>wait_for_takeoff\<close> with the number of polls counted.\<close>

definition counted :: "('w \<Rightarrow> (exn + string) \<times> 'w) \<Rightarrow> nat \<times> 'w \<Rightarrow> (exn + string) \<times> (nat \<times> 'w)" where
  "counted status x = (case x of (n, w) \<Rightarrow> case status w of (r, w) \<Rightarrow> (r, (Suc n, w)))"

lemma wait_loop_ends:
  assumes "0 < poll"
  shows "\<exists>r n' w'. wait_loop (counted status) poll limit waited (n, w) = Some (r, (n', w')) \<and>
    n' \<le> Suc (n + nat \<lceil>(limit - waited) / poll\<rceil>) \<and>
    (case r of Inl e \<Rightarrow> True | Inr (Finished st) \<Rightarrow> st \<in> terminal_statuses | Inr (StillRunning st) \<Rightarrow> st \<notin> terminal_statuses)"
proof (induction "nat \<lceil>(limit - waited) / poll\<rceil>" arbitrary: waited n w rule: less_induct)
  case less
  obtain res w1 where st: "status w = (res, w1)" by fastforce
  show ?case
  proof (cases res)
    case (Inl e)
    then show ?thesis by (subst wait_loop.simps) (simp add: counted_def st)
  next
    case (Inr s)
    show ?thesis
    proof (cases "s \<in> terminal_statuses \<or> limit \<le> waited")
      case True
      with Inr show ?thesis
        by (cases "s \<in> terminal_statuses"; subst wait_loop.simps) (simp_all add: counted_def st)
    next
      case False
      then have step: "wait_loop (counted status) poll limit waited (n, w) =
          wait_loop (counted status) poll limit (waited + poll) (Suc n, w1)"
        using Inr by (subst wait_loop.simps) (simp add: counted_def st)
      have pos: "0 < (limit - waited) / poll" using False assms by simp
      have "(limit - (waited + poll)) / poll = (limit - waited) / poll - 1"
        using assms by (simp add: field_simps)
      then have "\<lceil>(limit - (waited + poll)) / poll\<rceil> = \<lceil>(limit - waited) / poll\<rceil> - 1" by simp
      moreover have "0 < \<lceil>(limit - waited) / poll\<rceil>" using pos by simp
      ultimately have m: "Suc (nat \<lceil>(limit - (waited + poll)) / poll\<rceil>) = nat \<lceil>(limit - waited) / poll\<rceil>"
        by linarith
      then have "nat \<lceil>(limit - (waited + poll)) / poll\<rceil> < nat \<lceil>(limit - waited) / poll\<rceil>" by linarith
      from less.hyps[OF this, of "Suc n" w1] m show ?thesis unfolding step by (metis add_Suc add_Suc_right)
    qed
  qed
qed

section \<open>Properties of the takeoff agent\<close>

text \<open>
  C21.  From the artifact to the agent and back: once the build's last transaction is in, the
  agent's fetch of the job over the paged endpoints returns, whatever the number of rows and
  whatever other jobs the tables hold, and what it returns is exactly the artifact: its items,
  fixture counts and room areas in order, its summary, and the manifest's incompleteness.
\<close>

theorem agent_sees_whole_report:
  "case complete_job rep m r tabs of (r', tabs') \<Rightarrow>
     (case fetch_job (r' # jobs) tabs' (tj_id r) of
        Some (Inr d) \<Rightarrow>
          td_items d = map (\<lambda>x. er_cols (item_row (tj_id r) 0 x)) (rp_items rep) \<and>
          td_counts d = map (\<lambda>x. er_cols (count_row (tj_id r) 0 x)) (rp_fixture_counts rep) \<and>
          td_areas d = map (\<lambda>x. er_cols (area_row (tj_id r) 0 x)) (rp_room_areas rep) \<and>
          so_summary (td_summary d) = rp_summary rep \<and> so_coverage (td_summary d) = rp_coverage rep \<and>
          so_unverified (td_summary d) = length (filter (\<lambda>c. \<not> cr_verified c) (rp_fixture_counts rep)) \<and>
          so_incomplete (td_summary d) = mf_incomplete m \<and> so_failed_shards (td_summary d) = mf_failed m
      | _ \<Rightarrow> False)"
proof -
  let ?c = "complete_job rep m r tabs"
  obtain sm where sm: "get_summary (fst ?c # jobs) (snd ?c) (tj_id r) stored_artifact = Inr sm"
    "so_summary sm = rp_summary rep" "so_coverage sm = rp_coverage rep" "so_incomplete sm = mf_incomplete m"
    "so_failed_shards sm = mf_failed m" "so_unverified sm = length (filter (\<lambda>c. \<not> cr_verified c) (rp_fixture_counts rep))"
    using completed_unverified[of r rep m tabs]
    by (simp add: get_summary_def load_completed stored_artifact_def)
      (simp add: complete_job_def job_incomplete_def)
  have "fetch_job (fst ?c # jobs) (snd ?c) (tj_id r) = Some (Inr \<lparr>td_summary = sm,
      td_items = job_rows (\<lambda>c. True) (et_items (snd ?c)) (tj_id r),
      td_counts = job_rows (\<lambda>c. True) (et_counts (snd ?c)) (tj_id r),
      td_areas = job_rows (\<lambda>c. True) (et_areas (snd ?c)) (tj_id r)\<rparr>)"
    by (simp add: fetch_job_def fetch_all_def sm(1) served.item_pages.fetches_all served.count_pages.fetches_all
        served.area_pages.fetches_all)
  with sm show ?thesis by (simp add: case_prod_beta completed_rows)
qed

lemma catalog_gap_facts:
  "cg_types (catalog_gap_of C ms) = length ms" "set (cg_without_counts (catalog_gap_of C ms)) = set ms - C"
  "cg_with_counts (catalog_gap_of C ms) + length (cg_without_counts (catalog_gap_of C ms)) = length ms"
  "cg_without_counts (catalog_gap_of C ms) = [] \<longleftrightarrow> set ms \<subseteq> C"
  by (auto simp: catalog_gap_of_def Let_def filter_empty_conv simp flip: set_empty)

lemma length_filter_split: "length (filter (\<lambda>x. x \<in> A) xs) + length (filter (\<lambda>x. x \<notin> A) xs) = length xs"
  by (induction xs) auto

lemma catalog_gap_exists:
  "list_ex (\<lambda>(s, g). cg_without_counts g \<noteq> [])
     (map (\<lambda>(s, ms). (s, catalog_gap_of C ms)) (group_append ic_schedule ic_mark its)) \<longleftrightarrow> \<not> ic_mark ` set its \<subseteq> C"
proof -
  have "list_ex (\<lambda>(s, g). cg_without_counts g \<noteq> []) (map (\<lambda>(s, ms). (s, catalog_gap_of C ms)) gs) \<longleftrightarrow>
      (\<exists>(s, ms) \<in> set gs. \<not> set ms \<subseteq> C)" for gs
    by (induction gs) (auto simp: catalog_gap_facts)
  also have "(\<exists>(s, ms) \<in> set (group_append ic_schedule ic_mark its). \<not> set ms \<subseteq> C) \<longleftrightarrow> \<not> ic_mark ` set its \<subseteq> C"
  proof
    assume "\<exists>(s, ms) \<in> set (group_append ic_schedule ic_mark its). \<not> set ms \<subseteq> C"
    then show "\<not> ic_mark ` set its \<subseteq> C" by (force simp: group_append_in)
  next
    assume "\<not> ic_mark ` set its \<subseteq> C"
    then obtain it where it: "it \<in> set its" "ic_mark it \<notin> C" by blast
    let ?ms = "map ic_mark (filter (\<lambda>x. ic_schedule x = ic_schedule it) its)"
    have "ic_mark it \<in> set ?ms" using it(1) by auto
    then have "?ms \<noteq> []" and "\<not> set ?ms \<subseteq> C" using it(2) by force+
    then have "(ic_schedule it, ?ms) \<in> set (group_append ic_schedule ic_mark its)" unfolding group_append_in by blast
    with \<open>\<not> set ?ms \<subseteq> C\<close> show "\<exists>(s, ms) \<in> set (group_append ic_schedule ic_mark its). \<not> set ms \<subseteq> C" by blast
  qed
  finally show ?thesis .
qed

lemma reconcile_rooms:
  "rn_with_area (reconcile_tiers sm items counts areas) + length (rn_without_area (reconcile_tiers sm items counts areas)) =
     rn_finish_rooms (reconcile_tiers sm items counts areas)"
  "set (rn_without_area (reconcile_tiers sm items counts areas)) = set (finish_marks items) - set (map arc_room areas)"
  using length_filter_split[of "set (map arc_room areas)" "finish_marks items"]
  by (auto simp: reconcile_tiers_def Let_def)

lemma reconcile_doubles: "rn_double_counts (reconcile_tiers sm items counts areas) = double_counts counts"
  by (simp add: reconcile_tiers_def Let_def)

lemma reconcile_gaps:
  "(rn_has_gaps (reconcile_tiers sm items counts areas) = False) =
     (ic_mark ` set (catalog_items items) \<subseteq> set (map cc_symbol counts) \<and>
      set (finish_marks items) \<subseteq> set (map arc_room areas) \<and> double_counts counts = [])"
proof -
  have "sort_strs (filter (\<lambda>r. r \<notin> A) xs) = [] \<longleftrightarrow> set xs \<subseteq> A" for A and xs :: "string list"
    by (auto simp: filter_empty_conv simp flip: set_empty)
  then show ?thesis
    unfolding reconcile_tiers_def Let_def reconciliation.select_convs catalog_gap_exists by blast
qed

lemma reconcile_catalog:
  "case map_of (rn_catalog (reconcile_tiers sm items counts areas)) s of
      None \<Rightarrow> filter (\<lambda>it. ic_schedule it = s) (catalog_items items) = []
    | Some g \<Rightarrow> cg_types g = length (filter (\<lambda>it. ic_schedule it = s) (catalog_items items)) \<and>
        cg_with_counts g + length (cg_without_counts g) = cg_types g \<and>
        set (cg_without_counts g) = ic_mark ` {it \<in> set (catalog_items items). ic_schedule it = s} - set (map cc_symbol counts)"
  unfolding map_of_catalog Let_def by (simp add: catalog_gap_facts)

text \<open>
  C24.  The reconciliation reports gaps and invents nothing: per catalog schedule the types with and
  without a count add up to the catalog items of that schedule and the ones without are exactly
  the marks no count carries; the finish rooms with and without area add up; a symbol is a
  double-count candidate exactly when it has two counts, with their sum; and a gap is flagged
  exactly when there is one.
\<close>

theorem reconciliation_is_exact:
  "let rn = reconcile_tiers sm items counts areas; symbols = set (map cc_symbol counts); rooms = set (map arc_room areas) in
   (case map_of (rn_catalog rn) s of
      None \<Rightarrow> filter (\<lambda>it. ic_schedule it = s) (catalog_items items) = []
    | Some g \<Rightarrow> cg_types g = length (filter (\<lambda>it. ic_schedule it = s) (catalog_items items)) \<and>
        cg_with_counts g + length (cg_without_counts g) = cg_types g \<and>
        set (cg_without_counts g) = ic_mark ` {it \<in> set (catalog_items items). ic_schedule it = s} - symbols) \<and>
   rn_with_area rn + length (rn_without_area rn) = rn_finish_rooms rn \<and>
   set (rn_without_area rn) = set (finish_marks items) - rooms \<and>
   (d \<in> set (rn_double_counts rn)) =
     (2 \<le> length (filter (\<lambda>c. cc_symbol c = dc_symbol d) counts) \<and>
      dc_candidate_total d = sum_list (map cc_count (filter (\<lambda>c. cc_symbol c = dc_symbol d) counts)) \<and>
      dc_sheets d = sort_key fst (map (\<lambda>c. (cc_page c, cc_count c)) (filter (\<lambda>c. cc_symbol c = dc_symbol d) counts))) \<and>
   (rn_has_gaps rn = False) =
     (ic_mark ` set (catalog_items items) \<subseteq> symbols \<and> set (finish_marks items) \<subseteq> rooms \<and> rn_double_counts rn = [])"
  unfolding Let_def reconcile_doubles
  by (intro conjI reconcile_catalog reconcile_rooms reconcile_gaps set_double_counts[unfolded Let_def])

lemma validate_empty_iff:
  "validate_escalations escs items counts areas = [] \<longleftrightarrow>
     list_all (\<lambda>e. (if named (es_schedule e) then the (es_schedule e) \<in> set (map ic_schedule items) else True) \<and>
       (if named (es_mark e) then the (es_mark e) \<in> known_marks items counts areas else True)) escs"
proof -
  let ?ok = "\<lambda>e. (if named (es_schedule e) then the (es_schedule e) \<in> set (map ic_schedule items) else True) \<and>
       (if named (es_mark e) then the (es_mark e) \<in> known_marks items counts areas else True)"
  have one: "escalation_errors (known_schedules items) (known_marks items counts areas) i e = [] \<longleftrightarrow> ?ok e" for i e
    by (auto simp: escalation_errors_def known_schedules_def)
  have "concat (map (\<lambda>(i, e). f i e) (List.enumerate n escs)) = [] \<longleftrightarrow> list_all ?ok escs"
    if "\<And>i e. f i e = [] \<longleftrightarrow> ?ok e" for f :: "nat \<Rightarrow> escalation \<Rightarrow> string list" and n
    using that by (induction escs arbitrary: n) simp_all
  from this[OF one] show ?thesis by (simp add: validate_escalations_def)
qed

lemma report_key_valid [simp]: "pad_key report_key"
  by code_simp

text \<open>
  C23.  Finalising is grounded: when the data was fetched, the report is written exactly when every
  schedule and mark the escalations name occurs in the data; what is then stored under the report
  key (and read back, its line ends as newlines) is the pipeline's own summary and the reconciliation of the fetched rows with the model's
  prose and escalations, and no other key of the scratchpad changes; otherwise nothing is written.
\<close>

theorem finalize_is_grounded:
  "case finalize_report dumps (Inr d) (Inr st) job narrative escs dir of (res, dir') \<Rightarrow>
     if list_all (\<lambda>e. (if named (es_schedule e) then the (es_schedule e) \<in> set (map ic_schedule (td_items d)) else True) \<and>
          (if named (es_mark e) then the (es_mark e) \<in> known_marks (td_items d) (td_counts d) (td_areas d) else True)) escs
     then (\<exists>report. report = dumps
            \<lparr>aa_job = job, aa_status = so_status (td_summary d), aa_incomplete = so_incomplete (td_summary d),
             aa_summary = td_summary d,
             aa_reconciliation = reconcile_tiers (td_summary d) (td_items d) (td_counts d) (td_areas d),
             aa_checksum = jv_content st, aa_narrative = narrative, aa_escalations = escs\<rparr> \<and>
            pad_file report_key dir' = Some report \<and> pad_read report_key dir' = Inr (universal_newlines report)) \<and>
          (if pad_key k \<and> k \<noteq> report_key then pad_read k dir' = pad_read k dir else True)
     else dir' = dir"
proof (cases "validate_escalations escs (td_items d) (td_counts d) (td_areas d) = []")
  case True
  let ?a = "dumps (build_artifact job d st (reconcile_tiers (td_summary d) (td_items d) (td_counts d) (td_areas d)) narrative escs)"
  have "snd (finalize_report dumps (Inr d) (Inr st) job narrative escs dir) = snd (pad_write report_key ?a dir)"
    using True by (simp add: finalize_report_def Let_def split: prod.split sum.split)
  moreover have "pad_file report_key (snd (pad_write report_key ?a dir)) = Some ?a" by (rule pad_file_write) simp
  moreover have "pad_read report_key (snd (pad_write report_key ?a dir)) = Inr (universal_newlines ?a)" by (rule pad.get_put) simp
  moreover have "pad_read k (snd (pad_write report_key ?a dir)) = pad_read k dir" if "pad_key k" "k \<noteq> report_key"
    using pad.get_other[of report_key k] that by simp
  ultimately show ?thesis using True unfolding validate_empty_iff
    by (simp add: case_prod_beta build_artifact_def)
next
  case False
  then have "snd (finalize_report dumps (Inr d) (Inr st) job narrative escs dir) = dir"
    by (simp add: finalize_report_def Let_def)
  with False show ?thesis unfolding validate_empty_iff by (simp add: case_prod_beta)
qed

text \<open>
  C25.  Waiting ends: with a positive interval the polling loop returns after at most one more poll
  than the budget has intervals, with a terminal status, or with one that is honestly reported as
  still running, or with the error a poll raised.
\<close>

theorem waiting_ends:
  assumes "0 < poll"
  shows "\<exists>r n w'. wait_for_takeoff (counted status) poll limit (0, w) = Some (r, (n, w')) \<and>
    n \<le> Suc (nat \<lceil>limit / poll\<rceil>) \<and>
    (case r of Inl e \<Rightarrow> True | Inr (Finished st) \<Rightarrow> st \<in> terminal_statuses | Inr (StillRunning st) \<Rightarrow> st \<notin> terminal_statuses)"
  using wait_loop_ends[OF assms, of status limit 0 0 w] by (simp add: wait_for_takeoff_def)

theorem waiting_ends_witness:
  "\<exists>r n w'. wait_for_takeoff (counted (\<lambda>w. (Inr ''running'', w))) 5 600 (0, ()) = Some (r, (n, w')) \<and> n \<le> 121"
  using waiting_ends[of 5 "\<lambda>w. (Inr ''running'', w)" 600 "()"] by fastforce

text \<open>The model is given two of the plan's tools; with them it cannot change what the plan demands.\<close>

definition progress_op :: "plan_op \<Rightarrow> bool" where
  "progress_op op = (case op of OpShow \<Rightarrow> True | OpVerify n ev \<Rightarrow> True | _ \<Rightarrow> False)"

lemma progress_keeps_demands:
  assumes "list_all progress_op ops" and "h = Some p" and "plan_ok p"
  shows "\<exists>p'. plan_run ops h = Some p' \<and> plan_ok p' \<and> plan_steps p' = plan_steps p \<and>
    map pc_description (plan_postconditions p') = map pc_description (plan_postconditions p)"
  using assms
proof (induction ops arbitrary: h p)
  case (Cons op ops)
  have "\<exists>p1. snd (plan_apply op (Some p)) = Some p1 \<and> plan_steps p1 = plan_steps p \<and>
      map pc_description (plan_postconditions p1) = map pc_description (plan_postconditions p)"
    using Cons.prems(1) by (cases op) (auto simp: progress_op_def postcondition_verify_def holder_require_def Let_def map_update
        list_update_same_conv split: option.splits)
  then obtain p1 where p1: "snd (plan_apply op (Some p)) = Some p1" "plan_steps p1 = plan_steps p"
      "map pc_description (plan_postconditions p1) = map pc_description (plan_postconditions p)" by blast
  moreover have "plan_ok p1" using plan_apply_ok[of "Some p" op] Cons.prems(3) p1(1) by (simp add: holder_ok_def)
  moreover have "plan_run (op # ops) h = plan_run ops (Some p1)" using p1(1) Cons.prems(2) by (simp add: plan_run_def)
  ultimately show ?case using Cons.IH[of "Some p1" p1] Cons.prems(1) by auto
qed (simp add: plan_run_def)

text \<open>
  The takeoff plan cannot be weakened: after any calls of the plan tools the agent exposes,
  the plan still demands exactly the three fixed postconditions, and it reads as ready only when
  each of them was verified with evidence.
\<close>

theorem takeoff_plan_is_fixed:
  assumes "list_all progress_op ops"
  shows "case plan_run ops (Some takeoff_plan) of None \<Rightarrow> False
    | Some p \<Rightarrow> map pc_description (plan_postconditions p) = takeoff_postconditions \<and> plan_steps p = [] \<and>
        (is_ready_to_finalize p = list_all (\<lambda>pc. pc_satisfied pc) (plan_postconditions p)) \<and>
        (if is_ready_to_finalize p
         then list_all (\<lambda>pc. \<exists>e. pc_evidence pc = Some e \<and> e \<noteq> '''') (plan_postconditions p) else True)"
proof -
  have "plan_ok takeoff_plan" by (simp add: takeoff_plan_def plan_ok_def pc_ok_def list_all_iff)
  from progress_keeps_demands[OF assms refl this] obtain p where p: "plan_run ops (Some takeoff_plan) = Some p" "plan_ok p"
    "plan_steps p = []" "map pc_description (plan_postconditions p) = takeoff_postconditions"
    by (auto simp: takeoff_plan_def comp_def)
  show ?thesis using p ready_evidence[OF p(2)]
    by (auto simp: is_ready_to_finalize_def all_steps_terminal_def all_postconditions_satisfied_def list_all_iff)
qed

theorem takeoff_plan_is_fixed_witness:
  "case plan_run [OpVerify 1 ''job finished'', OpShow] (Some takeoff_plan) of None \<Rightarrow> False
   | Some p \<Rightarrow> map pc_description (plan_postconditions p) = takeoff_postconditions \<and> plan_steps p = []"
  using takeoff_plan_is_fixed[of "[OpVerify 1 ''job finished'', OpShow]"]
  by (simp add: progress_op_def split: option.splits)

end
