(* ===== verification/FileTools.thy ===== *)
theory FileTools
  imports Permissions Regex
begin

text \<open>
  The standard tools of the harness: the file tools (\<open>harness/tools/files.py\<close>), the query, calculator,
  file and shell tools (\<open>harness/tools/std.py\<close>) and the decorator that infers a tool's schema
  (\<open>harness/tools/decorator.py\<close>).

  A file system is the content of each file as it is stored, the directories, and where a new file
  can be created; texts are ASCII.  Parameters: \<open>json.loads\<close>, \<open>int()\<close> of a text, \<open>ast.parse\<close> and the evaluation of a tree,
  and the shell.
\<close>

section \<open>Files\<close>

record file_system =
  fs_files :: "(string, string) dict"
  fs_dirs :: "string list"
  fs_creatable :: "string \<Rightarrow> bool"

definition path_exists :: "file_system \<Rightarrow> string \<Rightarrow> bool" where
  "path_exists fs p \<longleftrightarrow> p \<in> set (dict_keys (fs_files fs)) \<or> p \<in> set (fs_dirs fs)"

definition missing_file :: "string \<Rightarrow> exn" where
  "missing_file p = Exn ''FileNotFoundError'' (''file does not exist: '' @ p)"

definition read_text :: "file_system \<Rightarrow> string \<Rightarrow> exn + string" where
  "read_text fs p = (if p \<in> set (fs_dirs fs) then Inl (Exn ''IsADirectoryError'' (''Is a directory: '' @ p))
     else (case map_of (fs_files fs) p of
       Some c \<Rightarrow> Inr (universal_newlines c)
     | None \<Rightarrow> Inl (Exn ''FileNotFoundError'' (''No such file or directory: '' @ p))))"

definition write_text :: "file_system \<Rightarrow> string \<Rightarrow> string \<Rightarrow> exn + file_system" where
  "write_text fs p c = (if p \<in> set (fs_dirs fs) then Inl (Exn ''IsADirectoryError'' (''Is a directory: '' @ p))
     else if p \<notin> set (dict_keys (fs_files fs)) \<and> \<not> fs_creatable fs p
     then Inl (Exn ''FileNotFoundError'' (''No such file or directory: '' @ p))
     else Inr (fs\<lparr>fs_files := dict_set (fs_files fs) p c\<rparr>))"



text \<open>\<open>s[i:j]\<close> of a list, for non-negative bounds, and \<open>f"{n:>w}"\<close>.\<close>

definition slice :: "nat \<Rightarrow> nat \<Rightarrow> 'a list \<Rightarrow> 'a list" where
  "slice i j xs = take (j - i) (drop i xs)"

definition pad_left :: "nat \<Rightarrow> string \<Rightarrow> string" where
  "pad_left w s = replicate (w - length s) (CHR '' '') @ s"

definition viewport_max :: int where
  "viewport_max = 500"

record viewport =
  vw_start :: nat
  vw_end :: nat
  vw_total :: nat
  vw_lines :: "string list"

definition view_lines :: "string list \<Rightarrow> int \<Rightarrow> int \<Rightarrow> viewport" where
  "view_lines lines offset limit =
     (let n = nat (min (max 1 limit) viewport_max); start = nat (max 0 offset);
          stop = min (length lines) (start + n) in
      \<lparr>vw_start = start, vw_end = stop, vw_total = length lines, vw_lines = slice start stop lines\<rparr>)"

definition render_viewport :: "string \<Rightarrow> viewport \<Rightarrow> string" where
  "render_viewport path v =
     (let width = length (show_nat (vw_total v)) in
      py_join newline (map (\<lambda>(i, l). pad_left width (show_nat (i + 1)) @ ''  '' @ l) (List.enumerate (vw_start v) (vw_lines v))) @
      newline @ ''[file '' @ path @ ''; lines '' @ show_nat (vw_start v + 1) @ ''-'' @ show_nat (vw_end v) @ '' of '' @ show_nat (vw_total v) @
      (if vw_end v < vw_total v then ''; MORE below '' @ [CHR 0xE2, CHR 0x80, CHR 0x94] @ '' call with offset='' @ show_nat (vw_end v) else ''; end of file'') @
      (if vw_start v > 0 then ''; MORE above '' @ [CHR 0xE2, CHR 0x80, CHR 0x94] @ '' call with offset=0'' else '''') @ '']'')"

definition read_file_viewport :: "file_system \<Rightarrow> string \<Rightarrow> int \<Rightarrow> int \<Rightarrow> exn + string" where
  "read_file_viewport fs path offset limit =
     (if \<not> path_exists fs path then Inl (missing_file path)
      else if path \<in> set (fs_dirs fs) then Inl (Exn ''IsADirectoryError'' (''not a regular file: '' @ path))
      else (case read_text fs path of
          Inl e \<Rightarrow> Inl e
        | Inr text \<Rightarrow> Inr (render_viewport path (view_lines (splitlines text) offset limit))))"





definition read_file :: "file_system \<Rightarrow> string \<Rightarrow> exn + string" where
  "read_file fs path = read_text fs path"

definition write_file :: "file_system \<Rightarrow> string \<Rightarrow> string \<Rightarrow> (exn + string) \<times> file_system" where
  "write_file fs path content = (case write_text fs path content of
     Inl e \<Rightarrow> (Inl e, fs)
   | Inr fs' \<Rightarrow> (Inr (''wrote '' @ show_nat (length content) @ '' bytes to '' @ path), fs'))"

section \<open>Queries\<close>

definition json_type_name :: "json \<Rightarrow> string" where
  "json_type_name j = (case j of JNull \<Rightarrow> ''NoneType'' | JBool b \<Rightarrow> ''bool'' | JInt i \<Rightarrow> ''int'' | JFloat f \<Rightarrow> ''float''
     | JStr s \<Rightarrow> ''str'' | JList l \<Rightarrow> ''list'' | JObj d \<Rightarrow> ''dict'')"

definition py_index :: "'a list \<Rightarrow> int \<Rightarrow> exn + 'a" where
  "py_index xs i = (let n = int (length xs); k = (if i < 0 then i + n else i) in
     if 0 \<le> k \<and> k < n then Inr (xs ! nat k) else Inl (Exn ''IndexError'' ''list index out of range''))"

definition json_step :: "(string \<Rightarrow> exn + int) \<Rightarrow> json \<Rightarrow> string \<Rightarrow> exn + json" where
  "json_step to_int current part = (case current of
     JList xs \<Rightarrow> (case to_int part of Inl e \<Rightarrow> Inl e | Inr i \<Rightarrow> py_index xs i)
   | JObj kvs \<Rightarrow> (case map_of kvs part of
       None \<Rightarrow> Inl (Exn ''KeyError'' (py_repr (''path not found: '' @ part))) | Some j \<Rightarrow> Inr j)
   | j \<Rightarrow> Inl (Exn ''TypeError'' (''cannot index '' @ json_type_name j @ '' with '' @ part)))"

fun json_walk :: "(string \<Rightarrow> exn + int) \<Rightarrow> json \<Rightarrow> string list \<Rightarrow> exn + json" where
  "json_walk to_int current [] = Inr current"
| "json_walk to_int current (p # ps) = (case json_step to_int current p of Inl e \<Rightarrow> Inl e | Inr j \<Rightarrow> json_walk to_int j ps)"

definition json_query :: "(string \<Rightarrow> exn + json) \<Rightarrow> (string \<Rightarrow> exn + int) \<Rightarrow> string \<Rightarrow> string \<Rightarrow> exn + string" where
  "json_query loads to_int data path = (case loads data of
     Inl e \<Rightarrow> Inl e
   | Inr obj \<Rightarrow> (case json_walk to_int obj (split_on (CHR ''.'') [] path) of Inl e \<Rightarrow> Inl e | Inr j \<Rightarrow> Inr (json_dumps j)))"

section \<open>The calculator\<close>

text \<open>A syntax tree of \<open>ast\<close>: the class of the node, its value when it is a constant, its children.\<close>

datatype ast_node = Ast (ast_class: string) (ast_value: "json option") (ast_children: "ast_node list")

definition calc_allowed :: "string list" where
  "calc_allowed = [''Expression'', ''BinOp'', ''UnaryOp'', ''Constant'', ''Load'',
     ''Add'', ''Sub'', ''Mult'', ''MatMult'', ''Div'', ''Mod'', ''Pow'', ''LShift'', ''RShift'', ''BitOr'', ''BitXor'', ''BitAnd'', ''FloorDiv'',
     ''Invert'', ''Not'', ''UAdd'', ''USub'']"

primrec ast_nodes :: "ast_node \<Rightarrow> nat" where
  "ast_nodes (Ast c v ns) = Suc (sum_list (map ast_nodes ns))"

text \<open>\<open>ast.walk\<close>: breadth first, over a queue.\<close>

function ast_walk :: "ast_node list \<Rightarrow> ast_node list" where
  "ast_walk [] = []"
| "ast_walk (n # queue) = n # ast_walk (queue @ ast_children n)"
  by pat_completeness auto

lemma ast_nodes_children: "ast_nodes n = Suc (sum_list (map ast_nodes (ast_children n)))"
  by (cases n) simp

termination ast_walk
  by (relation "measure (\<lambda>q. sum_list (map ast_nodes q))") (simp_all add: ast_nodes_children)

definition calc :: "(string \<Rightarrow> exn + ast_node) \<Rightarrow> (ast_node \<Rightarrow> exn + string) \<Rightarrow> string \<Rightarrow> exn + string" where
  "calc parse eval_tree expression = (case parse expression of
     Inl e \<Rightarrow> Inl e
   | Inr tree \<Rightarrow> (case find (\<lambda>n. ast_class n \<notin> set calc_allowed) (ast_walk [tree]) of
       Some n \<Rightarrow> Inl (Exn ''ValueError'' (''forbidden in expression: '' @ ast_class n))
     | None \<Rightarrow> eval_tree tree))"

section \<open>The shell\<close>

definition bash_output_limit :: nat where
  "bash_output_limit = 4000"

text \<open>\<open>run\<close> is \<open>subprocess.run\<close>: exit code, standard output and error, or the timeout it raises.\<close>

definition bash :: "(string \<Rightarrow> int \<Rightarrow> 'w \<Rightarrow> (exn + int \<times> string \<times> string) \<times> 'w) \<Rightarrow> string \<Rightarrow> int \<Rightarrow> 'w \<Rightarrow> (exn + string) \<times> 'w" where
  "bash run command timeout_seconds w =
     (case run command (min timeout_seconds 300) w of
        (Inl e, w') \<Rightarrow> (Inl e, w')
      | (Inr (code, out, err), w') \<Rightarrow>
          (let out_cut = length out > bash_output_limit; err_cut = length err > bash_output_limit div 2;
               out' = (if out_cut then take bash_output_limit out @ newline @ ''...[truncated at '' @ show_nat bash_output_limit @ '' chars]'' else out);
               err' = (if err_cut then take (bash_output_limit div 2) err @ newline @ ''...[truncated]'' else err)
           in (Inr (''exit='' @ show_int code @ newline @ ''---stdout---'' @ newline @ out' @ newline @ ''---stderr---'' @ newline @ err' @
               (if out_cut \<or> err_cut then newline @ ''[note: output was truncated. For large output, '' @
                  ''pipe through `head`, `tail`, `grep`, or save to a file '' @ ''and use read_file_viewport.]'' else '''')), w')))"

section \<open>Schemas from signatures\<close>

text \<open>A type hint, as far as the inference looks at it.\<close>

datatype hint = HStr | HInt | HFloat | HBool | HNone | HList hint | HUnion "hint list" | HOther string

definition type_object :: "string \<Rightarrow> json" where
  "type_object t = JObj [(''type'', JStr t)]"

function hint_schema :: "hint \<Rightarrow> json" where
  "hint_schema h = (case h of
     HUnion hs \<Rightarrow> (case filter (\<lambda>a. a \<noteq> HNone) hs of [a] \<Rightarrow> hint_schema a | _ \<Rightarrow> type_object ''string'')
   | HStr \<Rightarrow> type_object ''string'' | HInt \<Rightarrow> type_object ''integer'' | HFloat \<Rightarrow> type_object ''number''
   | HBool \<Rightarrow> type_object ''boolean''
   | HList a \<Rightarrow> JObj [(''type'', JStr ''array''), (''items'', hint_schema a)]
   | _ \<Rightarrow> type_object ''string'')"
  by pat_completeness auto

lemma hint_in_union: "filter (\<lambda>a. a \<noteq> HNone) hs = [a] \<Longrightarrow> size a < Suc (size_list size hs)"
proof -
  assume "filter (\<lambda>a. a \<noteq> HNone) hs = [a]"
  then have "a \<in> set (filter (\<lambda>a. a \<noteq> HNone) hs)" by simp
  then have "a \<in> set hs" by simp
  then show ?thesis by (simp add: size_list_estimation' less_Suc_eq_le)
qed

termination hint_schema
  by (relation "measure size") (auto simp: hint_in_union)

declare hint_schema.simps [simp del]

record parameter =
  pr_name :: string
  pr_hint :: hint
  pr_has_default :: bool

definition schema_from_signature :: "parameter list \<Rightarrow> json" where
  "schema_from_signature ps = (let qs = filter (\<lambda>p. pr_name p \<noteq> ''self'') ps in
     JObj [(''type'', JStr ''object''),
       (''properties'', JObj (dict_of (map (\<lambda>p. (pr_name p, hint_schema (pr_hint p))) qs))),
       (''required'', JList (map (\<lambda>p. JStr (pr_name p)) (filter (\<lambda>p. \<not> pr_has_default p) qs)))])"

record 'w python_function =
  pf_name :: string
  pf_doc :: "string option"
  pf_params :: "parameter list"
  pf_async :: bool
  pf_body :: "args \<Rightarrow> 'w \<Rightarrow> (exn + string) \<times> 'w"

definition actual_name :: "string option \<Rightarrow> 'w python_function \<Rightarrow> string" where
  "actual_name name fn = (case name of Some n \<Rightarrow> if n = '''' then pf_name fn else n | None \<Rightarrow> pf_name fn)"

definition actual_description :: "string option \<Rightarrow> 'w python_function \<Rightarrow> string" where
  "actual_description description fn =
     (let doc = py_strip (case pf_doc fn of None \<Rightarrow> '''' | Some d \<Rightarrow> d) in
      case description of Some d \<Rightarrow> if d = '''' then doc else d | None \<Rightarrow> doc)"

definition tool_of :: "string option \<Rightarrow> string option \<Rightarrow> side_effect set \<Rightarrow> 'w python_function \<Rightarrow> exn + 'w tool" where
  "tool_of name description effects fn =
     (let n = actual_name name fn; d = actual_description description fn in
      if d = '''' then Inl (Exn ''ValueError'' (''tool '' @ py_repr n @ '' has no description''))
      else make_tool n d (schema_from_signature (pf_params fn)) (Some (pf_body fn)) None effects)"

definition async_tool_of :: "string option \<Rightarrow> string option \<Rightarrow> side_effect set \<Rightarrow> 'w python_function \<Rightarrow> exn + 'w tool" where
  "async_tool_of name description effects fn =
     (let n = actual_name name fn; d = actual_description description fn in
      if d = '''' then Inl (Exn ''ValueError'' (''tool '' @ py_repr n @ '': description required''))
      else if \<not> pf_async fn then Inl (Exn ''TypeError'' (''@async_tool target must be `async def`: '' @ n))
      else make_tool n d (schema_from_signature (pf_params fn)) None (Some (pf_body fn)) effects)"

section \<open>What the file tools promise\<close>

text \<open>Lines as they are kept: complete up to the last one.\<close>

definition plain :: "string \<Rightarrow> bool" where
  "plain l \<longleftrightarrow> list_all (\<lambda>c. \<not> line_break c) l"

definition complete_line :: "string \<Rightarrow> bool" where
  "complete_line l \<longleftrightarrow> l \<noteq> [] \<and> line_break (last l) \<and> last l \<noteq> CHR 13 \<and> plain (butlast l)"

definition lines_ok :: "string list \<Rightarrow> bool" where
  "lines_ok ls \<longleftrightarrow> list_all complete_line (butlast ls) \<and> (ls = [] \<or> complete_line (last ls) \<or> last ls \<noteq> [] \<and> plain (last ls))"

lemma line_break_13 [simp]: "line_break (CHR 13)" "line_break (CHR 10)"
  by (simp_all add: line_break_def)

lemma plain_simps [simp]: "plain []" "plain (c # l) \<longleftrightarrow> \<not> line_break c \<and> plain l" "plain (xs @ ys) \<longleftrightarrow> plain xs \<and> plain ys"
  "plain (rev xs) \<longleftrightarrow> plain xs"
  by (auto simp: plain_def list_all_iff)



lemma lines_ok_Cons: "lines_ok (l # ls) \<longleftrightarrow> (if ls = [] then complete_line l \<or> l \<noteq> [] \<and> plain l else complete_line l \<and> lines_ok ls)"
  by (auto simp: lines_ok_def)

lemma lines_ok_append: "list_all complete_line xs \<Longrightarrow> lines_ok ys \<Longrightarrow> lines_ok (xs @ ys)"
  by (induction xs) (auto simp: lines_ok_Cons)

lemma lines_ok_complete: "list_all complete_line xs \<Longrightarrow> lines_ok xs"
  using lines_ok_append[of xs "[]"] by (simp add: lines_ok_def)

















lemma read_text_no_return: "read_text fs p = Inr s \<Longrightarrow> CHR 13 \<notin> set s"
  by (auto simp: read_text_def split: option.splits if_splits)






text \<open>A viewport shows at most the limit, says where the rest begins, and paging moves on.\<close>

definition view_size :: "int \<Rightarrow> nat" where
  "view_size limit = nat (min (max 1 limit) viewport_max)"

lemma view_size_bounds: "1 \<le> view_size limit" "view_size limit \<le> 500"
  unfolding view_size_def viewport_max_def by linarith+

lemma view_lines_eq:
  "view_lines ls offset limit = (let start = nat (max 0 offset); stop = min (length ls) (start + view_size limit) in
     \<lparr>vw_start = start, vw_end = stop, vw_total = length ls, vw_lines = slice start stop ls\<rparr>)"
  by (simp add: view_lines_def view_size_def Let_def)

lemma viewport_bounds:
  "length (vw_lines (view_lines ls offset limit)) \<le> 500"
  "vw_lines (view_lines ls offset limit) = slice (nat (max 0 offset)) (vw_end (view_lines ls offset limit)) ls"
proof -
  show "length (vw_lines (view_lines ls offset limit)) \<le> 500"
    using view_size_bounds(2)[of limit] by (simp add: view_lines_eq Let_def slice_def)
qed (simp add: view_lines_eq Let_def)

lemma viewport_progress:
  assumes "vw_end (view_lines ls offset limit) < length ls"
  shows "nat (max 0 offset) < vw_end (view_lines ls offset limit)"
  using assms view_size_bounds(1)[of limit] by (simp add: view_lines_eq Let_def)

lemma viewport_end: "nat (max 0 offset) \<le> length ls \<Longrightarrow> nat (max 0 offset) \<le> vw_end (view_lines ls offset limit)"
  by (simp add: view_lines_eq Let_def)

text \<open>Two viewports, the second from the offset the first one names, show adjacent lines.\<close>

lemma slice_adjacent: "i \<le> j \<Longrightarrow> j \<le> k \<Longrightarrow> slice i j xs @ slice j k xs = slice i k xs"
  using take_add[of "j - i" "k - j" "drop i xs"] by (simp add: slice_def)

lemma viewport_adjacent:
  assumes "vw_end (view_lines ls offset limit) < length ls"
  shows "vw_lines (view_lines ls offset limit) @ vw_lines (view_lines ls (int (vw_end (view_lines ls offset limit))) limit') =
    slice (nat (max 0 offset)) (vw_end (view_lines ls (int (vw_end (view_lines ls offset limit))) limit')) ls"
proof -
  define j where "j = vw_end (view_lines ls offset limit)"
  have "nat (max 0 offset) \<le> j" using viewport_progress[OF assms] unfolding j_def by simp
  moreover have "j \<le> vw_end (view_lines ls (int j) limit')" using viewport_end[of "int j" ls limit'] assms unfolding j_def by simp
  ultimately show ?thesis unfolding viewport_bounds(2) j_def[symmetric] by (simp add: slice_adjacent)
qed

text \<open>The calculator evaluates only trees whose nodes are all allowed.\<close>

primrec ast_subtrees :: "ast_node \<Rightarrow> ast_node list" where
  "ast_subtrees (Ast c v ns) = Ast c v ns # concat (map ast_subtrees ns)"

lemma ast_subtrees_children: "ast_subtrees n = n # concat (map ast_subtrees (ast_children n))"
  by (cases n) simp

lemma ast_walk_all: "set (ast_walk q) = set (concat (map ast_subtrees q))"
proof (induction q rule: ast_walk.induct)
  case (2 n queue)
  then show ?case using ast_subtrees_children[of n] by auto
qed simp

lemma calc_is_sandboxed:
  assumes "calc parse eval_tree e = Inr v"
  shows "\<exists>tree. parse e = Inr tree \<and> eval_tree tree = Inr v \<and> list_all (\<lambda>n. ast_class n \<in> set calc_allowed) (ast_subtrees tree)"
proof -
  obtain tree where t: "parse e = Inr tree" "find (\<lambda>n. ast_class n \<notin> set calc_allowed) (ast_walk [tree]) = None" "eval_tree tree = Inr v"
    using assms unfolding calc_def by (auto split: sum.splits option.splits simp del: ast_walk.simps)
  then have "list_all (\<lambda>n. ast_class n \<in> set calc_allowed) (ast_walk [tree])" by (simp only: find_None_iff list_all_iff) blast
  then have "list_all (\<lambda>n. ast_class n \<in> set calc_allowed) (ast_subtrees tree)"
    unfolding list_all_iff ast_walk_all by simp
  with t show ?thesis by blast
qed

lemma calc_forbids_names: "list_all (\<lambda>c. c \<notin> set calc_allowed) [''Call'', ''Name'', ''Attribute'', ''Subscript'', ''Lambda'', ''ListComp'']"
  by (simp add: calc_allowed_def)

text \<open>A schema requires only parameters it describes.\<close>

lemma schema_required:
  "\<exists>ps' req. schema_from_signature ps = JObj [(''type'', JStr ''object''), (''properties'', JObj ps'), (''required'', JList (map JStr req))] \<and>
     set req \<subseteq> set (dict_keys ps') \<and> distinct (dict_keys ps')"
proof -
  define qs where "qs = filter (\<lambda>p. pr_name p \<noteq> ''self'') ps"
  define req where "req = map pr_name (filter (\<lambda>p. \<not> pr_has_default p) qs)"
  define ps' where "ps' = dict_of (map (\<lambda>p. (pr_name p, hint_schema (pr_hint p))) qs)"
  have "set req \<subseteq> set (dict_keys ps')" unfolding req_def ps'_def by (auto simp: set_keys_dict_of image_image)
  moreover have "distinct (dict_keys ps')" unfolding ps'_def by simp
  moreover have "schema_from_signature ps = JObj [(''type'', JStr ''object''), (''properties'', JObj ps'), (''required'', JList (map JStr req))]"
    by (simp add: schema_from_signature_def Let_def qs_def ps'_def req_def)
  ultimately show ?thesis by blast
qed

end
