(* ===== verification/TakeoffRun.thy ===== *)
theory TakeoffRun
  imports AgentLoop TakeoffAgent FileTools
begin

text \<open>
  The takeoff agent put together: \<open>src/src/takeoff_agent/run.py\<close> with the tools of \<open>tools.py\<close>,
  \<open>report_tools.py\<close> and \<open>src/src/harness/plans/tools.py\<close> as the loop sees them.

  The world of a run is the plan holder, the scratchpad directory, and what is outside (the
  service, the provider, the clock).  First the contract of a world invariant that every tool and
  every outside call keeps, under which a whole run of the loop keeps it; then the run itself,
  for which the contract is interpreted.  The service's client is a parameter record.
\<close>

section \<open>Invariants of the world\<close>

definition headless :: "'w permission_manager option \<Rightarrow> bool" where
  "headless pm \<longleftrightarrow> (case pm of None \<Rightarrow> True | Some p \<Rightarrow> pm_human_prompt p = None)"

locale world_contract =
  fixes cfg :: "'w agent_config" and ev :: "'w agent_env" and I :: "'w \<Rightarrow> bool"
  assumes stream: "I w \<Longrightarrow> I (snd (ae_stream ev t ss w))"
    and acomplete: "I w \<Longrightarrow> I (snd (ae_acomplete ev t w))"
    and clock: "I w \<Longrightarrow> I (snd (ae_now ev w))"
    and nonce: "I w \<Longrightarrow> I (snd (te_nonce (ae_tools ev) w))"
    and offered: "set (for_turn (ae_scores ev) (ac_catalog cfg) q (ac_tools_per_turn cfg) (ac_pinned cfg)) \<subseteq> set (ac_catalog cfg)"
    and tools: "tq \<in> set (ac_catalog cfg) \<Longrightarrow> tool_arun tq = Some f \<or> tool_run tq = Some f \<Longrightarrow> I w \<Longrightarrow> I (snd (f a w))"
begin

definition offers :: "'w registry \<Rightarrow> bool" where
  "offers rg \<longleftrightarrow> headless (rg_pm rg) \<and> (\<forall>n tq. map_of (rg_tools rg) n = Some tq \<longrightarrow> tq \<in> set (ac_catalog cfg))"

lemma wrap_keeps: "I w \<Longrightarrow> I (snd (wrap_if_untrusted (te_nonce (ae_tools ev)) tq c w))"
  using nonce by (simp add: wrap_if_untrusted_def case_prod_beta Let_def)

lemma invoke_keeps:
  assumes "tq \<in> set (ac_catalog cfg)" "I w"
  shows "I (snd (invoke_tool (ae_tools ev) tq a w))"
proof -
  have wrapped: "I (snd (case f a w of (Inl e, w) \<Rightarrow> (Inl e, w)
      | (Inr s, w) \<Rightarrow> (let (s, w) = wrap_if_untrusted (te_nonce (ae_tools ev)) tq s w in (Inr s, w))))"
    if "tool_arun tq = Some f \<or> tool_run tq = Some f" for f
    using tools[OF assms(1) that assms(2), of a] wrap_keeps by (auto simp: case_prod_beta split: sum.split prod.splits)
  show ?thesis
  proof (cases "tool_arun tq")
    case (Some f)
    then show ?thesis using wrapped[of f] by (simp add: invoke_tool_def)
  next
    case None
    then show ?thesis using wrapped assms(2) by (cases "tool_run tq") (simp_all add: invoke_tool_def)
  qed
qed

lemma run_call_keeps:
  assumes "tq \<in> set (ac_catalog cfg)" "I w"
  shows "I (snd (snd (run_call (ae_tools ev) rg tq name a cid w)))"
  using invoke_keeps[OF assms, of a] wrap_keeps
  by (auto simp: run_call_def case_prod_beta Let_def split: sum.split prod.splits)

lemma permission_quiet:
  assumes "permission_step rg tq a w = (r, rg', w')" "headless (rg_pm rg)"
  shows "w' = w" "rg' = rg"
proof -
  have "w' = w \<and> rg' = rg"
  proof (cases "rg_pm rg")
    case None
    with assms(1) show ?thesis by (simp add: permission_step_def)
  next
    case (Some pm)
    obtain r2 pm2 w2 where c: "pm_check pm tq a w = (r2, pm2, w2)" using prod_cases3 by blast
    have "pm_human_prompt pm = None" using assms(2) Some by (simp add: headless_def)
    from pm_check_headless(1,2)[OF this c] have "pm2 = pm" "w2 = w" .
    then show ?thesis using assms(1) Some c by (auto simp: permission_step_def)
  qed
  then show "w' = w" "rg' = rg" by simp_all
qed

lemma dispatch_keeps:
  assumes "dispatch (ae_tools ev) rg name a cid w = (r, rg', w')" "offers rg" "I w"
  shows "I w' \<and> offers rg'"
  using assms(1)
proof (cases rule: dispatch_cases)
  case (invoked tq rg1 w1)
  have q: "w1 = w" "rg1 = rg" using permission_quiet[OF invoked(4)] assms(2) by (simp_all add: offers_def)
  have "tq \<in> set (ac_catalog cfg)" using assms(2) invoked(1) by (auto simp: offers_def)
  from run_call_keeps[OF this assms(3)] have "I w'" using invoked(6) q by (metis snd_conv)
  moreover have "rg' = rg\<lparr>rg_history := record_call name a (rg_history rg)\<rparr>" using run_call_frame[OF invoked(6)] q by simp
  ultimately show ?thesis using assms(2) by (simp add: offers_def)
next
  case (prompt_failed tq e)
  from permission_quiet[OF prompt_failed(2)] assms(2,3) show ?thesis by (simp add: offers_def)
next
  case (denied tq reason)
  from permission_quiet[OF denied(2)] assms(2,3) show ?thesis by (simp add: offers_def)
next
  case (looping tq rg1 b)
  from permission_quiet[OF looping(2)] assms(2,3) looping(5) show ?thesis by (simp add: offers_def)
qed (use assms in simp_all)

lemma dispatch_calls_keeps:
  "offers rg \<Longrightarrow> I w \<Longrightarrow> dispatch_calls ev cs rg t w = (err, rg', t', w') \<Longrightarrow> I w' \<and> offers rg'"
proof (induction cs arbitrary: rg t w)
  case (Cons c cs)
  show ?case
  proof (cases "py_dict (ref_args c)")
    case (Inl e)
    then show ?thesis using Cons.prems by simp
  next
    case (Inr a)
    obtain r rg1 w1 where d: "dispatch (ae_tools ev) rg (ref_name c) a (ref_id c) w = (r, rg1, w1)" using prod_cases3 by blast
    note k = dispatch_keeps[OF d Cons.prems(1,2)]
    show ?thesis using Cons.prems(3) k Cons.IH[of rg1 w1] Inr d by (cases r) auto
  qed
qed simp

definition kept :: "'w run_state \<Rightarrow> bool" where
  "kept s \<longleftrightarrow> I (rs_world s) \<and> headless (rs_pm s)"

lemma summarize_keeps: "I w \<Longrightarrow> I (snd (snd (summarize_prefix (ae_acomplete ev) k t w)))"
  using acomplete by (auto simp: summarize_prefix_def Let_def case_prod_beta split: sum.split prod.splits)

lemma compact_keeps: "I w \<Longrightarrow> I (snd (snd (compact_if_needed tok (ae_acomplete ev) c t schemas w)))"
  using summarize_keeps by (auto simp: compact_if_needed_def Let_def case_prod_beta split: sum.split prod.splits)

lemma turn_prepare_keeps:
  assumes "turn_prepare cfg ev s = (r, s')" "kept s"
  shows "kept s' \<and> (case r of Inl e \<Rightarrow> True | Inr rg \<Rightarrow> offers rg)"
proof -
  define sel where "sel = for_turn (ae_scores ev) (ac_catalog cfg) (query_from_transcript (rs_transcript s)) (ac_tools_per_turn cfg) (ac_pinned cfg)"
  show ?thesis
  proof (cases "make_registry sel (rs_pm s) (rs_history s) (ac_write_gate cfg)")
    case (Inl e)
    then have "r = Inl e" "s' = s" using assms(1) by (simp_all add: turn_prepare_def Let_def sel_def)
    with assms(2) show ?thesis by simp
  next
    case (Inr rg)
    have sub: "set sel \<subseteq> set (ac_catalog cfg)" unfolding sel_def by (rule offered)
    have off: "offers rg" unfolding offers_def
      using make_registry_tools[OF Inr] assms(2) sub by (auto simp: kept_def)
    have w: "I (snd (snd (compact_if_needed (ae_tok ev) (ae_acomplete ev) (ac_compactor cfg) (rs_transcript s) (registry_schemas rg) (rs_world s))))"
      using assms(2) by (intro compact_keeps) (simp add: kept_def)
    show ?thesis using assms off w Inr
      by (auto simp: turn_prepare_def Let_def sel_def[symmetric] kept_def split: if_splits sum.splits prod.splits)
  qed
qed

lemma one_turn_keeps: "I w \<Longrightarrow> I (snd (snd (snd (one_turn ev schemas t w))))"
  using stream by (auto simp: one_turn_def Let_def case_prod_beta split: stream_outcome.split prod.splits)

lemma turn_final_keeps: "kept s \<Longrightarrow> kept (outcome_state (turn_final cfg i r s))"
  by (auto simp: turn_final_def Let_def stop_with_def kept_def split: option.split)

lemma turn_respond_keeps:
  assumes "kept s" "offers rg"
  shows "kept (outcome_state (turn_respond cfg ev i rg r s))"
proof -
  define s1 where "s1 = s\<lparr>rs_tokens := rs_tokens s + pr_input_tokens r + pr_output_tokens r,
     rs_last_input := Some (pr_input_tokens r + pr_cache_read r + pr_cache_creation r)\<rparr>"
  have s1: "kept s1" "rs_world s1 = rs_world s" "rs_transcript s1 = rs_transcript s" using assms(1) by (simp_all add: s1_def kept_def)
  show ?thesis
  proof (cases "from_assistant_response r")
    case (Inl e)
    then show ?thesis using s1 by (simp add: turn_respond_def Let_def s1_def[symmetric])
  next
    case (Inr m)
    obtain err rg' t w where d: "dispatch_calls ev (pr_tool_calls r) rg (t_append m (rs_transcript s)) (rs_world s) = (err, rg', t, w)"
      by (rule prod_cases4)
    have k: "I w" "headless (rg_pm rg')"
      using dispatch_calls_keeps[OF assms(2) _ d] assms(1) by (simp_all add: kept_def offers_def)
    have "kept (s1\<lparr>rs_transcript := t_append m (rs_transcript s)\<rparr>)" using s1 by (simp add: kept_def)
    from turn_final_keeps[OF this, of i r] k show ?thesis
      using Inr s1 d by (simp add: turn_respond_def Let_def s1_def[symmetric] kept_def split: option.split)
  qed
qed

lemma past_deadline_keeps: "I w \<Longrightarrow> I (snd (past_deadline ev deadline w))"
  using clock by (auto simp: past_deadline_def case_prod_beta split: option.split)

lemma agent_turn_keeps:
  assumes "kept s"
  shows "kept (outcome_state (agent_turn cfg ev deadline i s))"
proof -
  obtain late w where l: "past_deadline ev deadline (rs_world s) = (late, w)" by (cases "past_deadline ev deadline (rs_world s)")
  have k: "kept (s\<lparr>rs_world := w\<rparr>)" using past_deadline_keeps[of "rs_world s" deadline] assms l by (simp add: kept_def)
  obtain r1 s1 where p: "turn_prepare cfg ev (s\<lparr>rs_world := w\<rparr>) = (r1, s1)" by (cases "turn_prepare cfg ev (s\<lparr>rs_world := w\<rparr>)")
  note kp = turn_prepare_keeps[OF p k]
  show ?thesis
  proof (cases r1)
    case (Inl e)
    then show ?thesis using kp k l p by (simp add: agent_turn_def Let_def stop_with_def)
  next
    case (Inr rg)
    obtain r2 partial t w2 where o: "one_turn ev (registry_schemas rg) (rs_transcript s1) (rs_world s1) = (r2, partial, t, w2)"
      by (rule prod_cases4)
    have "I w2" using one_turn_keeps[of "rs_world s1" "registry_schemas rg" "rs_transcript s1"] kp o by (simp add: kept_def)
    then have s2: "kept (s1\<lparr>rs_transcript := t', rs_world := w2\<rparr>)" for t' using kp by (simp add: kept_def)
    show ?thesis using Inr kp k l p o s2 turn_respond_keeps[OF s2, of rg i]
      by (cases r2) (simp_all add: agent_turn_def Let_def stop_with_def)
  qed
qed

lemma grace_turn_keeps:
  assumes "kept s"
  shows "kept (outcome_state (grace_turn ev n s))"
proof -
  obtain r2 partial t w2 where o: "one_turn ev [] (t_append (user_text grace_nudge) (rs_transcript s)) (rs_world s) = (r2, partial, t, w2)"
    by (rule prod_cases4)
  have "I w2" using one_turn_keeps[of "rs_world s" "[]" "t_append (user_text grace_nudge) (rs_transcript s)"] assms o by (simp add: kept_def)
  then show ?thesis using assms o
    by (auto simp: grace_turn_def Let_def stop_with_def kept_def split: sum.split)
qed

lemma agent_loop_keeps: "kept s \<Longrightarrow> kept (outcome_state (agent_loop cfg ev deadline n is s))"
proof (induction "is" arbitrary: s)
  case (Cons i "is")
  from agent_turn_keeps[OF Cons.prems, of deadline i] Cons.IH show ?case
    by (cases "agent_turn cfg ev deadline i s") simp_all
qed (simp add: grace_turn_keeps)

text \<open>However a run ends, the invariant holds of the world it leaves.\<close>

lemma arun_keeps:
  assumes "I w" "headless pm"
  shows "I (rs_world (outcome_state (arun cfg ev msg t sys pm n deadline_s w)))"
proof -
  have start: "kept (initial_state msg t sys pm w)" using assms by (simp add: kept_def initial_state_def)
  have "kept (outcome_state (arun cfg ev msg t sys pm n deadline_s w))"
  proof (cases deadline_s)
    case None
    then show ?thesis using agent_loop_keeps[OF start] by (simp add: arun_def Let_def)
  next
    case (Some d)
    obtain now w' where c: "ae_now ev w = (now, w')" by (cases "ae_now ev w")
    have "kept ((initial_state msg t sys pm w)\<lparr>rs_world := w'\<rparr>)" using clock[OF assms(1)] start c by (simp add: kept_def)
    then show ?thesis using Some c agent_loop_keeps by (simp add: arun_def Let_def initial_state_def)
  qed
  then show ?thesis by (simp add: kept_def)
qed

end

section \<open>Calling a tool's function\<close>

text \<open>
  \<open>fn(**args)\<close> for a function whose parameters are given with their defaults: an unknown or a
  missing name raises.  A value of another type than declared is refused by the schema before the
  call; here it raises too.
\<close>

definition bind_args :: "(string \<times> json option) list \<Rightarrow> args \<Rightarrow> exn + json list" where
  "bind_args ps a = (case find (\<lambda>k. k \<notin> set (map fst ps)) (dict_keys a) of
     Some k \<Rightarrow> Inl (Exn ''TypeError'' (''got an unexpected keyword argument '' @ py_repr k))
   | None \<Rightarrow> (case find (\<lambda>(n, d). n \<notin> set (dict_keys a) \<and> d = None) ps of
       Some (n, d) \<Rightarrow> Inl (Exn ''TypeError'' (''missing 1 required positional argument: '' @ py_repr n))
     | None \<Rightarrow> Inr (map (\<lambda>(n, d). case map_of a n of Some j \<Rightarrow> j | None \<Rightarrow> the d) ps)))"

definition mistyped :: exn where
  "mistyped = Exn ''TypeError'' ''argument of another type than declared''"

definition or_raise :: "exn + 'a \<Rightarrow> ('a \<Rightarrow> 'w \<Rightarrow> (exn + 'b) \<times> 'w) \<Rightarrow> 'w \<Rightarrow> (exn + 'b) \<times> 'w" where
  "or_raise x f w = (case x of Inl e \<Rightarrow> (Inl e, w) | Inr a \<Rightarrow> f a w)"

definition text_list :: "json \<Rightarrow> string list option" where
  "text_list j = (case j of JList js \<Rightarrow> those (map (\<lambda>x. case x of JStr s \<Rightarrow> Some s | _ \<Rightarrow> None) js) | _ \<Rightarrow> None)"

section \<open>The world of a run\<close>

record 'v run_world =
  rw_plan :: plan_holder
  rw_pad :: directory
  rw_out :: 'v

definition outside :: "('v \<Rightarrow> 'a \<times> 'v) \<Rightarrow> 'v run_world \<Rightarrow> 'a \<times> 'v run_world" where
  "outside f w = (case f (rw_out w) of (r, v) \<Rightarrow> (r, w\<lparr>rw_out := v\<rparr>))"

definition lift_env :: "'v agent_env \<Rightarrow> 'v run_world agent_env" where
  "lift_env ev = \<lparr>
     ae_stream = (\<lambda>t schemas. outside (ae_stream ev t schemas)),
     ae_acomplete = (\<lambda>t. outside (ae_acomplete ev t)),
     ae_loads = ae_loads ev, ae_now = outside (ae_now ev), ae_tok = ae_tok ev, ae_scores = ae_scores ev,
     ae_tools = \<lparr>te_iter_errors = te_iter_errors (ae_tools ev), te_close_match = te_close_match (ae_tools ev),
       te_nonce = outside (te_nonce (ae_tools ev))\<rparr>\<rparr>"

text \<open>The client of the service, one field per call of it, and the JSON printers of the tools.\<close>

record 'v takeoff_service =
  sv_submit :: "'v \<Rightarrow> (exn + json) \<times> 'v"
  sv_status :: "string \<Rightarrow> 'v \<Rightarrow> (exn + args) \<times> 'v"
  sv_summary :: "string \<Rightarrow> 'v \<Rightarrow> (exn + json) \<times> 'v"
  sv_page :: "string \<Rightarrow> string \<Rightarrow> int \<Rightarrow> int \<Rightarrow> 'v \<Rightarrow> (exn + json) \<times> 'v"
  sv_fetch_all :: "string \<Rightarrow> 'v \<Rightarrow> (exn + takeoff_data) \<times> 'v"
  sv_view :: "string \<Rightarrow> 'v \<Rightarrow> (exn + job_view) \<times> 'v"
  sv_show_recon :: "reconciliation \<Rightarrow> string"
  sv_show_artifact :: "agent_artifact \<Rightarrow> string"

section \<open>The tools\<close>

text \<open>\<open>doc\<close> is the docstring of each function, which becomes the tool's description.\<close>

definition agent_tool :: "(string \<Rightarrow> string) \<Rightarrow> bool \<Rightarrow> side_effect set \<Rightarrow> string \<Rightarrow> json \<Rightarrow>
    (args \<Rightarrow> 'w \<Rightarrow> (exn + string) \<times> 'w) \<Rightarrow> 'w tool" where
  "agent_tool doc async effects name schema body = \<lparr>tool_name = name, tool_description = doc name, tool_schema = schema,
     tool_run = (if async then None else Some body), tool_arun = (if async then Some body else None), tool_effects = effects\<rparr>"

definition required_param :: "string \<Rightarrow> hint \<Rightarrow> parameter" where
  "required_param n h = \<lparr>pr_name = n, pr_hint = h, pr_has_default = False\<rparr>"

definition optional_param :: "string \<Rightarrow> hint \<Rightarrow> parameter" where
  "optional_param n h = \<lparr>pr_name = n, pr_hint = h, pr_has_default = True\<rparr>"

definition plan_create_body :: "args \<Rightarrow> 'v run_world \<Rightarrow> (exn + string) \<times> 'v run_world" where
  "plan_create_body a = or_raise (bind_args [(''objective'', None), (''steps'', None), (''postconditions'', None)] a) (\<lambda>vs w.
     case vs of
       [JStr ob, ss, ps] \<Rightarrow> (case (text_list ss, text_list ps) of
           (Some ss, Some ps) \<Rightarrow> (case plan_create ob ss ps (rw_plan w) of (r, h) \<Rightarrow> (Inr r, w\<lparr>rw_plan := h\<rparr>))
         | _ \<Rightarrow> (Inl mistyped, w))
     | _ \<Rightarrow> (Inl mistyped, w))"

definition plan_show_body :: "args \<Rightarrow> 'v run_world \<Rightarrow> (exn + string) \<times> 'v run_world" where
  "plan_show_body a = or_raise (bind_args [] a) (\<lambda>vs w. (plan_show (rw_plan w), w))"

definition step_update_body :: "args \<Rightarrow> 'v run_world \<Rightarrow> (exn + string) \<times> 'v run_world" where
  "step_update_body a = or_raise (bind_args [(''step_number'', None), (''status'', None),
       (''evidence'', Some (JStr '''')), (''notes'', Some (JStr ''''))] a) (\<lambda>vs w.
     case vs of
       [JInt n, JStr st, JStr e, JStr nt] \<Rightarrow> (case step_update n st e nt (rw_plan w) of (r, h) \<Rightarrow> (r, w\<lparr>rw_plan := h\<rparr>))
     | _ \<Rightarrow> (Inl mistyped, w))"

definition verify_body :: "args \<Rightarrow> 'v run_world \<Rightarrow> (exn + string) \<times> 'v run_world" where
  "verify_body a = or_raise (bind_args [(''postcondition_number'', None), (''evidence'', None)] a) (\<lambda>vs w.
     case vs of
       [JInt n, JStr e] \<Rightarrow> (case postcondition_verify n e (rw_plan w) of (r, h) \<Rightarrow> (r, w\<lparr>rw_plan := h\<rparr>))
     | _ \<Rightarrow> (Inl mistyped, w))"

definition plan_tools :: "(string \<Rightarrow> string) \<Rightarrow> 'v run_world tool list" where
  "plan_tools doc =
     [agent_tool doc False {SWrite} ''plan_create'' (schema_from_signature [required_param ''objective'' HStr,
        required_param ''steps'' (HList HStr), required_param ''postconditions'' (HList HStr)]) plan_create_body,
      agent_tool doc False {SRead} ''plan_show'' (schema_from_signature []) plan_show_body,
      agent_tool doc False {SWrite} ''step_update'' (schema_from_signature [required_param ''step_number'' HInt,
        required_param ''status'' HStr, optional_param ''evidence'' HStr, optional_param ''notes'' HStr]) step_update_body,
      agent_tool doc False {SWrite} ''postcondition_verify'' (schema_from_signature [required_param ''postcondition_number'' HInt,
        required_param ''evidence'' HStr]) verify_body]"

definition json_result :: "(exn + json) \<times> 'w \<Rightarrow> (exn + string) \<times> 'w" where
  "json_result rw = (case rw of (Inl e, w) \<Rightarrow> (Inl e, w) | (Inr j, w) \<Rightarrow> (Inr (json_dumps j), w))"

definition submit_body :: "'v takeoff_service \<Rightarrow> args \<Rightarrow> 'v run_world \<Rightarrow> (exn + string) \<times> 'v run_world" where
  "submit_body sv a = or_raise (bind_args [] a) (\<lambda>vs w. json_result (outside (sv_submit sv) w))"

text \<open>A poll of the waiting loop: the status, and the whole answer for the tool's result.\<close>

definition poll_status :: "'v takeoff_service \<Rightarrow> string \<Rightarrow> 'v \<times> args \<Rightarrow> (exn + string) \<times> ('v \<times> args)" where
  "poll_status sv job vl = (case sv_status sv job (fst vl) of
     (Inl e, v) \<Rightarrow> (Inl e, (v, snd vl))
   | (Inr st, v) \<Rightarrow> (Inr (case map_of st ''status'' of Some (JStr s) \<Rightarrow> s | _ \<Rightarrow> ''''), (v, st)))"

definition still_running :: "string \<Rightarrow> args \<Rightarrow> json" where
  "still_running job st = JObj [(''status'', case map_of st ''status'' of Some j \<Rightarrow> j | None \<Rightarrow> JNull), (''job_id'', JStr job),
     (''note'', JStr ''not terminal within 600s; still running'')]"

definition wait_takeoff :: "'v takeoff_service \<Rightarrow> string \<Rightarrow> 'v \<Rightarrow> (exn + json) \<times> 'v" where
  "wait_takeoff sv job v = (case the (wait_for_takeoff (poll_status sv job) 5 600 (v, [])) of
     (Inl e, (v, st)) \<Rightarrow> (Inl e, v)
   | (Inr (Finished s), (v, st)) \<Rightarrow> (Inr (JObj st), v)
   | (Inr (StillRunning s), (v, st)) \<Rightarrow> (Inr (still_running job st), v))"

definition wait_body :: "'v takeoff_service \<Rightarrow> args \<Rightarrow> 'v run_world \<Rightarrow> (exn + string) \<times> 'v run_world" where
  "wait_body sv a = or_raise (bind_args [(''job_id'', None)] a) (\<lambda>vs w.
     case vs of [JStr job] \<Rightarrow> json_result (outside (wait_takeoff sv job) w) | _ \<Rightarrow> (Inl mistyped, w))"

definition summary_body :: "'v takeoff_service \<Rightarrow> args \<Rightarrow> 'v run_world \<Rightarrow> (exn + string) \<times> 'v run_world" where
  "summary_body sv a = or_raise (bind_args [(''job_id'', None)] a) (\<lambda>vs w.
     case vs of [JStr job] \<Rightarrow> json_result (outside (sv_summary sv job) w) | _ \<Rightarrow> (Inl mistyped, w))"

definition query_entities :: "string list" where
  "query_entities = [''items'', ''fixture_counts'', ''room_areas'']"

definition query_body :: "'v takeoff_service \<Rightarrow> args \<Rightarrow> 'v run_world \<Rightarrow> (exn + string) \<times> 'v run_world" where
  "query_body sv a = or_raise (bind_args [(''job_id'', None), (''entity'', None), (''page'', Some (JInt 1)),
       (''page_size'', Some (JInt 50))] a) (\<lambda>vs w.
     case vs of
       [JStr job, JStr entity, JInt page, JInt per_page] \<Rightarrow>
         if entity \<notin> set query_entities
         then (Inr (''unknown entity '' @ py_repr entity @ ''; use '' @ py_repr ''items'' @ '', '' @
                 py_repr ''fixture_counts'' @ '', or '' @ py_repr ''room_areas''), w)
         else json_result (outside (sv_page sv entity job page per_page) w)
     | _ \<Rightarrow> (Inl mistyped, w))"

definition takeoff_tools :: "(string \<Rightarrow> string) \<Rightarrow> 'v takeoff_service \<Rightarrow> 'v run_world tool list" where
  "takeoff_tools doc sv =
     [agent_tool doc True {SNetwork} ''submit_takeoff'' (schema_from_signature []) (submit_body sv),
      agent_tool doc True {SNetwork} ''wait_for_takeoff'' (schema_from_signature [required_param ''job_id'' HStr]) (wait_body sv),
      agent_tool doc True {SNetwork} ''takeoff_summary'' (schema_from_signature [required_param ''job_id'' HStr]) (summary_body sv),
      agent_tool doc True {SNetwork} ''takeoff_query'' (schema_from_signature [required_param ''job_id'' HStr,
        required_param ''entity'' HStr, optional_param ''page'' HInt, optional_param ''page_size'' HInt]) (query_body sv)]"

definition cross_check_body :: "'v takeoff_service \<Rightarrow> args \<Rightarrow> 'v run_world \<Rightarrow> (exn + string) \<times> 'v run_world" where
  "cross_check_body sv a = or_raise (bind_args [(''job_id'', None)] a) (\<lambda>vs w.
     case vs of
       [JStr job] \<Rightarrow> (case outside (sv_fetch_all sv job) w of (data, w) \<Rightarrow> (cross_check (sv_show_recon sv) data, w))
     | _ \<Rightarrow> (Inl mistyped, w))"

definition escalation_of :: "json \<Rightarrow> escalation option" where
  "escalation_of j = (case j of
     JObj kvs \<Rightarrow> (let str = (\<lambda>k. case map_of kvs k of Some (JStr s) \<Rightarrow> Some s | _ \<Rightarrow> None) in
       (case (str ''kind'', str ''note'') of
          (Some kind, Some note) \<Rightarrow> Some \<lparr>es_kind = kind, es_schedule = str ''schedule'', es_mark = str ''mark'', es_note = note\<rparr>
        | _ \<Rightarrow> None))
   | _ \<Rightarrow> None)"

definition escalations_of :: "json \<Rightarrow> escalation list option" where
  "escalations_of j = (case j of JList js \<Rightarrow> those (map escalation_of js) | _ \<Rightarrow> None)"

definition finalize_body :: "'v takeoff_service \<Rightarrow> args \<Rightarrow> 'v run_world \<Rightarrow> (exn + string) \<times> 'v run_world" where
  "finalize_body sv a = or_raise (bind_args [(''job_id'', None), (''narrative'', None), (''escalations'', None)] a) (\<lambda>vs w.
     case vs of
       [JStr job, JStr narrative, es] \<Rightarrow> (case escalations_of es of
           None \<Rightarrow> (Inl mistyped, w)
         | Some escs \<Rightarrow> (case outside (sv_fetch_all sv job) w of
               (Inl e, w) \<Rightarrow> (Inl e, w)
             | (Inr d, w) \<Rightarrow> (case outside (sv_view sv job) w of (st, w) \<Rightarrow>
                 (case finalize_report (sv_show_artifact sv) (Inr d) st job narrative escs (rw_pad w) of
                    (r, dir) \<Rightarrow> (r, w\<lparr>rw_pad := dir\<rparr>)))))
     | _ \<Rightarrow> (Inl mistyped, w))"

definition string_schema :: json where
  "string_schema = type_object ''string''"

definition escalation_item_schema :: json where
  "escalation_item_schema = JObj [(''type'', JStr ''object''),
     (''properties'', JObj [(''kind'', JObj [(''type'', JStr ''string''), (''enum'', JList (map JStr escalation_kinds))]),
        (''schedule'', string_schema), (''mark'', string_schema), (''note'', string_schema)]),
     (''required'', JList [JStr ''kind'', JStr ''note''])]"

definition finalize_schema :: json where
  "finalize_schema = JObj [(''type'', JStr ''object''),
     (''properties'', JObj [(''job_id'', string_schema), (''narrative'', string_schema),
        (''escalations'', JObj [(''type'', JStr ''array''), (''items'', escalation_item_schema)])]),
     (''required'', JList [JStr ''job_id'', JStr ''narrative'', JStr ''escalations''])]"

definition report_tools :: "(string \<Rightarrow> string) \<Rightarrow> 'v takeoff_service \<Rightarrow> 'v run_world tool list" where
  "report_tools doc sv =
     [agent_tool doc True {SNetwork} ''cross_check'' (schema_from_signature [required_param ''job_id'' HStr]) (cross_check_body sv),
      agent_tool doc True {SNetwork, SWrite} ''finalize_report'' finalize_schema (finalize_body sv)]"

section \<open>The run\<close>

text \<open>\<open>_PROVIDERS\<close> and \<open>_KEY_ENV\<close>: which provider the environment asks for.\<close>

definition key_env :: "(string \<times> string) list" where
  "key_env = [(''anthropic'', ''ANTHROPIC_API_KEY''), (''openai'', ''OPENAI_API_KEY'')]"

definition provider_name :: "(string \<Rightarrow> string option) \<Rightarrow> exn + string" where
  "provider_name environ = (let name = (case environ ''PROVIDER'' of None \<Rightarrow> ''anthropic'' | Some n \<Rightarrow> n) in
     case map_of key_env name of
       Some key \<Rightarrow> if environ key = None \<or> environ key = Some ''''
         then Inl (Exn ''SystemExit'' (''error: PROVIDER='' @ name @ '' requires '' @ key @ '' to be set.'')) else Inr name
     | None \<Rightarrow> Inl (Exn ''KeyError'' (py_repr name)))"

definition agent_tools :: "(string \<Rightarrow> string) \<Rightarrow> 'v takeoff_service \<Rightarrow> 'v run_world tool list" where
  "agent_tools doc sv = takeoff_tools doc sv @ report_tools doc sv @
     filter (\<lambda>t. tool_name t \<in> {''plan_show'', ''postcondition_verify''}) (plan_tools doc)"

definition run_permissions :: "(string \<Rightarrow> string) \<Rightarrow> 'v takeoff_service \<Rightarrow> 'v run_world permission_manager" where
  "run_permissions doc sv = \<lparr>pm_policy = takeoff_policy (tool_name ` set (agent_tools doc sv)),
     pm_human_prompt = None, pm_approvals = {}\<rparr>"

definition run_agent_config :: "(string \<Rightarrow> string) \<Rightarrow> 'v takeoff_service \<Rightarrow> 'v run_world agent_config" where
  "run_agent_config doc sv = \<lparr>ac_catalog = agent_tools doc sv, ac_pinned = [],
     ac_tools_per_turn = length (agent_tools doc sv), ac_budget = default_budget,
     ac_compactor = default_compactor default_budget, ac_write_gate = False, ac_plan = Some rw_plan\<rparr>"

definition run_message :: string where
  "run_message = ''Run a takeoff on the configured drawings PDF, reconcile the tiers, and finalize a grounded report.''"

text \<open>\<open>main\<close> up to the saved report; \<open>system\<close> is the system prompt, the scratchpad directory is fresh.\<close>

definition run_takeoff_agent :: "(string \<Rightarrow> string) \<Rightarrow> string \<Rightarrow> 'v takeoff_service \<Rightarrow> 'v agent_env \<Rightarrow> 'v \<Rightarrow>
    'v run_world turn_outcome" where
  "run_takeoff_agent doc system sv ev v = arun (run_agent_config doc sv) (lift_env ev) run_message None (Some system)
     (Some (run_permissions doc sv)) 30 (Some 900) \<lparr>rw_plan = Some takeoff_plan, rw_pad = [], rw_out = v\<rparr>"

text \<open>\<open>_save_report\<close>: the file it writes, if a report was finalized.\<close>

definition save_report :: "(string \<Rightarrow> exn + json) \<Rightarrow> directory \<Rightarrow> exn + (string \<times> json) option" where
  "save_report loads pad = (case pad_read report_key pad of
     Inl e \<Rightarrow> if exn_type e = ''KeyError'' then Inr None else Inl e
   | Inr c \<Rightarrow> (case loads c of
       Inl e \<Rightarrow> Inl e
     | Inr (JObj kvs) \<Rightarrow> (case map_of kvs ''job_id'' of
         Some (JStr job) \<Rightarrow> Inr (Some (''output/agent_reports/'' @ job @ ''.json'', JObj kvs))
       | _ \<Rightarrow> Inl (Exn ''KeyError'' (py_repr ''job_id'')))
     | Inr j \<Rightarrow> Inl (Exn ''TypeError'' ''report is not an object'')))"

text \<open>The command line: the file, and optionally a range of pages.\<close>

definition run_arguments :: "(string \<Rightarrow> exn + int) \<Rightarrow> string list \<Rightarrow> exn + string \<times> (int \<times> int) option" where
  "run_arguments parse_int argv = (case argv of
     [path] \<Rightarrow> Inr (path, None)
   | [path, a, b] \<Rightarrow> (case (parse_int a, parse_int b) of
       (Inl e, _) \<Rightarrow> Inl e
     | (_, Inl e) \<Rightarrow> Inl e
     | (Inr i, Inr j) \<Rightarrow> Inr (path, Some (i, j)))
   | _ \<Rightarrow> Inl (Exn ''SystemExit'' ''usage: python -m src.takeoff_agent.run <drawings.pdf> [start end]''))"

section \<open>What a run keeps\<close>

text \<open>The report of a scratchpad is one that \<open>finalize_report\<close> assembled from answers of the service.\<close>

definition escalation_grounded :: "takeoff_data \<Rightarrow> escalation \<Rightarrow> bool" where
  "escalation_grounded d e \<longleftrightarrow>
     (if named (es_schedule e) then the (es_schedule e) \<in> set (map ic_schedule (td_items d)) else True) \<and>
     (if named (es_mark e) then the (es_mark e) \<in> known_marks (td_items d) (td_counts d) (td_areas d) else True)"

definition grounded_report :: "'v takeoff_service \<Rightarrow> string \<Rightarrow> bool" where
  "grounded_report sv c \<longleftrightarrow> (\<exists>job d st narrative escs v1 v2. fst (sv_fetch_all sv job v1) = Inr d \<and> fst (sv_view sv job v2) = Inr st \<and>
     list_all (escalation_grounded d) escs \<and>
     c = sv_show_artifact sv (build_artifact job d st (reconcile_tiers (td_summary d) (td_items d) (td_counts d) (td_areas d)) narrative escs))"

definition fixed_demands :: "plan_holder \<Rightarrow> bool" where
  "fixed_demands h \<longleftrightarrow> (case h of None \<Rightarrow> False | Some p \<Rightarrow> plan_ok p \<and> plan_steps p = [] \<and>
     map pc_description (plan_postconditions p) = takeoff_postconditions)"

definition run_world_ok :: "'v takeoff_service \<Rightarrow> 'v run_world \<Rightarrow> bool" where
  "run_world_ok sv w \<longleftrightarrow> fixed_demands (rw_plan w) \<and>
     (case pad_file report_key (rw_pad w) of None \<Rightarrow> True | Some c \<Rightarrow> grounded_report sv c)"

lemma outside_frame [simp]: "rw_plan (snd (outside f w)) = rw_plan w" "rw_pad (snd (outside f w)) = rw_pad w"
  by (simp_all add: outside_def case_prod_beta)

lemma run_world_ok_frame: "rw_plan w' = rw_plan w \<Longrightarrow> rw_pad w' = rw_pad w \<Longrightarrow> run_world_ok sv w' = run_world_ok sv w"
  by (simp add: run_world_ok_def)

lemma outside_ok [simp]: "run_world_ok sv (snd (outside f w)) = run_world_ok sv w"
  by (rule run_world_ok_frame) simp_all

lemma or_raise_keeps: "(\<And>a. x = Inr a \<Longrightarrow> P (snd (f a w))) \<Longrightarrow> P w \<Longrightarrow> P (snd (or_raise x f w))"
  by (cases x) (simp_all add: or_raise_def)

lemma json_result_world [simp]: "snd (json_result rw) = snd rw"
  by (cases rw) (auto simp: json_result_def split: sum.split)

lemma fixed_demands_verify: "fixed_demands h \<Longrightarrow> fixed_demands (snd (postcondition_verify n e h))"
  using progress_keeps_demands[of "[OpVerify n e]" h]
  by (auto simp: fixed_demands_def progress_op_def plan_run_def split: option.splits)

lemma finalize_pad:
  assumes "finalize_report dumps (Inr d) st job narrative escs dir = (r, dir')"
  shows "dir' = dir \<or> (\<exists>s. st = Inr s \<and> list_all (escalation_grounded d) escs \<and>
     pad_file report_key dir' = Some (dumps (build_artifact job d s
       (reconcile_tiers (td_summary d) (td_items d) (td_counts d) (td_areas d)) narrative escs)))"
proof (cases st)
  case (Inr s)
  show ?thesis
  proof (cases "validate_escalations escs (td_items d) (td_counts d) (td_areas d) = []")
    case True
    let ?a = "dumps (build_artifact job d s (reconcile_tiers (td_summary d) (td_items d) (td_counts d) (td_areas d)) narrative escs)"
    have "dir' = snd (pad_write report_key ?a dir)"
      using assms True Inr by (auto simp: finalize_report_def Let_def split: prod.splits sum.splits)
    then have "pad_file report_key dir' = Some ?a" using pad_file_write[OF report_key_valid] by simp
    moreover have "list_all (escalation_grounded d) escs"
      using True unfolding validate_empty_iff escalation_grounded_def .
    ultimately show ?thesis using Inr by blast
  next
    case False
    then show ?thesis using assms Inr by (simp add: finalize_report_def Let_def)
  qed
qed (use assms in \<open>simp add: finalize_report_def\<close>)

lemma grounded_reportI:
  "fst (sv_fetch_all sv job v1) = Inr d \<Longrightarrow> fst (sv_view sv job v2) = Inr st \<Longrightarrow> list_all (escalation_grounded d) escs \<Longrightarrow>
   grounded_report sv (sv_show_artifact sv (build_artifact job d st
     (reconcile_tiers (td_summary d) (td_items d) (td_counts d) (td_areas d)) narrative escs))"
  unfolding grounded_report_def by blast

text \<open>Every tool the agent offers keeps the demands of the plan and the grounding of the report.\<close>

lemma plan_show_keeps: "run_world_ok sv w \<Longrightarrow> run_world_ok sv (snd (plan_show_body a w))"
  unfolding plan_show_body_def by (rule or_raise_keeps) simp_all

lemma verify_keeps: "run_world_ok sv w \<Longrightarrow> run_world_ok sv (snd (verify_body a w))"
  unfolding verify_body_def
  by (rule or_raise_keeps)
    (auto simp: run_world_ok_def case_prod_beta fixed_demands_verify split: list.splits json.splits)

lemma network_keeps:
  "run_world_ok sv w \<Longrightarrow> run_world_ok sv (snd (submit_body sv a w))"
  "run_world_ok sv w \<Longrightarrow> run_world_ok sv (snd (wait_body sv a w))"
  "run_world_ok sv w \<Longrightarrow> run_world_ok sv (snd (summary_body sv a w))"
  "run_world_ok sv w \<Longrightarrow> run_world_ok sv (snd (query_body sv a w))"
  "run_world_ok sv w \<Longrightarrow> run_world_ok sv (snd (cross_check_body sv a w))"
  unfolding submit_body_def wait_body_def summary_body_def query_body_def cross_check_body_def
  by (rule or_raise_keeps; simp add: case_prod_beta split: list.split json.split)+

lemma finalize_keeps:
  assumes "run_world_ok sv w"
  shows "run_world_ok sv (snd (finalize_body sv a w))"
proof -
  have core: "run_world_ok sv (snd (case outside (sv_fetch_all sv job) w of
               (Inl e, w) \<Rightarrow> (Inl e, w)
             | (Inr d, w) \<Rightarrow> (case outside (sv_view sv job) w of (st, w) \<Rightarrow>
                 (case finalize_report (sv_show_artifact sv) (Inr d) st job narrative escs (rw_pad w) of
                    (r, dir) \<Rightarrow> (r, w\<lparr>rw_pad := dir\<rparr>)))))" for job narrative escs
  proof -
    obtain data w1 where f: "outside (sv_fetch_all sv job) w = (data, w1)" by (cases "outside (sv_fetch_all sv job) w")
    have w1: "run_world_ok sv w1" using assms outside_ok[of sv "sv_fetch_all sv job" w] f by simp
    have data: "data = fst (sv_fetch_all sv job (rw_out w))" using f by (auto simp: outside_def case_prod_beta)
    show ?thesis
    proof (cases data)
      case (Inr d)
      obtain st w2 where v: "outside (sv_view sv job) w1 = (st, w2)" by (cases "outside (sv_view sv job) w1")
      have w2: "run_world_ok sv w2" using w1 outside_ok[of sv "sv_view sv job" w1] v by simp
      have st: "st = fst (sv_view sv job (rw_out w1))" using v by (auto simp: outside_def case_prod_beta)
      obtain r dir where fin: "finalize_report (sv_show_artifact sv) (Inr d) st job narrative escs (rw_pad w2) = (r, dir)"
        by (cases "finalize_report (sv_show_artifact sv) (Inr d) st job narrative escs (rw_pad w2)")
      have "run_world_ok sv (w2\<lparr>rw_pad := dir\<rparr>)"
        using finalize_pad[OF fin]
      proof
        assume "\<exists>s. st = Inr s \<and> list_all (escalation_grounded d) escs \<and> pad_file report_key dir = Some (sv_show_artifact sv
          (build_artifact job d s (reconcile_tiers (td_summary d) (td_items d) (td_counts d) (td_areas d)) narrative escs))"
        then show ?thesis using w2 data[symmetric] st[symmetric] Inr by (auto simp: run_world_ok_def intro: grounded_reportI)
      qed (use w2 in \<open>simp add: run_world_ok_def\<close>)
      then show ?thesis using f v fin Inr by simp
    qed (use f w1 in simp)
  qed
  show ?thesis unfolding finalize_body_def
    by (rule or_raise_keeps) (auto simp: assms core split: list.split json.split option.split)
qed

lemma run_catalog: "ac_catalog (run_agent_config doc sv) = agent_tools doc sv"
  by (simp add: run_agent_config_def)

lemma agent_tool_bodies:
  assumes "tq \<in> set (agent_tools doc sv)" "tool_arun tq = Some f \<or> tool_run tq = Some f"
  shows "f \<in> {submit_body sv, wait_body sv, summary_body sv, query_body sv, cross_check_body sv, finalize_body sv,
    plan_show_body, verify_body}"
  using assms by (auto simp: agent_tools_def takeoff_tools_def report_tools_def plan_tools_def agent_tool_def)

interpretation agent_run: world_contract "run_agent_config doc sv" "lift_env ev" "run_world_ok sv"
  for doc :: "string \<Rightarrow> string" and sv :: "'v takeoff_service" and ev :: "'v agent_env"
proof
  fix w :: "'v run_world" and tq :: "'v run_world tool" and f a q
  show "set (for_turn (ae_scores (lift_env ev)) (ac_catalog (run_agent_config doc sv)) q
      (ac_tools_per_turn (run_agent_config doc sv)) (ac_pinned (run_agent_config doc sv))) \<subseteq> set (ac_catalog (run_agent_config doc sv))"
    by (simp add: run_agent_config_def for_turn_def)
  show "run_world_ok sv (snd (f a w))"
    if "tq \<in> set (ac_catalog (run_agent_config doc sv))" "tool_arun tq = Some f \<or> tool_run tq = Some f" "run_world_ok sv w"
    using agent_tool_bodies[of tq doc sv f] that network_keeps[OF that(3)] finalize_keeps[OF that(3)] plan_show_keeps[OF that(3)]
      verify_keeps[OF that(3)] by (auto simp: run_catalog)
qed (simp_all add: lift_env_def)

lemma initial_world_ok: "run_world_ok sv \<lparr>rw_plan = Some takeoff_plan, rw_pad = [], rw_out = v\<rparr>"
proof -
  have "fixed_demands (Some takeoff_plan)" by (simp add: fixed_demands_def takeoff_plan_def plan_ok_def pc_ok_def list_all_iff comp_def)
  moreover have "pad_file report_key [] = None" by (simp add: pad_file_def)
  ultimately show ?thesis by (simp add: run_world_ok_def)
qed

text \<open>C4.  However a takeoff run ends, its plan still demands exactly the three fixed postconditions, and a report
  in its scratchpad (read with its line ends as newlines) is one assembled from data and a job view the service answered with, all of whose
  escalations name schedules and marks of that data.  A run that returns takes at most 30 turns, and
  reports completion only when each of the three postconditions was verified with evidence.\<close>

theorem takeoff_run_is_grounded:
  "case run_takeoff_agent doc system sv ev v of out \<Rightarrow>
     (case rw_plan (rs_world (outcome_state out)) of None \<Rightarrow> False
      | Some p \<Rightarrow> plan_steps p = [] \<and> map pc_description (plan_postconditions p) = takeoff_postconditions \<and>
          (case out of
             Return r s \<Rightarrow> rr_iterations_used r \<le> 30 \<and>
               (if rr_stop_reason r = StopCompleted
                then list_all (\<lambda>pc. pc_satisfied pc \<and> (\<exists>e. pc_evidence pc = Some e \<and> e \<noteq> '''')) (plan_postconditions p) else True)
           | _ \<Rightarrow> True)) \<and>
     (case pad_read report_key (rw_pad (rs_world (outcome_state out))) of
        Inl e \<Rightarrow> pad_file report_key (rw_pad (rs_world (outcome_state out))) = None
      | Inr c \<Rightarrow> \<exists>report. pad_file report_key (rw_pad (rs_world (outcome_state out))) = Some report \<and>
          grounded_report sv report \<and> c = universal_newlines report)"
proof -
  define out where "out = run_takeoff_agent doc system sv ev v"
  have "headless (Some (run_permissions doc sv))" by (simp add: headless_def run_permissions_def)
  from agent_run.arun_keeps[OF initial_world_ok this]
  have ok: "run_world_ok sv (rs_world (outcome_state out))" unfolding out_def run_takeoff_agent_def .
  then obtain p where p: "rw_plan (rs_world (outcome_state out)) = Some p" "plan_ok p" "plan_steps p = []"
      "map pc_description (plan_postconditions p) = takeoff_postconditions"
    by (auto simp: run_world_ok_def fixed_demands_def split: option.splits)
  have verdict: "rr_iterations_used r \<le> 30 \<and> (if rr_stop_reason r = StopCompleted
      then list_all (\<lambda>pc. pc_satisfied pc \<and> (\<exists>e. pc_evidence pc = Some e \<and> e \<noteq> '''')) (plan_postconditions p) else True)"
    if r: "out = Return r s" for r s
  proof -
    obtain deadline s0 where "agent_loop (run_agent_config doc sv) (lift_env ev) deadline 30 [0..<30] s0 = Return r s"
      using r unfolding out_def run_takeoff_agent_def arun_def by (auto simp: Let_def split: prod.splits)
    from agent_loop_result[OF this] have v: "rr_iterations_used r \<le> 30"
      "rr_stop_reason r = StopCompleted \<longrightarrow> open_plan (run_agent_config doc sv) (rs_world s) = None" by blast+
    have "list_all (\<lambda>pc. pc_satisfied pc \<and> (\<exists>e. pc_evidence pc = Some e \<and> e \<noteq> '''')) (plan_postconditions p)"
      if "rr_stop_reason r = StopCompleted"
    proof -
      have "is_ready_to_finalize p" using v(2) that p(1) r
        by (simp add: open_plan_def run_agent_config_def split: if_splits)
      then show ?thesis using ready_evidence[OF p(2)] 
        by (auto simp: is_ready_to_finalize_def all_postconditions_satisfied_def list_all_iff)
    qed
    with v(1) show ?thesis by simp
  qed
  have "case out of Return r s \<Rightarrow> rr_iterations_used r \<le> 30 \<and> (if rr_stop_reason r = StopCompleted
      then list_all (\<lambda>pc. pc_satisfied pc \<and> (\<exists>e. pc_evidence pc = Some e \<and> e \<noteq> '''')) (plan_postconditions p) else True) | _ \<Rightarrow> True"
  proof (cases out)
    case (Return r s)
    show ?thesis unfolding Return turn_outcome.case by (rule verdict[OF Return])
  qed simp_all
  then show ?thesis unfolding out_def[symmetric] using ok p
    by (simp add: run_world_ok_def pad_read_file[OF report_key_valid] split: option.splits)
qed

section \<open>A run that completes\<close>

text \<open>
  The gate trusts the evidence the model cites: a model that verifies the three postconditions with
  any text and then answers completes the run, with no report in the scratchpad.
\<close>

definition idle_service :: "nat takeoff_service" where
  "idle_service = \<lparr>sv_submit = (\<lambda>v. (Inr JNull, v)), sv_status = (\<lambda>j v. (Inr [], v)), sv_summary = (\<lambda>j v. (Inr JNull, v)),
     sv_page = (\<lambda>e j p n v. (Inr JNull, v)), sv_fetch_all = (\<lambda>j v. (Inl mistyped, v)), sv_view = (\<lambda>j v. (Inl mistyped, v)),
     sv_show_recon = (\<lambda>r. ''''), sv_show_artifact = (\<lambda>a. '''')\<rparr>"

definition hasty_env :: "nat agent_env" where
  "hasty_env = \<lparr>
     ae_stream = (\<lambda>t schemas v. (StreamDone (if v = 0
         then [ToolCallStart ''a'' ''postcondition_verify'', ToolCallDelta ''a'' ''1'',
               ToolCallStart ''b'' ''postcondition_verify'', ToolCallDelta ''b'' ''2'',
               ToolCallStart ''c'' ''postcondition_verify'', ToolCallDelta ''c'' ''3'', Completed 5 2 0 0 0 []]
         else [TextDelta ''done'', Completed 7 1 0 0 0 []]), Suc v)),
     ae_acomplete = (\<lambda>t v. (Inl mistyped, v)),
     ae_loads = (\<lambda>s. Some (JObj [(''postcondition_number'', JInt (if s = ''1'' then 1 else if s = ''2'' then 2 else 3)), (''evidence'', JStr ''yes'')])),
     ae_now = (\<lambda>v. (0, v)), ae_tok = (\<lambda>s. 0),
     ae_scores = (\<lambda>corpus q. map (\<lambda>_. 0) corpus),
     ae_tools = \<lparr>te_iter_errors = (\<lambda>a s. []), te_close_match = (\<lambda>n ns. None), te_nonce = (\<lambda>v. (''n'', v))\<rparr>\<rparr>"

lemma completion_needs_no_report:
  "case run_takeoff_agent id ''system'' idle_service hasty_env 0 of
     Return r s \<Rightarrow> rr_stop_reason r = StopCompleted \<and> rr_iterations_used r = 2 \<and>
       pad_read report_key (rw_pad (rs_world s)) = Inl (pad_missing report_key)
   | _ \<Rightarrow> False"
  by code_simp

end
