(* ===== verification/Mcp.thy ===== *)
theory Mcp
  imports Permissions
begin

text \<open>
  The manager of MCP servers (\<open>src/src/harness/mcp/client.py\<close>) and its tools as the registry sees
  them (\<open>mcp/tools.py\<close>).

  Spawning a server and initializing a session is the protocol library's: a connection attempt
  raises or answers with a session and the server's listing.  A session's call times out, raises,
  or returns content blocks and an error flag.
\<close>

section \<open>Sessions and listings\<close>

datatype call_outcome = TimedOut | CallRaised exn | CallResult "(string option \<times> string) list" bool
  \<comment> \<open>a content block: its text, if it has one, and its \<open>str\<close>\<close>

type_synonym 'w session = "string \<Rightarrow> args \<Rightarrow> 'w \<Rightarrow> call_outcome \<times> 'w"

record listed_tool =
  lt_name :: string
  lt_description :: "string option"
  lt_schema :: "json option"

record mcp_tool =
  mt_server :: string
  mt_name :: string
  mt_raw_name :: string
  mt_description :: string
  mt_schema :: json

record 'w mcp_client =
  mc_sessions :: "(string, 'w session) dict"
  mc_tools :: "(string, mcp_tool) dict"

definition qualified_name :: "string \<Rightarrow> string \<Rightarrow> string" where
  "qualified_name server raw = ''mcp__'' @ server @ ''__'' @ raw"

definition empty_schema :: json where
  "empty_schema = JObj [(''type'', JStr ''object''), (''properties'', JObj [])]"

definition mcp_tool_of :: "string \<Rightarrow> listed_tool \<Rightarrow> mcp_tool" where
  "mcp_tool_of server l = \<lparr>mt_server = server, mt_name = qualified_name server (lt_name l), mt_raw_name = lt_name l,
     mt_description = (case lt_description l of None \<Rightarrow> '''' | Some d \<Rightarrow> d),
     mt_schema = (case lt_schema l of None \<Rightarrow> empty_schema | Some s \<Rightarrow> if json_truthy s then s else empty_schema)\<rparr>"

definition register_tools :: "string \<Rightarrow> listed_tool list \<Rightarrow> (string, mcp_tool) dict \<Rightarrow> (string, mcp_tool) dict" where
  "register_tools server ls d = foldl (\<lambda>d l. dict_set d (qualified_name server (lt_name l)) (mcp_tool_of server l)) d ls"

definition mcp_connect :: "string \<Rightarrow> (exn + 'w session \<times> listed_tool list) \<Rightarrow> 'w mcp_client \<Rightarrow> exn option \<times> 'w mcp_client" where
  "mcp_connect server attempt c = (case attempt of
     Inl e \<Rightarrow> (Some e, c)
   | Inr (session, listing) \<Rightarrow> (None, c\<lparr>mc_tools := register_tools server listing (mc_tools c),
       mc_sessions := dict_set (mc_sessions c) server session\<rparr>))"

section \<open>Calls\<close>

definition content_text :: "(string option \<times> string) list \<Rightarrow> string" where
  "content_text bs = py_join newline (map (\<lambda>(t, s). case t of Some t \<Rightarrow> t | None \<Rightarrow> s) bs)"

text \<open>\<open>show_timeout\<close> is the text of the timeout in seconds.\<close>

definition mcp_call :: "'w mcp_client \<Rightarrow> string \<Rightarrow> string \<Rightarrow> args \<Rightarrow> 'w \<Rightarrow> (exn + string) \<times> 'w" where
  "mcp_call c show_timeout name a w = (case map_of (mc_tools c) name of
     None \<Rightarrow> (Inl (Exn ''KeyError'' (py_repr name)), w)
   | Some t \<Rightarrow> (case map_of (mc_sessions c) (mt_server t) of
       None \<Rightarrow> (Inl (Exn ''KeyError'' (py_repr (mt_server t))), w)
     | Some session \<Rightarrow> (case session (mt_raw_name t) a w of
         (TimedOut, w) \<Rightarrow> (Inl (Exn ''MCPToolError'' (''MCP tool '' @ py_repr name @ '' timed out after '' @ show_timeout @ ''s'')), w)
       | (CallRaised e, w) \<Rightarrow> (Inl e, w)
       | (CallResult bs err, w) \<Rightarrow>
           (if err then Inl (Exn ''MCPToolError'' (if content_text bs = ''''
                then ''MCP tool '' @ py_repr name @ '' reported an error'' else content_text bs))
            else Inr (content_text bs), w))))"

definition mcp_listing :: "'w mcp_client \<Rightarrow> mcp_tool list" where
  "mcp_listing c = map snd (mc_tools c)"

definition default_call_timeout :: string where
  "default_call_timeout = ''30.0''"

definition wrap_one :: "'w mcp_client \<Rightarrow> string \<Rightarrow> string \<Rightarrow> json \<Rightarrow> 'w tool" where
  "wrap_one c name desc sch = \<lparr>tool_name = name, tool_description = desc, tool_schema = sch, tool_run = None,
     tool_arun = Some (mcp_call c default_call_timeout name), tool_effects = {SNetwork, SMutate}\<rparr>"

definition wrap_mcp_tools :: "'w mcp_client \<Rightarrow> 'w tool list" where
  "wrap_mcp_tools c = map (\<lambda>t. wrap_one c (mt_name t) (mt_description t) (mt_schema t)) (mcp_listing c)"

section \<open>What a connection promises\<close>

text \<open>Every tool is stored under its own name and belongs to a connected server.\<close>

definition client_ok :: "'w mcp_client \<Rightarrow> bool" where
  "client_ok c \<longleftrightarrow> distinct (dict_keys (mc_tools c)) \<and>
     list_all (\<lambda>(n, t). mt_name t = n \<and> n = qualified_name (mt_server t) (mt_raw_name t) \<and>
        mt_server t \<in> set (dict_keys (mc_sessions c))) (mc_tools c)"

lemma set_dict_set: "x \<in> set (dict_set d k v) \<Longrightarrow> x = (k, v) \<or> x \<in> set d"
  by (induction d k v rule: dict_set.induct) (auto split: if_splits)

lemma register_tools_Cons:
  "register_tools server (l # ls) d = register_tools server ls (dict_set d (qualified_name server (lt_name l)) (mcp_tool_of server l))"
  by (simp add: register_tools_def)

lemma register_tools_in:
  "x \<in> set (register_tools server ls d) \<Longrightarrow> x \<in> set d \<or>
     (\<exists>l. l \<in> set ls \<and> x = (qualified_name server (lt_name l), mcp_tool_of server l))"
proof (induction ls arbitrary: d)
  case (Cons l ls)
  from Cons.IH[OF Cons.prems[unfolded register_tools_Cons]] show ?case using set_dict_set by fastforce
qed (simp add: register_tools_def)

lemma register_tools_distinct: "distinct (dict_keys d) \<Longrightarrow> distinct (dict_keys (register_tools server ls d))"
  by (induction ls arbitrary: d) (simp add: register_tools_def, simp only: register_tools_Cons distinct_keys_dict_set)

lemma mcp_connect_ok: "client_ok c \<Longrightarrow> client_ok (snd (mcp_connect server attempt c))"
proof (cases attempt)
  case (Inr sl)
  obtain session ls where sl: "sl = (session, ls)" by (cases sl)
  assume ok: "client_ok c"
  have "list_all (\<lambda>(n, t). mt_name t = n \<and> n = qualified_name (mt_server t) (mt_raw_name t) \<and>
      mt_server t \<in> set (dict_keys (dict_set (mc_sessions c) server session))) (register_tools server ls (mc_tools c))"
    unfolding list_all_iff
  proof (intro ballI)
    fix x assume "x \<in> set (register_tools server ls (mc_tools c))"
    from register_tools_in[OF this] ok show "case x of (n, t) \<Rightarrow> mt_name t = n \<and> n = qualified_name (mt_server t) (mt_raw_name t) \<and>
      mt_server t \<in> set (dict_keys (dict_set (mc_sessions c) server session))"
      by (auto simp: client_ok_def list_all_iff mcp_tool_of_def)
  qed
  then show ?thesis using ok Inr sl by (simp add: mcp_connect_def client_ok_def register_tools_distinct)
qed (simp add: mcp_connect_def)

text \<open>The wrapped tools have distinct names and the pessimistic effects, so they register and are fenced.\<close>

lemma wrapped_tools:
  assumes "client_ok c"
  shows "distinct (map tool_name (wrap_mcp_tools c))" "list_all (\<lambda>t. tool_effects t = {SNetwork, SMutate}) (wrap_mcp_tools c)"
proof -
  have "map tool_name (wrap_mcp_tools c) = dict_keys (mc_tools c)"
    using assms by (auto simp: wrap_mcp_tools_def wrap_one_def mcp_listing_def client_ok_def list_all_iff)
  then show "distinct (map tool_name (wrap_mcp_tools c))" using assms by (simp add: client_ok_def)
  show "list_all (\<lambda>t. tool_effects t = {SNetwork, SMutate}) (wrap_mcp_tools c)"
    by (auto simp: wrap_mcp_tools_def wrap_one_def list_all_iff)
qed

text \<open>A listed tool is called on the server that listed it, under the name the server knows.\<close>

lemma mcp_call_routes:
  assumes "client_ok c" "map_of (mc_tools c) name = Some t"
  shows "\<exists>session. map_of (mc_sessions c) (mt_server t) = Some session \<and>
    snd (mcp_call c tmo name a w) = snd (session (mt_raw_name t) a w) \<and>
    (case fst (session (mt_raw_name t) a w) of
       CallResult bs False \<Rightarrow> fst (mcp_call c tmo name a w) = Inr (content_text bs)
     | CallRaised e \<Rightarrow> fst (mcp_call c tmo name a w) = Inl e
     | _ \<Rightarrow> (\<exists>m. fst (mcp_call c tmo name a w) = Inl (Exn ''MCPToolError'' m)))"
proof -
  have "mt_server t \<in> set (dict_keys (mc_sessions c))"
    using assms map_of_SomeD[OF assms(2)] by (auto simp: client_ok_def list_all_iff)
  then obtain session where s: "map_of (mc_sessions c) (mt_server t) = Some session"
    by (metis map_of_eq_None_iff not_None_eq image_set)
  obtain oc w' where o: "session (mt_raw_name t) a w = (oc, w')" by (cases "session (mt_raw_name t) a w")
  show ?thesis using assms(2) s o by (cases oc) (auto simp: mcp_call_def split: bool.split)
qed

text \<open>
  The qualified name does not determine the server: a tool \<open>b__c\<close> of the server \<open>a\<close> and a tool \<open>c\<close>
  of the server \<open>a__b\<close> share one, and the later connection takes it over.
\<close>

lemma qualified_names_collide:
  "''a'' \<noteq> ''a__b'' \<and> qualified_name ''a'' ''b__c'' = qualified_name ''a__b'' ''c''"
  by (simp add: qualified_name_def)

end
