(* ===== verification/Spec2Isabelle.thy ===== *)
theory Spec2Isabelle
  imports Retry Subagents Access Wire Gates BidStructure DrawingLayer TakeoffRun Mcp
begin

text \<open>
  A model of the construction takeoff program: the agent harness (\<open>src/src/harness\<close>), the document
  pipeline (\<open>src/src/pipeline\<close>, \<open>src/src/models\<close>, \<open>src/src/validation\<close>), the quantity takeoff
  (\<open>src/src/takeoff\<close>, \<open>src/src/access\<close>), the takeoff service (\<open>src/service\<close>) and the agent that drives it
  (\<open>src/src/takeoff_agent\<close>), with the theorems that make them correct.

  \<^bold>\<open>Parts and theories.\<close>

  The harness.  \<open>Messages\<close> (\<open>messages.py\<close>): transcript and the pairing invariant.  \<open>Providers\<close>
  (\<open>providers/base.py\<close>, \<open>events.py\<close>): a stream of events accumulated into a response.  \<open>Wire\<close>
  (\<open>providers/anthropic.py\<close>, \<open>openai.py\<close>): the two wire formats, request and stream.  \<open>Retry\<close>
  (\<open>providers/retry.py\<close>).  \<open>Accountant\<close>, \<open>Masking\<close>, \<open>Compaction\<close> (\<open>context/\<close>): token accounting,
  the masking of old tool results, the repair of orphans, the summarizer and the compactor.
  \<open>Permissions\<close> (\<open>tools/base.py\<close>, \<open>permissions/\<close>, \<open>takeoff_agent/policy.py\<close>).  \<open>Registry\<close>
  (\<open>tools/registry.py\<close>, \<open>tools/validation.py\<close>): dispatch with its guards in order.  \<open>FileTools\<close>
  (\<open>tools/files.py\<close>, \<open>std.py\<close>, \<open>decorator.py\<close>) and \<open>Scratchpad\<close> (\<open>tools/scratchpad.py\<close>): the tools themselves.
  \<open>Mcp\<close> (\<open>mcp/\<close>): the manager of MCP servers and its tools.
  \<open>Plans\<close> (\<open>plans/\<close>).  \<open>Selector\<close> (\<open>tools/selector.py\<close>).  \<open>AgentLoop\<close> (\<open>agent.py\<close>): a turn, the
  bounded loop with the completion gate, the grace turn.  \<open>Subagents\<close> (\<open>subagents/\<close>): the spawner
  and the interleavings of a parallel batch.

  The document pipeline.  \<open>Regex\<close>: the patterns as terms of a backtracking matcher, lines and headers.
  \<open>Segmenter\<close> (\<open>phase1_intake.py\<close>, \<open>page_profiler.py\<close>, \<open>segmenter.py\<close>): a package of files, profiled
  and cut into regions.  \<open>Sheets\<close> (\<open>phase2_drawing_index.py\<close>, \<open>phase3_sheet_classifier.py\<close>,
  \<open>phase2_abbreviation_parser.py\<close>).  \<open>Locator\<close> (\<open>locator.py\<close>, \<open>build_document_map.py\<close>): the artifacts
  found in the regions.  \<open>SpecText\<close> (\<open>phase2_spec_parser.py\<close>): the table of contents and the trace sections.
  \<open>ScheduleResolver\<close>, \<open>ScheduleParser\<close> (\<open>schedule_resolver.py\<close>, \<open>phase2_schedule_parser.py\<close>).
  \<open>SectionResolver\<close> (\<open>section_resolver.py\<close>, \<open>section_llm.py\<close>): material codes to specification
  sections.  \<open>KnowledgeGraph\<close> (\<open>models/graph.py\<close>) and \<open>GraphBuilder\<close> (\<open>phase5_graph_builder.py\<close>).
  \<open>Gates\<close> (\<open>validation/\<close>).  \<open>BidStructure\<close> (\<open>bid_structure.py\<close>).

  The takeoff.  \<open>Access\<close> (\<open>access/\<close>): the shared document with its page memo and failure ledger.
  \<open>Quantities\<close> (\<open>takeoff/quantity_schedules.py\<close>), \<open>Areas\<close> (\<open>area_harvest.py\<close>), \<open>Counts\<close>
  (\<open>fixture_counts.py\<close>, \<open>count_verifier.py\<close>), \<open>DrawingLayer\<close> (\<open>scale_resolver.py\<close>,
  \<open>binary_extractor.py\<close>), \<open>TakeoffBuild\<close> (\<open>build_schedule_items.py\<close>, \<open>pipeline_adapter.py\<close>).

  The service and its agent.  \<open>ShardPlanner\<close> (\<open>service/takeoff/planner.py\<close>, \<open>reduce.py\<close>) and \<open>Jobs\<close>
  (\<open>service/jobs/\<close>): the life of a job, its shards in any interleaving, the reduce.  \<open>Submit\<close>
  (\<open>service/api/ingestions.py\<close>): submissions, their deduplication and the unique indexes.  \<open>Query\<close>
  (\<open>service/api/query.py\<close>, \<open>service/takeoff/projection.py\<close>).  \<open>TakeoffAgent\<close> (\<open>takeoff_agent/\<close>): the
  client, the plan, the reconciliation, the report and the polling.  \<open>TakeoffRun\<close> (\<open>takeoff_agent/run.py\<close>):
  the tools as the loop sees them and the whole run, over the contract of an invariant of the world.

  \<open>Prelude\<close> holds Python's strings, dictionaries, JSON and rounding; \<open>Systems\<close> the contract of a
  terminating step relation, interpreted for the parallel batch and the shards of a job.

  \<^bold>\<open>Conventions.\<close>  A string is its UTF-8 bytes.  A float is an exact rational.  An exception is a
  value of \<open>exn\<close> on the left of a sum, \<open>Cancelled\<close> being the one that is no \<open>Exception\<close>.  Effects on
  the outside (tools, providers, clocks, files) act on a world \<open>'w\<close> a function returns updated.
  Code that is not under \<open>src/\<close> is a parameter: tiktoken, jsonschema, difflib, the BM25 index,
  \<open>json.loads\<close>, \<open>ast.parse\<close>, \<open>math.hypot\<close>, \<open>math.atan2\<close>, the PDF libraries (the texts, words, tables and
  drawings of a page), the vision and language models, the shell.  Database
  transactions are atomic functions on rows; storage and queue effects are outcomes of a step.
  Loops are structural recursion over the list they range over, or end by a measure (a polling loop by
  its time left, \<open>ast.walk\<close> by the nodes queued), so there is no fuel.

  \<^bold>\<open>What the properties show.\<close>  A run of the agent keeps its transcript paired on every way out,
  sends nothing that needs repair, is bounded, and reports completion only when it is one; both wire
  adapters deliver exactly the calls the server announced (text beside a call is dropped by the
  accumulation); a tool runs only past every guard; an edit replaces its range and nothing else, up to
  the line ends that text mode normalises; a plan that reads as ready is evidenced; sub-agents respect
  budget, write gate and concurrency and settle within a bound.  The segments of a file partition its
  pages; discovery degrades and never raises; a printed table of contents is read back; every link of a
  section map is grounded; the assembled graph is closed and holds the nodes of the package, apart from
  bare nodes for trace sections its table of contents does not list, and its edges account for every
  code; a passing verdict of the gates means what they say; bid items are sourced.  A shard plan
  partitions the pages and map-reduce equals the serial build.  The shards of a job may run in any order,
  fail, be retried or be killed: they end within a bound, with every shard closed and one reduce over
  exactly the surviving windows - the serial artifact when none failed - or with a shard lost to a kill
  and no reduce.  No two submissions duplicate a job; the agent sees the whole report and finalizes only
  a grounded one, whatever the model does in a run.  Extraction is well formed, and the marks of a door
  schedule are exactly those of its mark column; areas and counts do what they promise and nothing else.

  \<^bold>\<open>Not modelled.\<close>  Logging, metrics, console reports and I/O clients (queue, storage, database session, HTTP
  application); the session protocol of MCP, which is a third-party library; the interactive permission
  prompt; the wiring of \<open>subagents/assembly.py\<close>; the vision call of the count verifier and the rendering
  of its image; identifiers and timestamps of messages; the
  serialization mixin \<open>models/base.py\<close>; the schema scripts of the migrations; examples and notebooks.
  In \<open>Jobs\<close> the commit of the shard counter and the enqueue of the reduce behind it are one step, so a
  worker killed between them, or delivered again behind the counter, is not represented.  In the batch
  of \<open>Subagents\<close> the semaphore, the write gate and the session budget are guards of the transitions,
  for any sequence of gated and free calls the siblings may make.
\<close>

end
